(* ===== verification/NemuPrelude.thy ===== *)
theory NemuPrelude
  imports Main "HOL-Library.Word" "HOL-Library.Char_ord"
begin

text \<open>
  Shared vocabulary of the development: the machine integer types of the C sources, the
  values that stand for an abort of the host process, the two combinators every stateful
  operation is written with, byte memories with little endian access, and the lemma
  collections the component theories feed.
\<close>

unbundle bit_operations_syntax

section \<open>Machine integers\<close>

type_synonym u8 = "8 word"
type_synonym u16 = "16 word"
type_synonym u32 = "32 word"
type_synonym u64 = "64 word"

section \<open>Aborts as values\<close>

text \<open>
  \<open>Panic\<close> is \<open>panic()\<close> or a failing \<open>Assert()\<close>, \<open>AssertFail\<close> a failing \<open>assert()\<close>, and
  \<open>Undef\<close> an operation the C standard leaves undefined (a host access outside the array it
  is made in, a division by zero, a shift by the width or more). Each carries a tag that
  names the place.
\<close>

datatype cerr = Panic string | AssertFail string | Undef string

type_synonym 'a res = "cerr + 'a"

definition bindR :: "'a res \<Rightarrow> ('a \<Rightarrow> 'b res) \<Rightarrow> 'b res" where
  "bindR m f = (case m of Inl e \<Rightarrow> Inl e | Inr v \<Rightarrow> f v)"

definition guardR :: "bool \<Rightarrow> cerr \<Rightarrow> 'a res \<Rightarrow> 'a res" where
  "guardR c e r = (if c then r else Inl e)"

fun forR :: "('i \<Rightarrow> 's \<Rightarrow> 's res) \<Rightarrow> 'i list \<Rightarrow> 's \<Rightarrow> 's res" where
  "forR f [] s = Inr s"
| "forR f (i # is) s = bindR (f i s) (forR f is)"

named_theorems res_elims \<open>what a successful run says about its parts\<close>
named_theorems model_defs \<open>definitions unfolded when a run is followed step by step\<close>
named_theorems frame \<open>fields an operation leaves alone\<close>

lemma bindR_Inr [simp]: "bindR (Inr v) f = f v"
  by (simp add: bindR_def)

lemma bindR_Inl [simp]: "bindR (Inl e) f = Inl e"
  by (simp add: bindR_def)

lemma bindR_eq_Inr [res_elims]: "bindR m f = Inr r \<longleftrightarrow> (\<exists>v. m = Inr v \<and> f v = Inr r)"
  by (cases m) auto

lemma bindR_eq_Inl: "bindR m f = Inl e \<longleftrightarrow> m = Inl e \<or> (\<exists>v. m = Inr v \<and> f v = Inl e)"
  by (cases m) auto

lemma bindR_assoc: "bindR (bindR m f) g = bindR m (\<lambda>x. bindR (f x) g)"
  by (cases m) simp_all

lemma bindR_cong: "m = m' \<Longrightarrow> (\<And>x. m' = Inr x \<Longrightarrow> f x = f' x) \<Longrightarrow> bindR m f = bindR m' f'"
  by (cases m') simp_all

lemma guardR_True [simp]: "c \<Longrightarrow> guardR c e r = r"
  by (simp add: guardR_def)

lemma guardR_False [simp]: "\<not> c \<Longrightarrow> guardR c e r = Inl e"
  by (simp add: guardR_def)

lemma guardR_eq_Inr [res_elims]: "guardR c e r = Inr v \<longleftrightarrow> c \<and> r = Inr v"
  by (auto simp: guardR_def)

lemma guardR_cong [cong]: "c = c' \<Longrightarrow> (c' \<Longrightarrow> r = r') \<Longrightarrow> guardR c e r = guardR c' e r'"
  by (auto simp: guardR_def)

lemma forR_append: "forR f (xs @ ys) s = bindR (forR f xs s) (forR f ys)"
proof (induction xs arbitrary: s)
  case (Cons x xs)
  then show ?case by (cases "f x s") auto
qed simp

lemma forR_invariant:
  assumes "forR f xs s = Inr t" and "P s"
    and "\<And>x s t. x \<in> set xs \<Longrightarrow> P s \<Longrightarrow> f x s = Inr t \<Longrightarrow> P t"
  shows "P t"
  using assms
proof (induction xs arbitrary: s)
  case (Cons x xs)
  then show ?case by (auto simp: res_elims)
qed simp

lemma forR_total:
  assumes "\<And>x s. x \<in> set xs \<Longrightarrow> f x s = Inr (g x s)"
  shows "forR f xs s = Inr (fold g xs s)"
  using assms by (induction xs arbitrary: s) auto

section \<open>Byte memories\<close>

text \<open>
  A host array of bytes is a function from the offset in the array; the accesses that use it
  check the offset against the length of the array. The host is little endian.
\<close>

type_synonym bytemem = "nat \<Rightarrow> u8"

fun load_bytes :: "bytemem \<Rightarrow> nat \<Rightarrow> nat \<Rightarrow> u8 list" where
  "load_bytes m a 0 = []"
| "load_bytes m a (Suc n) = m a # load_bytes m (Suc a) n"

fun store_bytes :: "bytemem \<Rightarrow> nat \<Rightarrow> u8 list \<Rightarrow> bytemem" where
  "store_bytes m a [] = m"
| "store_bytes m a (b # bs) = store_bytes (m(a := b)) (Suc a) bs"

fun le_word :: "u8 list \<Rightarrow> 'a::len word" where
  "le_word [] = 0"
| "le_word (b # bs) = (ucast b OR push_bit 8 (le_word bs))"

fun le_bytes :: "nat \<Rightarrow> 'a::len word \<Rightarrow> u8 list" where
  "le_bytes 0 w = []"
| "le_bytes (Suc n) w = ucast w # le_bytes n (drop_bit 8 w)"

lemma length_load_bytes [simp]: "length (load_bytes m a n) = n"
  by (induction m a n rule: load_bytes.induct) auto

lemma length_le_bytes [simp]: "length (le_bytes n w) = n"
  by (induction n w rule: le_bytes.induct) auto

lemma load_bytes_nth: "i < n \<Longrightarrow> load_bytes m a n ! i = m (a + i)"
  by (induction m a n arbitrary: i rule: load_bytes.induct) (auto simp: nth_Cons split: nat.splits)

lemma store_bytes_apply:
  "store_bytes m a bs x = (if a \<le> x \<and> x < a + length bs then bs ! (x - a) else m x)"
proof (induction bs arbitrary: m a)
  case (Cons b bs)
  then show ?case by (auto simp: nth_Cons not_le less_Suc_eq split: nat.splits)
     (metis Suc_diff_le diff_Suc_Suc nat.inject)+
qed auto

lemma store_bytes_other: "x < a \<or> a + length bs \<le> x \<Longrightarrow> store_bytes m a bs x = m x"
  by (auto simp: store_bytes_apply)

lemma load_store_same: "n = length bs \<Longrightarrow> load_bytes (store_bytes m a bs) a n = bs"
  by (rule nth_equalityI) (auto simp: load_bytes_nth store_bytes_apply)

lemma load_store_disjoint:
  "a + n \<le> b \<or> b + length bs \<le> a \<Longrightarrow> load_bytes (store_bytes m b bs) a n = load_bytes m a n"
  by (rule nth_equalityI) (auto simp: load_bytes_nth store_bytes_apply)

lemma le_word_le_bytes: "le_word (le_bytes n w) = take_bit (8 * n) (w :: 'a::len word)"
proof (induction n arbitrary: w)
  case (Suc n)
  show ?case
  proof (rule bit_word_eqI)
    fix k assume "k < LENGTH('a)"
    then show "bit (le_word (le_bytes (Suc n) w) :: 'a word) k \<longleftrightarrow> bit (take_bit (8 * Suc n) w) k"
      using Suc by (auto simp: bit_simps)
  qed
qed simp

lemma le_bytes_le_word:
  "8 * length bs \<le> LENGTH('a) \<Longrightarrow> le_bytes (length bs) (le_word bs :: 'a::len word) = bs"
proof (induction bs)
  case (Cons b bs)
  have head: "(ucast (ucast b OR push_bit 8 (le_word bs) :: 'a word) :: u8) = b"
    using Cons.prems by (intro bit_word_eqI) (auto simp: bit_simps)
  have tail: "drop_bit 8 (ucast b OR push_bit 8 (le_word bs) :: 'a word)
      = take_bit (LENGTH('a) - 8) (le_word bs)"
    by (rule bit_word_eqI) (auto simp: bit_simps dest: bit_imp_le_length)
  have "take_bit (LENGTH('a) - 8) (le_word bs :: 'a word) = le_word bs"
  proof (rule bit_word_eqI)
    fix k
    have "bit (le_word cs :: 'a word) j \<Longrightarrow> j < 8 * length cs" for cs j
    proof (induction cs arbitrary: j)
      case (Cons c cs)
      then show ?case by (force simp: bit_simps dest: bit_imp_le_length)
    qed simp
    then show "bit (take_bit (LENGTH('a) - 8) (le_word bs :: 'a word)) k \<longleftrightarrow> bit (le_word bs :: 'a word) k"
      using Cons.prems by (force simp: bit_simps)
  qed
  with head tail Cons show ?case by simp
qed simp

section \<open>memcpy between host arrays\<close>

text \<open>
  A copy of \<open>bs\<close> into the array \<open>xs\<close> at \<open>off\<close>, and of \<open>n\<close> bytes out of it; leaving the array
  is undefined behaviour.
\<close>

definition mem_put :: "'a list \<Rightarrow> nat \<Rightarrow> 'a list \<Rightarrow> 'a list res" where
  "mem_put xs off bs =
     guardR (off + length bs \<le> length xs) (Undef ''memcpy: write outside the array'')
       (Inr (take off xs @ bs @ drop (off + length bs) xs))"

definition mem_get :: "'a list \<Rightarrow> nat \<Rightarrow> nat \<Rightarrow> 'a list res" where
  "mem_get xs off n =
     guardR (off + n \<le> length xs) (Undef ''memcpy: read outside the array'')
       (Inr (take n (drop off xs)))"

lemma mem_put_ok [simp]:
  "off + length bs \<le> length xs \<Longrightarrow> mem_put xs off bs = Inr (take off xs @ bs @ drop (off + length bs) xs)"
  by (simp add: mem_put_def)

lemma mem_get_ok [simp]: "off + n \<le> length xs \<Longrightarrow> mem_get xs off n = Inr (take n (drop off xs))"
  by (simp add: mem_get_def)

lemma mem_put_length: "mem_put xs off bs = Inr ys \<Longrightarrow> length ys = length xs"
  by (auto simp: mem_put_def res_elims)

section \<open>Circular arrays\<close>

text \<open>\<open>circ xs s n\<close> reads \<open>n\<close> cells of the circular array \<open>xs\<close> from position \<open>s\<close>.\<close>

definition circ :: "'a list \<Rightarrow> nat \<Rightarrow> nat \<Rightarrow> 'a list" where
  "circ xs s n = map (\<lambda>i. xs ! ((s + i) mod length xs)) [0..<n]"

lemma length_circ [simp]: "length (circ xs s n) = n"
  by (simp add: circ_def)

lemma circ_nth: "i < n \<Longrightarrow> circ xs s n ! i = xs ! ((s + i) mod length xs)"
  by (simp add: circ_def)

lemma circ_mod [simp]: "circ xs (s mod length xs) n = circ xs s n"
  by (simp add: circ_def mod_add_left_eq)

lemma circ_cong: "s mod length xs = t mod length xs \<Longrightarrow> circ xs s n = circ xs t n"
  by (metis circ_mod)

lemma circ_append: "circ xs s (n + m) = circ xs s n @ circ xs (s + n) m"
  by (rule nth_equalityI) (auto simp: circ_nth nth_append add.assoc)

lemma circ_take: "take k (circ xs s n) = circ xs s (min k n)"
  by (rule nth_equalityI) (auto simp: circ_nth)

lemma circ_drop: "k \<le> n \<Longrightarrow> drop k (circ xs s n) = circ xs (s + k) (n - k)"
  by (rule nth_equalityI) (auto simp: circ_nth add.assoc)

lemma circ_index:
  assumes "j < length xs"
  shows "(s + j) mod length xs =
    (if s mod length xs + j < length xs then s mod length xs + j
     else s mod length xs + j - length xs)"
proof -
  have "s mod length xs < length xs" using assms by (intro mod_less_divisor) auto
  then have "s mod length xs + j < 2 * length xs" using assms by simp
  moreover have "(s + j) mod length xs = (s mod length xs + j) mod length xs"
    by (simp add: mod_add_left_eq)
  ultimately show ?thesis
    by (auto simp: le_mod_geq not_less)
qed

lemma circ_read:
  assumes "n \<le> length xs" and "off = s mod length xs" and "l = min n (length xs - off)"
  shows "take l (drop off xs) @ take (n - l) xs = circ xs s n"
proof (cases "xs = []")
  case False
  then have "off < length xs" using assms(2) by simp
  then show ?thesis
    using assms by (intro nth_equalityI) (auto simp: nth_append circ_nth circ_index, simp add: add.commute)
qed (use assms in \<open>simp add: circ_def\<close>)

definition circ_put :: "'a list \<Rightarrow> nat \<Rightarrow> 'a list \<Rightarrow> 'a list" where
  "circ_put xs s bs =
     (let off = s mod length xs; l = min (length bs) (length xs - off);
          ys = take off xs @ take l bs @ drop (off + l) xs
      in drop l bs @ drop (length bs - l) ys)"

lemma circ_put_nth:
  assumes "length bs \<le> length xs" and "j < length xs"
  shows "circ_put xs s bs ! ((s + j) mod length xs)
    = (if j < length bs then bs ! j else xs ! ((s + j) mod length xs))"
proof -
  define off where "off = s mod length xs"
  have off: "off < length xs" using assms unfolding off_def by (intro mod_less_divisor) auto
  have put: "circ_put xs s bs = (let l = min (length bs) (length xs - off);
          ys = take off xs @ take l bs @ drop (off + l) xs
      in drop l bs @ drop (length bs - l) ys)"
    by (simp only: circ_put_def off_def Let_def)
  have idx: "(s + j) mod length xs = (if off + j < length xs then off + j else off + j - length xs)"
    using circ_index[OF assms(2)] by (simp add: off_def)
  show ?thesis
  proof (cases "length bs \<le> length xs - off")
    case True
    then show ?thesis
      using off assms by (cases "off + j < length xs") (auto simp: put idx Let_def nth_append)
  next
    case False
    then have l: "min (length bs) (length xs - off) = length xs - off" by simp
    show ?thesis
      using False off assms by (cases "off + j < length xs") (auto simp: put idx l Let_def nth_append)
  qed
qed

lemma length_circ_put [simp]:
  assumes "length bs \<le> length xs" shows "length (circ_put xs s bs) = length xs"
proof (cases "xs = []")
  case False
  then have "s mod length xs < length xs" by simp
  with assms show ?thesis by (auto simp: circ_put_def Let_def min_def)
qed (use assms in \<open>simp add: circ_put_def\<close>)

lemma circ_circ_put:
  assumes "n + length bs \<le> length xs"
  shows "circ (circ_put xs (s + n) bs) s (n + length bs) = circ xs s n @ bs"
proof (rule nth_equalityI)
  show "length (circ (circ_put xs (s + n) bs) s (n + length bs)) = length (circ xs s n @ bs)"
    by simp
  fix i assume "i < length (circ (circ_put xs (s + n) bs) s (n + length bs))"
  then have i: "i < n + length bs" by simp
  show "circ (circ_put xs (s + n) bs) s (n + length bs) ! i = (circ xs s n @ bs) ! i"
  proof (cases "i < n")
    case True
    define j where "j = length xs - n + i"
    have j: "j < length xs" "\<not> j < length bs" using True assms by (auto simp: j_def)
    have "(s + n + j) mod length xs = (s + i + length xs) mod length xs"
      using True assms by (auto simp: j_def algebra_simps)
    also have "\<dots> = (s + i) mod length xs" by simp
    finally show ?thesis
      using circ_put_nth[of bs xs j "s + n"] j True assms i by (simp add: circ_nth nth_append)
  next
    case False
    then have lt: "i - n < length bs" "i - n < length xs" and eq: "s + i = s + n + (i - n)"
      using i assms by linarith+
    have "circ (circ_put xs (s + n) bs) s (n + length bs) ! i
        = circ_put xs (s + n) bs ! ((s + n + (i - n)) mod length xs)"
      unfolding circ_nth[OF i] eq using assms by simp
    also have "\<dots> = bs ! (i - n)"
      using circ_put_nth[of bs xs "i - n" "s + n"] lt assms by (simp only: if_True)
    finally show ?thesis using False by (simp add: nth_append)
  qed
qed

section \<open>Lists updated by index\<close>

lemma nth_list_update_if: "i < length xs \<Longrightarrow> xs[i := v] ! j = (if i = j then v else xs ! j)"
  by simp

definition bool_u32 :: "bool \<Rightarrow> u32" where
  "bool_u32 b = (if b then 1 else 0)"

lemma bool_u32_simps [simp]: "bool_u32 True = 1" "bool_u32 False = 0"
  by (simp_all add: bool_u32_def)

lemma bool_u32_eq_0 [simp]: "bool_u32 b = 0 \<longleftrightarrow> \<not> b"
  by (simp add: bool_u32_def)

end
