(* ===== verification/IoState.thy ===== *)
theory IoState
  imports NemuPrelude
begin

text \<open>
  The state behind NEMU's memory and devices: the file-level variables of
  \<open>nemu/src/memory\<close>, \<open>nemu/src/device\<close>, \<open>nemu/src/utils\<close> and \<open>nemu/src/cpu/difftest/dut.c\<close>,
  with the accesses of \<open>include/memory/host.h\<close> checked against the host array they are made in.
  Pointers into \<open>io_space\<close> are offsets from its start. What comes from outside (the host
  clock, the SDL events and key numbers, the disk image) is a field that nothing defines.
\<close>

section \<open>Configuration\<close>

text \<open>The Kconfig switches; addresses and sizes are the defaults of the Kconfig files.\<close>

record conf =
  cfg_device :: bool
  cfg_difftest :: bool
  has_port_io :: bool
  has_serial :: bool
  has_timer :: bool
  has_vga :: bool
  has_keyboard :: bool
  has_audio :: bool
  has_disk :: bool
  has_sdcard :: bool

abbreviation (input) CONFIG_MBASE :: u32 where "CONFIG_MBASE \<equiv> 0x80000000"
abbreviation (input) CONFIG_MSIZE :: nat where "CONFIG_MSIZE \<equiv> 0x8000000"
abbreviation (input) IO_SPACE_MAX :: nat where "IO_SPACE_MAX \<equiv> 2 * 1024 * 1024"
abbreviation (input) CONFIG_SB_SIZE :: nat where "CONFIG_SB_SIZE \<equiv> 0x10000"
abbreviation (input) TIMER_HZ :: u64 where "TIMER_HZ \<equiv> 60"

section \<open>Device state\<close>

datatype io_callback = CbNone | CbSerial | CbRtc | CbI8042 | CbAudio | CbSdcard

record iomap =
  im_name :: string
  im_low :: u32
  im_high :: u32
  im_space :: nat
  im_callback :: io_callback

datatype nemu_run = NEMU_RUNNING | NEMU_STOP | NEMU_END | NEMU_ABORT | NEMU_QUIT

record nemustate =
  st_state :: nemu_run
  halt_pc :: u32
  halt_ret :: u32

text \<open>\<open>int\<close> variables that only hold indices are \<open>nat\<close>; \<open>front\<close> and \<open>tail\<close> can go negative.\<close>

record keyboard =
  keymap :: "u8 \<Rightarrow> u32"
  key_queue :: "u32 list"
  key_f :: nat
  key_r :: nat
  i8042_base :: nat

record audio_spec =
  as_freq :: int
  as_channels :: u8
  as_samples :: u16
  as_size :: u32

record audio =
  audio_base :: nat
  sbuf :: nat
  au_spec :: audio_spec
  au_front :: int
  au_tail :: int
  au_opened :: "audio_spec list"
  au_heard :: "u8 list list"
  sdl_audio_ok :: bool

record sdcard =
  sd_base :: nat
  sd_fp :: "(u8 list \<times> nat) option"
  sd_blkcnt :: u32
  sd_blk_addr :: int
  sd_addr :: u32
  sd_write_cmd :: bool
  sd_read_ext_csd :: bool

datatype sdl_event = EvQuit | EvKey u8 bool | EvOther

datatype alarm_handler = TimerIntr

record host_clock =
  clk_read :: "nat \<Rightarrow> u64"
  clk_ticks :: nat
  boot_time :: u64

record bus =
  conf :: conf
  pmem :: bytemem
  io_space :: bytemem
  p_space :: nat
  mmio_maps :: "iomap list"
  pio_maps :: "iomap list"
  nemu_state :: nemustate
  clk :: host_clock
  serial_base :: nat
  serial_out :: "u8 list"
  rtc_base :: nat
  vgactl_base :: nat
  vmem :: nat
  shown :: "u8 list list"
  kbd :: keyboard
  aud :: audio
  sd :: sdcard
  sdl_events :: "sdl_event list"
  dev_last :: u64
  handlers :: "alarm_handler list"
  is_skip_ref :: bool
  skip_dut_nr_inst :: int

text \<open>
  The static state of the program: the initial values of these variables, over a memory image
  and a host clock.
\<close>

definition static_kbd :: keyboard where
  "static_kbd = \<lparr>keymap = (\<lambda>_. 0), key_queue = replicate 1024 0, key_f = 0, key_r = 0, i8042_base = 0\<rparr>"

definition static_audio :: audio where
  "static_audio = \<lparr>audio_base = 0, sbuf = 0,
     au_spec = \<lparr>as_freq = 0, as_channels = 0, as_samples = 0, as_size = 0\<rparr>,
     au_front = 0, au_tail = 0, au_opened = [], au_heard = [], sdl_audio_ok = True\<rparr>"

definition static_sdcard :: sdcard where
  "static_sdcard = \<lparr>sd_base = 0, sd_fp = None, sd_blkcnt = 0, sd_blk_addr = 0, sd_addr = 0,
     sd_write_cmd = False, sd_read_ext_csd = False\<rparr>"

definition static_bus :: "conf \<Rightarrow> bytemem \<Rightarrow> (nat \<Rightarrow> u64) \<Rightarrow> bus" where
  "static_bus c mem rd = \<lparr>conf = c, pmem = mem, io_space = (\<lambda>_. 0), p_space = 0, mmio_maps = [], pio_maps = [],
     nemu_state = \<lparr>st_state = NEMU_STOP, halt_pc = 0, halt_ret = 0\<rparr>,
     clk = \<lparr>clk_read = rd, clk_ticks = 0, boot_time = 0\<rparr>,
     serial_base = 0, serial_out = [], rtc_base = 0, vgactl_base = 0, vmem = 0, shown = [],
     kbd = static_kbd, aud = static_audio, sd = static_sdcard, sdl_events = [], dev_last = 0, handlers = [],
     is_skip_ref = False, skip_dut_nr_inst = 0\<rparr>"

text \<open>The default configuration with every device.\<close>

definition full_conf :: conf where
  "full_conf = \<lparr>cfg_device = True, cfg_difftest = False, has_port_io = False, has_serial = True, has_timer = True,
     has_vga = True, has_keyboard = True, has_audio = True, has_disk = True, has_sdcard = True\<rparr>"

section \<open>Host accesses\<close>

text \<open>
  \<open>host_read(p, len)\<close> and \<open>host_write(p, len, data)\<close> where \<open>p\<close> points \<open>off\<close> bytes into the
  array \<open>m\<close> of \<open>size\<close> bytes. With CONFIG_RT_CHECK a length other than 1, 2 and 4 is an
  assertion failure.
\<close>

definition host_read :: "nat \<Rightarrow> bytemem \<Rightarrow> int \<Rightarrow> nat \<Rightarrow> u32 res" where
  "host_read sz m off len =
     guardR (len = 1 \<or> len = 2 \<or> len = 4) (AssertFail ''host_read'')
       (guardR (0 \<le> off \<and> off + int len \<le> int sz) (Undef ''host_read outside the array'')
         (Inr (le_word (load_bytes m (nat off) len))))"

definition host_write :: "nat \<Rightarrow> bytemem \<Rightarrow> int \<Rightarrow> nat \<Rightarrow> u32 \<Rightarrow> bytemem res" where
  "host_write sz m off len data =
     guardR (len = 1 \<or> len = 2 \<or> len = 4) (AssertFail ''host_write'')
       (guardR (0 \<le> off \<and> off + int len \<le> int sz) (Undef ''host_write outside the array'')
         (Inr (store_bytes m (nat off) (le_bytes len data))))"

text \<open>
  The registers of a device: \<open>base[i]\<close> for a \<open>uint32_t *base\<close> into \<open>io_space\<close>. The base is one that
  \<open>new_space\<close> has returned and \<open>i\<close> a register it has made room for, so the place is inside \<open>io_space\<close>
  (\<open>new_space_inside\<close>).
\<close>

definition reg_get :: "nat \<Rightarrow> nat \<Rightarrow> bus \<Rightarrow> u32" where
  "reg_get base i b = le_word (load_bytes (io_space b) (base + 4 * i) 4)"

definition reg_set :: "nat \<Rightarrow> nat \<Rightarrow> u32 \<Rightarrow> bus \<Rightarrow> bus" where
  "reg_set base i v b = b\<lparr>io_space := store_bytes (io_space b) (base + 4 * i) (le_bytes 4 v)\<rparr>"

lemma take_bit_32_u32 [simp]: "take_bit 32 (v :: u32) = v"
  by (rule take_bit_word_eq_self) simp

lemma le_word_4 [simp]: "le_word (le_bytes 4 (v :: u32)) = v"
  by (simp add: le_word_le_bytes)

lemma reg_get_set [simp]: "reg_get base i (reg_set base i v b) = v"
  by (simp add: reg_get_def reg_set_def load_store_same)

lemma reg_get_set_other [simp]:
  "i \<noteq> j \<Longrightarrow> reg_get base i (reg_set base j v b) = reg_get base i b"
proof -
  assume "i \<noteq> j"
  then have "base + 4 * i + 4 \<le> base + 4 * j \<or> base + 4 * j + 4 \<le> base + 4 * i" by linarith
  then show ?thesis by (simp add: reg_get_def reg_set_def load_store_disjoint)
qed

text \<open>
  What a read returns after a write of the same length at the same place, and of a place that
  does not overlap.
\<close>

lemma host_write_Inr:
  "host_write sz m off len data = Inr m' \<longleftrightarrow>
     (len = 1 \<or> len = 2 \<or> len = 4) \<and> 0 \<le> off \<and> off + int len \<le> int sz \<and>
     m' = store_bytes m (nat off) (le_bytes len data)"
  by (auto simp: host_write_def res_elims)

lemma host_read_write_same:
  assumes "host_write sz m off len data = Inr m'"
  shows "host_read sz m' off len = Inr (take_bit (8 * len) data)"
  using assms unfolding host_write_Inr host_read_def
  by (simp add: load_store_same le_word_le_bytes del: store_bytes.simps load_bytes.simps le_bytes.simps)

lemma host_read_write_disjoint:
  assumes "host_write sz m off len data = Inr m'"
    and "off' + int len' \<le> off \<or> off + int len \<le> off'"
  shows "host_read sz m' off' len' = host_read sz m off' len'"
proof (cases "0 \<le> off'")
  case True
  then have "nat off' + len' \<le> nat off \<or> nat off + length (le_bytes len data) \<le> nat off'"
    using assms by (auto simp: host_write_Inr)
  then show ?thesis
    using assms(1) unfolding host_write_Inr host_read_def by (simp only: load_store_disjoint)
qed (simp add: host_read_def)

lemma host_write_frame:
  "host_write sz m off len data = Inr m' \<Longrightarrow> int x < off \<or> off + int len \<le> int x \<Longrightarrow> m' x = m x"
  unfolding host_write_Inr by (elim conjE, hypsubst, rule store_bytes_other) (simp only: length_le_bytes, linarith)

section \<open>Time\<close>

definition get_time_internal :: "bus \<Rightarrow> u64 \<times> bus" where
  "get_time_internal b = (clk_read (clk b) (clk_ticks (clk b)),
     b\<lparr>clk := (clk b)\<lparr>clk_ticks := clk_ticks (clk b) + 1\<rparr>\<rparr>)"

definition get_time :: "bus \<Rightarrow> u64 \<times> bus" where
  "get_time b =
     (let b1 = (if boot_time (clk b) = 0
                then (case get_time_internal b of (t, b') \<Rightarrow> b'\<lparr>clk := (clk b')\<lparr>boot_time := t\<rparr>\<rparr>)
                else b)
      in (case get_time_internal b1 of (now, b2) \<Rightarrow> (now - boot_time (clk b2), b2)))"

lemma get_time_frame: "\<exists>c. snd (get_time b) = b\<lparr>clk := c\<rparr>"
  by (auto simp: get_time_def get_time_internal_def Let_def)

section \<open>Differential testing flags\<close>

definition difftest_skip_ref :: "bus \<Rightarrow> bus" where
  "difftest_skip_ref b = (if cfg_difftest (conf b) then b\<lparr>is_skip_ref := True, skip_dut_nr_inst := 0\<rparr> else b)"

section \<open>Run state\<close>

definition set_nemu_state :: "nemu_run \<Rightarrow> u32 \<Rightarrow> u32 \<Rightarrow> bus \<Rightarrow> bus" where
  "set_nemu_state s pc ret b =
     (difftest_skip_ref b)\<lparr>nemu_state := \<lparr>st_state = s, halt_pc = pc, halt_ret = ret\<rparr>\<rparr>"

definition is_exit_status_bad :: "bus \<Rightarrow> bool" where
  "is_exit_status_bad b \<longleftrightarrow>
     \<not> ((st_state (nemu_state b) = NEMU_END \<and> halt_ret (nemu_state b) = 0) \<or>
        st_state (nemu_state b) = NEMU_QUIT)"

end
