(* ===== verification/FifoSpec.thy ===== *)
theory FifoSpec
  imports NemuPrelude
begin

text \<open>
  The contract of a bounded first-in first-out queue that moves blocks of elements, as a
  locale: what the trace ring buffer of the CPU loop and the key queue of the keyboard device
  both promise. The lemmas that use only the contract (a run of pushes and pops keeps the
  order, a sliding window keeps the last elements) are proved once here and reach the two
  implementations through their interpretations.
\<close>

text \<open>The last \<open>n\<close> elements of a list.\<close>

definition last_n :: "nat \<Rightarrow> 'b list \<Rightarrow> 'b list" where
  "last_n n xs = drop (length xs - n) xs"

lemma last_n_map: "last_n n (map f xs) = map f (last_n n xs)"
  by (simp add: last_n_def drop_map)

datatype 'a fifo_op = Push "'a list" | Pop nat

locale bulk_fifo =
  fixes push :: "'a list \<Rightarrow> 'q \<Rightarrow> 'q res"
    and pop :: "nat \<Rightarrow> 'q \<Rightarrow> ('a list \<times> 'q) res"
    and contents :: "'q \<Rightarrow> 'a list"
    and room :: "'q \<Rightarrow> nat"
    and invar :: "'q \<Rightarrow> bool"
  assumes push: "invar q \<Longrightarrow> length xs \<le> room q \<Longrightarrow>
      \<exists>q'. push xs q = Inr q' \<and> invar q' \<and> contents q' = contents q @ xs \<and>
           room q' = room q - length xs"
    and pop: "invar q \<Longrightarrow> n \<le> length (contents q) \<Longrightarrow>
      \<exists>q'. pop n q = Inr (take n (contents q), q') \<and> invar q' \<and> contents q' = drop n (contents q) \<and>
           room q' = room q + n"
begin

lemma pushE:
  assumes "invar q" and "length xs \<le> room q"
  obtains q' where "push xs q = Inr q'" and "invar q'" and "contents q' = contents q @ xs"
    and "room q' = room q - length xs"
  using push[OF assms] by blast

lemma popE:
  assumes "invar q" and "n \<le> length (contents q)"
  obtains q' where "pop n q = Inr (take n (contents q), q')" and "invar q'"
    and "contents q' = drop n (contents q)" and "room q' = room q + n"
  using pop[OF assms] by blast

text \<open>A run of operations, with everything popped so far.\<close>

fun run :: "'a fifo_op list \<Rightarrow> 'a list \<times> 'q \<Rightarrow> ('a list \<times> 'q) res" where
  "run [] s = Inr s"
| "run (Push xs # ops) (out, q) = bindR (push xs q) (\<lambda>q'. run ops (out, q'))"
| "run (Pop n # ops) (out, q) = bindR (pop n q) (\<lambda>(ys, q'). run ops (out @ ys, q'))"

fun pushed :: "'a fifo_op list \<Rightarrow> 'a list" where
  "pushed [] = []"
| "pushed (Push xs # ops) = xs @ pushed ops"
| "pushed (Pop n # ops) = pushed ops"

text \<open>A run is admissible when every push finds room and every pop finds its elements.\<close>

fun admissible :: "'a fifo_op list \<Rightarrow> nat \<Rightarrow> nat \<Rightarrow> bool" where
  "admissible [] used free \<longleftrightarrow> True"
| "admissible (Push xs # ops) used free \<longleftrightarrow>
     length xs \<le> free \<and> admissible ops (used + length xs) (free - length xs)"
| "admissible (Pop n # ops) used free \<longleftrightarrow> n \<le> used \<and> admissible ops (used - n) (free + n)"

lemma run_fifo_order:
  assumes "invar q" and "admissible ops (length (contents q)) (room q)"
  shows "\<exists>out' q'. run ops (out, q) = Inr (out', q') \<and> invar q' \<and>
      out' @ contents q' = out @ contents q @ pushed ops"
  using assms
proof (induction ops arbitrary: q out)
  case (Cons x ops)
  show ?case
  proof (cases x)
    case (Push xs)
    with Cons.prems obtain q' where q': "push xs q = Inr q'" "invar q'"
      "contents q' = contents q @ xs" "room q' = room q - length xs"
      by (auto elim: pushE)
    with Cons.prems Push Cons.IH[of q' out] show ?thesis by simp
  next
    case (Pop n)
    with Cons.prems obtain q' where q': "pop n q = Inr (take n (contents q), q')" "invar q'"
      "contents q' = drop n (contents q)" "room q' = room q + n"
      by (auto elim: popE)
    with Cons.prems Pop Cons.IH[of q' "out @ take n (contents q)"] show ?thesis by auto
  qed
qed simp

text \<open>
  A sliding window over blocks of one size: when the queue is full a block is popped first.
\<close>

definition slide :: "'a list \<Rightarrow> 'q \<Rightarrow> 'q res" where
  "slide xs q =
     (if room q < length xs then bindR (pop (length xs) q) (\<lambda>(_, q'). push xs q') else push xs q)"

lemma slide_step:
  assumes "invar q" and "length xs \<le> length (contents q) + room q"
    and "room q < length xs \<Longrightarrow> length xs \<le> length (contents q)"
  shows "\<exists>q'. slide xs q = Inr q' \<and> invar q' \<and>
      length (contents q') + room q' = length (contents q) + room q \<and>
      contents q' = (if room q < length xs then drop (length xs) (contents q) else contents q) @ xs"
proof (cases "room q < length xs")
  case True
  then obtain q1 where q1: "pop (length xs) q = Inr (take (length xs) (contents q), q1)" "invar q1"
    "contents q1 = drop (length xs) (contents q)" "room q1 = room q + length xs"
    using assms by (auto elim: popE)
  moreover obtain q2 where "push xs q1 = Inr q2" "invar q2" "contents q2 = contents q1 @ xs"
    "room q2 = room q1 - length xs"
    using q1 by (auto elim: pushE[of q1 xs])
  ultimately show ?thesis using True assms(3) by (simp add: slide_def)
next
  case False
  then obtain q1 where "push xs q = Inr q1" "invar q1" "contents q1 = contents q @ xs"
    "room q1 = room q - length xs"
    using assms by (auto elim: pushE[of q xs])
  with False show ?thesis by (simp add: slide_def)
qed

text \<open>
  After a run of blocks of size \<open>k\<close>, a queue whose capacity is a multiple of \<open>k\<close> holds the
  last blocks that fit.
\<close>

lemma slide_run:
  assumes "invar q" and "length (contents q) + room q = c * k" and "0 < c" and "0 < k"
    and "contents q = concat blocks0" and "\<forall>b \<in> set (blocks0 @ blocks). length b = k"
    and "length blocks0 \<le> c"
  shows "\<exists>q'. forR slide blocks q = Inr q' \<and> invar q' \<and>
      length (contents q') + room q' = c * k \<and>
      contents q' = concat (last_n c (blocks0 @ blocks))"
  using assms
proof (induction blocks arbitrary: q blocks0)
  case Nil
  then show ?case by (auto simp: last_n_def)
next
  case (Cons b blocks)
  have sz: "length (contents q) = length blocks0 * k"
    using Cons.prems(5,6) by (auto simp: length_concat sum_list_triv cong: map_cong)
  have room: "room q < length b \<longleftrightarrow> length blocks0 = c"
  proof -
    have "room q = (c - length blocks0) * k"
      using Cons.prems(2) sz by (simp add: diff_mult_distrib)
    then show ?thesis using Cons.prems(4,6,7) by (cases "c - length blocks0") auto
  qed
  define blocks1 where "blocks1 = (if length blocks0 = c then tl blocks0 else blocks0) @ [b]"
  have "length b \<le> length (contents q) + room q"
    using Cons.prems by simp
  moreover have "room q < length b \<Longrightarrow> length b \<le> length (contents q)"
    using room sz Cons.prems by simp
  ultimately obtain q1 where q1: "slide b q = Inr q1" "invar q1"
    "length (contents q1) + room q1 = c * k"
    "contents q1 = (if room q < length b then drop (length b) (contents q) else contents q) @ b"
    using slide_step[OF Cons.prems(1), of b] Cons.prems(2) by auto
  have c1: "contents q1 = concat blocks1"
  proof (cases "length blocks0 = c")
    case True
    then obtain d ds where "blocks0 = d # ds" using Cons.prems(3) by (cases blocks0) auto
    then show ?thesis
      using q1(4) room True Cons.prems(5,6) by (simp add: blocks1_def)
  qed (use q1(4) room Cons.prems(5) in \<open>simp add: blocks1_def\<close>)
  have "\<forall>x \<in> set (blocks1 @ blocks). length x = k" and "length blocks1 \<le> c"
    using Cons.prems(3,6,7) by (cases blocks0; auto simp: blocks1_def)+
  then obtain q' where "forR slide blocks q1 = Inr q'" "invar q'"
    "length (contents q') + room q' = c * k" "contents q' = concat (last_n c (blocks1 @ blocks))"
    using Cons.IH[OF q1(2,3) Cons.prems(3,4) c1] by blast
  moreover have "last_n c (blocks1 @ blocks) = last_n c (blocks0 @ b # blocks)"
  proof (cases "length blocks0 = c")
    case True
    then obtain d ds where "blocks0 = d # ds" using Cons.prems(3) by (cases blocks0) auto
    then show ?thesis using True by (auto simp: last_n_def blocks1_def)
  qed (simp add: blocks1_def)
  ultimately show ?case using q1(1) by simp
qed

end

end
