(* ===== verification/Devices.thy ===== *)
theory Devices
  imports IoState FifoSpec
begin

text \<open>
  The devices of \<open>nemu/src/device\<close>: serial port, real time clock, keyboard controller, audio
  controller, SD card, screen, the alarm handlers and \<open>device_update\<close>.
\<close>

section \<open>Serial port\<close>

definition serial_putc :: "u8 \<Rightarrow> bus \<Rightarrow> bus" where
  "serial_putc ch b = b\<lparr>serial_out := serial_out b @ [ch]\<rparr>"

definition serial_io_handler :: "u32 \<Rightarrow> nat \<Rightarrow> bool \<Rightarrow> bus \<Rightarrow> bus res" where
  "serial_io_handler offset len is_write b =
     guardR (len = 1) (AssertFail ''serial: len'')
       (if offset = 0 then
          (if is_write then Inr (serial_putc (io_space b (serial_base b)) b)
           else Inl (Panic ''do not support read''))
        else Inl (Panic ''do not support offset''))"

section \<open>Real time clock\<close>

definition rtc_io_handler :: "u32 \<Rightarrow> nat \<Rightarrow> bool \<Rightarrow> bus \<Rightarrow> bus res" where
  "rtc_io_handler offset len is_write b =
     guardR (offset = 0 \<or> offset = 4) (AssertFail ''rtc: offset'')
       (if \<not> is_write \<and> offset = 0 then
          (case get_time b of (us, b1) \<Rightarrow>
             Inr (reg_set (rtc_base b1) 1 (ucast (drop_bit 32 us))
                   (reg_set (rtc_base b1) 0 (ucast us) b1)))
        else Inr b)"

definition dev_raise_intr :: "bus \<Rightarrow> bus" where
  "dev_raise_intr b = b"

definition timer_intr :: "bus \<Rightarrow> bus" where
  "timer_intr b = (if st_state (nemu_state b) = NEMU_RUNNING then dev_raise_intr b else b)"

section \<open>Alarm\<close>

definition add_alarm_handle :: "alarm_handler \<Rightarrow> bus \<Rightarrow> bus res" where
  "add_alarm_handle h b =
     guardR (length (handlers b) < 8) (AssertFail ''too many alarm handlers'')
       (Inr (b\<lparr>handlers := handlers b @ [h]\<rparr>))"

fun call_handler :: "alarm_handler \<Rightarrow> bus \<Rightarrow> bus" where
  "call_handler TimerIntr b = timer_intr b"

definition alarm_sig_handler :: "bus \<Rightarrow> bus" where
  "alarm_sig_handler b = fold call_handler (handlers b) b"

section \<open>Keyboard\<close>

abbreviation (input) KEYDOWN_MASK :: u32 where "KEYDOWN_MASK \<equiv> 0x8000"
abbreviation (input) KEY_QUEUE_LEN :: nat where "KEY_QUEUE_LEN \<equiv> 1024"

definition KEYS :: "string list" where
  "KEYS = [''ESCAPE'', ''F1'', ''F2'', ''F3'', ''F4'', ''F5'', ''F6'', ''F7'', ''F8'', ''F9'', ''F10'', ''F11'', ''F12'',
    ''GRAVE'', ''1'', ''2'', ''3'', ''4'', ''5'', ''6'', ''7'', ''8'', ''9'', ''0'', ''MINUS'', ''EQUALS'', ''BACKSPACE'',
    ''TAB'', ''Q'', ''W'', ''E'', ''R'', ''T'', ''Y'', ''U'', ''I'', ''O'', ''P'', ''LEFTBRACKET'', ''RIGHTBRACKET'', ''BACKSLASH'',
    ''CAPSLOCK'', ''A'', ''S'', ''D'', ''F'', ''G'', ''H'', ''J'', ''K'', ''L'', ''SEMICOLON'', ''APOSTROPHE'', ''RETURN'',
    ''LSHIFT'', ''Z'', ''X'', ''C'', ''V'', ''B'', ''N'', ''M'', ''COMMA'', ''PERIOD'', ''SLASH'', ''RSHIFT'',
    ''LCTRL'', ''APPLICATION'', ''LALT'', ''SPACE'', ''RALT'', ''RCTRL'',
    ''UP'', ''DOWN'', ''LEFT'', ''RIGHT'', ''INSERT'', ''DELETE'', ''HOME'', ''END'', ''PAGEUP'', ''PAGEDOWN'']"

text \<open>\<open>sdl k\<close> is the constant SDL_SCANCODE_k; the enumerator \<open>_KEY_k\<close> counts from 1.\<close>

definition init_keymap :: "(string \<Rightarrow> u8) \<Rightarrow> keyboard \<Rightarrow> keyboard" where
  "init_keymap sdl k =
     k\<lparr>keymap := fold (\<lambda>(name, i) f. f(sdl name := of_nat i)) (zip KEYS [1..<length KEYS + 1]) (keymap k)\<rparr>"

definition key_enqueue :: "u32 \<Rightarrow> keyboard \<Rightarrow> keyboard res" where
  "key_enqueue am_scancode k =
     guardR (key_r k < length (key_queue k)) (Undef ''key_queue: write outside the array'')
       (let k1 = k\<lparr>key_queue := (key_queue k)[key_r k := am_scancode]\<rparr>;
            k2 = k1\<lparr>key_r := (key_r k1 + 1) mod KEY_QUEUE_LEN\<rparr>
        in guardR (key_r k2 \<noteq> key_f k2) (Panic ''key queue overflow!'') (Inr k2))"

definition key_dequeue :: "keyboard \<Rightarrow> (u32 \<times> keyboard) res" where
  "key_dequeue k =
     (if key_f k \<noteq> key_r k then
        guardR (key_f k < length (key_queue k)) (Undef ''key_queue: read outside the array'')
          (Inr (key_queue k ! key_f k, k\<lparr>key_f := (key_f k + 1) mod KEY_QUEUE_LEN\<rparr>))
      else Inr (0, k))"

definition send_key :: "u8 \<Rightarrow> bool \<Rightarrow> bus \<Rightarrow> bus res" where
  "send_key scancode is_keydown b =
     (if st_state (nemu_state b) = NEMU_RUNNING \<and> keymap (kbd b) scancode \<noteq> 0 then
        (let am_scancode = keymap (kbd b) scancode OR (if is_keydown then KEYDOWN_MASK else 0)
         in bindR (key_enqueue am_scancode (kbd b)) (\<lambda>k. Inr (b\<lparr>kbd := k\<rparr>)))
      else Inr b)"

definition i8042_data_io_handler :: "u32 \<Rightarrow> nat \<Rightarrow> bool \<Rightarrow> bus \<Rightarrow> bus res" where
  "i8042_data_io_handler offset len is_write b =
     guardR (\<not> is_write) (AssertFail ''i8042: write'')
       (guardR (offset = 0) (AssertFail ''i8042: offset'')
         (bindR (key_dequeue (kbd b)) (\<lambda>(key, k).
            Inr (reg_set (i8042_base k) 0 key (b\<lparr>kbd := k\<rparr>)))))"

section \<open>Audio\<close>

text \<open>
  \<open>work\<close> opens the device with the specification set so far; the result of
  \<open>SDL_InitSubSystem\<close> is the field \<open>sdl_audio_ok\<close>.
\<close>

definition audio_work :: "u32 \<Rightarrow> bus \<Rightarrow> bus" where
  "audio_work x b =
     (if x = 0 then b
      else let b1 = reg_set (audio_base (aud b)) 4 0 b
           in if sdl_audio_ok (aud b1)
              then b1\<lparr>aud := (aud b1)\<lparr>au_opened := au_opened (aud b1) @ [au_spec (aud b1)]\<rparr>\<rparr>
              else b1)"

definition get_the_status :: "bus \<Rightarrow> u32" where
  "get_the_status b = reg_get (audio_base (aud b)) 4 b"

definition audio_io_handler :: "u32 \<Rightarrow> nat \<Rightarrow> bool \<Rightarrow> bus \<Rightarrow> bus res" where
  "audio_io_handler offset len is_write b =
     (let base = audio_base (aud b);
          set_spec = (\<lambda>f. b\<lparr>aud := (aud b)\<lparr>au_spec := f (au_spec (aud b))\<rparr>\<rparr>)
      in if offset = 0x00 then
           guardR is_write (AssertFail ''audio: freq is write only'')
             (Inr (set_spec (as_freq_update (\<lambda>_. sint (reg_get base 0 b)))))
         else if offset = 0x04 then
           guardR is_write (AssertFail ''audio: channels is write only'')
             (Inr (set_spec (as_channels_update (\<lambda>_. ucast (reg_get base 1 b)))))
         else if offset = 0x08 then
           guardR is_write (AssertFail ''audio: samples is write only'')
             (Inr (set_spec (as_samples_update (\<lambda>_. ucast (reg_get base 2 b)))))
         else if offset = 0x0c then
           guardR (\<not> is_write) (AssertFail ''audio: sbuf size is read only'')
             (guardR (reg_get base 3 b = of_nat CONFIG_SB_SIZE) (AssertFail ''audio: sbuf size'') (Inr b))
         else if offset = 0x14 then
           (let b1 = (if is_write then b\<lparr>aud := (aud b)\<lparr>au_tail := sint (reg_get base 5 b)\<rparr>\<rparr>
                      else reg_set base 5 (word_of_int (au_tail (aud b))) b)
            in guardR (au_tail (aud b1) \<le> int CONFIG_SB_SIZE) (AssertFail ''audio: count'') (Inr b1))
         else if offset = 0x10 then
           guardR is_write (AssertFail ''audio: init is write only'')
             (Inr (audio_work (reg_get base 4 b) b))
         else Inl (AssertFail ''audio: offset''))"

text \<open>
  The callback SDL makes to fill a stream of \<open>len\<close> bytes; \<open>memcpy\<close> and \<open>memset\<close> take a
  \<open>size_t\<close>, so a negative count is an access far outside the buffers.
\<close>

definition audio_callback :: "nat \<Rightarrow> bus \<Rightarrow> (u8 list \<times> bus) res" where
  "audio_callback len b =
     (let a = aud b;
          nread = (if au_tail a - au_front a < int len then au_tail a - au_front a else int len)
      in guardR (0 \<le> nread \<and> 0 \<le> int (sbuf a) + au_front a \<and>
                 int (sbuf a) + au_front a + nread \<le> int IO_SPACE_MAX) (Undef ''audio: memcpy'')
           (let stream = load_bytes (io_space b) (nat (int (sbuf a) + au_front a)) (nat nread) @
                         replicate (nat (int len - nread)) 0;
                a1 = a\<lparr>au_front := au_front a + nread\<rparr>;
                a2 = (if au_front a1 = au_tail a1 then a1\<lparr>au_front := 0, au_tail := 0\<rparr> else a1)
            in Inr (stream, b\<lparr>aud := a2\<rparr>)))"

section \<open>SD card\<close>

abbreviation (input) SDCMD :: nat where "SDCMD \<equiv> 0"
abbreviation (input) SDARG :: nat where "SDARG \<equiv> 1"
abbreviation (input) SDRSP0 :: nat where "SDRSP0 \<equiv> 4"
abbreviation (input) SDRSP1 :: nat where "SDRSP1 \<equiv> 5"
abbreviation (input) SDRSP2 :: nat where "SDRSP2 \<equiv> 6"
abbreviation (input) SDRSP3 :: nat where "SDRSP3 \<equiv> 7"
abbreviation (input) SDDATA :: nat where "SDDATA \<equiv> 16"

definition MEMORY_SIZE :: u64 where "MEMORY_SIZE = 16 * 1024 * 1024 * 1024"
definition READ_BL_LEN :: u64 where "READ_BL_LEN = 15"
definition NR_BLOCK :: u64 where "NR_BLOCK = MEMORY_SIZE div push_bit 15 1"
definition C_SIZE :: u64 where "C_SIZE = NR_BLOCK div push_bit 9 1 - 1"

text \<open>\<open>fseek\<close>, \<open>fread\<close> and \<open>fwrite\<close> of 4 bytes on the image: the bytes and the position.\<close>

definition file_read4 :: "u8 list \<times> nat \<Rightarrow> u8 list \<times> (u8 list \<times> nat)" where
  "file_read4 fp = (case fp of (bytes, pos) \<Rightarrow>
     (take 4 (drop pos bytes), bytes, pos + length (take 4 (drop pos bytes))))"

definition file_write4 :: "u8 list \<Rightarrow> u8 list \<times> nat \<Rightarrow> u8 list \<times> nat" where
  "file_write4 data fp = (case fp of (bytes, pos) \<Rightarrow>
     (take pos (bytes @ replicate (pos - length bytes) 0) @ data @ drop (pos + length data) bytes,
      pos + length data))"

definition sd_prepare_rw :: "bool \<Rightarrow> bus \<Rightarrow> bus" where
  "sd_prepare_rw is_write b =
     (let blk = uint (reg_get (sd_base (sd b)) SDARG b);
          s1 = (sd b)\<lparr>sd_blk_addr := blk, sd_addr := 0\<rparr>;
          s2 = (case sd_fp s1 of None \<Rightarrow> s1
                | Some (bytes, pos) \<Rightarrow> s1\<lparr>sd_fp := Some (bytes, nat (blk * 2 ^ 9))\<rparr>)
      in b\<lparr>sd := s2\<lparr>sd_write_cmd := is_write\<rparr>\<rparr>)"

definition sdcard_handle_cmd :: "u32 \<Rightarrow> bus \<Rightarrow> bus res" where
  "sdcard_handle_cmd cmd b =
     (let base = sd_base (sd b)
      in if cmd = 0 then Inr b
         else if cmd = 1 then Inr (reg_set base SDRSP0 0x80ff8000 b)
         else if cmd = 2 then
           Inr (reg_set base SDRSP3 0x15000000 (reg_set base SDRSP2 0
                 (reg_set base SDRSP1 0 (reg_set base SDRSP0 1 b))))
         else if cmd = 52 then Inr b
         else if cmd = 9 then
           Inr (reg_set base SDRSP3 0x9026012a
                 (reg_set base SDRSP2 (ucast (0x0f508000 OR drop_bit 2 C_SIZE OR push_bit 16 READ_BL_LEN))
                   (reg_set base SDRSP1 (ucast (0x124b97e3 OR push_bit 30 (C_SIZE AND 3)))
                     (reg_set base SDRSP0 0x92404001 b))))
         else if cmd = 8 then Inr (b\<lparr>sd := (sd b)\<lparr>sd_read_ext_csd := True, sd_addr := 0\<rparr>\<rparr>)
         else if cmd = 5 \<or> cmd = 55 \<or> cmd = 3 \<or> cmd = 7 then Inr b
         else if cmd = 23 then Inr (b\<lparr>sd := (sd b)\<lparr>sd_blkcnt := reg_get base SDARG b AND 0xffff\<rparr>\<rparr>)
         else if cmd = 18 then Inr (sd_prepare_rw False b)
         else if cmd = 25 then Inr (sd_prepare_rw True b)
         else if cmd = 13 then
           Inr (reg_set base SDRSP1 0 (reg_set base SDRSP2 0 (reg_set base SDRSP3 0
                 (reg_set base SDRSP0 0x900 b))))
         else if cmd = 12 then Inr b
         else Inl (Panic ''unhandled command''))"

definition sd_data :: "bus \<Rightarrow> bus" where
  "sd_data b =
     (let base = sd_base (sd b); s = sd b;
          b1 = (if sd_read_ext_csd s then
                  (let data = (if sd_addr s = 192 then 2
                               else if sd_addr s = 212 then ucast (MEMORY_SIZE div 512) else 0);
                       b0 = reg_set base SDDATA data b
                   in if sd_addr s = 512 - 4 then b0\<lparr>sd := (sd b0)\<lparr>sd_read_ext_csd := False\<rparr>\<rparr> else b0)
                else case sd_fp s of
                    None \<Rightarrow> b
                  | Some fp \<Rightarrow>
                      if \<not> sd_write_cmd s then
                        (case file_read4 fp of (got, fp') \<Rightarrow>
                           b\<lparr>io_space := store_bytes (io_space b) (base + 4 * SDDATA) got,
                             sd := (sd b)\<lparr>sd_fp := Some fp'\<rparr>\<rparr>)
                      else b\<lparr>sd := (sd b)\<lparr>sd_fp :=
                             Some (file_write4 (load_bytes (io_space b) (base + 4 * SDDATA) 4) fp)\<rparr>\<rparr>)
      in b1\<lparr>sd := (sd b1)\<lparr>sd_addr := sd_addr (sd b1) + 4\<rparr>\<rparr>)"

definition sdcard_io_handler :: "u32 \<Rightarrow> nat \<Rightarrow> bool \<Rightarrow> bus \<Rightarrow> bus res" where
  "sdcard_io_handler offset len is_write b =
     (let idx = unat offset div 4
      in if idx = SDCMD then sdcard_handle_cmd (reg_get (sd_base (sd b)) SDCMD b AND 0x3f) b
         else if idx = SDARG \<or> idx = SDRSP0 \<or> idx = SDRSP1 \<or> idx = SDRSP2 \<or> idx = SDRSP3 then Inr b
         else if idx = SDDATA then Inr (sd_data b)
         else Inl (Panic ''sdcard: unhandle offset''))"

section \<open>Screen\<close>

abbreviation (input) screen_width :: u32 where "screen_width \<equiv> 400"
abbreviation (input) screen_height :: u32 where "screen_height \<equiv> 300"

definition screen_size :: u32 where
  "screen_size = screen_width * screen_height * 4"

text \<open>
  \<open>update_screen\<close> hands the frame buffer to SDL: the frames handed over are kept. \<open>vmem\<close> is where
  \<open>new_space\<close> has made room for \<open>screen_size\<close> bytes, so the frame is inside \<open>io_space\<close>
  (\<open>new_space_inside\<close>).
\<close>

definition update_screen :: "bus \<Rightarrow> bus" where
  "update_screen b = b\<lparr>shown := shown b @ [load_bytes (io_space b) (vmem b) (unat screen_size)]\<rparr>"

definition vga_update_screen :: "bus \<Rightarrow> bus" where
  "vga_update_screen b =
     (if reg_get (vgactl_base b) 1 b \<noteq> 0 then reg_set (vgactl_base b) 1 0 (update_screen b) else b)"

section \<open>Polling\<close>

definition handle_event :: "sdl_event \<Rightarrow> bus \<Rightarrow> bus res" where
  "handle_event ev b =
     (case ev of
        EvQuit \<Rightarrow> Inr (b\<lparr>nemu_state := (nemu_state b)\<lparr>st_state := NEMU_QUIT\<rparr>\<rparr>)
      | EvKey k down \<Rightarrow> if has_keyboard (conf b) then send_key k down b else Inr b
      | EvOther \<Rightarrow> Inr b)"

text \<open>The loop takes the events that are queued one by one, first in first out.\<close>

definition device_update :: "bus \<Rightarrow> bus res" where
  "device_update b0 =
     (case get_time b0 of (now, b) \<Rightarrow>
        if now - dev_last b < 1000000 div TIMER_HZ then Inr b
        else let b1 = b\<lparr>dev_last := now\<rparr>;
                 b2 = (if has_vga (conf b1) then vga_update_screen b1 else b1)
             in forR handle_event (sdl_events b2) (b2\<lparr>sdl_events := []\<rparr>))"

definition sdl_clear_event_queue :: "bus \<Rightarrow> bus" where
  "sdl_clear_event_queue b = b\<lparr>sdl_events := []\<rparr>"

end
