(* ===== verification/IoMap.thy ===== *)
theory IoMap
  imports Devices
begin

text \<open>
  Address spaces: the allocation of device space and the memory mapped and port mapped regions
  (\<open>nemu/src/device/io\<close>, \<open>include/device/map.h\<close>), the physical and virtual memory functions
  (\<open>nemu/src/memory\<close>), and the initialisation of the devices, which registers the regions.
\<close>

section \<open>Regions\<close>

definition new_space :: "u32 \<Rightarrow> bus \<Rightarrow> (nat \<times> bus) res" where
  "new_space sz b =
     (let p = p_space b;
          sz' = (ucast sz + (4096 - 1) :: u64) AND NOT (4096 - 1);
          b1 = b\<lparr>p_space := p_space b + unat sz'\<rparr>
      in guardR (p_space b1 < IO_SPACE_MAX) (AssertFail ''new_space'') (Inr (p, b1)))"

text \<open>A device's registers and buffers lie inside \<open>io_space\<close>, so accesses to them need no check.\<close>

lemma new_space_inside:
  assumes "new_space sz b = Inr (p, b')"
  shows "p + unat sz < IO_SPACE_MAX"
proof -
  let ?x = "ucast sz + 4095 :: u64" and ?m = "4095 :: u64"
  have m: "?m = mask 12" by (simp add: mask_eq_exp_minus_1)
  have "unat ?x = unat sz + 4095"
    using unsigned_less[of sz, where ?'a = nat] by (subst unat_add_lem[THEN iffD1]) (simp_all add: unsigned_ucast_eq take_bit_nat_eq_self)
  moreover have "?x = (?x AND NOT ?m) + (?x AND ?m)"
    by (subst disjunctive_add) (auto simp: bit_simps intro: bit_word_eqI)
  then have "unat ?x \<le> unat (?x AND NOT ?m) + unat (?x AND ?m)"
    by (metis unat_word_ariths(1) mod_less_eq_dividend)
  moreover have "unat (?x AND ?m) \<le> 4095" using word_and_le1[of ?x ?m] by (simp add: word_le_nat_alt)
  ultimately have "unat sz \<le> unat (?x AND NOT ?m)" by linarith
  then show ?thesis using assms by (auto simp: new_space_def Let_def res_elims)
qed
definition map_inside :: "iomap \<Rightarrow> u32 \<Rightarrow> bool" where
  "map_inside m addr \<longleftrightarrow> im_low m \<le> addr \<and> addr \<le> im_high m"

fun find_map :: "iomap list \<Rightarrow> u32 \<Rightarrow> iomap option" where
  "find_map [] addr = None"
| "find_map (m # ms) addr = (if map_inside m addr then Some m else find_map ms addr)"

text \<open>A hit tells the reference to skip the instruction.\<close>

definition find_mapid_by_addr :: "iomap list \<Rightarrow> u32 \<Rightarrow> bus \<Rightarrow> iomap option \<times> bus" where
  "find_mapid_by_addr maps addr b =
     (case find_map maps addr of None \<Rightarrow> (None, b) | Some m \<Rightarrow> (Some m, difftest_skip_ref b))"

definition check_bound :: "iomap option \<Rightarrow> u32 \<Rightarrow> iomap res" where
  "check_bound mo addr =
     (case mo of
        None \<Rightarrow> Inl (Panic ''address is out of bound'')
      | Some m \<Rightarrow> guardR (addr \<le> im_high m \<and> addr \<ge> im_low m) (Panic ''address is out of bound of the map'') (Inr m))"

fun invoke_callback :: "io_callback \<Rightarrow> u32 \<Rightarrow> nat \<Rightarrow> bool \<Rightarrow> bus \<Rightarrow> bus res" where
  "invoke_callback CbNone offset len is_write b = Inr b"
| "invoke_callback CbSerial offset len is_write b = serial_io_handler offset len is_write b"
| "invoke_callback CbRtc offset len is_write b = rtc_io_handler offset len is_write b"
| "invoke_callback CbI8042 offset len is_write b = i8042_data_io_handler offset len is_write b"
| "invoke_callback CbAudio offset len is_write b = audio_io_handler offset len is_write b"
| "invoke_callback CbSdcard offset len is_write b = sdcard_io_handler offset len is_write b"

definition init_map :: "bus \<Rightarrow> bus" where
  "init_map b = b\<lparr>p_space := 0\<rparr>"

definition map_read :: "u32 \<Rightarrow> nat \<Rightarrow> iomap option \<Rightarrow> bus \<Rightarrow> (u32 \<times> bus) res" where
  "map_read addr len mo b =
     guardR (1 \<le> len \<and> len \<le> 8) (AssertFail ''map_read: len'')
       (bindR (check_bound mo addr) (\<lambda>m.
          let offset = addr - im_low m
          in bindR (invoke_callback (im_callback m) offset len False b) (\<lambda>b1.
             bindR (host_read IO_SPACE_MAX (io_space b1) (int (im_space m) + uint offset) len) (\<lambda>ret.
               Inr (ret, b1)))))"

definition map_write :: "u32 \<Rightarrow> nat \<Rightarrow> u32 \<Rightarrow> iomap option \<Rightarrow> bus \<Rightarrow> bus res" where
  "map_write addr len data mo b =
     guardR (1 \<le> len \<and> len \<le> 8) (AssertFail ''map_write: len'')
       (bindR (check_bound mo addr) (\<lambda>m.
          let offset = addr - im_low m
          in bindR (host_write IO_SPACE_MAX (io_space b) (int (im_space m) + uint offset) len data) (\<lambda>io.
               invoke_callback (im_callback m) offset len True (b\<lparr>io_space := io\<rparr>))))"

section \<open>Memory mapped I/O\<close>

definition in_pmem :: "u32 \<Rightarrow> bool" where
  "in_pmem addr \<longleftrightarrow> addr - CONFIG_MBASE < of_nat CONFIG_MSIZE"

definition fetch_mmio_map :: "u32 \<Rightarrow> bus \<Rightarrow> iomap option \<times> bus" where
  "fetch_mmio_map addr b = find_mapid_by_addr (mmio_maps b) addr b"

definition add_mmio_map :: "string \<Rightarrow> u32 \<Rightarrow> nat \<Rightarrow> u32 \<Rightarrow> io_callback \<Rightarrow> bus \<Rightarrow> bus res" where
  "add_mmio_map name addr space len callback b =
     guardR (length (mmio_maps b) < 16) (AssertFail ''nr_map < NR_MAP'')
       (let left = addr; right = addr + len - 1
        in guardR (\<not> (in_pmem left \<or> in_pmem right)) (Panic ''MMIO region is overlapped with pmem'')
          (guardR (\<forall>m \<in> set (mmio_maps b). \<not> (left \<le> im_high m \<and> right \<ge> im_low m))
             (Panic ''MMIO region is overlapped'')
             (Inr (b\<lparr>mmio_maps := mmio_maps b @
                [\<lparr>im_name = name, im_low = addr, im_high = addr + len - 1, im_space = space,
                  im_callback = callback\<rparr>]\<rparr>))))"

definition mmio_read :: "u32 \<Rightarrow> nat \<Rightarrow> bus \<Rightarrow> (u32 \<times> bus) res" where
  "mmio_read addr len b = (case fetch_mmio_map addr b of (mo, b1) \<Rightarrow> map_read addr len mo b1)"

definition mmio_write :: "u32 \<Rightarrow> nat \<Rightarrow> u32 \<Rightarrow> bus \<Rightarrow> bus res" where
  "mmio_write addr len data b = (case fetch_mmio_map addr b of (mo, b1) \<Rightarrow> map_write addr len data mo b1)"

section \<open>Port mapped I/O\<close>

abbreviation (input) PORT_IO_SPACE_MAX :: nat where "PORT_IO_SPACE_MAX \<equiv> 65535"

definition add_pio_map :: "string \<Rightarrow> u16 \<Rightarrow> nat \<Rightarrow> u32 \<Rightarrow> io_callback \<Rightarrow> bus \<Rightarrow> bus res" where
  "add_pio_map name addr space len callback b =
     guardR (length (pio_maps b) < 16) (AssertFail ''nr_map < NR_MAP'')
       (guardR (ucast addr + len \<le> of_nat PORT_IO_SPACE_MAX) (AssertFail ''port space'')
         (Inr (b\<lparr>pio_maps := pio_maps b @
            [\<lparr>im_name = name, im_low = ucast addr, im_high = ucast addr + len - 1, im_space = space,
              im_callback = callback\<rparr>]\<rparr>)))"

definition pio_read :: "u16 \<Rightarrow> nat \<Rightarrow> bus \<Rightarrow> (u32 \<times> bus) res" where
  "pio_read addr len b =
     guardR (uint addr + int len - 1 < int PORT_IO_SPACE_MAX) (AssertFail ''pio_read: port'')
       (case find_mapid_by_addr (pio_maps b) (ucast addr) b of (mo, b1) \<Rightarrow>
          guardR (mo \<noteq> None) (AssertFail ''pio_read: mapid'') (map_read (ucast addr) len mo b1))"

definition pio_write :: "u16 \<Rightarrow> nat \<Rightarrow> u32 \<Rightarrow> bus \<Rightarrow> bus res" where
  "pio_write addr len data b =
     guardR (uint addr + int len - 1 < int PORT_IO_SPACE_MAX) (AssertFail ''pio_write: port'')
       (case find_mapid_by_addr (pio_maps b) (ucast addr) b of (mo, b1) \<Rightarrow>
          guardR (mo \<noteq> None) (AssertFail ''pio_write: mapid'') (map_write (ucast addr) len data mo b1))"

section \<open>Physical and virtual memory\<close>

text \<open>\<open>guest_to_host\<close> is the offset of the host pointer from the start of pmem.\<close>

definition guest_to_host :: "u32 \<Rightarrow> int" where
  "guest_to_host paddr = uint paddr - uint CONFIG_MBASE"

definition host_to_guest :: "int \<Rightarrow> u32" where
  "host_to_guest haddr = word_of_int haddr + CONFIG_MBASE"

definition pmem_read :: "u32 \<Rightarrow> nat \<Rightarrow> bus \<Rightarrow> u32 res" where
  "pmem_read addr len b = host_read CONFIG_MSIZE (pmem b) (guest_to_host addr) len"

definition pmem_write :: "u32 \<Rightarrow> nat \<Rightarrow> u32 \<Rightarrow> bus \<Rightarrow> bus res" where
  "pmem_write addr len data b =
     bindR (host_write CONFIG_MSIZE (pmem b) (guest_to_host addr) len data) (\<lambda>m. Inr (b\<lparr>pmem := m\<rparr>))"

definition out_of_bound :: "'a res" where
  "out_of_bound = Inl (Panic ''address is out of bound of pmem'')"

definition paddr_read :: "u32 \<Rightarrow> nat \<Rightarrow> bus \<Rightarrow> (u32 \<times> bus) res" where
  "paddr_read addr len b =
     (if in_pmem addr then bindR (pmem_read addr len b) (\<lambda>ret. Inr (ret, b))
      else if cfg_device (conf b) then mmio_read addr len b
      else out_of_bound)"

definition paddr_write :: "u32 \<Rightarrow> nat \<Rightarrow> u32 \<Rightarrow> bus \<Rightarrow> bus res" where
  "paddr_write addr len data b =
     (if in_pmem addr then pmem_write addr len data b
      else if cfg_device (conf b) then mmio_write addr len data b
      else out_of_bound)"

definition vaddr_ifetch :: "u32 \<Rightarrow> nat \<Rightarrow> bus \<Rightarrow> (u32 \<times> bus) res" where
  "vaddr_ifetch addr len b = paddr_read addr len b"

definition vaddr_read :: "u32 \<Rightarrow> nat \<Rightarrow> bus \<Rightarrow> (u32 \<times> bus) res" where
  "vaddr_read addr len b = paddr_read addr len b"

definition vaddr_write :: "u32 \<Rightarrow> nat \<Rightarrow> u32 \<Rightarrow> bus \<Rightarrow> bus res" where
  "vaddr_write addr len data b = paddr_write addr len data b"

section \<open>Initialisation of the devices\<close>

text \<open>
  With port I/O a device registers its port instead of its address; the port numbers and
  addresses are the defaults of \<open>nemu/src/device/Kconfig\<close>.
\<close>

definition add_map :: "string \<Rightarrow> u16 \<Rightarrow> u32 \<Rightarrow> nat \<Rightarrow> u32 \<Rightarrow> io_callback \<Rightarrow> bus \<Rightarrow> bus res" where
  "add_map name port addr space len callback b =
     (if has_port_io (conf b) then add_pio_map name port space len callback b
      else add_mmio_map name addr space len callback b)"

definition init_serial :: "bus \<Rightarrow> bus res" where
  "init_serial b =
     bindR (new_space 8 b) (\<lambda>(p, b1).
       add_map ''serial'' 0x3f8 0xa00003f8 p 8 CbSerial (b1\<lparr>serial_base := p\<rparr>))"

definition init_timer :: "bus \<Rightarrow> bus res" where
  "init_timer b =
     bindR (new_space 8 b) (\<lambda>(p, b1).
     bindR (add_map ''rtc'' 0x48 0xa0000048 p 8 CbRtc (b1\<lparr>rtc_base := p\<rparr>))
       (add_alarm_handle TimerIntr))"

definition init_vga :: "bus \<Rightarrow> bus res" where
  "init_vga b =
     bindR (new_space 8 b) (\<lambda>(p, b1).
     bindR (add_map ''vgactl'' 0x100 0xa0000100 p 8 CbNone
              (reg_set p 0 (push_bit 16 screen_width OR screen_height) (b1\<lparr>vgactl_base := p\<rparr>))) (\<lambda>b2.
     bindR (new_space screen_size b2) (\<lambda>(q, b3).
     bindR (add_mmio_map ''vmem'' 0xa1000000 q screen_size CbNone (b3\<lparr>vmem := q\<rparr>)) (\<lambda>b4.
       Inr (b4\<lparr>io_space := store_bytes (io_space b4) q (replicate (unat screen_size) 0)\<rparr>)))))"

definition init_i8042 :: "(string \<Rightarrow> u8) \<Rightarrow> bus \<Rightarrow> bus res" where
  "init_i8042 sdl b =
     bindR (new_space 4 b) (\<lambda>(p, b1).
     bindR (add_map ''keyboard'' 0x60 0xa0000060 p 4 CbI8042
              (reg_set p 0 0 (b1\<lparr>kbd := (kbd b1)\<lparr>i8042_base := p\<rparr>\<rparr>))) (\<lambda>b2.
       Inr (b2\<lparr>kbd := init_keymap sdl (kbd b2)\<rparr>)))"

definition init_audio :: "bus \<Rightarrow> bus res" where
  "init_audio b =
     bindR (new_space (4 * 6) b) (\<lambda>(p, b1).
     bindR (add_map ''audio'' 0x200 0xa0000200 p (4 * 6) CbAudio (b1\<lparr>aud := (aud b1)\<lparr>audio_base := p\<rparr>\<rparr>)) (\<lambda>b2.
     bindR (new_space (of_nat CONFIG_SB_SIZE) b2) (\<lambda>(q, b3).
     bindR (add_mmio_map ''audio-sbuf'' 0xa1200000 q (of_nat CONFIG_SB_SIZE) CbNone (b3\<lparr>aud := (aud b3)\<lparr>sbuf := q\<rparr>\<rparr>)) (\<lambda>b4.
       let b5 = reg_set p 3 (of_nat CONFIG_SB_SIZE) b4
       in Inr (b5\<lparr>aud := (aud b5)\<lparr>au_spec := (au_spec (aud b5))\<lparr>as_size := of_nat CONFIG_SB_SIZE\<rparr>\<rparr>\<rparr>)))))"

definition init_disk :: "bus \<Rightarrow> bus res" where
  "init_disk b = Inr b"

definition init_sdcard :: "u8 list option \<Rightarrow> bus \<Rightarrow> bus res" where
  "init_sdcard img b =
     bindR (new_space 0x80 b) (\<lambda>(p, b1).
     bindR (add_mmio_map ''sdhci'' 0xa3000000 p 0x80 CbSdcard (b1\<lparr>sd := (sd b1)\<lparr>sd_base := p\<rparr>\<rparr>)) (\<lambda>b2.
     guardR (C_SIZE < push_bit 12 1) (Panic ''shoule be fit in 12 bits'')
       (Inr (b2\<lparr>sd := (sd b2)\<lparr>sd_fp := map_option (\<lambda>bytes. (bytes, 0)) img\<rparr>\<rparr>))))"

definition whenR :: "bool \<Rightarrow> ('s \<Rightarrow> 's res) \<Rightarrow> 's \<Rightarrow> 's res" where
  "whenR c f s = (if c then f s else Inr s)"

definition init_device :: "(string \<Rightarrow> u8) \<Rightarrow> u8 list option \<Rightarrow> bus \<Rightarrow> bus res" where
  "init_device sdl img b =
     (let c = conf b
      in bindR (whenR (has_serial c) init_serial (init_map b))
        (\<lambda>b. bindR (whenR (has_timer c) init_timer b)
        (\<lambda>b. bindR (whenR (has_vga c) init_vga b)
        (\<lambda>b. bindR (whenR (has_keyboard c) (init_i8042 sdl) b)
        (\<lambda>b. bindR (whenR (has_audio c) init_audio b)
        (\<lambda>b. bindR (whenR (has_disk c) init_disk b)
        (\<lambda>b. whenR (has_sdcard c) (init_sdcard img) b)))))))"

end
