(* ===== verification/BusProps.thy ===== *)
theory BusProps
  imports IoMap
begin

text \<open>
  What the address space keeps: no operation of a device touches the memory, the regions or
  the allocation of device space; with the invariant \<open>bus_ok\<close> every device access stays inside
  the host arrays.
\<close>

section \<open>What a device operation leaves alone\<close>

definition bus_frame :: "bus \<Rightarrow> bus \<Rightarrow> bool" where
  "bus_frame b b' \<longleftrightarrow> pmem b' = pmem b \<and> conf b' = conf b \<and> p_space b' = p_space b \<and>
     mmio_maps b' = mmio_maps b \<and> pio_maps b' = pio_maps b \<and> nemu_state b' = nemu_state b \<and>
     handlers b' = handlers b"

lemma bus_frame_refl [simp, intro]: "bus_frame b b"
  by (simp add: bus_frame_def)

lemma bus_frame_trans [trans]: "bus_frame a b \<Longrightarrow> bus_frame b c \<Longrightarrow> bus_frame a c"
  by (simp add: bus_frame_def)

lemma bus_frame_reg_set [simp]: "bus_frame b (reg_set base i v b') \<longleftrightarrow> bus_frame b b'"
  by (simp add: bus_frame_def reg_set_def)

lemma kbd_reg_set [simp]: "kbd (reg_set base i v b) = kbd b"
  by (simp add: reg_set_def)

lemma bus_frame_simps [simp]:
  "bus_frame b (b'\<lparr>io_space := m\<rparr>) \<longleftrightarrow> bus_frame b b'"
  "bus_frame b (b'\<lparr>kbd := k\<rparr>) \<longleftrightarrow> bus_frame b b'"
  "bus_frame b (b'\<lparr>aud := a\<rparr>) \<longleftrightarrow> bus_frame b b'"
  "bus_frame b (b'\<lparr>sd := s\<rparr>) \<longleftrightarrow> bus_frame b b'"
  "bus_frame b (b'\<lparr>clk := c\<rparr>) \<longleftrightarrow> bus_frame b b'"
  "bus_frame b (b'\<lparr>serial_out := os\<rparr>) \<longleftrightarrow> bus_frame b b'"
  "bus_frame b (b'\<lparr>is_skip_ref := f\<rparr>) \<longleftrightarrow> bus_frame b b'"
  "bus_frame b (b'\<lparr>skip_dut_nr_inst := n\<rparr>) \<longleftrightarrow> bus_frame b b'"
  by (simp_all add: bus_frame_def)

lemma difftest_skip_ref_frame [simp, frame]: "bus_frame b (difftest_skip_ref b)"
  by (simp add: difftest_skip_ref_def)

lemma get_time_bus_frame [frame]: "get_time b = (t, b') \<Longrightarrow> bus_frame b b' \<and> kbd b' = kbd b"
  using get_time_frame[of b] by auto

definition kbd_ok :: "keyboard \<Rightarrow> bool" where
  "kbd_ok k \<longleftrightarrow> length (key_queue k) = KEY_QUEUE_LEN \<and> key_f k < KEY_QUEUE_LEN \<and> key_r k < KEY_QUEUE_LEN"

text \<open>No device operation is undefined behaviour while the key queue is well formed.\<close>

definition defined :: "'a res \<Rightarrow> bool" where
  "defined r \<longleftrightarrow> (\<forall>t. r \<noteq> Inl (Undef t))"

lemma defined_simps [simp]:
  "defined (Inr v)" "defined (Inl (Panic t))" "defined (Inl (AssertFail t))" "\<not> defined (Inl (Undef t))"
  by (auto simp: defined_def)

lemma defined_guardR [simp]:
  "defined (guardR c (Panic t) r) \<longleftrightarrow> (c \<longrightarrow> defined r)"
  "defined (guardR c (AssertFail t) r) \<longleftrightarrow> (c \<longrightarrow> defined r)"
  "defined (guardR c (Undef t) r) \<longleftrightarrow> c \<and> defined r"
  by (auto simp: guardR_def)

lemma defined_bindR: "defined m \<Longrightarrow> (\<And>v. m = Inr v \<Longrightarrow> defined (f v)) \<Longrightarrow> defined (bindR m f)"
  by (cases m) (auto simp: defined_def)

lemma key_dequeue_ok:
  assumes "kbd_ok k"
  shows "\<exists>key k'. key_dequeue k = Inr (key, k') \<and> kbd_ok k' \<and> i8042_base k' = i8042_base k"
  using assms by (auto simp: key_dequeue_def kbd_ok_def)

lemma serial_handler_frame [frame]:
  "serial_io_handler off len w b = Inr b' \<Longrightarrow> bus_frame b b' \<and> kbd b' = kbd b"
  by (auto simp: serial_io_handler_def serial_putc_def res_elims split: if_splits)

lemma rtc_handler_frame [frame]:
  "rtc_io_handler off len w b = Inr b' \<Longrightarrow> bus_frame b b' \<and> kbd b' = kbd b"
  by (auto simp: rtc_io_handler_def res_elims split: if_splits prod.splits dest: get_time_bus_frame)

lemma i8042_handler_frame [frame]:
  "i8042_data_io_handler off len w b = Inr b' \<Longrightarrow> kbd_ok (kbd b) \<Longrightarrow> bus_frame b b' \<and> kbd_ok (kbd b')"
  using key_dequeue_ok[of "kbd b"]
  by (auto simp: i8042_data_io_handler_def res_elims split: prod.splits)

lemma audio_handler_frame [frame]:
  "audio_io_handler off len w b = Inr b' \<Longrightarrow> bus_frame b b' \<and> kbd b' = kbd b"
  by (auto simp: audio_io_handler_def audio_work_def Let_def res_elims split: if_splits)

lemma sd_prepare_rw_frame [frame]: "bus_frame b (sd_prepare_rw w b) \<and> kbd (sd_prepare_rw w b) = kbd b"
  by (simp add: sd_prepare_rw_def Let_def)

lemma sdcard_cmd_frame [frame]:
  "sdcard_handle_cmd cmd b = Inr b' \<Longrightarrow> bus_frame b b' \<and> kbd b' = kbd b"
  by (auto simp: sdcard_handle_cmd_def Let_def sd_prepare_rw_frame split: if_splits)

lemma sd_data_frame [frame]: "bus_frame b (sd_data b) \<and> kbd (sd_data b) = kbd b"
  by (auto simp: sd_data_def Let_def split: option.splits prod.splits)

lemma sdcard_handler_frame [frame]:
  "sdcard_io_handler off len w b = Inr b' \<Longrightarrow> bus_frame b b' \<and> kbd b' = kbd b"
  by (auto simp: sdcard_io_handler_def Let_def sd_data_frame dest: sdcard_cmd_frame split: if_splits)

lemma invoke_callback_frame [frame]:
  assumes "invoke_callback cb off len w b = Inr b'" and "kbd_ok (kbd b)"
  shows "bus_frame b b' \<and> kbd_ok (kbd b')"
proof (cases cb)
  case CbI8042
  with assms i8042_handler_frame[of off len w b b'] show ?thesis by simp
qed (use assms serial_handler_frame[of off len w b b'] rtc_handler_frame[of off len w b b']
       audio_handler_frame[of off len w b b'] sdcard_handler_frame[of off len w b b'] in simp_all)

lemma sdcard_cmd_defined: "defined (sdcard_handle_cmd cmd b)"
  by (simp add: sdcard_handle_cmd_def Let_def)

lemma invoke_callback_defined:
  assumes "kbd_ok (kbd b)"
  shows "defined (invoke_callback cb off len w b)"
proof (cases cb)
  case CbRtc
  then show ?thesis by (simp add: rtc_io_handler_def split: prod.split)
next
  case CbI8042
  obtain key k' where "key_dequeue (kbd b) = Inr (key, k')" using key_dequeue_ok[OF assms] by blast
  with CbI8042 show ?thesis by (simp add: i8042_data_io_handler_def)
qed (auto simp: serial_io_handler_def audio_io_handler_def sdcard_io_handler_def sdcard_cmd_defined Let_def)

section \<open>The invariant of the address space\<close>

definition map_ok :: "nat \<Rightarrow> iomap \<Rightarrow> bool" where
  "map_ok lim m \<longleftrightarrow> im_low m \<le> im_high m \<and> im_space m + unat (im_high m - im_low m) < lim"

definition maps_disjoint :: "iomap list \<Rightarrow> bool" where
  "maps_disjoint ms \<longleftrightarrow>
     (\<forall>i < length ms. \<forall>j < length ms. i \<noteq> j \<longrightarrow> (\<forall>a. \<not> (map_inside (ms ! i) a \<and> map_inside (ms ! j) a)))"

definition bus_ok :: "bus \<Rightarrow> bool" where
  "bus_ok b \<longleftrightarrow> p_space b + 4 \<le> IO_SPACE_MAX \<and>
     (\<forall>m \<in> set (mmio_maps b) \<union> set (pio_maps b). map_ok (p_space b) m) \<and>
     (\<forall>m \<in> set (mmio_maps b). \<forall>a. map_inside m a \<longrightarrow> \<not> in_pmem a) \<and>
     maps_disjoint (mmio_maps b) \<and> kbd_ok (kbd b)"

lemma bus_ok_frame: "bus_ok b \<Longrightarrow> bus_frame b b' \<Longrightarrow> kbd_ok (kbd b') \<Longrightarrow> bus_ok b'"
  by (simp add: bus_ok_def bus_frame_def)

lemma find_map_Some: "find_map ms a = Some m \<Longrightarrow> m \<in> set ms \<and> map_inside m a"
  by (induction ms) (auto split: if_splits)

lemma find_map_None: "find_map ms a = None \<longleftrightarrow> (\<forall>m \<in> set ms. \<not> map_inside m a)"
  by (induction ms) auto

lemma map_offset:
  assumes "map_ok lim m" and "map_inside m a"
  shows "uint (a - im_low m) = uint a - uint (im_low m)"
    and "int (im_space m) + uint (a - im_low m) < int lim"
proof -
  have le: "im_low m \<le> a" "a \<le> im_high m" using assms(2) by (auto simp: map_inside_def)
  then have "a - im_low m \<le> im_high m - im_low m"
    by (simp add: word_le_nat_alt unat_sub)
  then have "unat (a - im_low m) \<le> unat (im_high m - im_low m)" by (simp add: word_le_nat_alt)
  then have "im_space m + unat (a - im_low m) < lim"
    using assms(1) unfolding map_ok_def by linarith
  then have "int (im_space m + unat (a - im_low m)) < int lim" by (simp only: of_nat_less_iff)
  then show "int (im_space m) + uint (a - im_low m) < int lim" by simp
  show "uint (a - im_low m) = uint a - uint (im_low m)"
    using le(1) uint_sub_lem[of "im_low m" a] unfolding word_le_def by (rule iffD1[rotated])
qed

lemma host_read_defined:
  "0 \<le> off \<Longrightarrow> off + 4 \<le> int sz \<Longrightarrow> defined (host_read sz m off len)"
  by (auto simp: host_read_def)

lemma host_write_defined:
  "0 \<le> off \<Longrightarrow> off + 4 \<le> int sz \<Longrightarrow> defined (host_write sz m off len data)"
  by (auto simp: host_write_def)

lemma map_read_ok:
  assumes ok: "bus_ok b" and mo: "\<And>m. mo = Some m \<Longrightarrow> map_ok (p_space b) m"
  shows "defined (map_read addr len mo b)"
    and "map_read addr len mo b = Inr (v, b') \<Longrightarrow> bus_frame b b' \<and> bus_ok b'"
proof -
  have k: "kbd_ok (kbd b)" and lim: "int (p_space b) + 4 \<le> int IO_SPACE_MAX" using ok by (auto simp: bus_ok_def)
  show "defined (map_read addr len mo b)"
    unfolding map_read_def check_bound_def Let_def
  proof (simp, intro impI defined_bindR)
    fix m assume "(case mo of None \<Rightarrow> Inl (Panic ''address is out of bound'')
         | Some m \<Rightarrow> guardR (addr \<le> im_high m \<and> im_low m \<le> addr)
              (Panic ''address is out of bound of the map'') (Inr m)) = Inr m"
    then have m: "mo = Some m" "map_inside m addr"
      by (auto simp: res_elims map_inside_def split: option.splits)
    show "defined (invoke_callback (im_callback m) (addr - im_low m) len False b)"
      by (rule invoke_callback_defined[OF k])
    show "defined (host_read 2097152 (io_space b1) (int (im_space m) + uint (addr - im_low m)) len)" for b1
      using map_offset(2)[OF mo[OF m(1)] m(2)] lim by (intro host_read_defined) auto
  qed (auto split: option.splits)
  show "map_read addr len mo b = Inr (v, b') \<Longrightarrow> bus_frame b b' \<and> bus_ok b'"
    using k ok by (auto simp: map_read_def Let_def res_elims dest!: invoke_callback_frame elim: bus_ok_frame)
qed

lemma map_write_ok:
  assumes ok: "bus_ok b" and mo: "\<And>m. mo = Some m \<Longrightarrow> map_ok (p_space b) m"
  shows "defined (map_write addr len data mo b)"
    and "map_write addr len data mo b = Inr b' \<Longrightarrow> bus_frame b b' \<and> bus_ok b'"
proof -
  have k: "kbd_ok (kbd b)" and lim: "int (p_space b) + 4 \<le> int IO_SPACE_MAX" using ok by (auto simp: bus_ok_def)
  show "defined (map_write addr len data mo b)"
    unfolding map_write_def check_bound_def Let_def
  proof (simp, intro impI defined_bindR)
    fix m assume "(case mo of None \<Rightarrow> Inl (Panic ''address is out of bound'')
         | Some m \<Rightarrow> guardR (addr \<le> im_high m \<and> im_low m \<le> addr)
              (Panic ''address is out of bound of the map'') (Inr m)) = Inr m"
    then have m: "mo = Some m" "map_inside m addr"
      by (auto simp: res_elims map_inside_def split: option.splits)
    show "defined (host_write 2097152 (io_space b) (int (im_space m) + uint (addr - im_low m)) len data)"
      using map_offset(2)[OF mo[OF m(1)] m(2)] lim by (intro host_write_defined) auto
    show "defined (invoke_callback (im_callback m) (addr - im_low m) len True (b\<lparr>io_space := io\<rparr>))" for io
      by (rule invoke_callback_defined) (simp add: k)
  qed (auto split: option.splits)
  show "map_write addr len data mo b = Inr b' \<Longrightarrow> bus_frame b b' \<and> bus_ok b'"
  proof -
    assume "map_write addr len data mo b = Inr b'"
    then obtain io cb off where "invoke_callback cb off len True (b\<lparr>io_space := io\<rparr>) = Inr b'"
      by (auto simp: map_write_def Let_def res_elims)
    from invoke_callback_frame[OF this] k have "bus_frame (b\<lparr>io_space := io\<rparr>) b'" and "kbd_ok (kbd b')" by auto
    then have "bus_frame b b'" by (simp add: bus_frame_def)
    with \<open>kbd_ok (kbd b')\<close> ok show ?thesis by (auto elim: bus_ok_frame)
  qed
qed

section \<open>Physical memory\<close>

lemma uint_range: "0 \<le> uint (a :: u32) \<and> uint a < 4294967296"
  using unsigned_less[of a, where ?'a = int] by simp

lemma in_pmem_iff: "in_pmem addr \<longleftrightarrow> 0 \<le> guest_to_host addr \<and> guest_to_host addr < int CONFIG_MSIZE"
proof -
  let ?d = "uint addr - 0x80000000"
  have d: "uint (addr - 0x80000000) = ?d mod 4294967296"
    by (simp add: uint_word_ariths)
  have "?d mod 4294967296 < 0x8000000 \<longleftrightarrow> 0 \<le> ?d \<and> ?d < 0x8000000"
  proof (cases "0 \<le> ?d")
    case True
    then have "?d mod 4294967296 = ?d" using uint_range[of addr] by (intro mod_pos_pos_trivial) linarith+
    then show ?thesis using True by linarith
  next
    case False
    have "?d mod 4294967296 = (?d + 4294967296) mod 4294967296" by (rule mod_add_self2[symmetric])
    also have "\<dots> = ?d + 4294967296" using False uint_range[of addr] by (intro mod_pos_pos_trivial) linarith+
    finally show ?thesis using False uint_range[of addr] by linarith
  qed
  then show ?thesis by (simp add: in_pmem_def guest_to_host_def word_less_def d)
qed

lemma host_to_guest_to_host: "in_pmem addr \<Longrightarrow> host_to_guest (guest_to_host addr) = addr"
  by (simp add: host_to_guest_def guest_to_host_def)

definition crosses_end :: "u32 \<Rightarrow> nat \<Rightarrow> bool" where
  "crosses_end addr len \<longleftrightarrow> in_pmem addr \<and> len \<in> {1, 2, 4} \<and> guest_to_host addr + int len > int CONFIG_MSIZE"

lemma pmem_read_defined: "in_pmem addr \<Longrightarrow> defined (pmem_read addr len b) \<longleftrightarrow> \<not> crosses_end addr len"
  by (auto simp: pmem_read_def host_read_def crosses_end_def in_pmem_iff)

lemma pmem_write_defined: "in_pmem addr \<Longrightarrow> defined (pmem_write addr len data b) \<longleftrightarrow> \<not> crosses_end addr len"
  by (auto simp: pmem_write_def host_write_def crosses_end_def in_pmem_iff guardR_def)

lemma fetch_mmio_map_ok:
  assumes "bus_ok b" and "fetch_mmio_map addr b = (mo, b1)"
  shows "bus_frame b b1" and "kbd b1 = kbd b" and "mo = Some m \<Longrightarrow> map_ok (p_space b1) m"
  using assms by (auto simp: fetch_mmio_map_def find_mapid_by_addr_def bus_ok_def difftest_skip_ref_def
      bus_frame_def dest!: find_map_Some split: option.splits)

lemma mmio_read_ok:
  assumes "bus_ok b"
  shows "defined (mmio_read addr len b)"
    and "mmio_read addr len b = Inr (v, b') \<Longrightarrow> bus_frame b b' \<and> bus_ok b'"
proof -
  obtain mo b1 where f: "fetch_mmio_map addr b = (mo, b1)" by (rule prod.exhaust)
  note fetch = fetch_mmio_map_ok[OF assms f]
  have ok1: "bus_ok b1" using bus_ok_frame[OF assms fetch(1)] fetch(2) assms by (simp add: bus_ok_def)
  show "defined (mmio_read addr len b)"
    using map_read_ok(1)[OF ok1 fetch(3)] by (simp add: mmio_read_def f)
  show "mmio_read addr len b = Inr (v, b') \<Longrightarrow> bus_frame b b' \<and> bus_ok b'"
    using map_read_ok(2)[OF ok1 fetch(3)] bus_frame_trans[OF fetch(1)] by (simp add: mmio_read_def f)
qed

lemma mmio_write_ok:
  assumes "bus_ok b"
  shows "defined (mmio_write addr len data b)"
    and "mmio_write addr len data b = Inr b' \<Longrightarrow> bus_frame b b' \<and> bus_ok b'"
proof -
  obtain mo b1 where f: "fetch_mmio_map addr b = (mo, b1)" by (rule prod.exhaust)
  note fetch = fetch_mmio_map_ok[OF assms f]
  have ok1: "bus_ok b1" using bus_ok_frame[OF assms fetch(1)] fetch(2) assms by (simp add: bus_ok_def)
  show "defined (mmio_write addr len data b)"
    using map_write_ok(1)[OF ok1 fetch(3)] by (simp add: mmio_write_def f)
  show "mmio_write addr len data b = Inr b' \<Longrightarrow> bus_frame b b' \<and> bus_ok b'"
    using map_write_ok(2)[OF ok1 fetch(3)] bus_frame_trans[OF fetch(1)] by (simp add: mmio_write_def f)
qed

lemma bus_ok_pmem [simp]: "bus_ok (b\<lparr>pmem := m\<rparr>) = bus_ok b"
  by (simp add: bus_ok_def)

lemma paddr_read_ok:
  assumes "bus_ok b"
  shows "defined (paddr_read addr len b) \<longleftrightarrow> \<not> crosses_end addr len"
    and "paddr_read addr len b = Inr (v, b') \<Longrightarrow> bus_frame b b' \<and> bus_ok b'"
proof -
  show "defined (paddr_read addr len b) \<longleftrightarrow> \<not> crosses_end addr len"
  proof (cases "in_pmem addr")
    case True
    then show ?thesis using pmem_read_defined[OF True, of len b]
      by (cases "pmem_read addr len b") (auto simp: paddr_read_def defined_def)
  next
    case False
    then show ?thesis using mmio_read_ok(1)[OF assms, of addr len]
      by (simp add: paddr_read_def out_of_bound_def crosses_end_def)
  qed
  show "paddr_read addr len b = Inr (v, b') \<Longrightarrow> bus_frame b b' \<and> bus_ok b'"
    using assms mmio_read_ok(2)[OF assms]
    by (auto simp: paddr_read_def out_of_bound_def res_elims split: if_splits)
qed

lemma paddr_write_ok:
  assumes "bus_ok b"
  shows "defined (paddr_write addr len data b) \<longleftrightarrow> \<not> crosses_end addr len"
    and "paddr_write addr len data b = Inr b' \<Longrightarrow> bus_ok b' \<and> conf b' = conf b \<and> mmio_maps b' = mmio_maps b \<and>
      nemu_state b' = nemu_state b \<and> (\<not> in_pmem addr \<longrightarrow> pmem b' = pmem b)"
proof -
  show "defined (paddr_write addr len data b) \<longleftrightarrow> \<not> crosses_end addr len"
    using pmem_write_defined[of addr len data b] mmio_write_ok(1)[OF assms, of addr len data]
    by (auto simp: paddr_write_def out_of_bound_def crosses_end_def)
  show "paddr_write addr len data b = Inr b' \<Longrightarrow> bus_ok b' \<and> conf b' = conf b \<and> mmio_maps b' = mmio_maps b \<and>
      nemu_state b' = nemu_state b \<and> (\<not> in_pmem addr \<longrightarrow> pmem b' = pmem b)"
    using assms mmio_write_ok(2)[OF assms, of addr len data b']
    by (auto simp: paddr_write_def pmem_write_def out_of_bound_def res_elims bus_frame_def split: if_splits)
qed

section \<open>Initialisation\<close>

text \<open>
  \<open>dev_inv k P R\<close>: at most \<open>k\<close> regions of each kind and handlers are registered, at most
  \<open>P\<close> bytes of device space are allocated, and the memory mapped regions are among the
  address ranges \<open>R\<close>.
\<close>

definition range_of :: "iomap \<Rightarrow> u32 \<times> u32" where
  "range_of m = (im_low m, im_high m)"

definition apart :: "u32 \<times> u32 \<Rightarrow> u32 \<times> u32 \<Rightarrow> bool" where
  "apart r s \<longleftrightarrow> snd r < fst s \<or> snd s < fst r"

definition outside_pmem :: "u32 \<times> u32 \<Rightarrow> bool" where
  "outside_pmem r \<longleftrightarrow> fst r \<le> snd r \<and> (snd r < 0x80000000 \<or> 0x88000000 \<le> fst r)"

definition dev_inv :: "nat \<Rightarrow> nat \<Rightarrow> (u32 \<times> u32) set \<Rightarrow> bus \<Rightarrow> bool" where
  "dev_inv k P R b \<longleftrightarrow> bus_ok b \<and> length (mmio_maps b) \<le> k \<and> length (pio_maps b) \<le> k \<and>
     length (handlers b) \<le> k \<and> p_space b \<le> P \<and> 4096 dvd p_space b \<and>
     range_of ` set (mmio_maps b) \<subseteq> R"

lemma dev_inv_weaken:
  "dev_inv k P R b \<Longrightarrow> k \<le> k' \<Longrightarrow> P \<le> P' \<Longrightarrow> R \<subseteq> R' \<Longrightarrow> dev_inv k' P' R' b"
  by (auto simp: dev_inv_def)

lemma dev_inv_bus_ok: "dev_inv k P R b \<Longrightarrow> bus_ok b"
  by (simp add: dev_inv_def)

lemma dev_inv_frame:
  assumes "dev_inv k P R b" and "bus_frame b b'" and "kbd_ok (kbd b')"
  shows "dev_inv k P R b'"
  using assms bus_ok_frame[of b b'] by (simp add: dev_inv_def bus_frame_def)

lemma outside_pmem_inside: "outside_pmem (im_low m, im_high m) \<Longrightarrow> map_inside m a \<Longrightarrow> \<not> in_pmem a"
  by (auto simp: outside_pmem_def map_inside_def in_pmem_iff guest_to_host_def word_le_def word_less_def)

lemma map_ok_mono: "map_ok l m \<Longrightarrow> l \<le> l' \<Longrightarrow> map_ok l' m"
  by (auto simp: map_ok_def)

lemma maps_disjoint_snoc:
  assumes "maps_disjoint ms" and "\<And>m. m \<in> set ms \<Longrightarrow> apart (range_of n) (range_of m)"
  shows "maps_disjoint (ms @ [n])"
proof -
  have disj: "\<not> (map_inside n a \<and> map_inside m a)" if "m \<in> set ms" for m a
    using assms(2)[OF that] by (auto simp: apart_def range_of_def map_inside_def)
  show ?thesis
    unfolding maps_disjoint_def
  proof (intro allI impI)
    fix i j a assume ij: "i < length (ms @ [n])" "j < length (ms @ [n])" "i \<noteq> j"
    show "\<not> (map_inside ((ms @ [n]) ! i) a \<and> map_inside ((ms @ [n]) ! j) a)"
    proof (cases "i < length ms"; cases "j < length ms")
      assume "i < length ms" "j < length ms"
      with assms(1)[unfolded maps_disjoint_def, rule_format, of i j a] ij(3) show ?thesis
        by (simp add: nth_append)
    next
      assume "i < length ms" "\<not> j < length ms"
      with ij disj[of "ms ! i" a] show ?thesis by (auto simp: nth_append less_Suc_eq)
    next
      assume "\<not> i < length ms" "j < length ms"
      with ij disj[of "ms ! j" a] show ?thesis by (auto simp: nth_append less_Suc_eq)
    next
      assume "\<not> i < length ms" "\<not> j < length ms"
      with ij show ?thesis by (auto simp: less_Suc_eq)
    qed
  qed
qed

lemma new_space_ok:
  assumes inv: "dev_inv k P R b" and n: "unat sz' = n" "sz' = (ucast sz + 4095 :: u64) AND NOT 4095"
    and fits: "P + n < IO_SPACE_MAX" and dvd: "4096 dvd n"
  shows "new_space sz b = Inr (p_space b, b\<lparr>p_space := p_space b + n\<rparr>)"
    and "dev_inv k (P + n) R (b\<lparr>p_space := p_space b + n\<rparr>)"
proof -
  have lt: "p_space b + n < IO_SPACE_MAX" using inv fits by (simp add: dev_inv_def)
  then show "new_space sz b = Inr (p_space b, b\<lparr>p_space := p_space b + n\<rparr>)"
    using n by (simp add: new_space_def Let_def)
  have d: "4096 dvd p_space b + n" using inv dvd by (simp add: dev_inv_def)
  have "p_space b + n + 4 \<le> IO_SPACE_MAX"
  proof -
    obtain q where q: "p_space b + n = 4096 * q" using d by (elim dvdE)
    with lt have "q < 512" by simp
    then show ?thesis using q by simp
  qed
  then show "dev_inv k (P + n) R (b\<lparr>p_space := p_space b + n\<rparr>)"
    using inv d by (auto simp: dev_inv_def bus_ok_def intro: map_ok_mono)
qed

lemma add_mmio_map_ok:
  assumes inv: "dev_inv k P R b" and k: "k < 16"
    and range: "outside_pmem (addr, addr + len - 1)" "\<forall>r \<in> R. apart (addr, addr + len - 1) r"
    and space: "sp + unat (len - 1) < p_space b"
  shows "\<exists>b'. add_mmio_map name addr sp len cb b = Inr b' \<and>
     b' = b\<lparr>mmio_maps := mmio_maps b @ [\<lparr>im_name = name, im_low = addr, im_high = addr + len - 1,
              im_space = sp, im_callback = cb\<rparr>]\<rparr> \<and>
     dev_inv (Suc k) P (insert (addr, addr + len - 1) R) b'"
proof -
  let ?m = "\<lparr>im_name = name, im_low = addr, im_high = addr + len - 1, im_space = sp, im_callback = cb\<rparr>"
  have ap: "apart (range_of ?m) (range_of m)" if "m \<in> set (mmio_maps b)" for m
    using inv that range(2) by (auto simp: dev_inv_def range_of_def)
  have "\<not> (addr \<le> im_high m \<and> im_low m \<le> addr + len - 1)" if "m \<in> set (mmio_maps b)" for m
    using ap[OF that] by (auto simp: apart_def range_of_def)
  moreover have out: "\<not> in_pmem a" if "map_inside ?m a" for a
    using outside_pmem_inside[of ?m a] that range(1) by simp
  moreover have "map_inside ?m addr" "map_inside ?m (addr + len - 1)"
    using range(1) by (auto simp: map_inside_def outside_pmem_def)
  moreover have len: "addr + len - 1 - addr = len - 1" by simp
  moreover have "dev_inv (Suc k) P (insert (addr, addr + len - 1) R) (b\<lparr>mmio_maps := mmio_maps b @ [?m]\<rparr>)"
    using inv range(1) space out maps_disjoint_snoc[of "mmio_maps b" ?m] ap len
    by (auto simp: dev_inv_def bus_ok_def map_ok_def outside_pmem_def range_of_def)
  ultimately show ?thesis using inv k by (auto simp: add_mmio_map_def dev_inv_def Let_def)
qed

lemma add_pio_map_ok:
  assumes inv: "dev_inv k P R b" and k: "k < 16"
    and range: "ucast port + len \<le> (65535 :: u32)" "(ucast port :: u32) \<le> ucast port + len - 1"
    and space: "sp + unat (len - 1) < p_space b"
  shows "\<exists>ms. add_pio_map name port sp len cb b = Inr (b\<lparr>pio_maps := ms\<rparr>) \<and>
     dev_inv (Suc k) P R (b\<lparr>pio_maps := ms\<rparr>)"
proof -
  let ?m = "\<lparr>im_name = name, im_low = ucast port, im_high = ucast port + len - 1, im_space = sp, im_callback = cb\<rparr>"
  have "map_ok (p_space b) ?m" using range(2) space by (simp add: map_ok_def)
  then have "dev_inv (Suc k) P R (b\<lparr>pio_maps := pio_maps b @ [?m]\<rparr>)"
    using inv by (auto simp: dev_inv_def bus_ok_def)
  then show ?thesis using inv k range(1) by (auto simp: add_pio_map_def dev_inv_def)
qed

lemma add_map_ok:
  assumes inv: "dev_inv k P R b" and k: "k < 16"
    and range: "outside_pmem (addr, addr + len - 1)" "\<forall>r \<in> R. apart (addr, addr + len - 1) r"
    and pio: "ucast port + len \<le> (65535 :: u32)" "(ucast port :: u32) \<le> ucast port + len - 1"
    and space: "sp + unat (len - 1) < p_space b"
  shows "\<exists>b'. add_map name port addr sp len cb b = Inr b' \<and> conf b' = conf b \<and> p_space b' = p_space b \<and>
     kbd b' = kbd b \<and> aud b' = aud b \<and>
     dev_inv (Suc k) P (insert (addr, addr + len - 1) R) b' \<and>
     (\<not> has_port_io (conf b) \<longrightarrow> mmio_maps b' = mmio_maps b @ [\<lparr>im_name = name, im_low = addr,
         im_high = addr + len - 1, im_space = sp, im_callback = cb\<rparr>])"
proof (cases "has_port_io (conf b)")
  case True
  obtain ms where ms: "add_pio_map name port sp len cb b = Inr (b\<lparr>pio_maps := ms\<rparr>)"
    "dev_inv (Suc k) P R (b\<lparr>pio_maps := ms\<rparr>)"
    using add_pio_map_ok[OF inv k pio space] by blast
  from ms(2) have "dev_inv (Suc k) P (insert (addr, addr + len - 1) R) (b\<lparr>pio_maps := ms\<rparr>)"
    by (rule dev_inv_weaken) auto
  then show ?thesis using True ms(1) by (simp add: add_map_def)
next
  case False
  then show ?thesis
    using add_mmio_map_ok[OF inv k range space, of name cb] by (auto simp: add_map_def)
qed

definition dev_at :: "bus \<Rightarrow> u32 \<Rightarrow> u32 \<Rightarrow> io_callback \<Rightarrow> nat \<Rightarrow> bool" where
  "dev_at b addr len cb sp \<longleftrightarrow>
     (\<exists>name. \<lparr>im_name = name, im_low = addr, im_high = addr + len - 1, im_space = sp, im_callback = cb\<rparr>
        \<in> set (mmio_maps b))"

lemma dev_at_mono: "dev_at b addr len cb sp \<Longrightarrow> set (mmio_maps b) \<subseteq> set (mmio_maps b') \<Longrightarrow> dev_at b' addr len cb sp"
  by (auto simp: dev_at_def)

text \<open>The static state before \<open>init_device\<close>.\<close>

definition bus_initial :: "bus \<Rightarrow> bool" where
  "bus_initial b \<longleftrightarrow> mmio_maps b = [] \<and> pio_maps b = [] \<and> handlers b = [] \<and>
     key_queue (kbd b) = replicate 1024 0 \<and> key_f (kbd b) = 0 \<and> key_r (kbd b) = 0 \<and>
     (\<forall>k. keymap (kbd b) k = 0)"

lemma bus_initial_inv: "bus_initial b \<Longrightarrow> dev_inv 0 0 {} (init_map b)"
  by (simp add: bus_initial_def dev_inv_def init_map_def bus_ok_def maps_disjoint_def kbd_ok_def)

text \<open>What the initialisation of one device keeps of the others.\<close>

definition init_keeps :: "bus \<Rightarrow> bus \<Rightarrow> bool" where
  "init_keeps b b' \<longleftrightarrow> conf b' = conf b \<and> pmem b' = pmem b \<and> nemu_state b' = nemu_state b \<and> clk b' = clk b \<and>
     serial_out b' = serial_out b \<and> set (mmio_maps b) \<subseteq> set (mmio_maps b')"

lemma init_keeps_trans [trans]: "init_keeps a b \<Longrightarrow> init_keeps b c \<Longrightarrow> init_keeps a c"
  by (auto simp: init_keeps_def)

lemma init_keeps_dev_at: "init_keeps b b' \<Longrightarrow> dev_at b addr len cb sp \<Longrightarrow> dev_at b' addr len cb sp"
  by (auto simp: init_keeps_def intro: dev_at_mono)

definition bases :: "bus \<Rightarrow> nat list" where
  "bases b = [serial_base b, rtc_base b, vgactl_base b, vmem b, i8042_base (kbd b), audio_base (aud b),
     sbuf (aud b), sd_base (sd b)]"

text \<open>Allocation of \<open>n\<close> bytes followed by the registration of a region, with \<open>f\<close> in between.\<close>

lemma add_map_eq:
  assumes inv: "dev_inv k P R b" and k: "k < 16"
    and range: "outside_pmem (addr, addr + len - 1)" "\<forall>r \<in> R. apart (addr, addr + len - 1) r"
    and pio: "ucast port + len \<le> (65535 :: u32)" "(ucast port :: u32) \<le> ucast port + len - 1"
    and space: "sp + unat (len - 1) < p_space b"
  shows "\<exists>ms ps. add_map name port addr sp len cb b = Inr (b\<lparr>mmio_maps := ms, pio_maps := ps\<rparr>) \<and>
     dev_inv (Suc k) P (insert (addr, addr + len - 1) R) (b\<lparr>mmio_maps := ms, pio_maps := ps\<rparr>) \<and>
     set (mmio_maps b) \<subseteq> set ms \<and>
     (\<not> has_port_io (conf b) \<longrightarrow> dev_at (b\<lparr>mmio_maps := ms, pio_maps := ps\<rparr>) addr len cb sp)"
proof (cases "has_port_io (conf b)")
  case True
  obtain ms where ms: "add_pio_map name port sp len cb b = Inr (b\<lparr>pio_maps := ms\<rparr>)"
    "dev_inv (Suc k) P R (b\<lparr>pio_maps := ms\<rparr>)"
    using add_pio_map_ok[OF inv k pio space] by blast
  from ms(2) have "dev_inv (Suc k) P (insert (addr, addr + len - 1) R) (b\<lparr>pio_maps := ms\<rparr>)"
    by (rule dev_inv_weaken) auto
  then show ?thesis using True ms(1)
    by (intro exI[of _ "mmio_maps b"] exI[of _ ms]) (simp add: add_map_def)
next
  case False
  then show ?thesis
    using add_mmio_map_ok[OF inv k range space, of name cb]
    by (intro exI[of _ "mmio_maps b @ _"] exI[of _ "pio_maps b"]) (auto simp: add_map_def dev_at_def)
qed

lemma dev_inv_simps [simp]:
  "dev_inv k P R (b\<lparr>serial_base := n\<rparr>) = dev_inv k P R b"
  "dev_inv k P R (b\<lparr>rtc_base := n\<rparr>) = dev_inv k P R b"
  "dev_inv k P R (b\<lparr>vgactl_base := n\<rparr>) = dev_inv k P R b"
  "dev_inv k P R (b\<lparr>vmem := n\<rparr>) = dev_inv k P R b"
  "dev_inv k P R (b\<lparr>aud := a\<rparr>) = dev_inv k P R b"
  "dev_inv k P R (b\<lparr>sd := s\<rparr>) = dev_inv k P R b"
  "dev_inv k P R (b\<lparr>io_space := m\<rparr>) = dev_inv k P R b"
  "dev_inv k P R (reg_set base i v b) = dev_inv k P R b"
  by (simp_all add: dev_inv_def bus_ok_def reg_set_def)

lemma dev_inv_kbd [simp]: "kbd_ok (kbd b) \<Longrightarrow> kbd_ok k' \<Longrightarrow> dev_inv k P R (b\<lparr>kbd := k'\<rparr>) = dev_inv k P R b"
  by (simp add: dev_inv_def bus_ok_def)

lemma page_rounding:
  "unat ((ucast (4 :: u32) + 4095 :: u64) AND NOT 4095) = 4096"
  "unat ((ucast (8 :: u32) + 4095 :: u64) AND NOT 4095) = 4096"
  "unat ((ucast (24 :: u32) + 4095 :: u64) AND NOT 4095) = 4096"
  "unat ((ucast (0x80 :: u32) + 4095 :: u64) AND NOT 4095) = 4096"
  "unat ((ucast (0x10000 :: u32) + 4095 :: u64) AND NOT 4095) = 0x10000"
  "unat ((ucast (480000 :: u32) + 4095 :: u64) AND NOT 4095) = 483328"
  by simp_all

lemma screen_size_eq: "screen_size = 480000"
  by (simp add: screen_size_def)

lemma init_serial_ok:
  assumes "dev_inv k P R b" and "k < 15" and "P + 4096 < IO_SPACE_MAX"
    and "\<forall>r \<in> R. apart (0xa00003f8, 0xa00003ff) r"
  shows "\<exists>b'. init_serial b = Inr b' \<and> dev_inv (Suc k) (P + 4096) (insert (0xa00003f8, 0xa00003ff) R) b' \<and>
     init_keeps b b' \<and> bases b' = (bases b)[0 := serial_base b'] \<and>
     (\<not> has_port_io (conf b) \<longrightarrow> dev_at b' 0xa00003f8 8 CbSerial (serial_base b'))"
proof -
  note ns = new_space_ok[OF assms(1) page_rounding(2) refl assms(3)]
  let ?b1 = "b\<lparr>p_space := p_space b + 4096, serial_base := p_space b\<rparr>"
  have "dev_inv k (P + 4096) R ?b1" using ns(2) by simp
  from add_map_eq[OF this, of "0xa00003f8" 8 "0x3f8" "p_space b" "''serial''" CbSerial] assms(2,4)
  show ?thesis
    using ns(1) by (auto simp: init_serial_def init_keeps_def bases_def outside_pmem_def)
qed

lemma init_timer_ok:
  assumes "dev_inv k P R b" and "k < 7" and "P + 4096 < IO_SPACE_MAX"
    and "\<forall>r \<in> R. apart (0xa0000048, 0xa000004f) r"
  shows "\<exists>b'. init_timer b = Inr b' \<and> dev_inv (Suc k) (P + 4096) (insert (0xa0000048, 0xa000004f) R) b' \<and>
     init_keeps b b' \<and> bases b' = (bases b)[1 := rtc_base b'] \<and>
     (\<not> has_port_io (conf b) \<longrightarrow> dev_at b' 0xa0000048 8 CbRtc (rtc_base b'))"
proof -
  note ns = new_space_ok[OF assms(1) page_rounding(2) refl assms(3)]
  let ?b1 = "b\<lparr>p_space := p_space b + 4096, rtc_base := p_space b\<rparr>"
  have "dev_inv k (P + 4096) R ?b1" using ns(2) by simp
  from add_map_eq[OF this, of "0xa0000048" 8 "0x48" "p_space b" "''rtc''" CbRtc] assms(2,4)
  obtain ms ps where m: "add_map ''rtc'' 0x48 0xa0000048 (p_space b) 8 CbRtc ?b1 = Inr (?b1\<lparr>mmio_maps := ms, pio_maps := ps\<rparr>)"
    "dev_inv (Suc k) (P + 4096) (insert (0xa0000048, 0xa000004f) R) (?b1\<lparr>mmio_maps := ms, pio_maps := ps\<rparr>)"
    "set (mmio_maps b) \<subseteq> set ms"
    "\<not> has_port_io (conf b) \<longrightarrow> dev_at (?b1\<lparr>mmio_maps := ms, pio_maps := ps\<rparr>) 0xa0000048 8 CbRtc (p_space b)"
    by (auto simp: outside_pmem_def)
  have h: "length (handlers b) < 8" using assms(1,2) by (simp add: dev_inv_def)
  then have "add_alarm_handle TimerIntr (?b1\<lparr>mmio_maps := ms, pio_maps := ps\<rparr>)
      = Inr (?b1\<lparr>mmio_maps := ms, pio_maps := ps, handlers := handlers b @ [TimerIntr]\<rparr>)"
    by (simp add: add_alarm_handle_def)
  moreover have "dev_inv (Suc k) (P + 4096) (insert (0xa0000048, 0xa000004f) R)
      (?b1\<lparr>mmio_maps := ms, pio_maps := ps, handlers := handlers b @ [TimerIntr]\<rparr>)"
    using m(2) assms(1) by (simp add: dev_inv_def bus_ok_def)
  ultimately show ?thesis
    using ns(1) m(1,3,4) by (auto simp: init_timer_def init_keeps_def bases_def dev_at_def)
qed

lemma init_vga_ok:
  assumes "dev_inv k P R b" and "k < 13" and "P + 4096 + 483328 < IO_SPACE_MAX"
    and "\<forall>r \<in> R. apart (0xa0000100, 0xa0000107) r \<and> apart (0xa1000000, 0xa10752ff) r"
  shows "\<exists>b'. init_vga b = Inr b' \<and>
     dev_inv (k + 2) (P + 4096 + 483328) ({(0xa0000100, 0xa0000107), (0xa1000000, 0xa10752ff)} \<union> R) b' \<and>
     init_keeps b b' \<and> bases b' = (bases b)[2 := vgactl_base b', 3 := vmem b'] \<and>
     (\<not> has_port_io (conf b) \<longrightarrow> dev_at b' 0xa0000100 8 CbNone (vgactl_base b')) \<and>
     dev_at b' 0xa1000000 480000 CbNone (vmem b')"
proof -
  have "P + 4096 < IO_SPACE_MAX" using assms(3) by simp
  note ns = new_space_ok[OF assms(1) page_rounding(2) refl this]
  let ?b1 = "reg_set (p_space b) 0 (push_bit 16 400 OR 300) (b\<lparr>p_space := p_space b + 4096, vgactl_base := p_space b\<rparr>)"
  have "dev_inv k (P + 4096) R ?b1" using ns(2) by simp
  from add_map_eq[OF this, of "0xa0000100" 8 "0x100" "p_space b" "''vgactl''" CbNone] assms(2,4)
  obtain ms ps where m: "add_map ''vgactl'' 0x100 0xa0000100 (p_space b) 8 CbNone ?b1 = Inr (?b1\<lparr>mmio_maps := ms, pio_maps := ps\<rparr>)"
    "dev_inv (Suc k) (P + 4096) (insert (0xa0000100, 0xa0000107) R) (?b1\<lparr>mmio_maps := ms, pio_maps := ps\<rparr>)"
    "set (mmio_maps b) \<subseteq> set ms"
    "\<not> has_port_io (conf b) \<longrightarrow> dev_at (?b1\<lparr>mmio_maps := ms, pio_maps := ps\<rparr>) 0xa0000100 8 CbNone (p_space b)"
    by (auto simp: outside_pmem_def reg_set_def)
  let ?b2 = "?b1\<lparr>mmio_maps := ms, pio_maps := ps\<rparr>"
  have sp: "p_space ?b2 = p_space b + 4096" by (simp add: reg_set_def)
  have ns2: "new_space 480000 ?b2 = Inr (p_space ?b2, ?b2\<lparr>p_space := p_space ?b2 + 483328\<rparr>)"
    "dev_inv (Suc k) (P + 4096 + 483328) (insert (0xa0000100, 0xa0000107) R) (?b2\<lparr>p_space := p_space ?b2 + 483328\<rparr>)"
    using new_space_ok[OF m(2) page_rounding(6) refl assms(3)] by simp_all
  let ?b3 = "?b2\<lparr>p_space := p_space ?b2 + 483328, vmem := p_space ?b2\<rparr>"
  have "dev_inv (Suc k) (P + 4096 + 483328) (insert (0xa0000100, 0xa0000107) R) ?b3" using ns2(2) by simp
  from add_mmio_map_ok[OF this, of "0xa1000000" "480000" "p_space ?b2" "''vmem''" CbNone] assms(2,4)
  obtain b4 where b4: "add_mmio_map ''vmem'' 0xa1000000 (p_space ?b2) 480000 CbNone ?b3 = Inr b4"
    "b4 = ?b3\<lparr>mmio_maps := mmio_maps ?b3 @ [\<lparr>im_name = ''vmem'', im_low = 0xa1000000, im_high = 0xa1000000 + 480000 - 1,
              im_space = p_space ?b2, im_callback = CbNone\<rparr>]\<rparr>"
    "dev_inv (Suc (Suc k)) (P + 4096 + 483328) (insert (0xa1000000, 0xa10752ff) (insert (0xa0000100, 0xa0000107) R)) b4"
    by (auto simp: outside_pmem_def apart_def)
  let ?b5 = "b4\<lparr>io_space := store_bytes (io_space b4) (p_space ?b2) (replicate 480000 0)\<rparr>"
  have "init_vga b = Inr ?b5"
    using ns(1) m(1) ns2(1) b4(1) by (simp add: init_vga_def screen_size_eq)
  moreover have "dev_inv (k + 2) (P + 4096 + 483328) ({(0xa0000100, 0xa0000107), (0xa1000000, 0xa10752ff)} \<union> R) ?b5"
    using b4(3) by (simp add: insert_commute)
  moreover have "init_keeps b ?b5" "bases ?b5 = (bases b)[2 := vgactl_base ?b5, 3 := vmem ?b5]"
    using m(3) by (auto simp: b4(2) init_keeps_def bases_def reg_set_def)
  moreover have "dev_at ?b5 0xa1000000 480000 CbNone (vmem ?b5)"
    by (auto simp: b4(2) dev_at_def)
  moreover have "\<not> has_port_io (conf b) \<longrightarrow> dev_at ?b5 0xa0000100 8 CbNone (vgactl_base ?b5)"
    using m(4) by (auto simp: b4(2) dev_at_def reg_set_def)
  ultimately show ?thesis by blast
qed

lemma kbd_ok_simps [simp]:
  "kbd_ok (k\<lparr>i8042_base := p\<rparr>) = kbd_ok k" "kbd_ok (init_keymap sdl k) = kbd_ok k"
  by (simp_all add: kbd_ok_def init_keymap_def)

lemma dev_inv_kbd_ok: "dev_inv k P R b \<Longrightarrow> kbd_ok (kbd b)"
  by (simp add: dev_inv_def bus_ok_def)

lemma init_i8042_ok:
  assumes "dev_inv k P R b" and "k < 15" and "P + 4096 < IO_SPACE_MAX"
    and "\<forall>r \<in> R. apart (0xa0000060, 0xa0000063) r"
  shows "\<exists>b'. init_i8042 sdl b = Inr b' \<and> dev_inv (Suc k) (P + 4096) (insert (0xa0000060, 0xa0000063) R) b' \<and>
     init_keeps b b' \<and> bases b' = (bases b)[4 := i8042_base (kbd b')] \<and>
     keymap (kbd b') = keymap (init_keymap sdl (kbd b)) \<and>
     (\<not> has_port_io (conf b) \<longrightarrow> dev_at b' 0xa0000060 4 CbI8042 (i8042_base (kbd b')))"
proof -
  note ns = new_space_ok[OF assms(1) page_rounding(1) refl assms(3)]
  note k = dev_inv_kbd_ok[OF assms(1)]
  let ?b1 = "reg_set (p_space b) 0 0 (b\<lparr>p_space := p_space b + 4096, kbd := (kbd b)\<lparr>i8042_base := p_space b\<rparr>\<rparr>)"
  have "dev_inv k (P + 4096) R ?b1" using ns(2) k by simp
  from add_map_eq[OF this, of "0xa0000060" 4 "0x60" "p_space b" "''keyboard''" CbI8042] assms(2,4)
  obtain ms ps where m: "add_map ''keyboard'' 0x60 0xa0000060 (p_space b) 4 CbI8042 ?b1 = Inr (?b1\<lparr>mmio_maps := ms, pio_maps := ps\<rparr>)"
    "dev_inv (Suc k) (P + 4096) (insert (0xa0000060, 0xa0000063) R) (?b1\<lparr>mmio_maps := ms, pio_maps := ps\<rparr>)"
    "set (mmio_maps b) \<subseteq> set ms"
    "\<not> has_port_io (conf b) \<longrightarrow> dev_at (?b1\<lparr>mmio_maps := ms, pio_maps := ps\<rparr>) 0xa0000060 4 CbI8042 (p_space b)"
    by (auto simp: outside_pmem_def reg_set_def)
  let ?b2 = "?b1\<lparr>mmio_maps := ms, pio_maps := ps\<rparr>"
  let ?b3 = "?b2\<lparr>kbd := init_keymap sdl (kbd ?b2)\<rparr>"
  have "init_i8042 sdl b = Inr ?b3"
    using ns(1) m(1) by (simp add: init_i8042_def)
  moreover have "dev_inv (Suc k) (P + 4096) (insert (0xa0000060, 0xa0000063) R) ?b3"
    using m(2) k by (subst dev_inv_kbd) (simp_all add: reg_set_def)
  moreover have "init_keeps b ?b3" "bases ?b3 = (bases b)[4 := i8042_base (kbd ?b3)]"
    "keymap (kbd ?b3) = keymap (init_keymap sdl (kbd b))"
    using m(3) by (auto simp: init_keeps_def bases_def reg_set_def init_keymap_def)
  moreover have "\<not> has_port_io (conf b) \<longrightarrow> dev_at ?b3 0xa0000060 4 CbI8042 (i8042_base (kbd ?b3))"
    using m(4) by (simp add: dev_at_def reg_set_def init_keymap_def)
  ultimately show ?thesis by blast
qed

lemma init_audio_ok:
  assumes "dev_inv k P R b" and "k < 13" and "P + 4096 + 0x10000 < IO_SPACE_MAX"
    and "\<forall>r \<in> R. apart (0xa0000200, 0xa0000217) r \<and> apart (0xa1200000, 0xa120ffff) r"
  shows "\<exists>b'. init_audio b = Inr b' \<and>
     dev_inv (k + 2) (P + 4096 + 0x10000) ({(0xa0000200, 0xa0000217), (0xa1200000, 0xa120ffff)} \<union> R) b' \<and>
     init_keeps b b' \<and> bases b' = (bases b)[5 := audio_base (aud b'), 6 := sbuf (aud b')] \<and>
     keymap (kbd b') = keymap (kbd b) \<and>
     (\<not> has_port_io (conf b) \<longrightarrow> dev_at b' 0xa0000200 24 CbAudio (audio_base (aud b'))) \<and>
     dev_at b' 0xa1200000 0x10000 CbNone (sbuf (aud b')) \<and> sbuf (aud b') + 0x10000 \<le> IO_SPACE_MAX"
proof -
  have "P + 4096 < IO_SPACE_MAX" using assms(3) by simp
  note ns = new_space_ok[OF assms(1) page_rounding(3) refl this]
  let ?b1 = "b\<lparr>p_space := p_space b + 4096, aud := (aud b)\<lparr>audio_base := p_space b\<rparr>\<rparr>"
  have "dev_inv k (P + 4096) R ?b1" using ns(2) by simp
  from add_map_eq[OF this, of "0xa0000200" 24 "0x200" "p_space b" "''audio''" CbAudio] assms(2,4)
  obtain ms ps where m: "add_map ''audio'' 0x200 0xa0000200 (p_space b) 24 CbAudio ?b1 = Inr (?b1\<lparr>mmio_maps := ms, pio_maps := ps\<rparr>)"
    "dev_inv (Suc k) (P + 4096) (insert (0xa0000200, 0xa0000217) R) (?b1\<lparr>mmio_maps := ms, pio_maps := ps\<rparr>)"
    "set (mmio_maps b) \<subseteq> set ms"
    "\<not> has_port_io (conf b) \<longrightarrow> dev_at (?b1\<lparr>mmio_maps := ms, pio_maps := ps\<rparr>) 0xa0000200 24 CbAudio (p_space b)"
    by (auto simp: outside_pmem_def)
  let ?b2 = "?b1\<lparr>mmio_maps := ms, pio_maps := ps\<rparr>"
  have ns2: "new_space 0x10000 ?b2 = Inr (p_space ?b2, ?b2\<lparr>p_space := p_space ?b2 + 0x10000\<rparr>)"
    "dev_inv (Suc k) (P + 4096 + 0x10000) (insert (0xa0000200, 0xa0000217) R) (?b2\<lparr>p_space := p_space ?b2 + 0x10000\<rparr>)"
    using new_space_ok[OF m(2) page_rounding(5) refl assms(3)] by simp_all
  let ?b3 = "?b2\<lparr>p_space := p_space ?b2 + 0x10000, aud := (aud ?b2)\<lparr>sbuf := p_space ?b2\<rparr>\<rparr>"
  have inv3: "dev_inv (Suc k) (P + 4096 + 0x10000) (insert (0xa0000200, 0xa0000217) R) ?b3"
    unfolding dev_inv_simps by (rule ns2(2))
  from add_mmio_map_ok[OF this, of "0xa1200000" "0x10000" "p_space ?b2" "''audio-sbuf''" CbNone] assms(2,4)
  obtain b4 where b4: "add_mmio_map ''audio-sbuf'' 0xa1200000 (p_space ?b2) 0x10000 CbNone ?b3 = Inr b4"
    "b4 = ?b3\<lparr>mmio_maps := mmio_maps ?b3 @ [\<lparr>im_name = ''audio-sbuf'', im_low = 0xa1200000, im_high = 0xa1200000 + 0x10000 - 1,
              im_space = p_space ?b2, im_callback = CbNone\<rparr>]\<rparr>"
    "dev_inv (Suc (Suc k)) (P + 4096 + 0x10000) (insert (0xa1200000, 0xa120ffff) (insert (0xa0000200, 0xa0000217) R)) b4"
    by (auto simp: outside_pmem_def apart_def)
  let ?b5 = "reg_set (p_space b) 3 0x10000 b4"
  let ?b6 = "?b5\<lparr>aud := (aud ?b5)\<lparr>au_spec := (au_spec (aud ?b5))\<lparr>as_size := 0x10000\<rparr>\<rparr>\<rparr>"
  have "init_audio b = Inr ?b6"
    using ns(1) m(1) ns2(1) b4(1) by (simp add: init_audio_def Let_def)
  moreover have "dev_inv (k + 2) (P + 4096 + 0x10000) ({(0xa0000200, 0xa0000217), (0xa1200000, 0xa120ffff)} \<union> R) ?b6"
    using b4(3) by (simp add: insert_commute)
  moreover have "init_keeps b ?b6" "bases ?b6 = (bases b)[5 := audio_base (aud ?b6), 6 := sbuf (aud ?b6)]"
    "keymap (kbd ?b6) = keymap (kbd b)"
    using m(3) by (auto simp: b4(2) init_keeps_def bases_def reg_set_def)
  moreover have "dev_at ?b6 0xa1200000 0x10000 CbNone (sbuf (aud ?b6))"
    by (auto simp: b4(2) dev_at_def reg_set_def)
  moreover have "\<not> has_port_io (conf b) \<longrightarrow> dev_at ?b6 0xa0000200 24 CbAudio (audio_base (aud ?b6))"
    using m(4) by (auto simp: b4(2) dev_at_def reg_set_def)
  moreover have "sbuf (aud ?b6) + 0x10000 \<le> IO_SPACE_MAX"
    using inv3 by (simp add: b4(2) reg_set_def dev_inv_def bus_ok_def)
  ultimately show ?thesis by blast
qed

lemma init_sdcard_ok:
  assumes "dev_inv k P R b" and "k < 15" and "P + 4096 < IO_SPACE_MAX"
    and "\<forall>r \<in> R. apart (0xa3000000, 0xa300007f) r"
  shows "\<exists>b'. init_sdcard img b = Inr b' \<and> dev_inv (Suc k) (P + 4096) (insert (0xa3000000, 0xa300007f) R) b' \<and>
     init_keeps b b' \<and> bases b' = (bases b)[7 := sd_base (sd b')] \<and> keymap (kbd b') = keymap (kbd b) \<and>
     dev_at b' 0xa3000000 0x80 CbSdcard (sd_base (sd b')) \<and> sd_fp (sd b') = map_option (\<lambda>bytes. (bytes, 0)) img"
proof -
  note ns = new_space_ok[OF assms(1) page_rounding(4) refl assms(3)]
  let ?b1 = "b\<lparr>p_space := p_space b + 4096, sd := (sd b)\<lparr>sd_base := p_space b\<rparr>\<rparr>"
  have "dev_inv k (P + 4096) R ?b1" using ns(2) by simp
  from add_mmio_map_ok[OF this, of "0xa3000000" "0x80" "p_space b" "''sdhci''" CbSdcard] assms(2,4)
  obtain b2 where b2: "add_mmio_map ''sdhci'' 0xa3000000 (p_space b) 0x80 CbSdcard ?b1 = Inr b2"
    "b2 = ?b1\<lparr>mmio_maps := mmio_maps ?b1 @ [\<lparr>im_name = ''sdhci'', im_low = 0xa3000000, im_high = 0xa3000000 + 0x80 - 1,
              im_space = p_space b, im_callback = CbSdcard\<rparr>]\<rparr>"
    "dev_inv (Suc k) (P + 4096) (insert (0xa3000000, 0xa300007f) R) b2"
    by (auto simp: outside_pmem_def)
  let ?b3 = "b2\<lparr>sd := (sd b2)\<lparr>sd_fp := map_option (\<lambda>bytes. (bytes, 0)) img\<rparr>\<rparr>"
  have "init_sdcard img b = Inr ?b3"
    using ns(1) b2(1) by (simp add: init_sdcard_def C_SIZE_def NR_BLOCK_def MEMORY_SIZE_def)
  moreover have "dev_inv (Suc k) (P + 4096) (insert (0xa3000000, 0xa300007f) R) ?b3"
    using b2(3) by simp
  moreover have "init_keeps b ?b3" "bases ?b3 = (bases b)[7 := sd_base (sd ?b3)]" "keymap (kbd ?b3) = keymap (kbd b)"
    "dev_at ?b3 0xa3000000 0x80 CbSdcard (sd_base (sd ?b3))"
    by (auto simp: b2(2) init_keeps_def bases_def dev_at_def)
  ultimately show ?thesis by force
qed

lemma init_keeps_refl [simp]: "init_keeps b b"
  by (simp add: init_keeps_def)

lemma whenR_step:
  assumes "c \<Longrightarrow> \<exists>b'. f b = Inr b' \<and> Q b'" and "\<not> c \<Longrightarrow> Q b"
  shows "\<exists>b'. whenR c f b = Inr b' \<and> Q b'"
  using assms by (cases c) (auto simp: whenR_def)

text \<open>Every device of the configuration is at its place.\<close>

definition devices_ok :: "conf \<Rightarrow> bus \<Rightarrow> bool" where
  "devices_ok c b \<longleftrightarrow>
     (has_serial c \<and> \<not> has_port_io c \<longrightarrow> dev_at b 0xa00003f8 8 CbSerial (serial_base b)) \<and>
     (has_timer c \<and> \<not> has_port_io c \<longrightarrow> dev_at b 0xa0000048 8 CbRtc (rtc_base b)) \<and>
     (has_vga c \<and> \<not> has_port_io c \<longrightarrow> dev_at b 0xa0000100 8 CbNone (vgactl_base b)) \<and>
     (has_vga c \<longrightarrow> dev_at b 0xa1000000 480000 CbNone (vmem b)) \<and>
     (has_keyboard c \<and> \<not> has_port_io c \<longrightarrow> dev_at b 0xa0000060 4 CbI8042 (i8042_base (kbd b))) \<and>
     (has_audio c \<and> \<not> has_port_io c \<longrightarrow> dev_at b 0xa0000200 24 CbAudio (audio_base (aud b))) \<and>
     (has_audio c \<longrightarrow> dev_at b 0xa1200000 0x10000 CbNone (sbuf (aud b))) \<and>
     (has_sdcard c \<longrightarrow> dev_at b 0xa3000000 0x80 CbSdcard (sd_base (sd b)))"

lemmas init_sides = apart_def bases_def

lemma init_device_ok:
  assumes "bus_initial b0"
  shows "\<exists>b. init_device sdl img b0 = Inr b \<and> bus_ok b \<and> init_keeps b0 b \<and> devices_ok (conf b) b"
proof -
  let ?c = "conf b0"
  have conf0: "conf (init_map b0) = ?c" by (simp add: init_map_def)
  have "\<exists>b'. whenR (has_serial ?c) init_serial (init_map b0) = Inr b' \<and> dev_inv 1 4096 {(0xa00003f8, 0xa00003ff)} b' \<and>
     init_keeps (init_map b0) b' \<and>
     (has_serial ?c \<and> \<not> has_port_io ?c \<longrightarrow> dev_at b' 0xa00003f8 8 CbSerial (serial_base b'))"
    using init_serial_ok[OF bus_initial_inv[OF assms]] conf0
    by (intro whenR_step) (auto intro: dev_inv_weaken[OF bus_initial_inv[OF assms]])
  then obtain b1 where b1: "whenR (has_serial ?c) init_serial (init_map b0) = Inr b1"
    "dev_inv 1 4096 {(0xa00003f8, 0xa00003ff)} b1" "init_keeps (init_map b0) b1"
    "has_serial ?c \<and> \<not> has_port_io ?c \<longrightarrow> dev_at b1 0xa00003f8 8 CbSerial (serial_base b1)" by blast
  have c1: "conf b1 = ?c" using b1(3) conf0 by (simp add: init_keeps_def)
  have "\<exists>b'. whenR (has_timer ?c) init_timer b1 = Inr b' \<and> dev_inv (Suc (Suc 0)) 8192 {(0xa0000048, 0xa000004f), (0xa00003f8, 0xa00003ff)} b' \<and>
     init_keeps b1 b' \<and> bases b' = (bases b1)[1 := rtc_base b'] \<and>
     (has_timer ?c \<and> \<not> has_port_io ?c \<longrightarrow> dev_at b' 0xa0000048 8 CbRtc (rtc_base b'))"
    using init_timer_ok[OF b1(2)] c1
    by (intro whenR_step) (auto intro: dev_inv_weaken[OF b1(2)] simp: init_sides)
  then obtain b2 where b2: "whenR (has_timer ?c) init_timer b1 = Inr b2"
    "dev_inv (Suc (Suc 0)) 8192 {(0xa0000048, 0xa000004f), (0xa00003f8, 0xa00003ff)} b2" "init_keeps b1 b2"
    "bases b2 = (bases b1)[1 := rtc_base b2]"
    "has_timer ?c \<and> \<not> has_port_io ?c \<longrightarrow> dev_at b2 0xa0000048 8 CbRtc (rtc_base b2)" by blast
  have c2: "conf b2 = ?c" using b2(3) c1 by (simp add: init_keeps_def)
  let ?R3 = "{(0xa0000100, 0xa0000107), (0xa1000000, 0xa10752ff)} \<union> {(0xa0000048, 0xa000004f), (0xa00003f8, 0xa00003ff)}"
  have "\<exists>b'. whenR (has_vga ?c) init_vga b2 = Inr b' \<and> dev_inv (Suc (Suc 0) + 2) 495616 ?R3 b' \<and>
     init_keeps b2 b' \<and> bases b' = (bases b2)[2 := vgactl_base b', 3 := vmem b'] \<and>
     (has_vga ?c \<and> \<not> has_port_io ?c \<longrightarrow> dev_at b' 0xa0000100 8 CbNone (vgactl_base b')) \<and>
     (has_vga ?c \<longrightarrow> dev_at b' 0xa1000000 480000 CbNone (vmem b'))"
    using init_vga_ok[OF b2(2)] c2
    by (intro whenR_step) (auto intro: dev_inv_weaken[OF b2(2)] simp: init_sides)
  then obtain b3 where b3: "whenR (has_vga ?c) init_vga b2 = Inr b3" "dev_inv (Suc (Suc 0) + 2) 495616 ?R3 b3" "init_keeps b2 b3"
    "bases b3 = (bases b2)[2 := vgactl_base b3, 3 := vmem b3]"
    "has_vga ?c \<and> \<not> has_port_io ?c \<longrightarrow> dev_at b3 0xa0000100 8 CbNone (vgactl_base b3)"
    "has_vga ?c \<longrightarrow> dev_at b3 0xa1000000 480000 CbNone (vmem b3)" by blast
  have c3: "conf b3 = ?c" using b3(3) c2 by (simp add: init_keeps_def)
  let ?R4 = "insert (0xa0000060, 0xa0000063) ?R3"
  have "\<exists>b'. whenR (has_keyboard ?c) (init_i8042 sdl) b3 = Inr b' \<and> dev_inv (Suc (Suc (Suc 0) + 2)) 499712 ?R4 b' \<and>
     init_keeps b3 b' \<and> bases b' = (bases b3)[4 := i8042_base (kbd b')] \<and>
     (has_keyboard ?c \<and> \<not> has_port_io ?c \<longrightarrow> dev_at b' 0xa0000060 4 CbI8042 (i8042_base (kbd b')))"
    using init_i8042_ok[OF b3(2), of sdl] c3
    by (intro whenR_step) (auto intro: dev_inv_weaken[OF b3(2)] simp: init_sides)
  then obtain b4 where b4: "whenR (has_keyboard ?c) (init_i8042 sdl) b3 = Inr b4" "dev_inv (Suc (Suc (Suc 0) + 2)) 499712 ?R4 b4" "init_keeps b3 b4"
    "bases b4 = (bases b3)[4 := i8042_base (kbd b4)]"
    "has_keyboard ?c \<and> \<not> has_port_io ?c \<longrightarrow> dev_at b4 0xa0000060 4 CbI8042 (i8042_base (kbd b4))" by blast
  have c4: "conf b4 = ?c" using b4(3) c3 by (simp add: init_keeps_def)
  let ?R5 = "{(0xa0000200, 0xa0000217), (0xa1200000, 0xa120ffff)} \<union> ?R4"
  have "\<exists>b'. whenR (has_audio ?c) init_audio b4 = Inr b' \<and> dev_inv (Suc (Suc (Suc 0) + 2) + 2) 569344 ?R5 b' \<and>
     init_keeps b4 b' \<and> bases b' = (bases b4)[5 := audio_base (aud b'), 6 := sbuf (aud b')] \<and>
     (has_audio ?c \<and> \<not> has_port_io ?c \<longrightarrow> dev_at b' 0xa0000200 24 CbAudio (audio_base (aud b'))) \<and>
     (has_audio ?c \<longrightarrow> dev_at b' 0xa1200000 0x10000 CbNone (sbuf (aud b')))"
    using init_audio_ok[OF b4(2)] c4
    by (intro whenR_step) (auto intro: dev_inv_weaken[OF b4(2)] simp: init_sides)
  then obtain b5 where b5: "whenR (has_audio ?c) init_audio b4 = Inr b5" "dev_inv (Suc (Suc (Suc 0) + 2) + 2) 569344 ?R5 b5" "init_keeps b4 b5"
    "bases b5 = (bases b4)[5 := audio_base (aud b5), 6 := sbuf (aud b5)]"
    "has_audio ?c \<and> \<not> has_port_io ?c \<longrightarrow> dev_at b5 0xa0000200 24 CbAudio (audio_base (aud b5))"
    "has_audio ?c \<longrightarrow> dev_at b5 0xa1200000 0x10000 CbNone (sbuf (aud b5))" by blast
  have c5: "conf b5 = ?c" using b5(3) c4 by (simp add: init_keeps_def)
  have "\<exists>b'. whenR (has_sdcard ?c) (init_sdcard img) b5 = Inr b' \<and> bus_ok b' \<and>
     init_keeps b5 b' \<and> bases b' = (bases b5)[7 := sd_base (sd b')] \<and>
     (has_sdcard ?c \<longrightarrow> dev_at b' 0xa3000000 0x80 CbSdcard (sd_base (sd b')))"
    using init_sdcard_ok[OF b5(2), of img] c5 dev_inv_bus_ok[OF b5(2)]
    by (intro whenR_step) (auto simp: init_sides dest: dev_inv_bus_ok)
  then obtain b6 where b6: "whenR (has_sdcard ?c) (init_sdcard img) b5 = Inr b6" "bus_ok b6" "init_keeps b5 b6"
    "bases b6 = (bases b5)[7 := sd_base (sd b6)]"
    "has_sdcard ?c \<longrightarrow> dev_at b6 0xa3000000 0x80 CbSdcard (sd_base (sd b6))" by blast
  note keeps = b1(3) b2(3) b3(3) b4(3) b5(3) b6(3)
  have run: "init_device sdl img b0 = Inr b6"
    using b1(1) b2(1) b3(1) b4(1) b5(1) b6(1)
    by (simp add: init_device_def Let_def init_disk_def whenR_def[of "has_disk (conf b0)"])
  have "init_keeps b0 (init_map b0)" by (simp add: init_keeps_def init_map_def)
  then have "init_keeps b0 b6" using keeps by (meson init_keeps_trans)
  moreover have "init_keeps b1 b6" "init_keeps b2 b6" "init_keeps b3 b6" "init_keeps b4 b6"
    using keeps by (meson init_keeps_trans)+
  note late = this b6(3)
  have "devices_ok ?c b6"
    unfolding devices_ok_def
    using late[THEN init_keeps_dev_at] b1(4) b2(4,5) b3(4-6) b4(4,5) b5(4-6) b6(4,5)
    by (simp add: bases_def)
  ultimately show ?thesis using run b6(2) by (auto simp: init_keeps_def)
qed

section \<open>Dispatch\<close>

lemma maps_disjoint_unique:
  assumes "maps_disjoint ms" and "m \<in> set ms" and "n \<in> set ms" and "map_inside m a" and "map_inside n a"
  shows "m = n"
proof -
  obtain i j where "i < length ms" "ms ! i = m" "j < length ms" "ms ! j = n"
    using assms(2,3) by (auto simp: in_set_conv_nth)
  then show ?thesis
    using assms(1,4,5) by (cases "i = j") (auto simp: maps_disjoint_def)
qed

lemma find_map_dev_at:
  assumes "bus_ok b" and "dev_at b addr len cb sp" and "addr \<le> a" and "a \<le> addr + len - 1"
  shows "\<exists>name. find_map (mmio_maps b) a =
     Some \<lparr>im_name = name, im_low = addr, im_high = addr + len - 1, im_space = sp, im_callback = cb\<rparr>"
proof -
  obtain name where m: "\<lparr>im_name = name, im_low = addr, im_high = addr + len - 1, im_space = sp, im_callback = cb\<rparr>
      \<in> set (mmio_maps b)" (is "?m \<in> _")
    using assms(2) by (auto simp: dev_at_def)
  have ins: "map_inside ?m a" using assms(3,4) by (simp add: map_inside_def)
  with m obtain m' where m': "find_map (mmio_maps b) a = Some m'"
    using find_map_None[of "mmio_maps b" a] by (cases "find_map (mmio_maps b) a") auto
  have "m' = ?m"
    using find_map_Some[OF m'] m ins maps_disjoint_unique[of "mmio_maps b" m' ?m a] assms(1)
    by (simp add: bus_ok_def)
  with m' show ?thesis by blast
qed

lemma dev_not_in_pmem:
  assumes "bus_ok b" and "dev_at b addr len cb sp" and "addr \<le> a" and "a \<le> addr + len - 1"
  shows "\<not> in_pmem a"
  using assms find_map_dev_at[OF assms] by (fastforce simp: bus_ok_def dest!: find_map_Some)

text \<open>A region lies inside the allocated device space.\<close>

lemma dev_at_space:
  assumes "bus_ok b" and "dev_at b addr len cb sp"
  shows "sp + unat (len - 1) + 4 < IO_SPACE_MAX"
proof -
  have "addr + len - 1 - addr = len - 1" by simp
  then show ?thesis using assms by (force simp: bus_ok_def dev_at_def map_ok_def)
qed

lemma dev_offset_le:
  assumes "addr \<le> a" and "a \<le> addr + n - 1"
  shows "unat (a - addr) \<le> unat (n - 1 :: u32)"
proof -
  have "unat (a - addr) = unat a - unat addr" using assms(1) by (rule unat_sub)
  moreover have "unat (addr + n - 1 - addr) = unat (addr + n - 1) - unat addr"
    using assms by (intro unat_sub) (rule order_trans)
  moreover have "addr + n - 1 - addr = n - 1" by simp
  ultimately show ?thesis using assms(2) by (simp add: word_le_nat_alt)
qed

text \<open>
  An access to a device in normal form: the callback runs on the state where the hit has been
  reported to the reference, before the read and after the write of the device space.
\<close>

lemma paddr_read_dev:
  assumes ok: "bus_ok b" "cfg_device (conf b)" and dev: "dev_at b addr n cb sp"
    and a: "addr \<le> a" "a \<le> addr + n - 1" and len: "len \<in> {1, 2, 4}"
  shows "paddr_read a len b = bindR (invoke_callback cb (a - addr) len False (difftest_skip_ref b)) (\<lambda>b1.
     Inr (le_word (load_bytes (io_space b1) (sp + unat (a - addr)) len), b1))"
proof -
  obtain name where f: "find_map (mmio_maps b) a =
     Some \<lparr>im_name = name, im_low = addr, im_high = addr + n - 1, im_space = sp, im_callback = cb\<rparr>"
    using find_map_dev_at[OF ok(1) dev a] by blast
  have "\<not> in_pmem a" by (rule dev_not_in_pmem[OF ok(1) dev a])
  moreover have "unat (a - addr) \<le> unat (n - 1)" by (rule dev_offset_le[OF a])
  then have "sp + unat (a - addr) + len \<le> 2097152"
    using dev_at_space[OF ok(1) dev] len by auto
  then have "int (sp + unat (a - addr) + len) \<le> int 2097152" by (simp only: of_nat_le_iff)
  then have "int sp + uint (a - addr) + int len \<le> 2097152" by simp
  moreover have "nat (int sp + uint (a - addr)) = sp + unat (a - addr)"
    by (simp add: nat_add_distrib)
  ultimately show ?thesis
    using ok(2) len a
    by (auto simp: paddr_read_def mmio_read_def fetch_mmio_map_def find_mapid_by_addr_def f map_read_def
        check_bound_def host_read_def Let_def simp del: load_bytes.simps)
qed

lemma paddr_write_dev:
  assumes ok: "bus_ok b" "cfg_device (conf b)" and dev: "dev_at b addr n cb sp"
    and a: "addr \<le> a" "a \<le> addr + n - 1" and len: "len \<in> {1, 2, 4}"
  shows "paddr_write a len data b = invoke_callback cb (a - addr) len True
     ((difftest_skip_ref b)\<lparr>io_space := store_bytes (io_space b) (sp + unat (a - addr)) (le_bytes len data)\<rparr>)"
proof -
  obtain name where f: "find_map (mmio_maps b) a =
     Some \<lparr>im_name = name, im_low = addr, im_high = addr + n - 1, im_space = sp, im_callback = cb\<rparr>"
    using find_map_dev_at[OF ok(1) dev a] by blast
  have "\<not> in_pmem a" by (rule dev_not_in_pmem[OF ok(1) dev a])
  moreover have "unat (a - addr) \<le> unat (n - 1)" by (rule dev_offset_le[OF a])
  then have "sp + unat (a - addr) + len \<le> 2097152"
    using dev_at_space[OF ok(1) dev] len by auto
  then have "int (sp + unat (a - addr) + len) \<le> int 2097152" by (simp only: of_nat_le_iff)
  then have "int sp + uint (a - addr) + int len \<le> 2097152" by simp
  moreover have "nat (int sp + uint (a - addr)) = sp + unat (a - addr)"
    by (simp add: nat_add_distrib)
  moreover have "io_space (difftest_skip_ref b) = io_space b" by (simp add: difftest_skip_ref_def)
  ultimately show ?thesis
    using ok(2) len a
    by (auto simp: paddr_write_def mmio_write_def fetch_mmio_map_def find_mapid_by_addr_def f map_write_def
        check_bound_def host_write_def Let_def simp del: store_bytes.simps le_bytes.simps)
qed

section \<open>Sequences of bus operations\<close>

text \<open>Everything the CPU loop and the host do to the address space.\<close>

datatype bus_op = BRead u32 nat | BWrite u32 nat u32 | BUpdate | BAlarm

fun bus_step :: "bus_op \<Rightarrow> bus \<Rightarrow> bus res" where
  "bus_step (BRead addr len) b = bindR (paddr_read addr len b) (\<lambda>(_, b'). Inr b')"
| "bus_step (BWrite addr len data) b = paddr_write addr len data b"
| "bus_step BUpdate b = device_update b"
| "bus_step BAlarm b = Inr (alarm_sig_handler b)"

fun op_crosses_end :: "bus_op \<Rightarrow> bool" where
  "op_crosses_end (BRead addr len) = crosses_end addr len"
| "op_crosses_end (BWrite addr len data) = crosses_end addr len"
| "op_crosses_end _ = False"

lemma key_enqueue_ok:
  "kbd_ok k \<Longrightarrow> defined (key_enqueue s k)"
  "kbd_ok k \<Longrightarrow> key_enqueue s k = Inr k' \<Longrightarrow> kbd_ok k'"
  by (auto simp: key_enqueue_def kbd_ok_def Let_def res_elims)

lemma send_key_ok:
  assumes "bus_ok b"
  shows "defined (send_key sc down b)" and "send_key sc down b = Inr b' \<Longrightarrow> bus_ok b'"
proof -
  have k: "kbd_ok (kbd b)" using assms by (simp add: bus_ok_def)
  show "defined (send_key sc down b)"
    using key_enqueue_ok(1)[OF k] by (auto simp: send_key_def Let_def intro!: defined_bindR)
  show "send_key sc down b = Inr b' \<Longrightarrow> bus_ok b'"
    using assms key_enqueue_ok(2)[OF k] by (auto simp: send_key_def Let_def res_elims bus_ok_def split: if_splits)
qed

lemma bus_ok_nemu_state [simp]: "bus_ok (b\<lparr>nemu_state := s\<rparr>) = bus_ok b"
  by (simp add: bus_ok_def)

lemma handle_event_ok:
  assumes "bus_ok b"
  shows "defined (handle_event ev b)" and "handle_event ev b = Inr b' \<Longrightarrow> bus_ok b'"
  using assms send_key_ok[OF assms] by (auto simp: handle_event_def split: sdl_event.splits if_splits)

lemma forR_defined:
  assumes "P s" and "\<And>x s. P s \<Longrightarrow> defined (f x s)" and "\<And>x s t. P s \<Longrightarrow> f x s = Inr t \<Longrightarrow> P t"
  shows "defined (forR f xs s)"
  using assms(1)
proof (induction xs arbitrary: s)
  case (Cons x xs)
  show ?case
    unfolding forR.simps
  proof (rule defined_bindR)
    show "defined (f x s)" by (rule assms(2)[OF Cons.prems])
    fix t assume "f x s = Inr t"
    then show "defined (forR f xs t)" by (intro Cons.IH assms(3)[OF Cons.prems])
  qed
qed simp

lemma events_ok:
  assumes "bus_ok b"
  shows "defined (forR handle_event evs b)" and "forR handle_event evs b = Inr b' \<Longrightarrow> bus_ok b'"
proof -
  show "defined (forR handle_event evs b)"
    by (rule forR_defined[of bus_ok, OF assms]) (auto intro: handle_event_ok)
  show "forR handle_event evs b = Inr b' \<Longrightarrow> bus_ok b'"
    using forR_invariant[of handle_event evs b b' bus_ok] assms handle_event_ok(2) by blast
qed

lemma get_time_bus_ok: "bus_ok b \<Longrightarrow> get_time b = (t, b') \<Longrightarrow> bus_ok b'"
  using get_time_frame[of b] by (auto simp: bus_ok_def)

lemma vga_update_ok: "bus_ok b \<Longrightarrow> bus_ok (vga_update_screen b)"
  by (simp add: vga_update_screen_def update_screen_def bus_ok_def reg_set_def)

lemma device_update_ok:
  assumes "bus_ok b"
  shows "defined (device_update b)" and "device_update b = Inr b' \<Longrightarrow> bus_ok b'"
proof -
  obtain now b1 where t: "get_time b = (now, b1)" by (rule prod.exhaust)
  have ok1: "bus_ok b1" by (rule get_time_bus_ok[OF assms t])
  have ok2: "bus_ok ((if c then vga_update_screen (b1\<lparr>dev_last := now\<rparr>) else b1\<lparr>dev_last := now\<rparr>)\<lparr>sdl_events := []\<rparr>)" for c
    using ok1 vga_update_ok[of "b1\<lparr>dev_last := now\<rparr>"] by (auto simp: bus_ok_def)
  show "defined (device_update b)"
    using events_ok(1)[OF ok2[of True]] events_ok(1)[OF ok2[of False]]
    by (auto simp: device_update_def t Let_def)
  show "device_update b = Inr b' \<Longrightarrow> bus_ok b'"
    using ok1 events_ok(2)[OF ok2[of True]] events_ok(2)[OF ok2[of False]]
    by (auto simp: device_update_def t Let_def split: if_splits)
qed

lemma alarm_ok: "bus_ok b \<Longrightarrow> bus_ok (alarm_sig_handler b)"
proof -
  have "call_handler h b = b" for h b by (cases h) (simp add: timer_intr_def dev_raise_intr_def)
  then have "fold call_handler hs b = b" for hs b by (induction hs) simp_all
  then show "bus_ok b \<Longrightarrow> bus_ok (alarm_sig_handler b)" by (simp add: alarm_sig_handler_def)
qed

lemma bus_step_ok:
  assumes "bus_ok b"
  shows "bus_step x b = Inr b' \<Longrightarrow> bus_ok b'"
    and "defined (bus_step x b) \<longleftrightarrow> \<not> op_crosses_end x"
proof -
  show "bus_step x b = Inr b' \<Longrightarrow> bus_ok b'"
    using paddr_read_ok(2)[OF assms] paddr_write_ok(2)[OF assms] device_update_ok(2)[OF assms] alarm_ok[OF assms]
    by (cases x) (auto simp: res_elims)
  show "defined (bus_step x b) \<longleftrightarrow> \<not> op_crosses_end x"
  proof (cases x)
    case (BRead addr len)
    then show ?thesis using paddr_read_ok(1)[OF assms, of addr len]
      by (cases "paddr_read addr len b") (auto simp: defined_def)
  qed (use paddr_write_ok(1)[OF assms] device_update_ok(1)[OF assms] in auto)
qed

text \<open>
  C12. The devices come up and the address space is safe. For every configuration, from the
  static initial state, \<open>init_device\<close> reports no overlap and no exhausted table, and puts every
  device of the configuration at its address. From there, after any sequence of loads, stores,
  polls and alarms of any address and length that has not aborted, no further one makes an
  access outside the host's arrays, except a load or store in pmem that crosses its end, which
  always does, because \<open>in_pmem\<close> looks at the first byte only.
\<close>

theorem devices_memory_safe:
  assumes "bus_initial b0"
  shows "\<exists>b. init_device sdl img b0 = Inr b \<and> devices_ok (conf b) b \<and>
     (\<forall>ops b'. forR bus_step ops b = Inr b' \<longrightarrow>
        (\<forall>op. (\<exists>t. bus_step op b' = Inl (Undef t)) \<longleftrightarrow> op_crosses_end op))"
proof -
  obtain b where b: "init_device sdl img b0 = Inr b" "bus_ok b" "devices_ok (conf b) b"
    using init_device_ok[OF assms] by blast
  have "bus_ok b'" if "forR bus_step ops b = Inr b'" for ops b'
    using forR_invariant[OF that, of bus_ok] b(2) bus_step_ok(1) by blast
  then have "(\<exists>t. bus_step op b' = Inl (Undef t)) \<longleftrightarrow> op_crosses_end op" if "forR bus_step ops b = Inr b'" for ops b' op
    using bus_step_ok(2)[of b' op] that by (auto simp: defined_def)
  with b(1,3) show ?thesis by blast
qed

lemma static_bus_initial: "bus_initial (static_bus c mem rd)"
  by (simp add: static_bus_def bus_initial_def static_kbd_def)

theorem devices_memory_safe_witness:
  "\<exists>b. init_device (\<lambda>_. 0) None (static_bus full_conf (\<lambda>_. 0) of_nat) = Inr b \<and>
     (\<exists>t. bus_step (BRead 0x87fffffd 4) b = Inl (Undef t)) \<and>
     \<not> (\<exists>t. bus_step (BWrite 0xa1000000 4 7) b = Inl (Undef t))"
proof -
  obtain b where b: "init_device (\<lambda>_. 0) None (static_bus full_conf (\<lambda>_. 0) of_nat) = Inr b"
    "\<forall>ops b'. forR bus_step ops b = Inr b' \<longrightarrow>
        (\<forall>op. (\<exists>t. bus_step op b' = Inl (Undef t)) \<longleftrightarrow> op_crosses_end op)"
    using devices_memory_safe[OF static_bus_initial[of full_conf "\<lambda>_. 0" of_nat], of "\<lambda>_. 0" None] by blast
  from b(2)[rule_format, of "[]" b]
  have "(\<exists>t. bus_step op b = Inl (Undef t)) \<longleftrightarrow> op_crosses_end op" for op by simp
  moreover have "op_crosses_end (BRead 0x87fffffd 4)" "\<not> op_crosses_end (BWrite 0xa1000000 4 7)"
    by (simp_all add: crosses_end_def in_pmem_def guest_to_host_def)
  ultimately show ?thesis using b(1) by blast
qed

section \<open>Byte order\<close>

lemma le_word_Cons: "(le_word (c # cs) :: u32) = of_nat (unat c) + 256 * le_word cs"
proof -
  have 1: "(ucast c :: u32) OR push_bit 8 (le_word cs) = ucast c + push_bit 8 (le_word cs)"
    by (rule sym, rule disjunctive_add) (auto simp: bit_simps dest: bit_imp_le_length)
  have 2: "(of_nat (unat c) :: u32) = ucast c" by (rule of_nat_unat)
  have 3: "push_bit 8 (le_word cs :: u32) = 256 * le_word cs" by (simp add: push_bit_eq_mult mult.commute)
  show ?thesis unfolding le_word.simps(2) using 1 unfolding 2 3 .
qed

lemma le_word_sum: "(le_word bs :: u32) = of_nat (\<Sum>i<length bs. unat (bs ! i) * 256 ^ i)"
proof (induction bs)
  case (Cons c cs)
  have "(\<Sum>i<length (c # cs). unat ((c # cs) ! i) * 256 ^ i) = unat c + 256 * (\<Sum>i<length cs. unat (cs ! i) * 256 ^ i)"
    by (simp add: sum.lessThan_Suc_shift sum_distrib_left mult.left_commute mult.assoc del: sum.lessThan_Suc)
  then show ?case unfolding le_word_Cons Cons.IH by (simp only: of_nat_add of_nat_mult of_nat_numeral)
qed simp

lemma le_bytes_nth: "i < n \<Longrightarrow> le_bytes n (w :: u32) ! i = ucast (drop_bit (8 * i) w)"
proof (induction n w arbitrary: i rule: le_bytes.induct)
  case (2 n w)
  then show ?case by (cases i) (simp_all add: drop_bit_drop_bit add.commute)
qed simp

lemma pmem_read_bytes:
  assumes "in_pmem a" "n \<in> {1, 2, 4}" "\<not> crosses_end a n"
  shows "paddr_read a n b = Inr (of_nat (\<Sum>i<n. unat (pmem b (nat (guest_to_host a) + i)) * 256 ^ i), b)"
proof -
  have "host_read CONFIG_MSIZE (pmem b) (guest_to_host a) n = Inr (le_word (load_bytes (pmem b) (nat (guest_to_host a)) n))"
    using assms by (auto simp: host_read_def crosses_end_def in_pmem_iff)
  then show ?thesis using assms(1) by (simp add: paddr_read_def pmem_read_def le_word_sum load_bytes_nth)
qed

lemma host_write_bytes:
  "host_write sz m off len data = Inr m' \<Longrightarrow> i < len \<Longrightarrow> m' (nat off + i) = ucast (drop_bit (8 * i) data)"
  by (auto simp: host_write_Inr store_bytes_apply le_bytes_nth simp del: store_bytes.simps le_bytes.simps)

text \<open>
  C30. Memory behaves as little endian byte memory: a store to pmem that does not cross its end
  succeeds and puts byte i of the data (bits 8 i to 8 i + 7) at the i-th byte of the place, and
  every byte of pmem outside it is unchanged; any load of 1, 2 or 4 bytes afterwards returns the
  number whose digits to base 256, lowest first, are the bytes of the place; a load of the stored place and length
  returns the stored value cut to the length; a load of pmem bytes that do not overlap the store
  is as before; a load changes nothing; and an access that reaches a device changes no byte of pmem.
\<close>

theorem paddr_memory:
  assumes "in_pmem addr" and "len \<in> {1, 2, 4}" and "\<not> crosses_end addr len"
  shows "\<exists>b'. paddr_write addr len data b = Inr b' \<and>
     (\<forall>i < len. pmem b' (nat (guest_to_host addr) + i) = ucast (drop_bit (8 * i) data)) \<and>
     (\<forall>x. int x < guest_to_host addr \<or> guest_to_host addr + int len \<le> int x \<longrightarrow> pmem b' x = pmem b x) \<and>
     (\<forall>a n. in_pmem a \<longrightarrow> n \<in> {1, 2, 4} \<longrightarrow> \<not> crosses_end a n \<longrightarrow>
        paddr_read a n b' = Inr (of_nat (\<Sum>i<n. unat (pmem b' (nat (guest_to_host a) + i)) * 256 ^ i), b')) \<and>
     paddr_read addr len b' = Inr (take_bit (8 * len) data, b') \<and>
     (\<forall>a n. in_pmem a \<longrightarrow> uint a + int n \<le> uint addr \<or> uint addr + int len \<le> uint a \<longrightarrow>
        map_sum id fst (paddr_read a n b') = map_sum id fst (paddr_read a n b)) \<and>
     (\<forall>a n v b''. bus_ok b' \<longrightarrow> paddr_read a n b' = Inr (v, b'') \<longrightarrow> pmem b'' = pmem b') \<and>
     (\<forall>a n v b''. bus_ok b' \<longrightarrow> \<not> in_pmem a \<longrightarrow> paddr_write a n v b' = Inr b'' \<longrightarrow> pmem b'' = pmem b')"
proof -
  obtain m where m: "host_write CONFIG_MSIZE (pmem b) (guest_to_host addr) len data = Inr m"
    using assms by (auto simp: host_write_def crosses_end_def in_pmem_iff)
  let ?b = "b\<lparr>pmem := m\<rparr>"
  have w: "paddr_write addr len data b = Inr ?b"
    using assms(1) m by (simp add: paddr_write_def pmem_write_def)
  moreover have "paddr_read addr len ?b = Inr (take_bit (8 * len) data, ?b)"
    using assms(1) host_read_write_same[OF m] by (simp add: paddr_read_def pmem_read_def)
  moreover have "\<forall>i < len. pmem ?b (nat (guest_to_host addr) + i) = ucast (drop_bit (8 * i) data)"
    using host_write_bytes[OF m] by simp
  moreover have "\<forall>a n. in_pmem a \<longrightarrow> n \<in> {1, 2, 4} \<longrightarrow> \<not> crosses_end a n \<longrightarrow>
      paddr_read a n ?b = Inr (of_nat (\<Sum>i<n. unat (pmem ?b (nat (guest_to_host a) + i)) * 256 ^ i), ?b)"
    using pmem_read_bytes by blast
  moreover have "map_sum id fst (paddr_read a n ?b) = map_sum id fst (paddr_read a n b)"
    if "in_pmem a" "uint a + int n \<le> uint addr \<or> uint addr + int len \<le> uint a" for a n
    using host_read_write_disjoint[OF m, of "guest_to_host a" n] that
    by (cases "host_read CONFIG_MSIZE (pmem b) (guest_to_host a) n")
       (auto simp: paddr_read_def pmem_read_def guest_to_host_def)
  moreover have "\<forall>x. int x < guest_to_host addr \<or> guest_to_host addr + int len \<le> int x \<longrightarrow> pmem ?b x = pmem b x"
    using host_write_frame[OF m] by simp
  moreover have "pmem b'' = pmem ?b" if "bus_ok ?b" "paddr_read a n ?b = Inr (v, b'')" for a n v b''
    using paddr_read_ok(2)[OF that] by (simp add: bus_frame_def)
  moreover have "pmem b'' = pmem ?b" if "bus_ok ?b" "\<not> in_pmem a" "paddr_write a n v ?b = Inr b''" for a n v b''
    using paddr_write_ok(2)[OF that(1,3)] that(2) by blast
  ultimately show ?thesis by blast
qed

theorem paddr_memory_witness:
  "\<exists>b'. paddr_write 0x80000102 2 0x12345678 (static_bus full_conf (\<lambda>_. 0xff) of_nat) = Inr b' \<and>
     paddr_read 0x80000102 2 b' = Inr (0x5678, b') \<and> pmem b' 0x102 = 0x78 \<and> pmem b' 0x103 = 0x56 \<and> pmem b' 0x104 = 0xff"
proof -
  let ?b = "static_bus full_conf (\<lambda>_. 0xff) of_nat"
  have g: "in_pmem 0x80000102" "(2 :: nat) \<in> {1, 2, 4}" "\<not> crosses_end 0x80000102 2" "guest_to_host 0x80000102 = 0x102"
    by (simp_all add: in_pmem_def crosses_end_def guest_to_host_def)
  from paddr_memory[OF g(1-3), of "0x12345678" ?b, unfolded g(4)]
  obtain b' where w: "paddr_write 0x80000102 2 0x12345678 ?b = Inr b'"
    and bytes: "\<forall>i < 2. pmem b' (nat 0x102 + i) = ucast (drop_bit (8 * i) (0x12345678 :: u32))"
    and rest: "\<forall>x. int x < 0x102 \<or> 0x102 + int 2 \<le> int x \<longrightarrow> pmem b' x = pmem ?b x"
    and r: "paddr_read 0x80000102 2 b' = Inr (take_bit (8 * 2) 0x12345678, b')" by blast
  have "pmem b' 0x102 = 0x78" "pmem b' 0x103 = 0x56" "pmem b' 0x104 = 0xff"
    using bytes[rule_format, of 0] bytes[rule_format, of 1] rest[rule_format, of "0x104"] by (simp_all add: static_bus_def)
  moreover have "take_bit (8 * 2) (0x12345678 :: u32) = 0x5678" by simp
  ultimately show ?thesis using w r by simp
qed

end
