(* ===== verification/AmIoe.thy ===== *)
theory AmIoe
  imports BusProps
begin

text \<open>
  The AM side of the devices: \<open>abstract-machine/am/src/platform/nemu\<close>. The driver code runs on
  the guest, so its volatile accesses \<open>inb .. outl\<close> are physical memory accesses of NEMU's bus
  (no address translation); each theorem here spans the driver and the device.
\<close>

section \<open>Port access\<close>

definition inb :: "u32 \<Rightarrow> bus \<Rightarrow> (u8 \<times> bus) res" where
  "inb addr b = bindR (paddr_read addr 1 b) (\<lambda>(v, b'). Inr (ucast v, b'))"

definition inw :: "u32 \<Rightarrow> bus \<Rightarrow> (u16 \<times> bus) res" where
  "inw addr b = bindR (paddr_read addr 2 b) (\<lambda>(v, b'). Inr (ucast v, b'))"

definition inl :: "u32 \<Rightarrow> bus \<Rightarrow> (u32 \<times> bus) res" where
  "inl addr b = paddr_read addr 4 b"

definition outb :: "u32 \<Rightarrow> u8 \<Rightarrow> bus \<Rightarrow> bus res" where
  "outb addr data b = paddr_write addr 1 (ucast data) b"

definition outw :: "u32 \<Rightarrow> u16 \<Rightarrow> bus \<Rightarrow> bus res" where
  "outw addr data b = paddr_write addr 2 (ucast data) b"

definition outl :: "u32 \<Rightarrow> u32 \<Rightarrow> bus \<Rightarrow> bus res" where
  "outl addr data b = paddr_write addr 4 data b"

abbreviation (input) SERIAL_PORT :: u32 where "SERIAL_PORT \<equiv> 0xa00003f8"
abbreviation (input) KBD_ADDR :: u32 where "KBD_ADDR \<equiv> 0xa0000060"
abbreviation (input) RTC_ADDR :: u32 where "RTC_ADDR \<equiv> 0xa0000048"
abbreviation (input) VGACTL_ADDR :: u32 where "VGACTL_ADDR \<equiv> 0xa0000100"
abbreviation (input) SYNC_ADDR :: u32 where "SYNC_ADDR \<equiv> 0xa0000104"
abbreviation (input) AUDIO_ADDR :: u32 where "AUDIO_ADDR \<equiv> 0xa0000200"
abbreviation (input) FB_ADDR :: u32 where "FB_ADDR \<equiv> 0xa1000000"
abbreviation (input) AUDIO_SBUF_ADDR :: u32 where "AUDIO_SBUF_ADDR \<equiv> 0xa1200000"

section \<open>Serial output\<close>

definition putch :: "u8 \<Rightarrow> bus \<Rightarrow> bus res" where
  "putch ch b = outb SERIAL_PORT ch b"

text \<open>\<open>putstr\<close> on the characters before the terminator.\<close>

definition putstr :: "u8 list \<Rightarrow> bus \<Rightarrow> bus res" where
  "putstr s b = forR putch (takeWhile (\<lambda>c. c \<noteq> 0) s) b"

section \<open>Timer\<close>

definition am_get_time :: "bus \<Rightarrow> (u64 \<times> bus) res" where
  "am_get_time b =
     bindR (inl RTC_ADDR b) (\<lambda>(lo, b1).
     bindR (inl (RTC_ADDR + 4) b1) (\<lambda>(hi, b2).
       Inr (push_bit 32 (ucast hi) + ucast lo, b2)))"

text \<open>The static \<open>boot_time\<close> of the driver is passed in and out.\<close>

definition am_timer_init :: "bus \<Rightarrow> (u64 \<times> bus) res" where
  "am_timer_init b = am_get_time b"

definition am_timer_uptime :: "u64 \<Rightarrow> bus \<Rightarrow> (u64 \<times> bus) res" where
  "am_timer_uptime am_boot b = bindR (am_get_time b) (\<lambda>(t, b'). Inr (t - am_boot, b'))"

record am_rtc = rtc_year :: int rtc_month :: int rtc_day :: int rtc_hour :: int rtc_minute :: int rtc_second :: int

definition am_timer_rtc :: am_rtc where
  "am_timer_rtc = \<lparr>rtc_year = 1900, rtc_month = 0, rtc_day = 0, rtc_hour = 0, rtc_minute = 0, rtc_second = 0\<rparr>"

section \<open>Keyboard\<close>

text \<open>\<open>temp_data & ~KEYDOWN_MASK\<close> is an \<open>int\<close> operation: the mask is the int 0x8000.\<close>

definition am_input_keybrd :: "bus \<Rightarrow> ((int \<times> bool) \<times> bus) res" where
  "am_input_keybrd b =
     bindR (inl KBD_ADDR b) (\<lambda>(temp_data, b').
       Inr ((sint (temp_data AND NOT 0x8000), temp_data \<ge> 0x8000), b'))"

section \<open>Screen\<close>

record am_gpu_config =
  gpu_present :: bool
  gpu_has_accel :: bool
  gpu_width :: int
  gpu_height :: int
  gpu_vmemsz :: int

definition am_gpu_config :: "bus \<Rightarrow> (am_gpu_config \<times> bus) res" where
  "am_gpu_config b =
     bindR (inl VGACTL_ADDR b) (\<lambda>(wh, b').
       let w = drop_bit 16 wh; h = wh AND 0xffff
       in Inr (\<lparr>gpu_present = True, gpu_has_accel = False, gpu_width = sint w, gpu_height = sint h,
                gpu_vmemsz = sint (w * h * 4)\<rparr>, b'))"

definition am_gpu_init :: "bus \<Rightarrow> bus res" where
  "am_gpu_init b =
     bindR (inw VGACTL_ADDR b) (\<lambda>(h, b1).
     bindR (inw (VGACTL_ADDR + 2) b1) (\<lambda>(w, b2).
     bindR (forR (\<lambda>i. outl (FB_ADDR + of_nat i * 4) 0) [0..<unat w * unat h] b2)
       (outl SYNC_ADDR 1)))"

record am_fbdraw =
  fb_x :: int
  fb_y :: int
  fb_pixels :: u32
  fb_w :: int
  fb_h :: int
  fb_sync :: bool

text \<open>
  The address of a pixel is computed in \<open>uint32_t\<close>; \<open>pixels[k]\<close> is a load of the guest.
\<close>

definition draw_pixel :: "am_fbdraw \<Rightarrow> u32 \<Rightarrow> int \<Rightarrow> int \<Rightarrow> bus \<Rightarrow> bus res" where
  "draw_pixel ctl screen_w i j b =
     bindR (inl (fb_pixels ctl + word_of_int (4 * (fb_w ctl * (i - fb_y ctl) + (j - fb_x ctl)))) b) (\<lambda>(px, b').
       outl (FB_ADDR + (word_of_int i * screen_w + word_of_int j) * 4) px b')"

definition am_gpu_fbdraw :: "am_fbdraw \<Rightarrow> bus \<Rightarrow> bus res" where
  "am_gpu_fbdraw ctl b =
     (if \<not> fb_sync ctl \<and> (fb_w ctl = 0 \<or> fb_h ctl = 0) then Inr b
      else bindR (inl VGACTL_ADDR b) (\<lambda>(wh, b1).
        let screen_w = drop_bit 16 wh
        in bindR (forR (\<lambda>i. forR (\<lambda>j. draw_pixel ctl screen_w i j) [fb_x ctl..fb_x ctl + fb_w ctl - 1])
                    [fb_y ctl..fb_y ctl + fb_h ctl - 1] b1) (\<lambda>b2.
           if fb_sync ctl then outl SYNC_ADDR 1 b2 else Inr b2)))"

section \<open>Audio\<close>

definition am_audio_init :: "bus \<Rightarrow> bus res" where
  "am_audio_init b = outl (AUDIO_ADDR + 0x10) 0 b"

definition am_audio_config :: "bus \<Rightarrow> ((bool \<times> int) \<times> bus) res" where
  "am_audio_config b = bindR (inl (AUDIO_ADDR + 0x0c) b) (\<lambda>(n, b'). Inr ((True, sint n), b'))"

definition am_audio_ctrl :: "int \<Rightarrow> int \<Rightarrow> int \<Rightarrow> bus \<Rightarrow> bus res" where
  "am_audio_ctrl freq channels samples b =
     bindR (outl (AUDIO_ADDR + 0x00) (word_of_int freq) b) (\<lambda>b1.
     bindR (outl (AUDIO_ADDR + 0x04) (word_of_int channels) b1) (\<lambda>b2.
     bindR (outl (AUDIO_ADDR + 0x08) (word_of_int samples) b2) (\<lambda>b3.
       outl (AUDIO_ADDR + 0x10) 1 b3)))"

definition am_audio_status :: "bus \<Rightarrow> (int \<times> bus) res" where
  "am_audio_status b = bindR (inl (AUDIO_ADDR + 0x14) b) (\<lambda>(n, b'). Inr (sint n, b'))"

text \<open>
  The inner loop of \<open>__am_audio_play\<close>: bytes go to the stream buffer until the data or the
  buffer ends; the bytes not yet written are returned.
\<close>

fun audio_fill :: "int \<Rightarrow> int \<Rightarrow> u8 list \<Rightarrow> bus \<Rightarrow> (int \<times> u8 list \<times> bus) res" where
  "audio_fill block_size count [] b = Inr (count, [], b)"
| "audio_fill block_size count (c # cs) b =
     (if count < block_size then
        bindR (outb (AUDIO_SBUF_ADDR + word_of_int count) c b) (audio_fill block_size (count + 1) cs)
      else Inr (count, c # cs, b))"

text \<open>
  One round of the outer loop. \<open>None\<close> is a busy wait: the queue is full and the loop reads the
  count again.
\<close>

definition audio_play_round :: "int \<Rightarrow> u8 list \<Rightarrow> bus \<Rightarrow> (u8 list option \<times> bus) res" where
  "audio_play_round block_size bytes b =
     bindR (inl (AUDIO_ADDR + 0x14) b) (\<lambda>(n, b1).
       let count = sint n
       in if count = block_size then Inr (None, b1)
          else bindR (audio_fill block_size count bytes b1) (\<lambda>(count', rest, b2).
               bindR (outl (AUDIO_ADDR + 0x14) (word_of_int count') b2) (\<lambda>b3. Inr (Some rest, b3))))"

text \<open>
  The outer loop does not end by itself when the queue stays full: it runs on fuel, and
  between two rounds the sound thread may run (\<open>env\<close>).
\<close>

fun audio_play_loop :: "nat \<Rightarrow> (bus \<Rightarrow> bus res) \<Rightarrow> int \<Rightarrow> u8 list \<Rightarrow> bus \<Rightarrow> bus res option" where
  "audio_play_loop fuel env block_size [] b = Some (Inr b)"
| "audio_play_loop 0 env block_size (c # cs) b = None"
| "audio_play_loop (Suc n) env block_size (c # cs) b =
     (case audio_play_round block_size (c # cs) b of
        Inl e \<Rightarrow> Some (Inl e)
      | Inr (rest, b1) \<Rightarrow>
          (case env b1 of Inl e \<Rightarrow> Some (Inl e)
           | Inr b2 \<Rightarrow> audio_play_loop n env block_size (case rest of None \<Rightarrow> c # cs | Some cs' \<Rightarrow> cs') b2))"

definition am_audio_play :: "nat \<Rightarrow> (bus \<Rightarrow> bus res) \<Rightarrow> u8 list \<Rightarrow> bus \<Rightarrow> bus res option" where
  "am_audio_play fuel env bytes b =
     (case inl (AUDIO_ADDR + 0x0c) b of
        Inl e \<Rightarrow> Some (Inl e)
      | Inr (n, b1) \<Rightarrow> audio_play_loop fuel env (sint n) bytes b1)"

section \<open>The register table\<close>

text \<open>
  \<open>ioe_read\<close> and \<open>ioe_write\<close> both call the entry of the table; a register without an entry
  panics. The parameter block is a value: what the handler reads is its argument, what it
  writes its result.
\<close>

datatype am_param =
  PNone
| PBool bool
| PTimerConfig bool bool
| PRtc am_rtc
| PUptime u64
| PKey "int \<times> bool"
| PGpuConfig am_gpu_config
| PFbDraw am_fbdraw
| PAudioConfig "bool \<times> int"
| PAudioCtrl int int int
| PAudioStatus int
| PAudioPlay "u8 list"

definition ret :: "('a \<Rightarrow> am_param) \<Rightarrow> ('a \<times> bus) res \<Rightarrow> (am_param \<times> bus) res" where
  "ret f r = bindR r (\<lambda>(v, b). Inr (f v, b))"

definition ioe_call :: "nat \<Rightarrow> (bus \<Rightarrow> bus res) \<Rightarrow> u64 \<Rightarrow> nat \<Rightarrow> am_param \<Rightarrow> bus \<Rightarrow> (am_param \<times> bus) res option" where
  "ioe_call fuel env am_boot reg p b =
     (if reg = 4 then Some (Inr (PTimerConfig True True, b))
      else if reg = 5 then Some (Inr (PRtc am_timer_rtc, b))
      else if reg = 6 then Some (ret PUptime (am_timer_uptime am_boot b))
      else if reg = 7 then Some (Inr (PBool True, b))
      else if reg = 8 then Some (ret PKey (am_input_keybrd b))
      else if reg = 9 then Some (ret PGpuConfig (am_gpu_config b))
      else if reg = 11 then
        (case p of PFbDraw ctl \<Rightarrow> Some (bindR (am_gpu_fbdraw ctl b) (\<lambda>b'. Inr (p, b')))
         | _ \<Rightarrow> Some (Inl (Undef ''parameter block'')))
      else if reg = 10 then Some (Inr (PBool True, b))
      else if reg = 1 then Some (Inr (PBool False, b))
      else if reg = 14 then Some (ret PAudioConfig (am_audio_config b))
      else if reg = 15 then
        (case p of PAudioCtrl f c s \<Rightarrow> Some (bindR (am_audio_ctrl f c s b) (\<lambda>b'. Inr (p, b')))
         | _ \<Rightarrow> Some (Inl (Undef ''parameter block'')))
      else if reg = 16 then Some (ret PAudioStatus (am_audio_status b))
      else if reg = 17 then
        (case p of PAudioPlay bytes \<Rightarrow> map_option (\<lambda>r. bindR r (\<lambda>b'. Inr (p, b'))) (am_audio_play fuel env bytes b)
         | _ \<Rightarrow> Some (Inl (Undef ''parameter block'')))
      else if reg = 18 then Some (Inr (PBool False, b))
      else if reg = 19 \<or> reg = 20 then Some (Inr (p, b))
      else if reg = 21 then Some (Inr (PBool False, b))
      else if reg < 128 then Some (Inl (Panic ''access nonexist register''))
      else Some (Inl (Undef ''lut: read outside the array'')))"

definition ioe_init :: "bus \<Rightarrow> (u64 \<times> bus) res" where
  "ioe_init b =
     bindR (am_gpu_init b) (\<lambda>b1.
     bindR (am_timer_init b1) (\<lambda>(am_boot, b2).
     bindR (am_audio_init b2) (\<lambda>b3. Inr (am_boot, b3))))"

end
