(* ===== verification/AmKeys.thy ===== *)
theory AmKeys
  imports Devices
begin

text \<open>
  The key codes of the abstract machine, \<open>abstract-machine/am/include/amdev.h\<close>, which every keyboard driver
  reports, and the agreement with the keys of NEMU's own keyboard.
\<close>

section \<open>Key codes\<close>

text \<open>The key names of \<open>amdev.h\<close>; the enumerator \<open>AM_KEY_k\<close> counts from 1, after \<open>AM_KEY_NONE\<close>.\<close>

definition AM_KEYS :: "string list" where
  "AM_KEYS = [''ESCAPE'', ''F1'', ''F2'', ''F3'', ''F4'', ''F5'', ''F6'', ''F7'', ''F8'', ''F9'', ''F10'', ''F11'', ''F12'',
    ''GRAVE'', ''1'', ''2'', ''3'', ''4'', ''5'', ''6'', ''7'', ''8'', ''9'', ''0'', ''MINUS'', ''EQUALS'', ''BACKSPACE'',
    ''TAB'', ''Q'', ''W'', ''E'', ''R'', ''T'', ''Y'', ''U'', ''I'', ''O'', ''P'', ''LEFTBRACKET'', ''RIGHTBRACKET'', ''BACKSLASH'',
    ''CAPSLOCK'', ''A'', ''S'', ''D'', ''F'', ''G'', ''H'', ''J'', ''K'', ''L'', ''SEMICOLON'', ''APOSTROPHE'', ''RETURN'',
    ''LSHIFT'', ''Z'', ''X'', ''C'', ''V'', ''B'', ''N'', ''M'', ''COMMA'', ''PERIOD'', ''SLASH'', ''RSHIFT'',
    ''LCTRL'', ''APPLICATION'', ''LALT'', ''SPACE'', ''RALT'', ''RCTRL'',
    ''UP'', ''DOWN'', ''LEFT'', ''RIGHT'', ''INSERT'', ''DELETE'', ''HOME'', ''END'', ''PAGEUP'', ''PAGEDOWN'']"

text \<open>NEMU's keyboard numbers the keys as the abstract machine does.\<close>

lemma AM_KEYS_nemu: "AM_KEYS = KEYS"
  unfolding AM_KEYS_def KEYS_def by (rule refl)

definition am_keycode :: "string \<Rightarrow> int" where
  "am_keycode name = (case find (\<lambda>i. AM_KEYS ! i = name) [0..<length AM_KEYS] of Some i \<Rightarrow> int i + 1 | None \<Rightarrow> 0)"

lemma AM_KEYS_distinct: "distinct AM_KEYS"
  by (simp add: AM_KEYS_def)

lemma find_index:
  assumes "distinct xs" "i < length xs"
  shows "find (\<lambda>j. xs ! j = xs ! i) [0..<length xs] = Some i"
  using assms by (auto simp: find_Some_iff nth_eq_iff_index_eq intro!: exI[of _ i])

lemma am_keycode_nth: "i < length AM_KEYS \<Longrightarrow> am_keycode (AM_KEYS ! i) = int i + 1"
  by (simp add: am_keycode_def find_index[OF AM_KEYS_distinct])

end
