(* ===== verification/KeyQueue.thy ===== *)
theory KeyQueue
  imports BusProps
begin

text \<open>
  The key queue of \<open>nemu/src/device/keyboard.c\<close> meets the contract of a bounded FIFO: the
  circular array of 1024 cells holds at most 1023 keys, and the assertion of
  \<open>key_enqueue\<close> fires just when one more is sent.
\<close>

definition kbd_used :: "keyboard \<Rightarrow> nat" where
  "kbd_used k = (if key_f k \<le> key_r k then key_r k - key_f k else key_r k + KEY_QUEUE_LEN - key_f k)"

definition kbd_contents :: "keyboard \<Rightarrow> u32 list" where
  "kbd_contents k = circ (key_queue k) (key_f k) (kbd_used k)"

definition kbd_room :: "keyboard \<Rightarrow> nat" where
  "kbd_room k = KEY_QUEUE_LEN - 1 - kbd_used k"

definition kbd_push :: "u32 list \<Rightarrow> keyboard \<Rightarrow> keyboard res" where
  "kbd_push xs k = forR key_enqueue xs k"

fun kbd_pop :: "nat \<Rightarrow> keyboard \<Rightarrow> (u32 list \<times> keyboard) res" where
  "kbd_pop 0 k = Inr ([], k)"
| "kbd_pop (Suc n) k = bindR (key_dequeue k) (\<lambda>(x, k1). bindR (kbd_pop n k1) (\<lambda>(xs, k2). Inr (x # xs, k2)))"

lemma length_kbd_contents [simp]: "length (kbd_contents k) = kbd_used k"
  by (simp add: kbd_contents_def)

lemma kbd_used_lt: "kbd_ok k \<Longrightarrow> kbd_used k < 1024"
  by (auto simp: kbd_ok_def kbd_used_def)

lemma kbd_used_mod: "kbd_ok k \<Longrightarrow> (key_f k + kbd_used k) mod 1024 = key_r k"
  by (auto simp: kbd_ok_def kbd_used_def)

lemma circ_put_single:
  assumes "0 < length xs"
  shows "circ_put xs s [b] = xs[s mod length xs := b]"
proof -
  have lt: "s mod length xs < length xs" using assms by simp
  then have "min (length [b]) (length xs - s mod length xs) = 1" by simp
  then show ?thesis
    using lt by (simp add: circ_put_def Let_def upd_conv_take_nth_drop)
qed

lemma circ_update:
  assumes "kbd_ok k" and "kbd_used k < 1023"
  shows "circ ((key_queue k)[key_r k := x]) (key_f k) (kbd_used k + 1) = kbd_contents k @ [x]"
proof -
  have len: "length (key_queue k) = 1024" using assms(1) by (simp add: kbd_ok_def)
  have "(key_queue k)[key_r k := x] = circ_put (key_queue k) (key_f k + kbd_used k) [x]"
    using circ_put_single[of "key_queue k" "key_f k + kbd_used k" x] len kbd_used_mod[OF assms(1)] by simp
  then show ?thesis
    using circ_circ_put[of "kbd_used k" "[x]" "key_queue k" "key_f k"] len assms(2)
    by (simp add: kbd_contents_def)
qed

lemma key_enqueue_spec:
  assumes ok: "kbd_ok k"
  shows "kbd_used k < 1023 \<Longrightarrow> \<exists>k'. key_enqueue x k = Inr k' \<and> kbd_ok k' \<and> kbd_contents k' = kbd_contents k @ [x] \<and>
      keymap k' = keymap k \<and> i8042_base k' = i8042_base k"
    and "kbd_used k = 1023 \<Longrightarrow> key_enqueue x k = Inl (Panic ''key queue overflow!'')"
proof -
  assume lt: "kbd_used k < 1023"
  let ?k = "k\<lparr>key_queue := (key_queue k)[key_r k := x], key_r := (key_r k + 1) mod 1024\<rparr>"
  have ne: "(key_r k + 1) mod 1024 \<noteq> key_f k" and used: "kbd_used ?k = kbd_used k + 1"
    using ok lt by (auto simp: kbd_ok_def kbd_used_def mod_Suc split: if_splits)
  have "kbd_contents ?k = kbd_contents k @ [x]"
    using circ_update[OF ok lt, of x] used by (simp add: kbd_contents_def)
  moreover have "key_enqueue x k = Inr ?k" using ok ne by (simp add: key_enqueue_def kbd_ok_def Let_def)
  moreover have "kbd_ok ?k" using ok by (simp add: kbd_ok_def)
  ultimately show "\<exists>k'. key_enqueue x k = Inr k' \<and> kbd_ok k' \<and> kbd_contents k' = kbd_contents k @ [x] \<and>
      keymap k' = keymap k \<and> i8042_base k' = i8042_base k"
    by auto
next
  assume "kbd_used k = 1023"
  then have "(key_r k + 1) mod 1024 = key_f k"
    using ok by (auto simp: kbd_ok_def kbd_used_def mod_Suc split: if_splits)
  then show "key_enqueue x k = Inl (Panic ''key queue overflow!'')"
    using ok by (simp add: key_enqueue_def kbd_ok_def Let_def)
qed

lemma key_dequeue_spec:
  assumes ok: "kbd_ok k"
  shows "\<exists>k'. key_dequeue k = Inr (case kbd_contents k of [] \<Rightarrow> 0 | x # _ \<Rightarrow> x, k') \<and> kbd_ok k' \<and>
     kbd_contents k' = tl (kbd_contents k) \<and> keymap k' = keymap k \<and> i8042_base k' = i8042_base k"
proof (cases "key_f k = key_r k")
  case True
  then have "kbd_contents k = []" by (simp add: kbd_contents_def kbd_used_def circ_def)
  with True ok show ?thesis by (simp add: key_dequeue_def)
next
  case False
  let ?k = "k\<lparr>key_f := (key_f k + 1) mod 1024\<rparr>"
  have len: "length (key_queue k) = 1024" using ok by (simp add: kbd_ok_def)
  have used: "kbd_used k = Suc (kbd_used ?k)"
    using ok False by (auto simp: kbd_ok_def kbd_used_def mod_Suc split: if_splits)
  have "kbd_contents k = circ (key_queue k) (key_f k) 1 @ circ (key_queue k) (key_f k + 1) (kbd_used ?k)"
    using circ_append[of "key_queue k" "key_f k" 1 "kbd_used ?k"] used by (simp add: kbd_contents_def)
  moreover have "circ (key_queue k) (key_f k) 1 = [key_queue k ! key_f k]"
    using ok by (simp add: circ_def kbd_ok_def)
  moreover have "circ (key_queue k) (key_f k + 1) n = circ (key_queue k) ((key_f k + 1) mod 1024) n" for n
    using len by (intro circ_cong) simp
  ultimately have "kbd_contents k = key_queue k ! key_f k # kbd_contents ?k"
    by (simp add: kbd_contents_def)
  moreover have "key_dequeue k = Inr (key_queue k ! key_f k, ?k)" using False ok by (simp add: key_dequeue_def kbd_ok_def)
  moreover have "kbd_ok ?k" using ok by (simp add: kbd_ok_def)
  ultimately show ?thesis by simp
qed

interpretation keys: bulk_fifo kbd_push kbd_pop kbd_contents kbd_room kbd_ok
proof
  fix k :: keyboard and xs :: "u32 list"
  assume "kbd_ok k" and "length xs \<le> kbd_room k"
  then show "\<exists>k'. kbd_push xs k = Inr k' \<and> kbd_ok k' \<and> kbd_contents k' = kbd_contents k @ xs \<and>
      kbd_room k' = kbd_room k - length xs"
  proof (induction xs arbitrary: k)
    case (Cons x xs)
    then have lt: "kbd_used k < 1023" by (simp add: kbd_room_def)
    then obtain k1 where k1: "key_enqueue x k = Inr k1" "kbd_ok k1" "kbd_contents k1 = kbd_contents k @ [x]"
      using key_enqueue_spec(1)[OF Cons.prems(1)] by blast
    have "kbd_used k1 = kbd_used k + 1" using arg_cong[OF k1(3), of length] by simp
    then have "kbd_room k1 = kbd_room k - 1" "length xs \<le> kbd_room k1" using Cons.prems(2) lt by (auto simp: kbd_room_def)
    with Cons.IH[OF k1(2)] k1 show ?case by (auto simp: kbd_push_def)
  qed (simp add: kbd_push_def)
next
  fix k :: keyboard and n :: nat
  assume "kbd_ok k" and "n \<le> length (kbd_contents k)"
  then show "\<exists>k'. kbd_pop n k = Inr (take n (kbd_contents k), k') \<and> kbd_ok k' \<and>
      kbd_contents k' = drop n (kbd_contents k) \<and> kbd_room k' = kbd_room k + n"
  proof (induction n arbitrary: k)
    case (Suc n)
    then obtain x xs where c: "kbd_contents k = x # xs" by (cases "kbd_contents k") auto
    obtain k1 where k1: "key_dequeue k = Inr (x, k1)" "kbd_ok k1" "kbd_contents k1 = xs"
      using key_dequeue_spec[OF Suc.prems(1)] c by auto
    have "kbd_used k = kbd_used k1 + 1"
      using arg_cong[OF c, of length] arg_cong[OF k1(3), of length] by simp
    then have "kbd_room k1 = kbd_room k + 1" using kbd_used_lt[OF Suc.prems(1)] by (simp add: kbd_room_def)
    moreover have "n \<le> length (kbd_contents k1)" using Suc.prems(2) c k1(3) by simp
    ultimately show ?case using Suc.IH[OF k1(2)] k1 c by auto
  qed simp
qed

end
