(* ===== verification/DemoBus.thy ===== *)
theory DemoBus
  imports BusProps
begin

text \<open>
  A concrete machine with every device at its place, of the shape \<open>init_device\<close> leaves, on which
  the theorems about devices are instantiated.
\<close>

definition demo_maps :: "iomap list" where
  "demo_maps =
     [\<lparr>im_name = ''serial'', im_low = 0xa00003f8, im_high = 0xa00003f8 + 8 - 1, im_space = 0, im_callback = CbSerial\<rparr>,
      \<lparr>im_name = ''rtc'', im_low = 0xa0000048, im_high = 0xa0000048 + 8 - 1, im_space = 4096, im_callback = CbRtc\<rparr>,
      \<lparr>im_name = ''vgactl'', im_low = 0xa0000100, im_high = 0xa0000100 + 8 - 1, im_space = 8192, im_callback = CbNone\<rparr>,
      \<lparr>im_name = ''vmem'', im_low = 0xa1000000, im_high = 0xa1000000 + 480000 - 1, im_space = 12288, im_callback = CbNone\<rparr>,
      \<lparr>im_name = ''keyboard'', im_low = 0xa0000060, im_high = 0xa0000060 + 4 - 1, im_space = 495616, im_callback = CbI8042\<rparr>,
      \<lparr>im_name = ''audio'', im_low = 0xa0000200, im_high = 0xa0000200 + 24 - 1, im_space = 499712, im_callback = CbAudio\<rparr>,
      \<lparr>im_name = ''audio-sbuf'', im_low = 0xa1200000, im_high = 0xa1200000 + 0x10000 - 1, im_space = 503808, im_callback = CbNone\<rparr>,
      \<lparr>im_name = ''sdhci'', im_low = 0xa3000000, im_high = 0xa3000000 + 0x80 - 1, im_space = 569344, im_callback = CbSdcard\<rparr>]"

definition demo_bus :: bus where
  "demo_bus = (static_bus full_conf (\<lambda>_. 0) (\<lambda>n. of_nat (1000 + 7 * n)))
     \<lparr>io_space := store_bytes (store_bytes (\<lambda>_. 0) 8192 (le_bytes 4 (push_bit 16 400 OR 300 :: u32)))
                    (499712 + 12) (le_bytes 4 (0x10000 :: u32)),
      p_space := 573440, mmio_maps := demo_maps,
      nemu_state := \<lparr>st_state = NEMU_RUNNING, halt_pc = 0, halt_ret = 0\<rparr>,
      clk := \<lparr>clk_read = (\<lambda>n. of_nat (1000 + 7 * n)), clk_ticks = 1, boot_time = 1000\<rparr>,
      serial_base := 0, rtc_base := 4096, vgactl_base := 8192, vmem := 12288,
      kbd := (init_keymap (\<lambda>s. of_nat (length (takeWhile (\<lambda>k. k \<noteq> s) KEYS)) + 4) static_kbd)\<lparr>i8042_base := 495616\<rparr>,
      aud := static_audio\<lparr>audio_base := 499712, sbuf := 503808\<rparr>,
      sd := static_sdcard\<lparr>sd_base := 569344, sd_fp := Some (replicate 4096 0xee, 0)\<rparr>\<rparr>"

fun apart_list :: "(u32 \<times> u32) list \<Rightarrow> bool" where
  "apart_list [] \<longleftrightarrow> True"
| "apart_list (r # rs) \<longleftrightarrow> list_all (apart r) rs \<and> apart_list rs"

lemma maps_disjoint_check: "apart_list (map range_of (rev ms)) \<Longrightarrow> maps_disjoint ms"
proof (induction ms rule: rev_induct)
  case (snoc m ms)
  then show ?case by (intro maps_disjoint_snoc) (auto simp: list_all_iff)
qed (simp add: maps_disjoint_def)

lemma demo_maps_disjoint: "maps_disjoint demo_maps"
  by (rule maps_disjoint_check) (simp add: demo_maps_def range_of_def apart_def)

lemma demo_maps_ok: "\<forall>m \<in> set demo_maps. map_ok 573440 m \<and> outside_pmem (range_of m)"
proof -
  have "list_all (\<lambda>m. map_ok 573440 m \<and> outside_pmem (range_of m)) demo_maps"
    by (simp add: demo_maps_def range_of_def map_ok_def outside_pmem_def)
  then show ?thesis by (simp add: list_all_iff)
qed

lemma demo_bus_simps:
  "mmio_maps demo_bus = demo_maps" "conf demo_bus = full_conf" "p_space demo_bus = 573440" "pio_maps demo_bus = []"
  "serial_base demo_bus = 0" "rtc_base demo_bus = 4096" "vgactl_base demo_bus = 8192" "vmem demo_bus = 12288"
  "i8042_base (kbd demo_bus) = 495616" "audio_base (aud demo_bus) = 499712" "sbuf (aud demo_bus) = 503808"
  "sd_base (sd demo_bus) = 569344" "serial_out demo_bus = []" "st_state (nemu_state demo_bus) = NEMU_RUNNING"
  "clk demo_bus = \<lparr>clk_read = (\<lambda>n. of_nat (1000 + 7 * n)), clk_ticks = 1, boot_time = 1000\<rparr>"
  by (simp_all add: demo_bus_def static_bus_def init_keymap_def)

lemma demo_kbd: "key_queue (kbd demo_bus) = replicate 1024 0" "key_f (kbd demo_bus) = 0" "key_r (kbd demo_bus) = 0"
  "kbd_ok (kbd demo_bus)"
  by (simp_all add: demo_bus_def init_keymap_def static_kbd_def kbd_ok_def)

lemma demo_bus_ok: "bus_ok demo_bus"
  unfolding bus_ok_def demo_bus_simps
  using demo_maps_ok demo_maps_disjoint demo_kbd(4) outside_pmem_inside by (auto simp: range_of_def)

lemma demo_devs:
  "dev_at demo_bus 0xa00003f8 8 CbSerial 0" "dev_at demo_bus 0xa0000048 8 CbRtc 4096"
  "dev_at demo_bus 0xa0000100 8 CbNone 8192" "dev_at demo_bus 0xa1000000 480000 CbNone 12288"
  "dev_at demo_bus 0xa0000060 4 CbI8042 495616" "dev_at demo_bus 0xa0000200 24 CbAudio 499712"
  "dev_at demo_bus 0xa1200000 0x10000 CbNone 503808" "dev_at demo_bus 0xa3000000 0x80 CbSdcard 569344"
  unfolding dev_at_def demo_bus_simps demo_maps_def by auto

lemma demo_cfg: "cfg_device (conf demo_bus)"
  by (simp add: demo_bus_simps full_conf_def)

lemma demo_regs:
  "reg_get 8192 0 demo_bus = push_bit 16 400 OR 300" "reg_get 8192 1 demo_bus = 0"
  "reg_get 499712 3 demo_bus = 0x10000"
  by (simp_all add: demo_bus_def reg_get_def load_store_same load_store_disjoint del: le_bytes.simps)
     (simp_all add: numeral_eq_Suc)

end
