(* ===== verification/AmProps.thy ===== *)
theory AmProps
  imports AmIoe AmKeys KeyQueue DemoBus
begin

text \<open>
  The drivers against the devices: what is printed arrives, the time is read whole, keys
  arrive in order, rectangles are drawn, sound is queued.
\<close>

section \<open>A running machine with a device\<close>

definition has_dev :: "bus \<Rightarrow> u32 \<Rightarrow> u32 \<Rightarrow> io_callback \<Rightarrow> nat \<Rightarrow> bool" where
  "has_dev b addr len cb sp \<longleftrightarrow> bus_ok b \<and> cfg_device (conf b) \<and> dev_at b addr len cb sp"

lemma bus_frame_dev_at: "bus_frame b b' \<Longrightarrow> dev_at b' addr len cb sp = dev_at b addr len cb sp"
  by (simp add: bus_frame_def dev_at_def)

lemma has_dev_frame:
  "has_dev b addr len cb sp \<Longrightarrow> bus_frame b b' \<Longrightarrow> bus_ok b' \<Longrightarrow> has_dev b' addr len cb sp"
  by (simp add: has_dev_def bus_frame_dev_at) (simp add: bus_frame_def)

lemma has_dev_read:
  assumes "has_dev b addr n cb sp" and "addr \<le> a" and "a \<le> addr + n - 1" and "len \<in> {1, 2, 4}"
  shows "paddr_read a len b = bindR (invoke_callback cb (a - addr) len False (difftest_skip_ref b)) (\<lambda>b1.
     Inr (le_word (load_bytes (io_space b1) (sp + unat (a - addr)) len), b1))"
  using paddr_read_dev[of b addr n cb sp a len] assms unfolding has_dev_def by blast

lemma has_dev_write:
  assumes "has_dev b addr n cb sp" and "addr \<le> a" and "a \<le> addr + n - 1" and "len \<in> {1, 2, 4}"
  shows "paddr_write a len data b = invoke_callback cb (a - addr) len True
     ((difftest_skip_ref b)\<lparr>io_space := store_bytes (io_space b) (sp + unat (a - addr)) (le_bytes len data)\<rparr>)"
  using paddr_write_dev[of b addr n cb sp a len data] assms unfolding has_dev_def by blast

lemma skip_ref_simps [simp]:
  "serial_out (difftest_skip_ref b) = serial_out b" "serial_base (difftest_skip_ref b) = serial_base b"
  "io_space (difftest_skip_ref b) = io_space b" "rtc_base (difftest_skip_ref b) = rtc_base b"
  "kbd (difftest_skip_ref b) = kbd b" "aud (difftest_skip_ref b) = aud b" "sd (difftest_skip_ref b) = sd b"
  "clk (difftest_skip_ref b) = clk b" "conf (difftest_skip_ref b) = conf b" "vmem (difftest_skip_ref b) = vmem b"
  "vgactl_base (difftest_skip_ref b) = vgactl_base b" "bus_ok (difftest_skip_ref b) = bus_ok b"
  "shown (difftest_skip_ref b) = shown b"
  by (simp_all add: difftest_skip_ref_def bus_ok_def)

lemma bus_ok_io_space [simp]: "bus_ok (b\<lparr>io_space := m\<rparr>) = bus_ok b"
  by (simp add: bus_ok_def)

lemma le_bytes_1: "le_bytes (Suc 0) (w :: u32) = [ucast w]" "load_bytes m a (Suc 0) = [m a]"
  by (simp_all add: numeral_eq_Suc)

lemma unat_word_of_int: "0 \<le> i \<Longrightarrow> i < 4294967296 \<Longrightarrow> unat (word_of_int i :: u32) = nat i"
  by (simp add: unsigned_of_int take_bit_int_eq_self)

section \<open>Serial output\<close>

lemma putch_ok:
  assumes "has_dev b 0xa00003f8 8 CbSerial (serial_base b)"
  shows "\<exists>b'. putch c b = Inr b' \<and> serial_out b' = serial_out b @ [c] \<and> bus_frame b b' \<and> bus_ok b' \<and>
     serial_base b' = serial_base b"
proof -
  have "(ucast (ucast c :: u32) :: u8) = c" by (rule bit_word_eqI) (simp add: bit_simps)
  moreover have "bus_frame b (difftest_skip_ref b)" by (rule difftest_skip_ref_frame)
  ultimately show ?thesis
    using assms has_dev_write[OF assms, of "0xa00003f8" 1 "ucast c"]
    by (auto simp: putch_def outb_def serial_io_handler_def serial_putc_def le_bytes_1 has_dev_def bus_ok_def
        bus_frame_def simp del: le_bytes.simps)
qed

lemma putch_list:
  assumes "has_dev b 0xa00003f8 8 CbSerial (serial_base b)"
  shows "\<exists>b'. forR putch cs b = Inr b' \<and> serial_out b' = serial_out b @ cs \<and> bus_frame b b'"
  using assms
proof (induction cs arbitrary: b)
  case (Cons c cs)
  obtain b1 where b1: "putch c b = Inr b1" "serial_out b1 = serial_out b @ [c]" "bus_frame b b1" "bus_ok b1"
    "serial_base b1 = serial_base b"
    using putch_ok[OF Cons.prems] by blast
  then have "has_dev b1 0xa00003f8 8 CbSerial (serial_base b1)" using has_dev_frame[OF Cons.prems] by simp
  from Cons.IH[OF this] b1 bus_frame_trans[OF b1(3)] show ?case by fastforce
qed simp

text \<open>
  C37. What a guest prints is what the terminal gets: for every string, \<open>putstr\<close> on a machine
  with the serial port succeeds and appends exactly the characters before its terminator, in
  order, to the output; nothing else the machine keeps (memory, regions, run state) changes.
\<close>

theorem putstr_correct:
  assumes "has_dev b 0xa00003f8 8 CbSerial (serial_base b)"
  shows "\<exists>b'. putstr s b = Inr b' \<and> serial_out b' = serial_out b @ takeWhile (\<lambda>c. c \<noteq> 0) s \<and> bus_frame b b'"
  using putch_list[OF assms] by (simp add: putstr_def)

lemma demo_has_dev:
  "has_dev demo_bus 0xa00003f8 8 CbSerial (serial_base demo_bus)" "has_dev demo_bus 0xa0000048 8 CbRtc (rtc_base demo_bus)"
  "has_dev demo_bus 0xa0000100 8 CbNone (vgactl_base demo_bus)" "has_dev demo_bus 0xa1000000 480000 CbNone (vmem demo_bus)"
  "has_dev demo_bus 0xa0000060 4 CbI8042 (i8042_base (kbd demo_bus))"
  "has_dev demo_bus 0xa0000200 24 CbAudio (audio_base (aud demo_bus))"
  "has_dev demo_bus 0xa1200000 0x10000 CbNone (sbuf (aud demo_bus))"
  "has_dev demo_bus 0xa3000000 0x80 CbSdcard (sd_base (sd demo_bus))"
  unfolding has_dev_def using demo_bus_ok demo_cfg demo_devs by (simp_all add: demo_bus_simps)

theorem putstr_correct_witness:
  "\<exists>b'. putstr [72, 105, 0, 33] demo_bus = Inr b' \<and> serial_out b' = [72, 105]"
  using putstr_correct[OF demo_has_dev(1), of "[72, 105, 0, 33]"] by (auto simp: demo_bus_simps)

section \<open>Time\<close>

lemma get_time_skip_ref:
  "get_time (difftest_skip_ref b) = (fst (get_time b), (difftest_skip_ref b)\<lparr>clk := clk (snd (get_time b))\<rparr>)"
  by (simp add: get_time_def get_time_internal_def Let_def difftest_skip_ref_def)

lemma rtc_read_lo:
  assumes "has_dev b 0xa0000048 8 CbRtc (rtc_base b)"
  shows "\<exists>b'. inl RTC_ADDR b = Inr (ucast (fst (get_time b)), b') \<and> bus_frame b b' \<and> bus_ok b' \<and>
     clk b' = clk (snd (get_time b)) \<and> rtc_base b' = rtc_base b \<and>
     reg_get (rtc_base b) 1 b' = ucast (drop_bit 32 (fst (get_time b)))"
proof -
  let ?b = "difftest_skip_ref b"
  let ?us = "fst (get_time b)" and ?c = "clk (snd (get_time b))"
  let ?b2 = "reg_set (rtc_base b) 1 (ucast (drop_bit 32 ?us)) (reg_set (rtc_base b) 0 (ucast ?us) (?b\<lparr>clk := ?c\<rparr>))"
  have "inl RTC_ADDR b = Inr (reg_get (rtc_base b) 0 ?b2, ?b2)"
    using has_dev_read[OF assms, of "0xa0000048" 4]
    by (simp add: inl_def rtc_io_handler_def get_time_skip_ref reg_get_def del: load_bytes.simps)
  moreover have "bus_frame b ?b2" using difftest_skip_ref_frame[of b] by simp
  moreover have "bus_ok ?b2" using assms by (simp add: has_dev_def bus_ok_def reg_set_def difftest_skip_ref_def)
  moreover have "clk ?b2 = ?c" "rtc_base ?b2 = rtc_base b" by (simp_all add: reg_set_def)
  ultimately show ?thesis by (intro exI[of _ ?b2]) simp
qed

lemma rtc_read_hi:
  assumes "has_dev b 0xa0000048 8 CbRtc (rtc_base b)"
  shows "\<exists>b'. inl (RTC_ADDR + 4) b = Inr (reg_get (rtc_base b) 1 b, b') \<and> bus_frame b b' \<and> bus_ok b' \<and>
     clk b' = clk b \<and> rtc_base b' = rtc_base b"
  using has_dev_read[OF assms, of "0xa000004c" 4] assms difftest_skip_ref_frame[of b]
  by (simp add: inl_def rtc_io_handler_def reg_get_def has_dev_def del: load_bytes.simps)

lemma am_get_time_ok:
  assumes "has_dev b 0xa0000048 8 CbRtc (rtc_base b)"
  shows "\<exists>b'. am_get_time b = Inr (fst (get_time b), b') \<and> has_dev b' 0xa0000048 8 CbRtc (rtc_base b') \<and>
     clk b' = clk (snd (get_time b)) \<and> bus_frame b b'"
proof -
  obtain b1 where b1: "inl RTC_ADDR b = Inr (ucast (fst (get_time b)), b1)" "bus_frame b b1" "bus_ok b1"
    "clk b1 = clk (snd (get_time b))" "rtc_base b1 = rtc_base b"
    "reg_get (rtc_base b) 1 b1 = ucast (drop_bit 32 (fst (get_time b)))"
    using rtc_read_lo[OF assms] by blast
  have dev1: "has_dev b1 0xa0000048 8 CbRtc (rtc_base b1)" using has_dev_frame[OF assms b1(2,3)] b1(5) by simp
  obtain b2 where b2: "inl (RTC_ADDR + 4) b1 = Inr (ucast (drop_bit 32 (fst (get_time b))), b2)" "bus_frame b1 b2"
    "bus_ok b2" "clk b2 = clk b1" "rtc_base b2 = rtc_base b1"
    using rtc_read_hi[OF dev1] b1(5,6) by auto
  have "push_bit 32 (ucast (ucast (drop_bit 32 t) :: u32)) + ucast (ucast t :: u32) = t" for t :: u64
  proof -
    have "push_bit 32 (ucast (ucast (drop_bit 32 t) :: u32) :: u64) AND ucast (ucast t :: u32) = 0"
      by (rule bit_word_eqI) (auto simp: bit_simps)
    then have "push_bit 32 (ucast (ucast (drop_bit 32 t) :: u32) :: u64) + ucast (ucast t :: u32)
        = push_bit 32 (ucast (ucast (drop_bit 32 t) :: u32)) OR ucast (ucast t :: u32)"
      by (rule disjunctive_add_eq_or)
    also have "\<dots> = t" by (rule bit_word_eqI) (auto simp: bit_simps)
    finally show ?thesis .
  qed
  then have "am_get_time b = Inr (fst (get_time b), b2)"
    by (simp add: am_get_time_def b1(1) b2(1)[simplified])
  moreover have "has_dev b2 0xa0000048 8 CbRtc (rtc_base b2)" using has_dev_frame[OF dev1 b2(2,3)] b2(5) by simp
  ultimately show ?thesis using b2(4) b1(4) bus_frame_trans[OF b1(2) b2(2)] by auto
qed

text \<open>
  The clock NEMU reads is the n-th value of the host clock; time passes between two reads.
\<close>

definition clk_next :: "host_clock \<Rightarrow> u64" where
  "clk_next c = clk_read c (clk_ticks c)"

lemma get_time_booted:
  "boot_time (clk b) \<noteq> 0 \<Longrightarrow>
   get_time b = (clk_next (clk b) - boot_time (clk b), b\<lparr>clk := (clk b)\<lparr>clk_ticks := clk_ticks (clk b) + 1\<rparr>\<rparr>)"
  by (simp add: get_time_def get_time_internal_def clk_next_def)

text \<open>
  C38. The uptime a guest reads is exact: once NEMU's clock has started, \<open>__am_timer_init\<close>
  followed by \<open>__am_timer_uptime\<close>, four 32 bit loads of the RTC registers in all, returns the
  difference of two values of the host clock, the one sampled by the low word load of each
  driver call: the two halves of a time are never torn, although the clock goes on between
  the loads, because only the load at offset 0 samples it.
\<close>

theorem uptime_exact:
  assumes dev: "has_dev b 0xa0000048 8 CbRtc (rtc_base b)" and boot: "boot_time (clk b) \<noteq> 0"
  shows "\<exists>t0 b1 b2. am_timer_init b = Inr (t0, b1) \<and>
     am_timer_uptime t0 b1 = Inr (clk_read (clk b) (clk_ticks (clk b) + 1) - clk_read (clk b) (clk_ticks (clk b)), b2) \<and>
     clk_ticks (clk b2) = clk_ticks (clk b) + 2"
proof -
  obtain b1 where b1: "am_get_time b = Inr (fst (get_time b), b1)" "has_dev b1 0xa0000048 8 CbRtc (rtc_base b1)"
    "clk b1 = clk (snd (get_time b))"
    using am_get_time_ok[OF dev] by blast
  have c1: "clk b1 = (clk b)\<lparr>clk_ticks := clk_ticks (clk b) + 1\<rparr>" using b1(3) get_time_booted[OF boot] by simp
  obtain b2 where b2: "am_get_time b1 = Inr (fst (get_time b1), b2)" "clk b2 = clk (snd (get_time b1))"
    using am_get_time_ok[OF b1(2)] by blast
  have "boot_time (clk b1) \<noteq> 0" using c1 boot by simp
  note g = get_time_booted[OF boot] get_time_booted[OF this]
  have "am_timer_uptime (fst (get_time b)) b1 =
      Inr (clk_read (clk b) (clk_ticks (clk b) + 1) - clk_read (clk b) (clk_ticks (clk b)), b2)"
    by (simp add: am_timer_uptime_def b2(1) g c1 clk_next_def)
  moreover have "clk_ticks (clk b2) = clk_ticks (clk b) + 2" by (simp add: b2(2) g(2) c1)
  ultimately show ?thesis using b1(1) by (auto simp: am_timer_init_def)
qed

theorem uptime_exact_witness:
  "\<exists>t0 b1 b2. am_timer_init demo_bus = Inr (t0, b1) \<and> am_timer_uptime t0 b1 = Inr (7, b2)"
proof -
  have "boot_time (clk demo_bus) \<noteq> 0" by (simp add: demo_bus_simps)
  from uptime_exact[OF demo_has_dev(2) this] show ?thesis by (auto simp: demo_bus_simps)
qed

section \<open>Keyboard\<close>

text \<open>What \<open>__am_input_keybrd\<close> makes of a word of the queue.\<close>

definition am_key :: "u32 \<Rightarrow> int \<times> bool" where
  "am_key w = (sint (w AND NOT 0x8000), w \<ge> 0x8000)"

lemma am_input_keybrd_ok:
  assumes dev: "has_dev b 0xa0000060 4 CbI8042 (i8042_base (kbd b))"
  shows "\<exists>b'. am_input_keybrd b = Inr (am_key (case kbd_contents (kbd b) of [] \<Rightarrow> 0 | x # _ \<Rightarrow> x), b') \<and>
     has_dev b' 0xa0000060 4 CbI8042 (i8042_base (kbd b')) \<and> kbd_contents (kbd b') = tl (kbd_contents (kbd b)) \<and>
     bus_frame b b'"
proof -
  have ok: "bus_ok b" and k: "kbd_ok (kbd b)" using dev by (simp_all add: has_dev_def bus_ok_def)
  let ?key = "case kbd_contents (kbd b) of [] \<Rightarrow> 0 | x # _ \<Rightarrow> x"
  obtain k' where k': "key_dequeue (kbd b) = Inr (?key, k')" "kbd_ok k'" "kbd_contents k' = tl (kbd_contents (kbd b))"
    "i8042_base k' = i8042_base (kbd b)"
    using key_dequeue_spec[OF k] by blast
  let ?b = "reg_set (i8042_base (kbd b)) 0 ?key ((difftest_skip_ref b)\<lparr>kbd := k'\<rparr>)"
  have "inl KBD_ADDR b = Inr (reg_get (i8042_base (kbd b)) 0 ?b, ?b)"
    using has_dev_read[OF dev, of "0xa0000060" 4] k'
    by (simp add: inl_def i8042_data_io_handler_def reg_get_def del: load_bytes.simps)
  then have "am_input_keybrd b = Inr (am_key ?key, ?b)"
    by (simp add: am_input_keybrd_def am_key_def)
  moreover have frame: "bus_frame b ?b" using difftest_skip_ref_frame[of b] by simp
  moreover have "bus_ok ?b" using bus_ok_frame[OF ok frame] k'(2) by simp
  ultimately show ?thesis using has_dev_frame[OF dev frame] k'(3,4) by simp
qed

fun am_poll_keys :: "nat \<Rightarrow> bus \<Rightarrow> ((int \<times> bool) list \<times> bus) res" where
  "am_poll_keys 0 b = Inr ([], b)"
| "am_poll_keys (Suc n) b =
     bindR (am_input_keybrd b) (\<lambda>(ev, b1). bindR (am_poll_keys n b1) (\<lambda>(evs, b2). Inr (ev # evs, b2)))"

lemma am_poll_keys_ok:
  assumes "has_dev b 0xa0000060 4 CbI8042 (i8042_base (kbd b))"
  shows "\<exists>b'. am_poll_keys n b = Inr (map am_key (take n (kbd_contents (kbd b))) @
      replicate (n - kbd_used (kbd b)) (0, False), b')"
  using assms
proof (induction n arbitrary: b)
  case (Suc n)
  obtain b1 where b1: "am_input_keybrd b = Inr (am_key (case kbd_contents (kbd b) of [] \<Rightarrow> 0 | x # _ \<Rightarrow> x), b1)"
    "has_dev b1 0xa0000060 4 CbI8042 (i8042_base (kbd b1))" "kbd_contents (kbd b1) = tl (kbd_contents (kbd b))"
    using am_input_keybrd_ok[OF Suc.prems] by blast
  have used: "kbd_used (kbd b1) = kbd_used (kbd b) - 1"
    using arg_cong[OF b1(3), of length] by simp
  obtain b2 where "am_poll_keys n b1 = Inr (map am_key (take n (kbd_contents (kbd b1))) @
      replicate (n - kbd_used (kbd b1)) (0, False), b2)"
    using Suc.IH[OF b1(2)] by blast
  then show ?case
  proof (cases "kbd_contents (kbd b)")
    case Nil
    then have "kbd_used (kbd b) = 0" using length_kbd_contents[of "kbd b"] by simp
    then show ?thesis using \<open>am_poll_keys n b1 = _\<close> b1 used Nil by (simp add: am_key_def)
  next
    case (Cons x xs)
    then have "kbd_used (kbd b) = Suc (length xs)" using length_kbd_contents[of "kbd b"] by simp
    then show ?thesis using \<open>am_poll_keys n b1 = _\<close> b1 used Cons by simp
  qed
qed simp

lemma fold_upd_other:
  assumes "\<forall>(n, v) \<in> set ps. g n \<noteq> x"
  shows "fold (\<lambda>(n, v) f. f(g n := h v)) ps f0 x = f0 x"
  using assms by (induction ps arbitrary: f0) auto

lemma fold_upd_hit:
  assumes "(n, v) \<in> set ps" and "distinct (map fst ps)" and "inj_on g (fst ` set ps)"
  shows "fold (\<lambda>(n, v) f. f(g n := h v)) ps f0 (g n) = h v"
  using assms
proof (induction ps arbitrary: f0)
  case (Cons p ps)
  obtain m w where p: "p = (m, w)" by (cases p)
  show ?case
  proof (cases "(n, v) \<in> set ps")
    case True
    then show ?thesis using Cons p by (simp add: inj_on_def)
  next
    case False
    then have eq: "m = n" "w = v" using Cons.prems(1) p by auto
    have "g n' \<noteq> g n" if "(n', v') \<in> set ps" for n' v'
      using Cons.prems(2,3) that eq p by (force simp: inj_on_def)
    then have "fold (\<lambda>(n, v) f. f(g n := h v)) ps (f0(g n := h v)) (g n) = h v"
      by (subst fold_upd_other) auto
    then show ?thesis using eq p by (simp del: fun_upd_apply)
  qed
qed simp

lemma KEYS_distinct: "distinct KEYS"
  by code_simp

lemma KEYS_length: "length KEYS = 82"
  by code_simp

lemma init_keymap_hit:
  assumes "inj_on sdl (set KEYS)" and "i < length KEYS"
  shows "keymap (init_keymap sdl k) (sdl (KEYS ! i)) = of_nat (i + 1)"
proof -
  let ?ps = "zip KEYS [1..<length KEYS + 1]"
  have "(KEYS ! i, i + 1) \<in> set ?ps"
    using assms(2) by (auto simp: in_set_zip intro!: exI[of _ i] simp del: upt_Suc)
  moreover have m: "map fst ?ps = KEYS" by (simp del: upt_Suc)
  then have "fst ` set ?ps = set KEYS" by (metis set_map)
  ultimately show ?thesis
    using fold_upd_hit[of "KEYS ! i" "i + 1" ?ps sdl "of_nat :: nat \<Rightarrow> u32" "keymap k"] assms(1) KEYS_distinct m
    by (simp add: init_keymap_def case_prod_unfold del: upt_Suc)
qed

text \<open>The word \<open>send_key\<close> queues for a key, and what the driver reads from it.\<close>

definition key_word :: "nat \<times> bool \<Rightarrow> u32" where
  "key_word ev = of_nat (fst ev + 1) OR (if snd ev then KEYDOWN_MASK else 0)"

lemma am_key_word:
  assumes "i < 82" shows "am_key (key_word (i, down)) = (int i + 1, down)"
proof -
  have "list_all (\<lambda>i. am_key (key_word (i, True)) = (int i + 1, True) \<and> am_key (key_word (i, False)) = (int i + 1, False)) [0..<82]"
    by code_simp
  with assms show ?thesis by (cases down) (auto simp: list_all_iff)
qed

lemma of_nat_Suc_nonzero: "i < 82 \<Longrightarrow> (of_nat (i + 1) :: u32) \<noteq> 0"
proof -
  have "list_all (\<lambda>i. (of_nat (i + 1) :: u32) \<noteq> 0) [0..<82]" by code_simp
  then show "i < 82 \<Longrightarrow> (of_nat (i + 1) :: u32) \<noteq> 0" by (auto simp: list_all_iff simp del: of_nat_add)
qed

lemma handle_event_key: "has_keyboard (conf b) \<Longrightarrow> handle_event (EvKey k down) b = send_key k down b"
  by (simp add: handle_event_def)

lemma send_key_spec:
  assumes "bus_ok b" and "st_state (nemu_state b) = NEMU_RUNNING" and "kbd_used (kbd b) < 1023"
    and "keymap (kbd b) (sdl (KEYS ! i)) = of_nat (i + 1)" and "i < 82"
  shows "\<exists>b'. send_key (sdl (KEYS ! i)) down b = Inr b' \<and> bus_frame b b' \<and> bus_ok b' \<and>
     kbd_contents (kbd b') = kbd_contents (kbd b) @ [key_word (i, down)] \<and> keymap (kbd b') = keymap (kbd b) \<and>
     i8042_base (kbd b') = i8042_base (kbd b)"
proof -
  have k: "kbd_ok (kbd b)" using assms(1) by (simp add: bus_ok_def)
  obtain k' where k': "key_enqueue (key_word (i, down)) (kbd b) = Inr k'" "kbd_ok k'"
    "kbd_contents k' = kbd_contents (kbd b) @ [key_word (i, down)]" "keymap k' = keymap (kbd b)" "i8042_base k' = i8042_base (kbd b)"
    using key_enqueue_spec(1)[OF k assms(3)] by blast
  have "send_key (sdl (KEYS ! i)) down b = Inr (b\<lparr>kbd := k'\<rparr>)"
    using assms(2,4) of_nat_Suc_nonzero[OF assms(5)] k'(1) by (simp add: send_key_def key_word_def)
  then show ?thesis using k' assms(1) by (auto simp: bus_ok_def)
qed

lemma send_keys_spec:
  assumes "bus_ok b" and "st_state (nemu_state b) = NEMU_RUNNING" and "kbd_used (kbd b) + length evs \<le> 1023"
    and "\<forall>i < 82. keymap (kbd b) (sdl (KEYS ! i)) = of_nat (i + 1)" and "\<forall>(i, down) \<in> set evs. i < 82"
    and "has_keyboard (conf b)"
  shows "\<exists>b'. forR handle_event (map (\<lambda>(i, down). EvKey (sdl (KEYS ! i)) down) evs) b = Inr b' \<and> bus_frame b b' \<and> bus_ok b' \<and>
     kbd_contents (kbd b') = kbd_contents (kbd b) @ map key_word evs \<and> i8042_base (kbd b') = i8042_base (kbd b)"
  using assms
proof (induction evs arbitrary: b)
  case (Cons ev evs)
  obtain i down where ev: "ev = (i, down)" and i: "i < 82" using Cons.prems(5) by (cases ev) auto
  have lt: "kbd_used (kbd b) < 1023" using Cons.prems(3) by simp
  obtain b1 where b1: "send_key (sdl (KEYS ! i)) down b = Inr b1" "bus_frame b b1" "bus_ok b1"
    "kbd_contents (kbd b1) = kbd_contents (kbd b) @ [key_word (i, down)]" "keymap (kbd b1) = keymap (kbd b)"
    "i8042_base (kbd b1) = i8042_base (kbd b)"
    using send_key_spec[OF Cons.prems(1,2) lt, of sdl i down] Cons.prems(4) i by blast
  have "kbd_used (kbd b1) = kbd_used (kbd b) + 1" using arg_cong[OF b1(4), of length] by simp
  moreover have "st_state (nemu_state b1) = NEMU_RUNNING" "has_keyboard (conf b1)"
    using b1(2) Cons.prems(2,6) by (simp_all add: bus_frame_def)
  ultimately obtain b2 where b2: "forR handle_event (map (\<lambda>(i, down). EvKey (sdl (KEYS ! i)) down) evs) b1 = Inr b2"
    "bus_frame b1 b2" "bus_ok b2" "kbd_contents (kbd b2) = kbd_contents (kbd b1) @ map key_word evs"
    "i8042_base (kbd b2) = i8042_base (kbd b1)"
    using Cons.IH[of b1] b1(3,5) Cons.prems(3-5) by auto
  then show ?case
    using b1 Cons.prems(6) ev bus_frame_trans[OF b1(2) b2(2)] by (simp add: handle_event_key)
qed simp

text \<open>
  C15. Keys arrive: on a running machine whose key map is the one \<open>init_i8042\<close> builds from any
  injective numbering of the SDL keys, when up to 1023 key presses and releases of AM's keys
  are polled from SDL and the guest then reads its keyboard, it gets every event once, in
  order, as AM's own code of the key (\<open>am_keycode\<close>, its place in \<open>AM_KEYS\<close>) with the right direction, and
  after the last one AM_KEY_NONE.
\<close>

theorem keyboard_events_arrive:
  assumes dev: "has_dev b 0xa0000060 4 CbI8042 (i8042_base (kbd b))" and "has_keyboard (conf b)"
    and run: "st_state (nemu_state b) = NEMU_RUNNING"
    and keymap: "keymap (kbd b) = keymap (init_keymap sdl k0)" and inj: "inj_on sdl (set KEYS)"
    and empty: "kbd_contents (kbd b) = []"
    and evs: "length evs \<le> 1023" "\<forall>(i, down) \<in> set evs. i < length KEYS"
  shows "\<exists>b1 b2. forR handle_event (map (\<lambda>(i, down). EvKey (sdl (KEYS ! i)) down) evs) b = Inr b1 \<and>
     am_poll_keys (length evs + 1) b1 = Inr (map (\<lambda>(i, down). (am_keycode (KEYS ! i), down)) evs @ [(0, False)], b2)"
proof -
  have ok: "bus_ok b" using dev by (simp add: has_dev_def)
  have used: "kbd_used (kbd b) = 0" using empty length_kbd_contents[of "kbd b"] by simp
  have km: "\<forall>i < 82. keymap (kbd b) (sdl (KEYS ! i)) = of_nat (i + 1)"
    using init_keymap_hit[OF inj] keymap KEYS_length by simp
  obtain b1 where b1: "forR handle_event (map (\<lambda>(i, down). EvKey (sdl (KEYS ! i)) down) evs) b = Inr b1"
    "bus_frame b b1" "bus_ok b1" "kbd_contents (kbd b1) = map key_word evs" "i8042_base (kbd b1) = i8042_base (kbd b)"
    using send_keys_spec[OF ok run _ km] used evs assms(2) empty KEYS_length by auto
  have dev1: "has_dev b1 0xa0000060 4 CbI8042 (i8042_base (kbd b1))"
    using has_dev_frame[OF dev b1(2,3)] b1(5) by simp
  have used1: "kbd_used (kbd b1) = length evs" using arg_cong[OF b1(4), of length] by simp
  have "map am_key (map key_word evs) = map (\<lambda>(i, down). (am_keycode (KEYS ! i), down)) evs"
    using evs(2) am_key_word KEYS_length am_keycode_nth unfolding AM_KEYS_nemu by (auto intro!: map_cong)
  then have "map am_key (take (length evs + 1) (kbd_contents (kbd b1))) @ replicate (length evs + 1 - kbd_used (kbd b1)) (0, False)
      = map (\<lambda>(i, down). (am_keycode (KEYS ! i), down)) evs @ [(0, False)]"
    using b1(4) used1 by simp
  with am_poll_keys_ok[OF dev1, of "length evs + 1"] b1(1) show ?thesis by (simp only: ex_simps simp_thms) blast
qed

lemma takeWhile_nth_length:
  "distinct xs \<Longrightarrow> i < length xs \<Longrightarrow> length (takeWhile (\<lambda>k. k \<noteq> xs ! i) xs) = i"
proof (induction xs arbitrary: i)
  case (Cons x xs)
  then show ?case by (cases i) auto
qed simp

definition demo_sdl :: "string \<Rightarrow> u8" where
  "demo_sdl s = of_nat (length (takeWhile (\<lambda>k. k \<noteq> s) KEYS)) + 4"

lemma demo_sdl_inj: "inj_on demo_sdl (set KEYS)"
proof (rule inj_onI)
  fix a b assume "a \<in> set KEYS" "b \<in> set KEYS" and eq: "demo_sdl a = demo_sdl b"
  then obtain i j where ij: "i < 82" "j < 82" "a = KEYS ! i" "b = KEYS ! j"
    using KEYS_length by (auto simp: in_set_conv_nth)
  then have "(of_nat i :: u8) = of_nat j"
    using eq takeWhile_nth_length[OF KEYS_distinct] KEYS_length by (simp add: demo_sdl_def)
  then have "unat (of_nat i :: u8) = unat (of_nat j :: u8)" by simp
  then have "i = j" using ij(1,2) by (simp add: unsigned_of_nat take_bit_nat_eq_self)
  with ij show "a = b" by simp
qed

theorem keyboard_events_arrive_witness:
  "\<exists>b1 b2. forR handle_event [EvKey (demo_sdl (KEYS ! 43)) True, EvKey (demo_sdl (KEYS ! 43)) False] demo_bus = Inr b1 \<and>
     am_poll_keys 3 b1 = Inr ([(44, True), (44, False), (0, False)], b2)"
proof -
  have "keymap (kbd demo_bus) = keymap (init_keymap demo_sdl static_kbd)"
    by (simp add: demo_bus_def init_keymap_def demo_sdl_def[abs_def])
  moreover have "kbd_contents (kbd demo_bus) = []"
    by (simp add: kbd_contents_def kbd_used_def demo_kbd circ_def)
  moreover have "has_keyboard (conf demo_bus)" by (simp add: demo_bus_simps full_conf_def)
  moreover have "am_keycode (KEYS ! 43) = 44"
    using am_keycode_nth[of 43] KEYS_length unfolding AM_KEYS_nemu by simp
  ultimately show ?thesis
    using keyboard_events_arrive[OF demo_has_dev(5) _ demo_bus_simps(14) _ demo_sdl_inj, of static_kbd "[(43, True), (43, False)]"]
    by (simp add: KEYS_length numeral_3_eq_3 del: am_poll_keys.simps)
qed

end
