(* ===== verification/AmGpu.thy ===== *)
theory AmGpu
  imports AmProps
begin

text \<open>
  Drawing: \<open>__am_gpu_fbdraw\<close> on the guest against the frame buffer of the device and the
  screen update of the host.
\<close>

section \<open>The screen\<close>

definition screen_ready :: "bus \<Rightarrow> bool" where
  "screen_ready b \<longleftrightarrow> has_dev b 0xa0000100 8 CbNone (vgactl_base b) \<and>
     has_dev b 0xa1000000 480000 CbNone (vmem b) \<and> vgactl_base b + 8 \<le> vmem b \<and>
     reg_get (vgactl_base b) 0 b = push_bit 16 400 OR 300"

definition pixel_at :: "bus \<Rightarrow> nat \<Rightarrow> u32" where
  "pixel_at b k = reg_get (vmem b) k b"

text \<open>The word at index \<open>k\<close> of an array in guest memory.\<close>

definition guest_word :: "bus \<Rightarrow> u32 \<Rightarrow> nat \<Rightarrow> u32" where
  "guest_word b p k = le_word (load_bytes (pmem b) (nat (guest_to_host p) + 4 * k) 4)"

text \<open>
  \<open>draws f S b b'\<close>: the pixels of \<open>S\<close> have the values \<open>f\<close>, nothing else on the screen and in
  memory changed.
\<close>

definition draws :: "(nat \<Rightarrow> u32) \<Rightarrow> nat set \<Rightarrow> bus \<Rightarrow> bus \<Rightarrow> bool" where
  "draws f S b b' \<longleftrightarrow> screen_ready b' \<and> bus_frame b b' \<and> vmem b' = vmem b \<and> vgactl_base b' = vgactl_base b \<and>
     shown b' = shown b \<and> reg_get (vgactl_base b) 1 b' = reg_get (vgactl_base b) 1 b \<and>
     (\<forall>k < 120000. pixel_at b' k = (if k \<in> S then f k else pixel_at b k))"

lemma draws_refl: "screen_ready b \<Longrightarrow> draws f {} b b"
  by (simp add: draws_def)

lemma draws_trans: "draws f S a b \<Longrightarrow> draws f T b c \<Longrightarrow> draws f (S \<union> T) a c"
  unfolding draws_def using bus_frame_trans by auto

lemma guest_word_frame: "bus_frame b b' \<Longrightarrow> guest_word b' p k = guest_word b p k"
  by (simp add: guest_word_def bus_frame_def)

lemma fb_store:
  assumes "screen_ready b" and "k < 120000"
  shows "\<exists>b'. outl (FB_ADDR + word_of_int (4 * int k)) v b = Inr b' \<and> draws (\<lambda>_. v) {k} b b'"
proof -
  have dev: "has_dev b 0xa1000000 480000 CbNone (vmem b)" using assms(1) by (simp add: screen_ready_def)
  let ?a = "FB_ADDR + word_of_int (4 * int k)"
  let ?b = "(difftest_skip_ref b)\<lparr>io_space := store_bytes (io_space b) (vmem b + 4 * k) (le_bytes 4 v)\<rparr>"
  have u: "unat (word_of_int (4 * int k) :: u32) = 4 * k"
    using assms(2) by (subst unat_word_of_int) auto
  have ua: "unat ?a = 0xa1000000 + 4 * k"
    using assms(2) u by (subst unat_add_lem[THEN iffD1]) auto
  have "outl ?a v b = Inr ?b"
    using has_dev_write[OF dev, of ?a 4 v] assms(2) ua u
    by (simp add: outl_def word_le_nat_alt del: store_bytes.simps le_bytes.simps)
  moreover have frame: "bus_frame b ?b" using difftest_skip_ref_frame[of b] by simp
  moreover have "screen_ready ?b"
    using assms(1) has_dev_frame[OF _ frame] unfolding screen_ready_def
    by (auto simp: reg_get_def has_dev_def load_store_disjoint simp del: store_bytes.simps load_bytes.simps le_bytes.simps)
  moreover have "reg_get (vgactl_base b) 1 ?b = reg_get (vgactl_base b) 1 b"
    using assms(1) by (simp add: screen_ready_def reg_get_def load_store_disjoint)
  moreover have "pixel_at ?b j = (if j = k then v else pixel_at b j)" for j
    using reg_get_set[of "vmem b" k v "difftest_skip_ref b"] reg_get_set_other[of j k "vmem b" v "difftest_skip_ref b"]
    by (auto simp: pixel_at_def reg_set_def reg_get_def)
  ultimately show ?thesis by (intro exI[of _ ?b]) (simp add: draws_def)
qed

lemma guest_load:
  assumes "0x80000000 \<le> uint p" and "uint p + 4 * int k + 4 \<le> 0x88000000"
  shows "inl (p + word_of_int (4 * int k)) b = Inr (guest_word b p k, b)"
proof -
  have u: "unat (word_of_int (4 * int k) :: u32) = 4 * k"
    using assms by (subst unat_word_of_int) auto
  have up: "uint p = int (unat p)" by simp
  then have "unat p + 4 * k < 4294967296" using assms by linarith
  then have "unat (p + word_of_int (4 * int k)) = unat p + 4 * k"
    using u by (subst unat_add_lem[THEN iffD1]) auto
  moreover have "uint (p + word_of_int (4 * int k)) = int (unat (p + word_of_int (4 * int k)))" by simp
  ultimately have ui: "uint (p + word_of_int (4 * int k)) = uint p + 4 * int k"
    using up by linarith
  have "nat (uint p + 4 * int k - 0x80000000) = nat (uint p - 0x80000000) + 4 * k"
    using assms(1) by simp
  moreover define q where "q = p + word_of_int (4 * int k)"
  ultimately have "inl q b = Inr (guest_word b p k, b)"
    using assms ui[folded q_def] by (simp add: inl_def paddr_read_def in_pmem_iff guest_to_host_def pmem_read_def
        host_read_def guest_word_def del: load_bytes.simps)
  then show ?thesis by (simp only: q_def)
qed

section \<open>Drawing a rectangle\<close>

lemma draws_cong: "draws g S b b' \<Longrightarrow> (\<And>k. k \<in> S \<Longrightarrow> f k = g k) \<Longrightarrow> draws f S b b'"
  by (simp add: draws_def)

text \<open>The value the rectangle gives to the pixel with index \<open>k\<close>, and its indices.\<close>

definition rect_value :: "bus \<Rightarrow> am_fbdraw \<Rightarrow> nat \<Rightarrow> u32" where
  "rect_value b ctl k =
     guest_word b (fb_pixels ctl) (nat (fb_w ctl * (int (k div 400) - fb_y ctl) + (int (k mod 400) - fb_x ctl)))"

definition row_cells :: "int \<Rightarrow> int list \<Rightarrow> nat set" where
  "row_cells i js = (\<lambda>j. nat (i * 400 + j)) ` set js"

definition rect_ok :: "am_fbdraw \<Rightarrow> bool" where
  "rect_ok ctl \<longleftrightarrow> 0 \<le> fb_x ctl \<and> 0 \<le> fb_y ctl \<and> 0 \<le> fb_w ctl \<and> 0 \<le> fb_h ctl \<and>
     fb_x ctl + fb_w ctl \<le> 400 \<and> fb_y ctl + fb_h ctl \<le> 300 \<and>
     0x80000000 \<le> uint (fb_pixels ctl) \<and> uint (fb_pixels ctl) + 4 * (fb_w ctl * fb_h ctl) \<le> 0x88000000"

lemma rect_index:
  assumes "rect_ok ctl" and "fb_y ctl \<le> i" "i < fb_y ctl + fb_h ctl" and "fb_x ctl \<le> j" "j < fb_x ctl + fb_w ctl"
  defines "m \<equiv> fb_w ctl * (i - fb_y ctl) + (j - fb_x ctl)"
  shows "0 \<le> m" and "m + 1 \<le> fb_w ctl * fb_h ctl" and "nat (i * 400 + j) < 120000"
    and "int (nat (i * 400 + j) div 400) = i" and "int (nat (i * 400 + j) mod 400) = j"
proof -
  have b: "0 \<le> i" "i < 300" "0 \<le> j" "j < 400" "0 \<le> fb_w ctl" using assms by (auto simp: rect_ok_def)
  show "0 \<le> m" using assms b by (simp add: m_def)
  have "fb_w ctl * (i - fb_y ctl + 1) \<le> fb_w ctl * fb_h ctl"
    using b assms(3) by (intro mult_left_mono) auto
  then show "m + 1 \<le> fb_w ctl * fb_h ctl" using assms(5) by (simp add: m_def algebra_simps)
  show "nat (i * 400 + j) < 120000" using b by auto
  have "nat (i * 400 + j) = nat i * 400 + nat j" using b by (simp add: nat_add_distrib nat_mult_distrib)
  then show "int (nat (i * 400 + j) div 400) = i" "int (nat (i * 400 + j) mod 400) = j" using b by auto
qed

lemma draw_pixel_ok:
  assumes "rect_ok ctl" and "screen_ready b"
    and "fb_y ctl \<le> i" "i < fb_y ctl + fb_h ctl" and "fb_x ctl \<le> j" "j < fb_x ctl + fb_w ctl"
  shows "\<exists>b'. draw_pixel ctl 400 i j b = Inr b' \<and> draws (rect_value b ctl) {nat (i * 400 + j)} b b'"
proof -
  note idx = rect_index[OF assms(1,3-6)]
  define m where "m = fb_w ctl * (i - fb_y ctl) + (j - fb_x ctl)"
  define k where "k = nat (i * 400 + j)"
  have "0 \<le> i" "0 \<le> j" using assms by (auto simp: rect_ok_def)
  then have k: "int k = i * 400 + j" by (simp add: k_def)
  have m: "int (nat m) = m" using idx(1) by (simp add: m_def)
  have "uint (fb_pixels ctl) + 4 * int (nat m) + 4 \<le> 0x88000000"
    using assms(1) idx(2) m by (simp add: rect_ok_def m_def)
  moreover have "0x80000000 \<le> uint (fb_pixels ctl)" using assms(1) by (simp add: rect_ok_def)
  ultimately have load: "inl (fb_pixels ctl + word_of_int (4 * m)) b = Inr (guest_word b (fb_pixels ctl) (nat m), b)"
    using guest_load[of "fb_pixels ctl" "nat m" b] m by simp
  have addr: "(word_of_int i * 400 + word_of_int j) * 4 = (word_of_int (4 * int k) :: u32)"
    by (simp only: k of_int_add of_int_mult of_int_numeral) (simp add: algebra_simps)
  obtain b' where b': "outl (FB_ADDR + word_of_int (4 * int k)) (guest_word b (fb_pixels ctl) (nat m)) b = Inr b'"
    "draws (\<lambda>_. guest_word b (fb_pixels ctl) (nat m)) {k} b b'"
    using fb_store[OF assms(2), of k "guest_word b (fb_pixels ctl) (nat m)"] idx(3) by (auto simp: k_def)
  have "rect_value b ctl k = guest_word b (fb_pixels ctl) (nat m)"
    using idx(4,5) by (simp add: rect_value_def m_def k_def)
  then have "draws (rect_value b ctl) {k} b b'" using draws_cong[OF b'(2)] by simp
  moreover have "draw_pixel ctl 400 i j b = Inr b'"
    unfolding draw_pixel_def m_def[symmetric] load addr using b'(1) by simp
  ultimately show ?thesis by (auto simp: k_def)
qed

lemma rect_value_frame: "bus_frame b b' \<Longrightarrow> rect_value b' ctl = rect_value b ctl"
  by (rule ext) (simp add: rect_value_def guest_word_frame)

lemma draws_screen: "draws f S b b' \<Longrightarrow> screen_ready b' \<and> bus_frame b b'"
  by (simp add: draws_def)

lemma draw_row:
  assumes "rect_ok ctl" and "screen_ready b" and "fb_y ctl \<le> i" "i < fb_y ctl + fb_h ctl"
    and "\<forall>j \<in> set js. fb_x ctl \<le> j \<and> j < fb_x ctl + fb_w ctl"
  shows "\<exists>b'. forR (\<lambda>j. draw_pixel ctl 400 i j) js b = Inr b' \<and> draws (rect_value b ctl) (row_cells i js) b b'"
  using assms(2,5)
proof (induction js arbitrary: b)
  case (Cons j js)
  obtain b1 where b1: "draw_pixel ctl 400 i j b = Inr b1" "draws (rect_value b ctl) {nat (i * 400 + j)} b b1"
    using draw_pixel_ok[OF assms(1) Cons.prems(1) assms(3,4)] Cons.prems(2) by force
  note s1 = draws_screen[OF b1(2)]
  obtain b2 where b2: "forR (\<lambda>j. draw_pixel ctl 400 i j) js b1 = Inr b2" "draws (rect_value b1 ctl) (row_cells i js) b1 b2"
    using Cons.IH[of b1] s1 Cons.prems(2) by auto
  from draws_trans[OF b1(2)] b2(2) rect_value_frame[of b b1] s1
  have "draws (rect_value b ctl) ({nat (i * 400 + j)} \<union> row_cells i js) b b2" by auto
  then show ?case using b1(1) b2(1) by (simp add: row_cells_def)
qed (simp add: row_cells_def draws_refl)

lemma draw_rows:
  assumes "rect_ok ctl" and "screen_ready b" and "\<forall>i \<in> set is. fb_y ctl \<le> i \<and> i < fb_y ctl + fb_h ctl"
    and "\<forall>j \<in> set js. fb_x ctl \<le> j \<and> j < fb_x ctl + fb_w ctl"
  shows "\<exists>b'. forR (\<lambda>i. forR (\<lambda>j. draw_pixel ctl 400 i j) js) is b = Inr b' \<and>
     draws (rect_value b ctl) (\<Union>i \<in> set is. row_cells i js) b b'"
  using assms(2,3)
proof (induction "is" arbitrary: b)
  case (Cons i "is")
  obtain b1 where b1: "forR (\<lambda>j. draw_pixel ctl 400 i j) js b = Inr b1" "draws (rect_value b ctl) (row_cells i js) b b1"
    using draw_row[OF assms(1) Cons.prems(1) _ _ assms(4)] Cons.prems(2) by force
  note s1 = draws_screen[OF b1(2)]
  obtain b2 where b2: "forR (\<lambda>i. forR (\<lambda>j. draw_pixel ctl 400 i j) js) is b1 = Inr b2"
    "draws (rect_value b1 ctl) (\<Union>i \<in> set is. row_cells i js) b1 b2"
    using Cons.IH[of b1] s1 Cons.prems(2) by auto
  from draws_trans[OF b1(2)] b2(2) rect_value_frame[of b b1] s1
  have "draws (rect_value b ctl) (row_cells i js \<union> (\<Union>i \<in> set is. row_cells i js)) b b2" by auto
  then show ?case using b1(1) b2(1) by simp
qed (simp add: draws_refl)

lemma read_vgactl:
  assumes "screen_ready b"
  shows "inl VGACTL_ADDR b = Inr (push_bit 16 400 OR 300, difftest_skip_ref b)"
    and "draws f {} b (difftest_skip_ref b)"
proof -
  have dev: "has_dev b 0xa0000100 8 CbNone (vgactl_base b)" using assms by (simp add: screen_ready_def)
  show "inl VGACTL_ADDR b = Inr (push_bit 16 400 OR 300, difftest_skip_ref b)"
    using has_dev_read[OF dev, of "0xa0000100" 4] assms
    by (simp add: inl_def screen_ready_def reg_get_def del: load_bytes.simps)
  show "draws f {} b (difftest_skip_ref b)"
    using assms has_dev_frame[OF _ difftest_skip_ref_frame]
    by (auto simp: draws_def screen_ready_def has_dev_def reg_get_def pixel_at_def)
qed

lemma write_sync:
  assumes "screen_ready b"
  shows "\<exists>b'. outl SYNC_ADDR 1 b = Inr b' \<and> screen_ready b' \<and> bus_frame b b' \<and> vmem b' = vmem b \<and> shown b' = shown b \<and>
     vgactl_base b' = vgactl_base b \<and>
     reg_get (vgactl_base b) 1 b' = 1 \<and> (\<forall>k < 120000. pixel_at b' k = pixel_at b k)"
proof -
  have dev: "has_dev b 0xa0000100 8 CbNone (vgactl_base b)" using assms by (simp add: screen_ready_def)
  let ?b = "reg_set (vgactl_base b) 1 1 (difftest_skip_ref b)"
  have "outl SYNC_ADDR 1 b = Inr ?b"
    using has_dev_write[OF dev, of "0xa0000104" 4 1]
    by (simp add: outl_def reg_set_def del: store_bytes.simps le_bytes.simps)
  moreover have frame: "bus_frame b ?b" using difftest_skip_ref_frame[of b] by simp
  moreover have "vmem ?b = vmem b" "shown ?b = shown b" "vgactl_base ?b = vgactl_base b"
    by (simp_all add: reg_set_def)
  moreover have bok: "bus_ok ?b" using assms by (simp add: screen_ready_def has_dev_def reg_set_def)
  moreover have "reg_get (vgactl_base b) 0 ?b = reg_get (vgactl_base b) 0 b"
    using reg_get_set_other[of 0 1 "vgactl_base b" 1 "difftest_skip_ref b"] by (simp add: reg_get_def)
  moreover have "pixel_at ?b k = pixel_at b k" for k
    using assms by (simp add: pixel_at_def reg_get_def reg_set_def load_store_disjoint screen_ready_def)
  ultimately show ?thesis
    using assms has_dev_frame[OF _ frame bok] by (intro exI[of _ ?b]) (auto simp: screen_ready_def)
qed

lemma cell_in_rect:
  assumes "rect_ok ctl" and "X < 400"
  shows "Y * 400 + X \<in> (\<Union>i \<in> set [fb_y ctl..fb_y ctl + fb_h ctl - 1]. row_cells i [fb_x ctl..fb_x ctl + fb_w ctl - 1])
     \<longleftrightarrow> fb_x ctl \<le> int X \<and> int X < fb_x ctl + fb_w ctl \<and> fb_y ctl \<le> int Y \<and> int Y < fb_y ctl + fb_h ctl"
    (is "?in \<longleftrightarrow> ?inside")
proof
  assume ?in
  then obtain i j where ij: "fb_y ctl \<le> i" "i < fb_y ctl + fb_h ctl" "fb_x ctl \<le> j" "j < fb_x ctl + fb_w ctl"
    "Y * 400 + X = nat (i * 400 + j)"
    by (auto simp: row_cells_def)
  have "i = int ((Y * 400 + X) div 400)" "j = int ((Y * 400 + X) mod 400)"
    unfolding ij(5) using rect_index(4,5)[OF assms(1) ij(1-4)] by simp_all
  then have "i = int Y" "j = int X" using assms(2) by simp_all
  with ij show ?inside by simp
next
  assume inside: ?inside
  have "nat (int Y * 400 + int X) = Y * 400 + X" by simp
  with inside show ?in
    by (auto simp: row_cells_def intro!: bexI[of _ "int Y"] image_eqI[of _ _ "int X"])
qed

lemma fbdraw_draws:
  assumes "screen_ready b" and "rect_ok ctl"
  defines "S \<equiv> (\<Union>i \<in> set [fb_y ctl..fb_y ctl + fb_h ctl - 1]. row_cells i [fb_x ctl..fb_x ctl + fb_w ctl - 1])"
  shows "\<exists>b1 b'. draws (rect_value b ctl) S b b1 \<and> am_gpu_fbdraw ctl b = Inr b' \<and>
     (if fb_sync ctl then outl SYNC_ADDR 1 b1 = Inr b' else b' = b1)"
proof (cases "\<not> fb_sync ctl \<and> (fb_w ctl = 0 \<or> fb_h ctl = 0)")
  case True
  then have "S = {}" by (auto simp: S_def row_cells_def)
  then show ?thesis using True draws_refl[OF assms(1)] by (auto simp: am_gpu_fbdraw_def)
next
  case False
  note rd = read_vgactl(1)[OF assms(1)] read_vgactl(2)[OF assms(1), of "rect_value b ctl"]
  have s0: "screen_ready (difftest_skip_ref b)" using draws_screen[OF rd(2)] by simp
  obtain b1 where b1: "forR (\<lambda>i. forR (\<lambda>j. draw_pixel ctl 400 i j) [fb_x ctl..fb_x ctl + fb_w ctl - 1])
      [fb_y ctl..fb_y ctl + fb_h ctl - 1] (difftest_skip_ref b) = Inr b1"
    "draws (rect_value (difftest_skip_ref b) ctl) S (difftest_skip_ref b) b1"
    using draw_rows[OF assms(2) s0, of "[fb_y ctl..fb_y ctl + fb_h ctl - 1]" "[fb_x ctl..fb_x ctl + fb_w ctl - 1]"]
    unfolding S_def by auto
  have "draws (rect_value b ctl) S b b1"
    using draws_trans[OF rd(2)] b1(2) rect_value_frame[OF difftest_skip_ref_frame, of b ctl] by fastforce
  moreover have "drop_bit 16 (push_bit 16 400 OR 300 :: u32) = 400" by simp
  then have run: "am_gpu_fbdraw ctl b = (if fb_sync ctl then outl SYNC_ADDR 1 b1 else Inr b1)"
    using b1(1) unfolding am_gpu_fbdraw_def if_not_P[OF False] rd(1) by (simp add: Let_def)
  moreover have "\<exists>b'. outl SYNC_ADDR 1 b1 = Inr b'"
    using write_sync[of b1] calculation(1) draws_screen by blast
  ultimately show ?thesis by (cases "fb_sync ctl") auto
qed

text \<open>
  C19. Drawing is exact: for a rectangle inside the 400 x 300 screen whose pixel array lies in
  memory, \<open>__am_gpu_fbdraw\<close> succeeds and afterwards the frame buffer holds pixel
  \<open>w * (Y - y) + (X - x)\<close> of the array at every (X, Y) of the rectangle and its old value
  everywhere else; memory is unchanged; with the sync flag the next screen update hands
  exactly this frame to the host once, without it the host is shown nothing new.
\<close>

theorem fbdraw_correct:
  assumes "screen_ready b" and "rect_ok ctl" and "reg_get (vgactl_base b) 1 b = 0"
  shows "\<exists>b'. am_gpu_fbdraw ctl b = Inr b' \<and> pmem b' = pmem b \<and>
     (\<forall>X < 400. \<forall>Y < 300. pixel_at b' (Y * 400 + X) =
        (if fb_x ctl \<le> int X \<and> int X < fb_x ctl + fb_w ctl \<and> fb_y ctl \<le> int Y \<and> int Y < fb_y ctl + fb_h ctl
         then guest_word b (fb_pixels ctl) (nat (fb_w ctl * (int Y - fb_y ctl) + (int X - fb_x ctl)))
         else pixel_at b (Y * 400 + X))) \<and>
     shown (vga_update_screen b') =
        shown b @ (if fb_sync ctl then [load_bytes (io_space b') (vmem b') (unat screen_size)] else []) \<and>
     vga_update_screen (vga_update_screen b') = vga_update_screen b'"
proof -
  let ?S = "(\<Union>i \<in> set [fb_y ctl..fb_y ctl + fb_h ctl - 1]. row_cells i [fb_x ctl..fb_x ctl + fb_w ctl - 1])"
  obtain b1 b' where b1: "draws (rect_value b ctl) ?S b b1" and b': "am_gpu_fbdraw ctl b = Inr b'"
    "if fb_sync ctl then outl SYNC_ADDR 1 b1 = Inr b' else b' = b1"
    using fbdraw_draws[OF assms(1,2)] by blast
  have s1: "screen_ready b1" using b1 by (simp add: draws_def)
  have fin: "bus_frame b1 b' \<and> shown b' = shown b1 \<and> vgactl_base b' = vgactl_base b1 \<and>
      reg_get (vgactl_base b1) 1 b' = (if fb_sync ctl then 1 else reg_get (vgactl_base b1) 1 b1) \<and>
      (\<forall>k < 120000. pixel_at b' k = pixel_at b1 k)"
    using write_sync[OF s1] b'(2) by (cases "fb_sync ctl") auto
  have px: "pixel_at b' (Y * 400 + X) =
        (if fb_x ctl \<le> int X \<and> int X < fb_x ctl + fb_w ctl \<and> fb_y ctl \<le> int Y \<and> int Y < fb_y ctl + fb_h ctl
         then guest_word b (fb_pixels ctl) (nat (fb_w ctl * (int Y - fb_y ctl) + (int X - fb_x ctl)))
         else pixel_at b (Y * 400 + X))" if "X < 400" "Y < 300" for X Y
  proof -
    have k: "Y * 400 + X < 120000" "(Y * 400 + X) div 400 = Y" "(Y * 400 + X) mod 400 = X" using that by auto
    then have "pixel_at b' (Y * 400 + X) = (if Y * 400 + X \<in> ?S then rect_value b ctl (Y * 400 + X) else pixel_at b (Y * 400 + X))"
      using fin b1 unfolding draws_def by simp
    then show ?thesis unfolding cell_in_rect[OF assms(2) that(1)] by (simp only: rect_value_def k)
  qed
  have "reg_get (vgactl_base b') 1 b' = (if fb_sync ctl then 1 else 0)" "shown b' = shown b"
    using fin b1 assms(3) by (auto simp: draws_def)
  then have "shown (vga_update_screen b') =
        shown b @ (if fb_sync ctl then [load_bytes (io_space b') (vmem b') (unat screen_size)] else [])"
    "vga_update_screen (vga_update_screen b') = vga_update_screen b'"
    using reg_get_set[of "vgactl_base b'" 1 0 "update_screen b'"]
    by (auto simp: vga_update_screen_def update_screen_def reg_set_def)
  moreover have "pmem b' = pmem b" using fin b1 by (simp add: draws_def bus_frame_def)
  ultimately show ?thesis using b'(1) px by blast
qed

lemma demo_screen: "screen_ready demo_bus"
  using demo_has_dev(3,4) demo_regs by (simp add: screen_ready_def demo_bus_simps)

theorem fbdraw_correct_witness:
  "\<exists>b'. am_gpu_fbdraw \<lparr>fb_x = 398, fb_y = 7, fb_pixels = 0x80001000, fb_w = 2, fb_h = 3, fb_sync = True\<rparr> demo_bus = Inr b' \<and>
     pixel_at b' (8 * 400 + 399) = guest_word demo_bus 0x80001000 3 \<and>
     pixel_at b' (10 * 400 + 399) = pixel_at demo_bus 4399"
proof -
  let ?ctl = "\<lparr>fb_x = 398, fb_y = 7, fb_pixels = 0x80001000, fb_w = 2, fb_h = 3, fb_sync = True\<rparr>"
  have "rect_ok ?ctl" by (simp add: rect_ok_def)
  moreover have "reg_get (vgactl_base demo_bus) 1 demo_bus = 0" using demo_regs by (simp add: demo_bus_simps)
  ultimately obtain b' where b': "am_gpu_fbdraw ?ctl demo_bus = Inr b'"
    and px: "\<forall>X < 400. \<forall>Y < 300. pixel_at b' (Y * 400 + X) =
        (if fb_x ?ctl \<le> int X \<and> int X < fb_x ?ctl + fb_w ?ctl \<and> fb_y ?ctl \<le> int Y \<and> int Y < fb_y ?ctl + fb_h ?ctl
         then guest_word demo_bus (fb_pixels ?ctl) (nat (fb_w ?ctl * (int Y - fb_y ?ctl) + (int X - fb_x ?ctl)))
         else pixel_at demo_bus (Y * 400 + X))"
    using fbdraw_correct[OF demo_screen, of ?ctl] by blast
  have "pixel_at b' (8 * 400 + 399) = guest_word demo_bus 0x80001000 3"
    using px[rule_format, of 399 8] by simp
  moreover have "pixel_at b' (10 * 400 + 399) = pixel_at demo_bus 4399"
    using px[rule_format, of 399 10] by simp
  ultimately show ?thesis using b' by blast
qed

end
