(* ===== verification/AmAudio.thy ===== *)
theory AmAudio
  imports AmProps
begin

text \<open>
  Sound: the stream buffer shared by the guest driver \<open>__am_audio_play\<close>, which appends at
  \<open>tail\<close>, and the host callback, which takes bytes from \<open>front\<close> and rewinds both when they meet.
\<close>

section \<open>The stream queue\<close>

definition audio_ok :: "bus \<Rightarrow> bool" where
  "audio_ok b \<longleftrightarrow> has_dev b 0xa0000200 24 CbAudio (audio_base (aud b)) \<and>
     has_dev b 0xa1200000 0x10000 CbNone (sbuf (aud b)) \<and> audio_base (aud b) + 24 \<le> sbuf (aud b) \<and>
     reg_get (audio_base (aud b)) 3 b = 0x10000 \<and>
     0 \<le> au_front (aud b) \<and> au_tail (aud b) \<le> 0x10000 \<and>
     (au_front (aud b) < au_tail (aud b) \<or> au_front (aud b) = 0 \<and> au_tail (aud b) = 0)"

definition stream :: "bus \<Rightarrow> u8 list" where
  "stream b = load_bytes (io_space b) (sbuf (aud b) + nat (au_front (aud b))) (nat (au_tail (aud b) - au_front (aud b)))"

lemma length_stream [simp]: "length (stream b) = nat (au_tail (aud b) - au_front (aud b))"
  by (simp add: stream_def)

lemma load_bytes_append: "load_bytes m a (n + k) = load_bytes m a n @ load_bytes m (a + n) k"
  by (induction m a n rule: load_bytes.induct) auto

lemma sbuf_space:
  assumes "audio_ok b" shows "sbuf (aud b) + 0x10000 \<le> IO_SPACE_MAX"
  using assms dev_at_space[of b "0xa1200000" "0x10000" CbNone "sbuf (aud b)"] by (simp add: audio_ok_def has_dev_def)

text \<open>The callback takes the oldest bytes and fills up with silence.\<close>

lemma audio_callback_ok:
  assumes ok: "audio_ok b"
  shows "\<exists>b'. audio_callback len b = Inr (take len (stream b) @ replicate (len - length (stream b)) 0, b') \<and>
     audio_ok b' \<and> stream b' = drop len (stream b) \<and> au_heard (aud b') = au_heard (aud b)"
proof -
  define f t where "f = nat (au_front (aud b))" and "t = nat (au_tail (aud b))"
  have ft: "au_front (aud b) = int f" "au_tail (aud b) = int t" "t \<le> 0x10000" "f < t \<or> f = 0 \<and> t = 0"
    using ok by (auto simp: audio_ok_def f_def t_def)
  have sp: "sbuf (aud b) + 0x10000 \<le> 2097152" using sbuf_space[OF ok] by simp
  define n where "n = min len (t - f)"
  have nread: "(if au_tail (aud b) - au_front (aud b) < int len then au_tail (aud b) - au_front (aud b) else int len) = int n"
    using ft by (auto simp: n_def min_def)
  let ?a1 = "(aud b)\<lparr>au_front := int f + int n\<rparr>"
  let ?a2 = "if au_front ?a1 = au_tail ?a1 then ?a1\<lparr>au_front := 0, au_tail := 0\<rparr> else ?a1"
  let ?b = "b\<lparr>aud := ?a2\<rparr>"
  have nat: "nat (int (sbuf (aud b)) + int f) = sbuf (aud b) + f" by (simp add: nat_add_distrib)
  have nd: "nat (int x - int y) = x - y" for x y by simp
  have nd2: "nat (int x - (int y - int z)) = x + z - y" for x y z by linarith
  have str: "stream b = load_bytes (io_space b) (sbuf (aud b) + f) (t - f)"
    using ft nd by (simp add: stream_def)
  have "t - f = n + (t - f - n)" by (simp add: n_def)
  then have split: "stream b = load_bytes (io_space b) (sbuf (aud b) + f) n @
      load_bytes (io_space b) (sbuf (aud b) + f + n) (t - f - n)"
    using str load_bytes_append by metis
  have "audio_callback len b = Inr (load_bytes (io_space b) (sbuf (aud b) + f) n @ replicate (len - n) 0, ?b)"
    unfolding audio_callback_def Let_def nread ft(1)
    using ft sp nat nd nd2 by (auto simp: n_def)
  moreover have "take len (stream b) @ replicate (len - length (stream b)) 0
      = load_bytes (io_space b) (sbuf (aud b) + f) n @ replicate (len - n) 0"
    using split by (auto simp: n_def min_def)
  moreover have "audio_ok ?b"
    using ok ft unfolding audio_ok_def has_dev_def
    by (auto simp: n_def min_def bus_ok_def dev_at_def reg_get_def split: if_splits)
  moreover have "stream ?b = drop len (stream b)"
  proof (cases "f + n = t")
    case True
    then have "stream ?b = []" "length (stream b) \<le> len" using ft str by (auto simp: stream_def n_def)
    then show ?thesis by simp
  next
    case False
    then have "n = len" using ft by (auto simp: n_def)
    moreover have "stream ?b = load_bytes (io_space b) (sbuf (aud b) + f + n) (t - f - n)"
    proof -
      have "nat (int f + int n) = f + n" "nat (int t - (int f + int n)) = t - f - n" by simp_all
      then show ?thesis using False ft by (simp add: stream_def add.assoc)
    qed
    ultimately show ?thesis using split by simp
  qed
  moreover have "au_heard (aud ?b) = au_heard (aud b)" by simp
  ultimately show ?thesis by (intro exI[of _ ?b] conjI) (simp_all only: )
qed

section \<open>The driver\<close>

lemma audio_ok_aud:
  assumes "audio_ok b" and "bus_frame b b'" and "bus_ok b'" and "aud b' = aud b"
    and "reg_get (audio_base (aud b)) 3 b' = reg_get (audio_base (aud b)) 3 b"
  shows "audio_ok b'"
  using assms has_dev_frame[OF _ assms(2,3)] by (simp add: audio_ok_def)

lemma read_count:
  assumes "audio_ok b"
  shows "\<exists>b'. inl (AUDIO_ADDR + 0x14) b = Inr (word_of_int (au_tail (aud b)), b') \<and> audio_ok b' \<and>
     aud b' = aud b \<and> stream b' = stream b"
proof -
  let ?base = "audio_base (aud b)"
  have dev: "has_dev b 0xa0000200 24 CbAudio ?base" and lim: "au_tail (aud b) \<le> 65536"
    and sep: "?base + 24 \<le> sbuf (aud b)" using assms by (simp_all add: audio_ok_def)
  let ?b = "reg_set ?base 5 (word_of_int (au_tail (aud b))) (difftest_skip_ref b)"
  have aud: "aud ?b = aud b" by (simp add: reg_set_def)
  have "inl (AUDIO_ADDR + 0x14) b = Inr (reg_get ?base 5 ?b, ?b)"
    using has_dev_read[OF dev, of "0xa0000214" 4] lim aud
    by (simp add: inl_def audio_io_handler_def reg_get_def del: load_bytes.simps)
  moreover have frame: "bus_frame b ?b" using difftest_skip_ref_frame[of b] by simp
  moreover have "bus_ok ?b" using dev by (simp add: has_dev_def reg_set_def)
  then have "audio_ok ?b"
    using audio_ok_aud[OF assms frame _ aud] reg_get_set_other[of 3 5 ?base _ "difftest_skip_ref b"]
    by (simp add: reg_get_def)
  moreover have "stream ?b = stream b"
    using sep assms by (simp add: stream_def reg_set_def load_store_disjoint audio_ok_def)
  ultimately show ?thesis using aud by simp
qed

lemma sint_small: "0 \<le> k \<Longrightarrow> k \<le> 65536 \<Longrightarrow> sint (word_of_int k :: u32) = k"
  by (simp add: signed_of_int signed_take_bit_int_eq_self)

lemma write_count:
  assumes "audio_ok b" and "t \<le> 65536" and "int t > au_front (aud b)"
  shows "\<exists>b'. outl (AUDIO_ADDR + 0x14) (word_of_int (int t)) b = Inr b' \<and> audio_ok b' \<and> aud b' = (aud b)\<lparr>au_tail := int t\<rparr> \<and>
     (\<forall>x \<ge> sbuf (aud b). io_space b' x = io_space b x)"
proof -
  let ?base = "audio_base (aud b)"
  have dev: "has_dev b 0xa0000200 24 CbAudio ?base" and sep: "?base + 24 \<le> sbuf (aud b)"
    using assms by (simp_all add: audio_ok_def)
  let ?b1 = "reg_set ?base 5 (word_of_int (int t)) (difftest_skip_ref b)"
  let ?b = "?b1\<lparr>aud := (aud b)\<lparr>au_tail := int t\<rparr>\<rparr>"
  have "sint (word_of_int (int t) :: u32) = int t"
    using assms(2) by (intro sint_small) auto
  then have st: "sint (reg_get ?base 5 ?b1) = int t" by simp
  have aud1: "aud ?b1 = aud b" by (simp add: reg_set_def)
  have run: "outl (AUDIO_ADDR + 0x14) (word_of_int (int t)) b = Inr ?b"
    using has_dev_write[OF dev, of "0xa0000214" 4 "word_of_int (int t)"] assms(2) st aud1
    by (simp add: outl_def audio_io_handler_def reg_set_def[of _ 5] Let_def
        del: store_bytes.simps le_bytes.simps)
  have frame: "bus_frame b ?b1" using difftest_skip_ref_frame[of b] by simp
  have "bus_ok ?b1" using dev by (simp add: has_dev_def reg_set_def)
  then have ok1: "audio_ok ?b1"
    using audio_ok_aud[OF assms(1) frame _ aud1] reg_get_set_other[of 3 5 ?base _ "difftest_skip_ref b"]
    by (simp add: reg_get_def)
  then have "audio_ok ?b"
    using assms(2,3) aud1 unfolding audio_ok_def has_dev_def
    by (auto simp: bus_ok_def dev_at_def reg_get_def)
  moreover have "\<forall>x \<ge> sbuf (aud b). io_space ?b x = io_space b x"
    using sep by (auto simp: reg_set_def store_bytes_other)
  ultimately show ?thesis using run by (intro exI[of _ ?b]) simp
qed

lemma outb_stream:
  assumes "audio_ok b" and "t < 65536"
  shows "\<exists>b'. outb (AUDIO_SBUF_ADDR + word_of_int (int t)) c b = Inr b' \<and> audio_ok b' \<and> aud b' = aud b \<and>
     io_space b' = (io_space b)(sbuf (aud b) + t := c)"
proof -
  have dev: "has_dev b 0xa1200000 0x10000 CbNone (sbuf (aud b))" and sep: "audio_base (aud b) + 24 \<le> sbuf (aud b)"
    using assms by (simp_all add: audio_ok_def)
  let ?b = "(difftest_skip_ref b)\<lparr>io_space := (io_space b)(sbuf (aud b) + t := c)\<rparr>"
  define a :: u32 where "a = AUDIO_SBUF_ADDR + word_of_int (int t)"
  have u: "unat (word_of_int (int t) :: u32) = t" using assms(2) by (subst unat_word_of_int) auto
  then have "unat a = 0xa1200000 + t" using assms(2) unfolding a_def by (subst unat_add_lem[THEN iffD1]) auto
  moreover have "unat (a - AUDIO_SBUF_ADDR) = t" using u by (simp add: a_def)
  moreover have "(ucast (ucast c :: u32) :: u8) = c" by (rule bit_word_eqI) (simp add: bit_simps)
  ultimately have "outb a c b = Inr ?b"
    using has_dev_write[OF dev, of a 1 "ucast c"] assms(2)
    by (simp add: outb_def word_le_nat_alt le_bytes_1 del: le_bytes.simps)
  moreover have frame: "bus_frame b ?b" using difftest_skip_ref_frame[of b] by simp
  moreover have "audio_ok ?b"
  proof (rule audio_ok_aud[OF assms(1) frame])
    show "bus_ok ?b" using dev by (simp add: has_dev_def)
    show "reg_get (audio_base (aud b)) 3 ?b = reg_get (audio_base (aud b)) 3 b"
      using load_store_disjoint[of "audio_base (aud b) + 12" 4 "sbuf (aud b) + t" "[c]" "io_space b"] sep
      by (simp add: reg_get_def del: load_bytes.simps)
  qed simp
  ultimately show ?thesis unfolding a_def by (intro exI[of _ ?b]) simp
qed

lemma audio_fill_ok:
  fixes bytes :: "u8 list"
  assumes "audio_ok b" and "t \<le> 65536"
  defines "m \<equiv> min (length bytes) (65536 - t)"
  shows "\<exists>b'. audio_fill 65536 (int t) bytes b = Inr (int (t + m), drop m bytes, b') \<and> audio_ok b' \<and> aud b' = aud b \<and>
     io_space b' = store_bytes (io_space b) (sbuf (aud b) + t) (take m bytes)"
  using assms(1,2) unfolding m_def
proof (induction bytes arbitrary: b t)
  case (Cons c cs)
  show ?case
  proof (cases "t < 65536")
    case True
    obtain b1 where b1: "outb (AUDIO_SBUF_ADDR + word_of_int (int t)) c b = Inr b1" "audio_ok b1" "aud b1 = aud b"
      "io_space b1 = (io_space b)(sbuf (aud b) + t := c)"
      using outb_stream[OF Cons.prems(1) True] by blast
    have min: "min (length (c # cs)) (65536 - t) = Suc (min (length cs) (65536 - Suc t))" using True by simp
    obtain b2 where "audio_fill 65536 (int (Suc t)) cs b1 = Inr (int (Suc t + min (length cs) (65536 - Suc t)),
        drop (min (length cs) (65536 - Suc t)) cs, b2)" "audio_ok b2" "aud b2 = aud b1"
      "io_space b2 = store_bytes (io_space b1) (sbuf (aud b1) + Suc t) (take (min (length cs) (65536 - Suc t)) cs)"
      using Cons.IH[OF b1(2), of "Suc t"] True by auto
    then show ?thesis using b1 True unfolding min by (simp add: add.commute)
  qed (use Cons.prems in simp)
qed simp

text \<open>One round of the outer loop moves as many bytes as fit; on a full queue it moves none.\<close>

lemma stream_extend:
  assumes "audio_ok b" and "au_tail (aud b) = int t" and "t + length bs \<le> 65536"
    and "audio_ok b'" and "au_front (aud b') = au_front (aud b)" and "sbuf (aud b') = sbuf (aud b)"
    and "au_tail (aud b') = int (t + length bs)"
    and "\<forall>x \<ge> sbuf (aud b). io_space b' x = store_bytes (io_space b) (sbuf (aud b) + t) bs x"
  shows "stream b' = stream b @ bs"
proof (rule nth_equalityI)
  define f where "f = nat (au_front (aud b))"
  have f: "au_front (aud b) = int f" "f \<le> t" using assms(1,2) by (auto simp: audio_ok_def f_def)
  have nd: "nat (int x - int y) = x - y" for x y by simp
  have len: "length (stream b) = t - f" "length (stream b') = t + length bs - f"
    using f assms(2,5,7) nd[of t f] nd[of "t + length bs" f] by (simp_all del: of_nat_add)
  then show "length (stream b') = length (stream b @ bs)" using f(2) by simp
  fix i assume i: "i < length (stream b')"
  have "stream b' ! i = io_space b' (sbuf (aud b) + f + i)"
    using i assms(5,6) f(1) unfolding stream_def by (simp add: load_bytes_nth)
  also have "\<dots> = store_bytes (io_space b) (sbuf (aud b) + t) bs (sbuf (aud b) + f + i)"
    using assms(8) by simp
  also have "\<dots> = (stream b @ bs) ! i"
  proof (cases "i < t - f")
    case True
    then have "stream b ! i = io_space b (sbuf (aud b) + f + i)"
      using len(1) f(1) unfolding stream_def by (simp add: load_bytes_nth)
    moreover have "\<not> t \<le> f + i" using True by linarith
    ultimately show ?thesis using True len(1) by (simp add: nth_append store_bytes_apply)
  next
    case False
    then have idx: "sbuf (aud b) + f + i - (sbuf (aud b) + t) = i - (t - f)"
      and "sbuf (aud b) + t \<le> sbuf (aud b) + f + i \<and> sbuf (aud b) + f + i < sbuf (aud b) + t + length bs"
      using f(2) i len(2) by linarith+
    then have "store_bytes (io_space b) (sbuf (aud b) + t) bs (sbuf (aud b) + f + i) = bs ! (i - (t - f))"
      unfolding store_bytes_apply by (simp only: simp_thms if_True)
    then show ?thesis using False len(1) by (simp only: nth_append if_False)
  qed
  finally show "stream b' ! i = (stream b @ bs) ! i" .
qed

lemma audio_round_ok:
  assumes ok: "audio_ok b" and "bytes \<noteq> []"
  shows "\<exists>b'. audio_ok b' \<and> au_heard (aud b') = au_heard (aud b) \<and>
     (if au_tail (aud b) = 65536 then audio_play_round 65536 bytes b = Inr (None, b') \<and> stream b' = stream b \<and> aud b' = aud b
      else let m = min (length bytes) (65536 - nat (au_tail (aud b)))
           in 0 < m \<and> audio_play_round 65536 bytes b = Inr (Some (drop m bytes), b') \<and> stream b' = stream b @ take m bytes)"
proof -
  obtain b1 where b1: "inl (AUDIO_ADDR + 0x14) b = Inr (word_of_int (au_tail (aud b)), b1)" "audio_ok b1"
    "aud b1 = aud b" "stream b1 = stream b"
    using read_count[OF ok] by blast
  define t where "t = nat (au_tail (aud b))"
  have t: "au_tail (aud b) = int t" "t \<le> 65536" using ok by (auto simp: audio_ok_def t_def)
  have sint: "sint (word_of_int (au_tail (aud b)) :: u32) = int t" using t by (simp only: t(1)) (intro sint_small, auto)
  show ?thesis
  proof (cases "t = 65536")
    case True
    then have "audio_play_round 65536 bytes b = Inr (None, b1)"
      using b1(1) sint by (simp add: audio_play_round_def Let_def)
    then show ?thesis using True t(1) b1 by auto
  next
    case False
    let ?m = "min (length bytes) (65536 - t)"
    obtain b2 where b2: "audio_fill 65536 (int t) bytes b1 = Inr (int (t + ?m), drop ?m bytes, b2)" "audio_ok b2" "aud b2 = aud b1"
      "io_space b2 = store_bytes (io_space b1) (sbuf (aud b1) + t) (take ?m bytes)"
      using audio_fill_ok[OF b1(2) t(2), of bytes] by blast
    have m: "0 < ?m" "t + ?m \<le> 65536" using assms(2) False t(2) by auto
    have "int (t + ?m) > au_front (aud b2)"
      using ok m(1) t(1) by (auto simp: b2(3) b1(3) audio_ok_def)
    then obtain b3 where b3: "outl (AUDIO_ADDR + 0x14) (word_of_int (int (t + ?m))) b2 = Inr b3" "audio_ok b3"
      "aud b3 = (aud b2)\<lparr>au_tail := int (t + ?m)\<rparr>" "\<forall>x \<ge> sbuf (aud b2). io_space b3 x = io_space b2 x"
      using write_count[OF b2(2) m(2)] by blast
    have "audio_play_round 65536 bytes b = Inr (Some (drop ?m bytes), b3)"
      using b1(1) sint b2(1) b3(1) False by (simp add: audio_play_round_def Let_def)
    moreover have "stream b3 = stream b1 @ take ?m bytes"
      using m(2) b1(3) t(1) b2(3,4) b3 by (intro stream_extend[OF b1(2), of t]) (auto simp: min_def)
    moreover have "au_heard (aud b3) = au_heard (aud b)" by (simp add: b3(3) b2(3) b1(3))
    ultimately show ?thesis using b3(2) b1(4) m(1) False t by (auto simp: Let_def)
  qed
qed

section \<open>Playing to the end\<close>

text \<open>
  Between two rounds of the driver the sound thread of the host asks for \<open>len\<close> bytes and plays what the
  callback has put into its buffer.
\<close>

definition host_plays :: "nat \<Rightarrow> bus \<Rightarrow> bus res" where
  "host_plays len b =
     bindR (audio_callback len b) (\<lambda>(s, b'). Inr (b'\<lparr>aud := (aud b')\<lparr>au_heard := au_heard (aud b') @ [s]\<rparr>\<rparr>))"

text \<open>A part \<open>p\<close> of the sound as a buffer of \<open>len\<close> bytes: silence follows it.\<close>

definition padded :: "nat \<Rightarrow> u8 list \<Rightarrow> u8 list" where
  "padded len p = p @ replicate (len - length p) 0"

lemma host_plays_ok:
  assumes "audio_ok b"
  shows "\<exists>b'. host_plays len b = Inr b' \<and> audio_ok b' \<and> stream b' = drop len (stream b) \<and>
    au_heard (aud b') = au_heard (aud b) @ [padded len (take len (stream b))]"
proof -
  obtain b1 where b1: "audio_callback len b = Inr (take len (stream b) @ replicate (len - length (stream b)) 0, b1)"
    "audio_ok b1" "stream b1 = drop len (stream b)" "au_heard (aud b1) = au_heard (aud b)"
    using audio_callback_ok[OF assms, of len] by blast
  let ?b = "b1\<lparr>aud := (aud b1)\<lparr>au_heard := au_heard (aud b1) @ [take len (stream b) @ replicate (len - length (stream b)) 0]\<rparr>\<rparr>"
  have "audio_ok ?b" using b1(2) by (simp add: audio_ok_def has_dev_def bus_ok_def dev_at_def reg_get_def)
  moreover have "stream ?b = stream b1" by (simp add: stream_def)
  moreover have "len - min (length (stream b)) len = len - length (stream b)" by simp
  ultimately show ?thesis using b1 by (auto simp: host_plays_def padded_def min_def)
qed

lemma audio_loop_ok:
  assumes "audio_ok b" and "0 < len" and "length bytes * 65537 + length (stream b) \<le> fuel"
  shows "\<exists>b' ps. audio_play_loop fuel (host_plays len) 65536 bytes b = Some (Inr b') \<and> audio_ok b' \<and>
     au_heard (aud b') = au_heard (aud b) @ map (padded len) ps \<and> concat ps @ stream b' = stream b @ bytes \<and>
     (\<forall>p \<in> set ps. length p \<le> len)"
  using assms(1,3)
proof (induction fuel arbitrary: bytes b)
  case 0
  then have "bytes = []" by simp
  with 0 show ?case by auto
next
  case (Suc fuel)
  show ?case
  proof (cases bytes)
    case Nil
    with Suc.prems show ?thesis by auto
  next
    case (Cons c cs)
    define t where "t = nat (au_tail (aud b))"
    obtain b1 where b1: "audio_ok b1" "au_heard (aud b1) = au_heard (aud b)" and full: "au_tail (aud b) = 65536 \<Longrightarrow>
        audio_play_round 65536 bytes b = Inr (None, b1) \<and> stream b1 = stream b \<and> aud b1 = aud b"
      and part: "au_tail (aud b) \<noteq> 65536 \<Longrightarrow> 0 < min (length bytes) (65536 - t) \<and>
        audio_play_round 65536 bytes b = Inr (Some (drop (min (length bytes) (65536 - t)) bytes), b1) \<and>
        stream b1 = stream b @ take (min (length bytes) (65536 - t)) bytes"
      using audio_round_ok[OF Suc.prems(1), of bytes] Cons by (auto simp: Let_def t_def split: if_splits)
    obtain b2 where b2: "host_plays len b1 = Inr b2" "audio_ok b2" "stream b2 = drop len (stream b1)"
      "au_heard (aud b2) = au_heard (aud b) @ [padded len (take len (stream b1))]"
      using host_plays_ok[OF b1(1)] b1(2) by metis
    show ?thesis
    proof (cases "au_tail (aud b) = 65536")
      case True
      then have "0 < length (stream b)" using Suc.prems(1) by (auto simp: audio_ok_def)
      moreover have "length (stream b2) = length (stream b) - len"
        using b2(3) full[OF True] by (simp del: length_stream)
      ultimately have "length bytes * 65537 + length (stream b2) \<le> fuel"
        using Suc.prems(2) assms(2) by linarith
      then obtain b' ps where "audio_play_loop fuel (host_plays len) 65536 bytes b2 = Some (Inr b')" "audio_ok b'"
        "au_heard (aud b') = au_heard (aud b2) @ map (padded len) ps" "concat ps @ stream b' = stream b2 @ bytes"
        "\<forall>p \<in> set ps. length p \<le> len"
        using Suc.IH[OF b2(2)] by blast
      then show ?thesis
        using Cons full[OF True] b2 by (intro exI[of _ b'] exI[of _ "take len (stream b1) # ps"]) simp
    next
      case False
      define m where "m = min (length bytes) (65536 - t)"
      note part = part[OF False, folded m_def]
      have "length (drop m bytes) * 65537 + length (stream b2) \<le> fuel"
      proof -
        have "length (stream b2) \<le> length (stream b) + m" using b2(3) part by (simp del: length_stream)
        moreover have "length (drop m bytes) = length bytes - m" "m \<le> length bytes" by (simp_all add: m_def)
        ultimately show ?thesis using Suc.prems(2) part
          by (simp add: diff_mult_distrib del: length_stream) linarith
      qed
      then obtain b' ps where "audio_play_loop fuel (host_plays len) 65536 (drop m bytes) b2 = Some (Inr b')" "audio_ok b'"
        "au_heard (aud b') = au_heard (aud b2) @ map (padded len) ps" "concat ps @ stream b' = stream b2 @ drop m bytes"
        "\<forall>p \<in> set ps. length p \<le> len"
        using Suc.IH[OF b2(2)] by blast
      moreover have "take len (stream b1) @ stream b2 = stream b @ take m bytes"
        unfolding b2(3) append_take_drop_id using part by blast
      then have "take len (stream b1) @ stream b2 @ drop m bytes = stream b @ bytes"
        by (metis append_assoc append_take_drop_id)
      moreover have "audio_play_loop (Suc fuel) (host_plays len) 65536 bytes b =
          audio_play_loop fuel (host_plays len) 65536 (drop m bytes) b2"
        using Cons part b2(1) by simp
      ultimately show ?thesis
        using b2(4) by (intro exI[of _ b'] exI[of _ "take len (stream b1) # ps"]) simp
    qed
  qed
qed

text \<open>
  C18. Sound is delivered, in order, and playing ends: when the sound thread of the host asks for \<open>len\<close>
  bytes between two rounds of the driver, \<open>__am_audio_play\<close> returns after at most
  \<open>65537 * n + |queue| \<close> rounds for n bytes and no access leaves the buffers. The buffers the callback
  has filled meanwhile hold parts of the sound, each followed by silence up to \<open>len\<close> bytes, and these parts
  in order followed by what is still queued are what was queued before followed by all the bytes
  played. (A callback in the middle of a round is not covered: see \<open>audio_race_replays\<close>.)
\<close>

theorem audio_play_delivers:
  assumes "audio_ok b" and "0 < len" and "length bytes * 65537 + length (stream b) \<le> fuel"
  shows "\<exists>b' parts. am_audio_play fuel (host_plays len) bytes b = Some (Inr b') \<and>
     au_heard (aud b') = au_heard (aud b) @ map (\<lambda>p. p @ replicate (len - length p) 0) parts \<and>
     (\<forall>p \<in> set parts. length p \<le> len) \<and> concat parts @ stream b' = stream b @ bytes"
proof -
  have dev: "has_dev b 0xa0000200 24 CbAudio (audio_base (aud b))" and r3: "reg_get (audio_base (aud b)) 3 b = 65536"
    using assms(1) by (simp_all add: audio_ok_def)
  have rd: "inl (AUDIO_ADDR + 0x0c) b = Inr (65536, difftest_skip_ref b)"
    using has_dev_read[OF dev, of "0xa000020c" 4] r3
    by (simp add: inl_def audio_io_handler_def reg_get_def Let_def del: load_bytes.simps)
  have "audio_ok (difftest_skip_ref b)"
    using audio_ok_aud[OF assms(1) difftest_skip_ref_frame] assms(1)
    by (simp add: reg_get_def audio_ok_def has_dev_def)
  moreover have "stream (difftest_skip_ref b) = stream b" "aud (difftest_skip_ref b) = aud b" by (simp_all add: stream_def)
  moreover have "sint (65536 :: u32) = 65536" by simp
  ultimately show ?thesis
    using audio_loop_ok[of "difftest_skip_ref b" len bytes fuel, unfolded padded_def] assms(2,3) rd
    by (fastforce simp: am_audio_play_def)
qed

lemma demo_audio: "audio_ok demo_bus"
  using demo_has_dev(6,7) demo_regs
  by (simp add: audio_ok_def demo_bus_simps) (simp add: demo_bus_def static_audio_def)

lemma demo_stream: "stream demo_bus = []"
  by (simp add: stream_def demo_bus_def static_audio_def)

theorem audio_play_delivers_witness:
  "\<exists>b' parts. am_audio_play 200000 (host_plays 512) [1, 2, 3] demo_bus = Some (Inr b') \<and>
     au_heard (aud b') = map (\<lambda>p. p @ replicate (512 - length p) 0) parts \<and> concat parts @ stream b' = [1, 2, 3]"
proof -
  have "au_heard (aud demo_bus) = []" by (simp add: demo_bus_def static_audio_def)
  then show ?thesis using audio_play_delivers[OF demo_audio, of 512 "[1, 2, 3]" 200000] by (auto simp: demo_stream)
qed

section \<open>The race between driver and callback\<close>

text \<open>
  The same round when the sound thread runs after the driver has read the count and before it
  writes it back.
\<close>

definition audio_round_race :: "nat \<Rightarrow> u8 list \<Rightarrow> bus \<Rightarrow> (u8 list \<times> bus) res" where
  "audio_round_race len bytes b =
     bindR (inl (AUDIO_ADDR + 0x14) b) (\<lambda>(n, b1).
     bindR (audio_callback len b1) (\<lambda>(taken, b2).
     bindR (audio_fill 65536 (sint n) bytes b2) (\<lambda>(count', _, b3).
     bindR (outl (AUDIO_ADDR + 0x14) (word_of_int count') b3) (\<lambda>b4. Inr (taken, b4)))))"

lemma audio_callback_drains:
  assumes "audio_ok b" and "audio_callback len b = Inr (s, b')" and "length (stream b) \<le> len"
  shows "b' = b\<lparr>aud := (aud b)\<lparr>au_front := 0, au_tail := 0\<rparr>\<rparr>"
  using assms by (auto simp: audio_callback_def Let_def res_elims audio_ok_def split: if_splits)

text \<open>
  The stream is not safe against its reader: when the callback empties the queue between the
  two accesses of the driver to the count, the bytes the host has just played are queued a
  second time in front of the new ones.
\<close>

theorem audio_race_replays:
  assumes ok: "audio_ok b" and t: "au_front (aud b) = 0" "au_tail (aud b) = int t" "0 < t" "t + length bytes \<le> 65536"
    and len: "t \<le> len"
  shows "\<exists>b'. audio_round_race len bytes b = Inr (stream b @ replicate (len - t) 0, b') \<and>
     stream b' = stream b @ bytes"
proof -
  obtain b1 where b1: "inl (AUDIO_ADDR + 0x14) b = Inr (word_of_int (au_tail (aud b)), b1)" "audio_ok b1"
    "aud b1 = aud b" "stream b1 = stream b"
    using read_count[OF ok] by blast
  have ls: "length (stream b1) = t" using b1(3) t by simp
  obtain b2 where b2: "audio_callback len b1 = Inr (take len (stream b1) @ replicate (len - length (stream b1)) 0, b2)"
    "audio_ok b2"
    using audio_callback_ok[OF b1(2), of len] by blast
  have b2': "b2 = b1\<lparr>aud := (aud b1)\<lparr>au_front := 0, au_tail := 0\<rparr>\<rparr>"
    using audio_callback_drains[OF b1(2) b2(1)] ls len by simp
  have sint: "sint (word_of_int (au_tail (aud b)) :: u32) = int t" using t by (simp only: t(2)) (intro sint_small, auto)
  have m: "min (length bytes) (65536 - t) = length bytes" and "t \<le> 65536" using t(4) by auto
  then obtain b3 where b3: "audio_fill 65536 (int t) bytes b2 = Inr (int (t + length bytes), [], b3)" "audio_ok b3"
    "aud b3 = aud b2" "io_space b3 = store_bytes (io_space b2) (sbuf (aud b2) + t) bytes"
    using audio_fill_ok[OF b2(2), of t bytes] by auto
  have "int (t + length bytes) > au_front (aud b3)" using t(3) by (simp add: b3(3) b2')
  then obtain b4 where b4: "outl (AUDIO_ADDR + 0x14) (word_of_int (int (t + length bytes))) b3 = Inr b4" "audio_ok b4"
    "aud b4 = (aud b3)\<lparr>au_tail := int (t + length bytes)\<rparr>" "\<forall>x \<ge> sbuf (aud b3). io_space b4 x = io_space b3 x"
    using write_count[OF b3(2) t(4)] by blast
  have "audio_round_race len bytes b = Inr (stream b @ replicate (len - t) 0, b4)"
    using b1(1,4) b2(1) b3(1) b4(1) sint ls len by (simp add: audio_round_race_def)
  moreover have "stream b4 = stream b1 @ bytes"
    using t b1(3) b2' b3(3,4) b4 by (intro stream_extend[OF b1(2), of t]) simp_all
  ultimately show ?thesis using b1(4) by auto
qed

theorem audio_race_replays_witness:
  "\<exists>b b'. stream b = [9] \<and> audio_round_race 64 [1, 2] b = Inr (9 # replicate 63 0, b') \<and> stream b' = [9, 1, 2]"
proof -
  let ?b = "demo_bus\<lparr>io_space := (io_space demo_bus)(503808 := 9), aud := (aud demo_bus)\<lparr>au_tail := 1\<rparr>\<rparr>"
  have f: "au_front (aud demo_bus) = 0" by (simp add: demo_bus_def static_audio_def)
  have "reg_get 499712 3 ?b = 0x10000"
    using demo_regs(3) load_store_disjoint[of "499712 + 12" 4 503808 "[9]" "io_space demo_bus"]
    by (simp add: reg_get_def del: load_bytes.simps)
  moreover have "has_dev ?b addr len cb sp = has_dev demo_bus addr len cb sp" for addr len cb sp
    by (simp add: has_dev_def bus_ok_def dev_at_def)
  ultimately have "audio_ok ?b"
    using demo_has_dev(6,7) f by (simp add: audio_ok_def demo_bus_simps)
  moreover have "stream ?b = [9]" using f by (simp add: stream_def demo_bus_simps)
  ultimately show ?thesis
    using audio_race_replays[of ?b 1 "[1, 2]" 64] f by (auto intro: exI[of _ ?b])
qed

end
