(* ===== verification/SdProps.thy ===== *)
theory SdProps
  imports AmProps
begin

text \<open>
  The SD card controller of \<open>nemu/src/device/sdcard.c\<close> seen through the bus: transfers of
  consecutive words from and to the card image.
\<close>

definition sd_ready :: "bus \<Rightarrow> bool" where
  "sd_ready b \<longleftrightarrow> has_dev b 0xa3000000 0x80 CbSdcard (sd_base (sd b)) \<and> \<not> sd_read_ext_csd (sd b)"

abbreviation (input) SDCMD_ADDR :: u32 where "SDCMD_ADDR \<equiv> 0xa3000000"
abbreviation (input) SDARG_ADDR :: u32 where "SDARG_ADDR \<equiv> 0xa3000004"
abbreviation (input) SDDATA_ADDR :: u32 where "SDDATA_ADDR \<equiv> 0xa3000040"

text \<open>The commands of a host driver: set the argument, then the command.\<close>

definition sd_command :: "u32 \<Rightarrow> u32 \<Rightarrow> bus \<Rightarrow> bus res" where
  "sd_command cmd arg b = bindR (outl SDARG_ADDR arg b) (outl SDCMD_ADDR cmd)"

fun sd_read_words :: "nat \<Rightarrow> bus \<Rightarrow> (u32 list \<times> bus) res" where
  "sd_read_words 0 b = Inr ([], b)"
| "sd_read_words (Suc n) b =
     bindR (inl SDDATA_ADDR b) (\<lambda>(w, b1). bindR (sd_read_words n b1) (\<lambda>(ws, b2). Inr (w # ws, b2)))"

definition sd_write_words :: "u32 list \<Rightarrow> bus \<Rightarrow> bus res" where
  "sd_write_words ws b = forR (outl SDDATA_ADDR) ws b"

definition sd_read_block :: "u32 \<Rightarrow> nat \<Rightarrow> bus \<Rightarrow> (u32 list \<times> bus) res" where
  "sd_read_block blk n b = bindR (sd_command 18 blk b) (sd_read_words n)"

definition sd_write_block :: "u32 \<Rightarrow> u32 list \<Rightarrow> bus \<Rightarrow> bus res" where
  "sd_write_block blk ws b = bindR (sd_command 25 blk b) (sd_write_words ws)"

section \<open>Single steps\<close>

lemma sd_reg_write:
  assumes "sd_ready b" and "i < 32"
  shows "outl (SDCMD_ADDR + of_nat (4 * i)) v b =
     sdcard_io_handler (of_nat (4 * i)) 4 True (reg_set (sd_base (sd b)) i v (difftest_skip_ref b))"
proof -
  have dev: "has_dev b 0xa3000000 0x80 CbSdcard (sd_base (sd b))" using assms(1) by (simp add: sd_ready_def)
  have u: "unat (of_nat (4 * i) :: u32) = 4 * i"
    using assms(2) by (simp only: unsigned_of_nat) (simp add: take_bit_nat_eq_self)
  then have "unat (SDCMD_ADDR + of_nat (4 * i)) = 0xa3000000 + 4 * i"
    using assms(2) by (subst unat_add_lem[THEN iffD1]) auto
  then show ?thesis
    using has_dev_write[OF dev, of "SDCMD_ADDR + of_nat (4 * i)" 4 v] assms(2) u
    by (simp add: outl_def word_le_nat_alt reg_set_def del: of_nat_mult store_bytes.simps le_bytes.simps)
qed

lemma sd_ready_step:
  assumes "sd_ready b" and "bus_frame b b'" and "kbd b' = kbd b" and "sd_base (sd b') = sd_base (sd b)"
    and "\<not> sd_read_ext_csd (sd b')"
  shows "sd_ready b'"
  using assms has_dev_frame[OF _ assms(2)] bus_ok_frame[OF _ assms(2)]
  by (auto simp: sd_ready_def has_dev_def bus_ok_def)

lemma sd_command_ok:
  assumes ready: "sd_ready b" and fp: "sd_fp (sd b) = Some (bytes, pos)" and cmd: "cmd = (if w then 25 else 18)"
  shows "\<exists>b'. sd_command cmd blk b = Inr b' \<and> sd_ready b' \<and> sd_fp (sd b') = Some (bytes, unat blk * 512) \<and>
     sd_write_cmd (sd b') = w \<and> bus_frame b b'"
proof -
  let ?base = "sd_base (sd b)"
  let ?b1 = "reg_set ?base 1 blk (difftest_skip_ref b)"
  have sd1: "sd ?b1 = sd b" "kbd ?b1 = kbd b" by (simp_all add: reg_set_def)
  have f1: "bus_frame b ?b1" using difftest_skip_ref_frame[of b] by simp
  have r1: "sd_ready ?b1" using sd_ready_step[OF ready f1] sd1 ready by (simp add: sd_ready_def)
  have o1: "outl SDARG_ADDR blk b = Inr ?b1"
    using sd_reg_write[OF ready, of 1 blk] sd1 by (simp add: sdcard_io_handler_def Let_def)
  let ?b2 = "reg_set ?base 0 cmd (difftest_skip_ref ?b1)"
  have sd2: "sd ?b2 = sd b" "kbd ?b2 = kbd b" using sd1 by (simp_all add: reg_set_def)
  have arg: "reg_get ?base 1 ?b2 = blk"
  proof -
    have "reg_get ?base 1 ?b2 = reg_get ?base 1 (difftest_skip_ref ?b1)" by simp
    also have "\<dots> = reg_get ?base 1 ?b1" unfolding reg_get_def by simp
    also have "\<dots> = blk" by (rule reg_get_set)
    finally show ?thesis .
  qed
  let ?b3 = "sd_prepare_rw w ?b2"
  have h: "sdcard_handle_cmd (cmd AND 0x3f) c = Inr (sd_prepare_rw w c)" for c
    using cmd by (cases w) (simp_all add: sdcard_handle_cmd_def Let_def)
  have "reg_get ?base 0 ?b2 = cmd" by (rule reg_get_set)
  then have io: "sdcard_io_handler 0 4 True ?b2 = Inr ?b3"
    unfolding sdcard_io_handler_def Let_def sd2(1) using h by simp
  have o2: "outl SDCMD_ADDR cmd ?b1 = Inr ?b3"
    using sd_reg_write[OF r1, of 0 cmd] unfolding sd1 using io by simp
  have f2: "bus_frame ?b1 ?b2" using difftest_skip_ref_frame[of ?b1] by simp
  have frame: "bus_frame b ?b3"
    using bus_frame_trans[OF f1 f2] sd_prepare_rw_frame[of ?b2 w] bus_frame_trans by blast
  have nat: "nat (uint blk * 512) = unat blk * 512" by (simp add: nat_mult_distrib)
  have sd3: "sd_fp (sd ?b3) = Some (bytes, unat blk * 512)" "sd_write_cmd (sd ?b3) = w"
    "sd_base (sd ?b3) = ?base" "\<not> sd_read_ext_csd (sd ?b3)"
    using sd2 fp arg ready nat by (simp_all add: sd_prepare_rw_def Let_def sd_ready_def)
  have "kbd ?b3 = kbd b" using sd_prepare_rw_frame[of ?b2 w] sd2 by simp
  then have "sd_ready ?b3" using sd_ready_step[OF ready frame] sd3 by simp
  then show ?thesis using o1 o2 sd3 frame by (auto simp: sd_command_def)
qed

text \<open>One word read, and one written.\<close>

lemma sd_read_word:
  assumes ready: "sd_ready b" and fp: "sd_fp (sd b) = Some (bytes, pos)" and "\<not> sd_write_cmd (sd b)"
    and "pos + 4 \<le> length bytes"
  shows "\<exists>b'. inl SDDATA_ADDR b = Inr (le_word (take 4 (drop pos bytes)), b') \<and> sd_ready b' \<and>
     sd_fp (sd b') = Some (bytes, pos + 4) \<and> \<not> sd_write_cmd (sd b')"
proof -
  let ?base = "sd_base (sd b)" and ?got = "take 4 (drop pos bytes)"
  have dev: "has_dev b 0xa3000000 0x80 CbSdcard ?base" and ext: "\<not> sd_read_ext_csd (sd b)"
    using ready by (simp_all add: sd_ready_def)
  let ?d = "sd_data (difftest_skip_ref b)"
  have len: "length ?got = 4" using assms(4) by simp
  have "inl SDDATA_ADDR b = Inr (le_word (load_bytes (io_space ?d) (?base + 64) 4), ?d)"
    using has_dev_read[OF dev, of "0xa3000040" 4]
    by (simp add: inl_def sdcard_io_handler_def Let_def del: load_bytes.simps)
  moreover have "load_bytes (io_space ?d) (?base + 64) 4 = ?got"
    using ext fp assms(3) len load_store_same[of 4 ?got "io_space b" "?base + 64"]
    by (simp add: sd_data_def Let_def file_read4_def del: load_bytes.simps)
  moreover have "sd_fp (sd ?d) = Some (bytes, pos + 4)" "sd_base (sd ?d) = ?base" "\<not> sd_read_ext_csd (sd ?d)"
    "\<not> sd_write_cmd (sd ?d)"
    using ext fp assms(3,4) by (simp_all add: sd_data_def Let_def file_read4_def)
  moreover have "bus_frame b ?d" "kbd ?d = kbd b"
    using sd_data_frame[of "difftest_skip_ref b"] bus_frame_trans[OF difftest_skip_ref_frame] by simp_all
  ultimately show ?thesis using sd_ready_step[OF ready] by simp
qed

lemma sd_write_word:
  assumes ready: "sd_ready b" and fp: "sd_fp (sd b) = Some (bytes, pos)" and "sd_write_cmd (sd b)"
  shows "\<exists>b'. outl SDDATA_ADDR w b = Inr b' \<and> sd_ready b' \<and> sd_write_cmd (sd b') \<and>
     sd_fp (sd b') = Some (file_write4 (le_bytes 4 w) (bytes, pos))"
proof -
  let ?base = "sd_base (sd b)"
  have ext: "\<not> sd_read_ext_csd (sd b)" using ready by (simp add: sd_ready_def)
  let ?b1 = "reg_set ?base 16 w (difftest_skip_ref b)"
  let ?d = "sd_data ?b1"
  have sd1: "sd ?b1 = sd b" "kbd ?b1 = kbd b" by (simp_all add: reg_set_def)
  have "outl SDDATA_ADDR w b = Inr ?d"
    using sd_reg_write[OF ready, of 16 w] sd1 by (simp add: sdcard_io_handler_def Let_def)
  moreover have "load_bytes (io_space ?b1) (?base + 64) 4 = le_bytes 4 w"
    using load_store_same[of 4 "le_bytes 4 w" "io_space b" "?base + 64"]
    by (simp add: reg_set_def del: load_bytes.simps store_bytes.simps le_bytes.simps)
  then have "sd_fp (sd ?d) = Some (file_write4 (le_bytes 4 w) (bytes, pos))" "sd_base (sd ?d) = ?base"
    "\<not> sd_read_ext_csd (sd ?d)" "sd_write_cmd (sd ?d)"
    using ext fp assms(3) sd1 by (simp_all add: sd_data_def Let_def)
  moreover have "bus_frame b ?d" "kbd ?d = kbd b"
    using sd_data_frame[of ?b1] bus_frame_trans[of b ?b1 ?d] difftest_skip_ref_frame[of b] sd1 by simp_all
  ultimately show ?thesis using sd_ready_step[OF ready] by simp
qed

section \<open>Transfers\<close>

definition file_words :: "u8 list \<Rightarrow> nat \<Rightarrow> nat \<Rightarrow> u32 list" where
  "file_words bytes pos n = map (\<lambda>i. le_word (take 4 (drop (pos + 4 * i) bytes))) [0..<n]"

definition file_patch :: "u8 list \<Rightarrow> nat \<Rightarrow> u32 list \<Rightarrow> u8 list" where
  "file_patch bytes pos ws = take pos bytes @ concat (map (le_bytes 4) ws) @ drop (pos + 4 * length ws) bytes"

lemma file_words_Suc: "file_words bytes pos (Suc n) = le_word (take 4 (drop pos bytes)) # file_words bytes (pos + 4) n"
proof -
  have "[0..<Suc n] = 0 # map Suc [0..<n]" by (simp add: map_Suc_upt upt_conv_Cons del: upt_Suc)
  then show ?thesis by (simp add: file_words_def add.assoc del: upt_Suc)
qed

lemma length_words_bytes [simp]: "length (concat (map (le_bytes 4) ws)) = 4 * length ws"
  by (simp add: length_concat o_def sum_list_triv)

lemma file_patch_Cons:
  assumes "pos + 4 * length (w # ws) \<le> length bytes"
  shows "file_patch (file_patch bytes pos [w]) (pos + 4) ws = file_patch bytes pos (w # ws)"
proof -
  have "4 * length ws + (pos + 4) = pos + (4 + 4 * length ws)" by simp
  then have "drop (4 * length ws + (pos + 4)) bytes = drop (pos + (4 + 4 * length ws)) bytes" by (simp only:)
  then show ?thesis using assms by (simp add: file_patch_def drop_append take_append add.assoc)
qed

lemma file_write4_patch:
  "pos + 4 \<le> length bytes \<Longrightarrow> file_write4 (le_bytes 4 w) (bytes, pos) = (file_patch bytes pos [w], pos + 4)"
  by (simp add: file_write4_def file_patch_def)

lemma file_words_patch:
  assumes "pos + 4 * length ws \<le> length bytes"
  shows "file_words (file_patch bytes pos ws) pos (length ws) = ws"
  using assms
proof (induction ws arbitrary: bytes pos)
  case (Cons w ws)
  have "take 4 (drop pos (file_patch bytes pos (w # ws))) = le_bytes 4 w"
    using Cons.prems by (simp add: file_patch_def)
  moreover have "file_words (file_patch bytes pos (w # ws)) (pos + 4) (length ws) = ws"
    using Cons.IH[of "pos + 4" "file_patch bytes pos [w]"] Cons.prems file_patch_Cons[OF Cons.prems]
    by (simp add: file_patch_def)
  ultimately show ?case by (simp add: file_words_Suc)
qed (simp add: file_words_def)

lemma sd_read_words_ok:
  assumes "sd_ready b" and "sd_fp (sd b) = Some (bytes, pos)" and "\<not> sd_write_cmd (sd b)"
    and "pos + 4 * n \<le> length bytes"
  shows "\<exists>b'. sd_read_words n b = Inr (file_words bytes pos n, b') \<and> sd_ready b'"
  using assms
proof (induction n arbitrary: b pos)
  case (Suc n)
  then obtain b1 where b1: "inl SDDATA_ADDR b = Inr (le_word (take 4 (drop pos bytes)), b1)" "sd_ready b1"
    "sd_fp (sd b1) = Some (bytes, pos + 4)" "\<not> sd_write_cmd (sd b1)"
    using sd_read_word[OF Suc.prems(1-3)] by auto
  then obtain b2 where "sd_read_words n b1 = Inr (file_words bytes (pos + 4) n, b2)" "sd_ready b2"
    using Suc.IH[OF b1(2-4)] Suc.prems(4) by auto
  then show ?case using b1(1) by (simp add: file_words_Suc)
qed (simp add: file_words_def)

lemma sd_write_words_ok:
  assumes "sd_ready b" and "sd_fp (sd b) = Some (bytes, pos)" and "sd_write_cmd (sd b)"
    and "pos + 4 * length ws \<le> length bytes"
  shows "\<exists>b'. sd_write_words ws b = Inr b' \<and> sd_ready b' \<and>
     sd_fp (sd b') = Some (file_patch bytes pos ws, pos + 4 * length ws)"
  using assms
proof (induction ws arbitrary: b bytes pos)
  case (Cons w ws)
  obtain b1 where b1: "outl SDDATA_ADDR w b = Inr b1" "sd_ready b1" "sd_write_cmd (sd b1)"
    "sd_fp (sd b1) = Some (file_write4 (le_bytes 4 w) (bytes, pos))"
    using sd_write_word[OF Cons.prems(1-3)] by blast
  then have fp1: "sd_fp (sd b1) = Some (file_patch bytes pos [w], pos + 4)"
    using Cons.prems(4) by (simp add: file_write4_patch)
  have "pos + 4 + 4 * length ws \<le> length (file_patch bytes pos [w])" using Cons.prems(4) by (simp add: file_patch_def)
  from Cons.IH[OF b1(2) fp1 b1(3) this] b1(1) file_patch_Cons[OF Cons.prems(4)]
  show ?case by (simp add: sd_write_words_def add.assoc)
qed (simp add: sd_write_words_def file_patch_def)

text \<open>
  C16. The card stores blocks: a multiple block write of any words at block \<open>blk\<close>, inside the
  image, followed by a multiple block read of as many words at the same block returns exactly
  these words, and the write changes no byte of the image outside them.
\<close>

theorem sdcard_roundtrip:
  assumes "sd_ready b" and "sd_fp (sd b) = Some (bytes, pos)" and "unat blk * 512 + 4 * length ws \<le> length bytes"
  shows "\<exists>b1 b2 pos'. sd_write_block blk ws b = Inr b1 \<and>
     sd_fp (sd b1) = Some (take (unat blk * 512) bytes @ concat (map (le_bytes 4) ws) @
        drop (unat blk * 512 + 4 * length ws) bytes, pos') \<and>
     sd_read_block blk (length ws) b1 = Inr (ws, b2)"
proof -
  obtain c where c: "sd_command 25 blk b = Inr c" "sd_ready c" "sd_fp (sd c) = Some (bytes, unat blk * 512)" "sd_write_cmd (sd c)"
    using sd_command_ok[OF assms(1,2), of 25 True blk] by auto
  obtain b1 where b1: "sd_write_words ws c = Inr b1" "sd_ready b1"
    "sd_fp (sd b1) = Some (file_patch bytes (unat blk * 512) ws, unat blk * 512 + 4 * length ws)"
    using sd_write_words_ok[OF c(2-4) assms(3)] by blast
  obtain d where d: "sd_command 18 blk b1 = Inr d" "sd_ready d"
    "sd_fp (sd d) = Some (file_patch bytes (unat blk * 512) ws, unat blk * 512)" "\<not> sd_write_cmd (sd d)"
    using sd_command_ok[OF b1(2,3), of 18 False blk] by auto
  have "unat blk * 512 + 4 * length ws \<le> length (file_patch bytes (unat blk * 512) ws)"
    using assms(3) by (simp add: file_patch_def)
  from sd_read_words_ok[OF d(2-4) this] obtain b2 where
    "sd_read_words (length ws) d = Inr (ws, b2)"
    using file_words_patch[OF assms(3)] by auto
  then have "sd_read_block blk (length ws) b1 = Inr (ws, b2)" using d(1) by (simp add: sd_read_block_def)
  moreover have "sd_write_block blk ws b = Inr b1" using c(1) b1(1) by (simp add: sd_write_block_def)
  ultimately show ?thesis using b1(3) by (auto simp: file_patch_def)
qed

theorem sdcard_roundtrip_witness:
  "\<exists>b1 b2 pos'. sd_write_block 3 [0xdeadbeef, 42] demo_bus = Inr b1 \<and>
     sd_fp (sd b1) = Some (replicate 1536 0xee @ [0xef, 0xbe, 0xad, 0xde, 42, 0, 0, 0] @ replicate 2552 0xee, pos') \<and>
     sd_read_block 3 2 b1 = Inr ([0xdeadbeef, 42], b2)"
proof -
  have "sd_ready demo_bus"
    using demo_has_dev(8) by (simp add: sd_ready_def demo_bus_simps) (simp add: demo_bus_def static_sdcard_def)
  moreover have "sd_fp (sd demo_bus) = Some (replicate 4096 0xee, 0)" by (simp add: demo_bus_def)
  moreover have "concat (map (le_bytes 4) [0xdeadbeef, 42 :: u32]) = [0xef, 0xbe, 0xad, 0xde, 42, 0, 0, 0]" by code_simp
  ultimately show ?thesis
    using sdcard_roundtrip[of demo_bus "replicate 4096 0xee" 0 3 "[0xdeadbeef, 42]"]
    by (simp flip: numeral_2_eq_2)
qed

end
