(* ===== verification/Bits.thy ===== *)
theory Bits
  imports NemuPrelude
begin

text \<open>
  The bit macros of \<open>nemu/include/macro.h\<close> (BITMASK, BITS, SEXT, ROUNDUP) and the
  instruction pattern decoder of \<open>nemu/include/cpu/decode.h\<close>. The decoder is proved against a
  character by character reading of the pattern.
\<close>

section \<open>BITMASK, BITS, SEXT\<close>

text \<open>The macros compute in \<open>unsigned long long\<close>, whatever the type of the argument.\<close>

definition BITMASK :: "nat \<Rightarrow> u64" where
  "BITMASK n = push_bit n 1 - 1"

definition BITS :: "'a::len word \<Rightarrow> nat \<Rightarrow> nat \<Rightarrow> u64" where
  "BITS x hi lo = ucast (drop_bit lo x) AND BITMASK (hi - lo + 1)"

text \<open>
  SEXT assigns to a signed bit-field of \<open>len\<close> bits of an \<open>int64_t\<close> and reads it back.
\<close>

definition SEXT :: "u64 \<Rightarrow> nat \<Rightarrow> u64" where
  "SEXT x len = signed_take_bit (len - 1) x"

definition ROUNDUP :: "u64 \<Rightarrow> u64 \<Rightarrow> u64" where
  "ROUNDUP a sz = (a + sz - 1) AND NOT (sz - 1)"

definition ROUNDDOWN :: "u64 \<Rightarrow> u64 \<Rightarrow> u64" where
  "ROUNDDOWN a sz = a AND NOT (sz - 1)"

lemma BITMASK_eq_mask: "BITMASK n = mask n"
  by (simp add: BITMASK_def mask_eq_decr_exp)

lemma bit_BITMASK [simp]: "bit (BITMASK n) k \<longleftrightarrow> k < n \<and> k < 64"
  by (auto simp: BITMASK_eq_mask bit_mask_iff)

lemma bit_BITS:
  "bit (BITS (x :: 'a::len word) hi lo) k \<longleftrightarrow> k < hi - lo + 1 \<and> k < 64 \<and> bit x (lo + k)"
  by (auto simp: BITS_def bit_simps)

lemma bit_SEXT:
  "bit (SEXT x len) k \<longleftrightarrow> k < 64 \<and> bit x (min (len - 1) k)"
  by (auto simp: SEXT_def bit_simps min_def)

section \<open>The pattern decoder\<close>

text \<open>
  The macros expand to a loop over at most 64 characters of the pattern, each test made before
  the next character is read: running past 64 is the panic "pattern too long". The fuel
  \<open>n\<close> counts the unrolled iterations that are left, so it is exactly the bound of the code.
\<close>

fun pattern_loop :: "nat \<Rightarrow> string \<Rightarrow> u64 \<Rightarrow> u64 \<Rightarrow> nat \<Rightarrow> (u64 \<times> u64 \<times> nat) res" where
  "pattern_loop 0 str key msk shift = Inl (Panic ''pattern too long'')"
| "pattern_loop (Suc n) [] key msk shift =
     Inr (drop_bit shift key, drop_bit shift msk, shift)"
| "pattern_loop (Suc n) (c # str) key msk shift =
     (if c \<noteq> CHR '' '' then
        guardR (c = CHR ''0'' \<or> c = CHR ''1'' \<or> c = CHR ''?'')
          (Panic ''invalid character in pattern string'')
          (pattern_loop n str
             (push_bit 1 key OR (if c = CHR ''1'' then 1 else 0))
             (push_bit 1 msk OR (if c = CHR ''?'' then 0 else 1))
             (if c = CHR ''?'' then shift + 1 else 0))
      else pattern_loop n str key msk shift)"

definition pattern_decode :: "string \<Rightarrow> (u64 \<times> u64 \<times> nat) res" where
  "pattern_decode str = pattern_loop 64 str 0 0 0"

definition is_hex_char :: "char \<Rightarrow> bool" where
  "is_hex_char c \<longleftrightarrow> (c \<ge> CHR ''0'' \<and> c \<le> CHR ''9'') \<or> (c \<ge> CHR ''a'' \<and> c \<le> CHR ''f'')"

text \<open>The hexadecimal variant: 16 unrolled iterations of four bits each.\<close>

fun pattern_loop_hex :: "nat \<Rightarrow> string \<Rightarrow> u64 \<Rightarrow> u64 \<Rightarrow> nat \<Rightarrow> (u64 \<times> u64 \<times> nat) res" where
  "pattern_loop_hex 0 str key msk shift = Inl (Panic ''pattern too long'')"
| "pattern_loop_hex (Suc n) [] key msk shift =
     Inr (drop_bit shift key, drop_bit shift msk, shift)"
| "pattern_loop_hex (Suc n) (c # str) key msk shift =
     (if c \<noteq> CHR '' '' then
        guardR (is_hex_char c \<or> c = CHR ''?'')
          (Panic ''invalid character in pattern string'')
          (pattern_loop_hex n str
             (push_bit 4 key OR
                (if c = CHR ''?'' then 0
                 else if c \<ge> CHR ''0'' \<and> c \<le> CHR ''9'' then of_char c - of_char CHR ''0''
                 else of_char c - of_char CHR ''a'' + 10))
             (push_bit 4 msk OR (if c = CHR ''?'' then 0 else 0xf))
             (if c = CHR ''?'' then shift + 4 else 0))
      else pattern_loop_hex n str key msk shift)"

definition pattern_decode_hex :: "string \<Rightarrow> (u64 \<times> u64 \<times> nat) res" where
  "pattern_decode_hex str = pattern_loop_hex 16 str 0 0 0"

text \<open>The test INSTPAT makes with the decoded pattern.\<close>

definition instpat_test :: "u64 \<times> u64 \<times> nat \<Rightarrow> u32 \<Rightarrow> bool" where
  "instpat_test kms inst =
     (case kms of (key, msk, shift) \<Rightarrow> drop_bit shift (ucast inst :: u64) AND msk = key)"

definition instpat_match :: "string \<Rightarrow> u32 \<Rightarrow> bool res" where
  "instpat_match pat inst = bindR (pattern_decode pat) (\<lambda>kms. Inr (instpat_test kms inst))"

subsection \<open>What a pattern means\<close>

text \<open>
  The specification: without its blanks, the pattern read from the right has at position
  \<open>j\<close> the bit that \<open>inst\<close> must have at position \<open>j\<close>, or a question mark.
\<close>

definition pat_chars :: "string \<Rightarrow> string" where
  "pat_chars str = rev (filter (\<lambda>c. c \<noteq> CHR '' '') str)"

definition pat_ok :: "string \<Rightarrow> bool" where
  "pat_ok str \<longleftrightarrow> length str < 64 \<and> set (pat_chars str) \<subseteq> {CHR ''0'', CHR ''1'', CHR ''?''}"

definition pat_matches :: "string \<Rightarrow> 'a::len word \<Rightarrow> bool" where
  "pat_matches str inst \<longleftrightarrow>
     (\<forall>j < length (pat_chars str).
        pat_chars str ! j = CHR ''?'' \<or> (bit inst j \<longleftrightarrow> pat_chars str ! j = CHR ''1''))"

text \<open>The state of the loop after the characters \<open>qs\<close> (the last one first).\<close>

definition loop_inv :: "string \<Rightarrow> u64 \<Rightarrow> u64 \<Rightarrow> nat \<Rightarrow> bool" where
  "loop_inv qs key msk shift \<longleftrightarrow>
     (\<forall>j < 64. bit key j \<longleftrightarrow> j < length qs \<and> qs ! j = CHR ''1'') \<and>
     (\<forall>j < 64. bit msk j \<longleftrightarrow> j < length qs \<and> qs ! j \<noteq> CHR ''?'') \<and>
     shift = length (takeWhile (\<lambda>c. c = CHR ''?'') qs)"

lemma loop_inv_Nil [simp]: "loop_inv [] 0 0 0"
  by (simp add: loop_inv_def)

lemma bit_shift_in:
  "bit (push_bit 1 w OR (if b then 1 else 0)) j \<longleftrightarrow> (if j = 0 then b else j < 64 \<and> bit (w :: u64) (j - 1))"
  "bit (push_bit 1 w OR (if b then 0 else 1)) j \<longleftrightarrow> (if j = 0 then \<not> b else j < 64 \<and> bit (w :: u64) (j - 1))"
  by (auto simp only: bit_or_iff bit_push_bit_iff bit_1_iff bit_0_eq split: if_splits)
     (auto dest: bit_imp_le_length)

lemma loop_inv_Cons:
  assumes "loop_inv qs key msk shift"
  shows "loop_inv (c # qs)
     (push_bit 1 key OR (if c = CHR ''1'' then 1 else 0))
     (push_bit 1 msk OR (if c = CHR ''?'' then 0 else 1))
     (if c = CHR ''?'' then shift + 1 else 0)"
  using assms unfolding loop_inv_def bit_shift_in
  by (auto simp: nth_Cons' simp del: push_bit_of_1)

lemma pattern_loop_ok:
  assumes "length str < n" and "set (pat_chars str) \<subseteq> {CHR ''0'', CHR ''1'', CHR ''?''}"
    and "loop_inv qs key msk shift"
  shows "\<exists>key' msk' shift'. loop_inv (pat_chars str @ qs) key' msk' shift' \<and>
     pattern_loop n str key msk shift = Inr (drop_bit shift' key', drop_bit shift' msk', shift')"
  using assms
proof (induction n str key msk shift arbitrary: qs rule: pattern_loop.induct)
  case (2 n key msk shift)
  then show ?case by (auto simp: pat_chars_def)
next
  case (3 n c str key msk shift)
  show ?case
  proof (cases "c = CHR '' ''")
    case True
    with 3(1)[of qs] 3(2)[of qs] 3(3-) show ?thesis by (simp add: pat_chars_def)
  next
    case False
    then have c: "c = CHR ''0'' \<or> c = CHR ''1'' \<or> c = CHR ''?''"
      using 3(4) by (auto simp: pat_chars_def)
    from False 3(4) have "set (pat_chars str) \<subseteq> {CHR ''0'', CHR ''1'', CHR ''?''}"
      by (auto simp: pat_chars_def)
    moreover have "length str < n" using 3(3) by simp
    ultimately show ?thesis
      using False c 3(1)[OF False] loop_inv_Cons[OF 3(5), of c]
      by (fastforce simp: pat_chars_def)
  qed
qed simp

lemma takeWhile_length_mono: "j < length (takeWhile P xs) \<Longrightarrow> P (xs ! j)"
  using nth_mem takeWhile_nth set_takeWhileD by metis

lemma loop_inv_test:
  assumes inv: "loop_inv qs key msk shift" and len: "length qs < 64"
  shows "instpat_test (drop_bit shift key, drop_bit shift msk, shift) (inst :: u32) \<longleftrightarrow>
     (\<forall>j < length qs. qs ! j = CHR ''?'' \<or> (bit inst j \<longleftrightarrow> qs ! j = CHR ''1''))"
    (is "?test \<longleftrightarrow> ?spec")
proof -
  have shift: "\<And>j. j < shift \<Longrightarrow> qs ! j = CHR ''?''"
    using inv takeWhile_length_mono[of _ "\<lambda>c. c = CHR ''?''" qs] by (auto simp: loop_inv_def)
  have "?test \<longleftrightarrow>
      (\<forall>k < 64. bit (drop_bit shift (ucast inst :: u64) AND drop_bit shift msk) k
             \<longleftrightarrow> bit (drop_bit shift key) k)"
    by (auto simp: instpat_test_def intro!: bit_word_eqI)
  also have "\<dots> \<longleftrightarrow> (\<forall>j. shift \<le> j \<longrightarrow> j < 64 \<longrightarrow> (bit inst j \<and> bit msk j \<longleftrightarrow> bit key j))"
  proof (rule iffI; intro allI impI)
    fix j assume *: "\<forall>k < 64. bit (drop_bit shift (ucast inst :: u64) AND drop_bit shift msk) k
             \<longleftrightarrow> bit (drop_bit shift key) k" and "shift \<le> j" "j < 64"
    then show "bit inst j \<and> bit msk j \<longleftrightarrow> bit key j"
      using *[rule_format, of "j - shift"] by (auto simp: bit_simps dest: bit_imp_le_length)
  next
    fix k :: nat assume *: "\<forall>j. shift \<le> j \<longrightarrow> j < 64 \<longrightarrow> (bit inst j \<and> bit msk j \<longleftrightarrow> bit key j)"
      and "k < 64"
    then show "bit (drop_bit shift (ucast inst :: u64) AND drop_bit shift msk) k
             \<longleftrightarrow> bit (drop_bit shift key) k"
      using bit_imp_le_length[of key "shift + k"] bit_imp_le_length[of msk "shift + k"]
      by (cases "shift + k < 64") (simp_all add: bit_simps, blast)
  qed
  also have "\<dots> \<longleftrightarrow> ?spec"
  proof
    assume *: "\<forall>j. shift \<le> j \<longrightarrow> j < 64 \<longrightarrow> (bit inst j \<and> bit msk j \<longleftrightarrow> bit key j)"
    show ?spec
    proof (intro allI impI)
      fix j assume "j < length qs"
      then show "qs ! j = CHR ''?'' \<or> (bit inst j \<longleftrightarrow> qs ! j = CHR ''1'')"
      proof (cases "j < shift")
        case False
        then have "bit inst j \<and> bit msk j \<longleftrightarrow> bit key j"
          using * \<open>j < length qs\<close> len by simp
        then show ?thesis
          using inv \<open>j < length qs\<close> len by (simp add: loop_inv_def) blast
      qed (simp add: shift)
    qed
  next
    assume ?spec
    then show "\<forall>j. shift \<le> j \<longrightarrow> j < 64 \<longrightarrow> (bit inst j \<and> bit msk j \<longleftrightarrow> bit key j)"
      using inv by (auto simp: loop_inv_def)
  qed
  finally show ?thesis .
qed

lemma length_pat_chars_le: "length (pat_chars str) \<le> length str"
  by (simp add: pat_chars_def)

lemma instpat_match_spec: "pat_ok str \<Longrightarrow> instpat_match str inst = Inr (pat_matches str inst)"
proof -
  assume ok: "pat_ok str"
  then obtain key msk shift where inv: "loop_inv (pat_chars str) key msk shift"
    and dec: "pattern_decode str = Inr (drop_bit shift key, drop_bit shift msk, shift)"
    using pattern_loop_ok[of str 64 "[]" 0 0 0] by (auto simp: pat_ok_def pattern_decode_def)
  have "length (pat_chars str) < 64"
    using ok length_pat_chars_le[of str] by (simp add: pat_ok_def)
  with inv dec show ?thesis
    by (simp add: instpat_match_def loop_inv_test pat_matches_def)
qed

text \<open>
  C20. INSTPAT recognises exactly the instruction words its pattern describes: for every
  pattern of fewer than 64 characters made of 0, 1, ? and blanks, the key/mask/shift triple
  that pattern_decode computes makes the test \<open>((inst >> shift) & mask) == key\<close> true just when
  every bit of the instruction agrees with its pattern character.
\<close>

theorem pattern_decode_correct:
  assumes "pat_ok str"
  shows "instpat_match str inst = Inr (pat_matches str inst)"
  using assms by (rule instpat_match_spec)

text \<open>
  Patterns that are too long or hold another character abort, as the panics say.
\<close>

lemma pattern_loop_too_long:
  "n \<le> length str \<Longrightarrow> set (pat_chars str) \<subseteq> {CHR ''0'', CHR ''1'', CHR ''?''} \<Longrightarrow>
   pattern_loop n str key msk shift = Inl (Panic ''pattern too long'')"
proof (induction n str key msk shift rule: pattern_loop.induct)
  case (3 n c str key msk shift)
  then show ?case by (cases "c = CHR '' ''") (auto simp: pat_chars_def)
qed auto

theorem pattern_decode_correct_witness:
  "instpat_match ''0000000 ????? ????? 000 ????? 01100 11'' 0x00B50533 =
     Inr (pat_matches ''0000000 ????? ????? 000 ????? 01100 11'' (0x00B50533 :: u32)) \<and>
   instpat_match ''0000000 ????? ????? 000 ????? 01100 11'' 0x00B50533 = Inr True"
proof -
  have ok: "pat_ok ''0000000 ????? ????? 000 ????? 01100 11''"
    by (simp add: pat_ok_def pat_chars_def)
  have "instpat_match ''0000000 ????? ????? 000 ????? 01100 11'' 0x00B50533 = Inr True"
    by code_simp
  with pattern_decode_correct[OF ok, of "0x00B50533"] show ?thesis by simp
qed

end
