(* ===== verification/RingBuf.thy ===== *)
theory RingBuf
  imports FifoSpec Bits
begin

text \<open>
  \<open>nemu/src/cpu/iringbuf.c\<close> and \<open>iringbuf.h\<close>: the byte ring buffer behind the instruction
  trace. The counters \<open>in\<close> and \<open>out\<close> are free running 32 bit counters that wrap; only their
  difference and their low bits are used.
\<close>

record ringbuf =
  rb_buffer :: "u8 list"
  rb_size :: u32
  rb_in :: u32
  rb_out :: u32

section \<open>Allocation\<close>

definition is_power_of_2 :: "u32 \<Rightarrow> bool" where
  "is_power_of_2 x \<longleftrightarrow> x \<noteq> 0 \<and> x AND (x - 1) = 0"

function roundup_loop :: "u32 \<Rightarrow> nat \<Rightarrow> u32 \<Rightarrow> u32" where
  "roundup_loop x i b =
     (if i < 32 then (let b' = push_bit i 1 in if x \<le> b' then b' else roundup_loop x (i + 1) b')
      else b)"
  by pat_completeness auto
termination by (relation "measure (\<lambda>(x, i, b). 32 - i)") auto

declare roundup_loop.simps [simp del]

definition roundup_pow_of_two :: "u32 \<Rightarrow> u32" where
  "roundup_pow_of_two x = roundup_loop x 0 0"

text \<open>
  The results of the two malloc calls are parameters: \<open>hdr\<close> says whether the first one
  succeeds, \<open>blk n\<close> is the block of \<open>n\<close> bytes the second one returns, or \<open>None\<close> for NULL.
  The first component of the result counts the blocks that stay allocated.
\<close>

definition RingBuffer_Malloc :: "bool \<Rightarrow> (u32 \<Rightarrow> u8 list option) \<Rightarrow> u32 \<Rightarrow> nat \<times> ringbuf option" where
  "RingBuffer_Malloc hdr blk size0 =
     (if \<not> hdr then (0, None)
      else if \<not> is_power_of_2 size0 \<and> size0 > 0x80000000 then (1 - 1, None)
      else let size = (if is_power_of_2 size0 then size0 else roundup_pow_of_two size0)
           in (case blk size of
                 None \<Rightarrow> (1 - 1, None)
               | Some b \<Rightarrow> (2, Some \<lparr>rb_buffer = b, rb_size = size, rb_in = 0, rb_out = 0\<rparr>)))"

text \<open>Free gives back the buffer and the header.\<close>

definition RingBuffer_Free :: "nat \<Rightarrow> nat" where
  "RingBuffer_Free live = live - 1 - 1"

section \<open>Accessors\<close>

definition RingBuffer_Reset :: "ringbuf \<Rightarrow> ringbuf" where
  "RingBuffer_Reset f = f\<lparr>rb_in := 0, rb_out := 0\<rparr>"

definition RingBuffer_Size :: "ringbuf \<Rightarrow> u32" where
  "RingBuffer_Size f = rb_size f"

definition RingBuffer_Len :: "ringbuf \<Rightarrow> u32" where
  "RingBuffer_Len f = rb_in f - rb_out f"

definition RingBuffer_Avail :: "ringbuf \<Rightarrow> u32" where
  "RingBuffer_Avail f = RingBuffer_Size f - RingBuffer_Len f"

definition RingBuffer_IsEmpty :: "ringbuf \<Rightarrow> bool" where
  "RingBuffer_IsEmpty f \<longleftrightarrow> RingBuffer_Len f = 0"

definition RingBuffer_IsFull :: "ringbuf \<Rightarrow> bool" where
  "RingBuffer_IsFull f \<longleftrightarrow> RingBuffer_Avail f = 0"

section \<open>In and Out\<close>

text \<open>
  \<open>src\<close> is the array the data is read from; the copies out of it and into the buffer are
  checked memcpys. The result is the number of bytes copied and the buffer.
\<close>

definition RingBuffer_In :: "u8 list \<Rightarrow> u32 \<Rightarrow> ringbuf \<Rightarrow> (u32 \<times> ringbuf) res" where
  "RingBuffer_In src len0 f =
     (let len = min len0 (RingBuffer_Avail f);
          off = rb_in f AND (rb_size f - 1);
          l = min len (rb_size f - off)
      in bindR (mem_get src 0 (unat l)) (\<lambda>part1.
         bindR (mem_put (rb_buffer f) (unat off) part1) (\<lambda>b1.
         bindR (mem_get src (unat l) (unat (len - l))) (\<lambda>part2.
         bindR (mem_put b1 0 part2) (\<lambda>b2.
           Inr (len, f\<lparr>rb_buffer := b2, rb_in := rb_in f + len\<rparr>))))))"

text \<open>The bytes copied to the destination are returned (the destination is long enough).\<close>

definition RingBuffer_Out :: "u32 \<Rightarrow> ringbuf \<Rightarrow> (u32 \<times> u8 list \<times> ringbuf) res" where
  "RingBuffer_Out len0 f =
     (let len = min len0 (RingBuffer_Len f);
          off = rb_out f AND (rb_size f - 1);
          l = min len (rb_size f - off)
      in bindR (mem_get (rb_buffer f) (unat off) (unat l)) (\<lambda>part1.
         bindR (mem_get (rb_buffer f) 0 (unat (len - l))) (\<lambda>part2.
           Inr (len, part1 @ part2, f\<lparr>rb_out := rb_out f + len\<rparr>))))"

section \<open>Rounding up\<close>

lemma nat_and_pred_zero: "0 < (n::nat) \<Longrightarrow> n AND (n - 1) = 0 \<longleftrightarrow> (\<exists>k. n = 2 ^ k)"
proof (induction n rule: less_induct)
  case (less n)
  show ?case
  proof (cases "even n")
    case True
    then obtain m where n: "n = 2 * m" and "0 < m" using less.prems by (auto elim!: evenE)
    then have "(n - 1) div 2 = m - 1" by presburger
    then have "n AND (n - 1) = 2 * (m AND (m - 1))"
      using n by (subst and_rec) simp
    then have "n AND (n - 1) = 0 \<longleftrightarrow> (\<exists>k. m = 2 ^ k)"
      using less.IH[of m] n \<open>0 < m\<close> by simp
    also have "\<dots> \<longleftrightarrow> (\<exists>k. n = 2 ^ k)"
    proof
      assume "\<exists>k. m = 2 ^ k"
      then show "\<exists>k. n = 2 ^ k" using n by (metis power_Suc)
    next
      assume "\<exists>k. n = 2 ^ k"
      then obtain k where "n = 2 ^ k" by blast
      with True show "\<exists>k. m = 2 ^ k" using n by (cases k) auto
    qed
    finally show ?thesis .
  next
    case False
    then obtain m where n: "n = 1 + 2 * m" by (metis oddE add.commute)
    moreover have "(1 + 2 * m) AND (2 * m) = 2 * m" by (subst and_rec) simp
    ultimately have "n AND (n - 1) = 2 * m" by simp
    moreover have "(\<exists>k. n = 2 ^ k) \<longleftrightarrow> m = 0"
    proof
      assume "\<exists>k. n = 2 ^ k"
      then obtain k where "n = 2 ^ k" by blast
      with False show "m = 0" using n by (cases k) auto
    qed (use n in \<open>auto intro: exI[of _ 0]\<close>)
    ultimately show ?thesis by simp
  qed
qed

lemma is_power_of_2_iff: "is_power_of_2 x \<longleftrightarrow> (\<exists>k. unat x = 2 ^ k)"
proof (cases "x = 0")
  case False
  then have "unat (x - 1) = unat x - 1" by (rule unat_minus_one)
  then have "x AND (x - 1) = 0 \<longleftrightarrow> unat x AND (unat x - 1) = 0"
    by (metis unsigned_and_eq unsigned_eq_0_iff)
  with False nat_and_pred_zero[of "unat x"] show ?thesis
    by (simp add: is_power_of_2_def unat_gt_0)
qed (simp add: is_power_of_2_def)

lemma unat_two_pow: "i < LENGTH('a) \<Longrightarrow> unat ((2 :: 'a::len word) ^ i) = 2 ^ i"
  using unsigned_of_nat[where ?'a = nat and ?'b = 'a, of "2 ^ i"]
  by (simp add: take_bit_nat_eq_self_iff)

lemma roundup_loop_spec:
  assumes "\<forall>j < i. 2 ^ j < unat x" and "i < 32 \<or> unat x \<le> unat b" and "unat x \<le> 2 ^ 31"
    and "i \<le> 31"
  shows "\<exists>k. i \<le> k \<and> k < 32 \<and> unat (roundup_loop x i b) = 2 ^ k \<and> unat x \<le> 2 ^ k \<and> (\<forall>j < k. 2 ^ j < unat x)"
  using assms
proof (induction x i b rule: roundup_loop.induct)
  case (1 x i b)
  have un: "unat (push_bit i 1 :: u32) = 2 ^ i"
    using 1(5) by (simp add: unat_two_pow)
  show ?case
  proof (cases "x \<le> push_bit i 1")
    case True
    then show ?thesis
      using 1(2,5) un by (subst roundup_loop.simps) (auto simp: Let_def word_le_nat_alt intro!: exI[of _ i])
  next
    case False
    then have lt: "2 ^ i < unat x" using un by (simp add: word_le_nat_alt)
    then have "(2::nat) ^ i < 2 ^ 31" using 1(4) by linarith
    then have "i < 31" using power_strict_increasing_iff[of "2::nat" i 31] by simp
    moreover have "\<forall>j < i + 1. 2 ^ j < unat x" using 1(2) lt by (auto simp: less_Suc_eq)
    ultimately obtain k where "i + 1 \<le> k \<and> k < 32 \<and> unat (roundup_loop x (i + 1) (push_bit i 1)) = 2 ^ k \<and>
        unat x \<le> 2 ^ k \<and> (\<forall>j < k. 2 ^ j < unat x)"
      using 1(1)[OF _ refl] False 1(4) by force
    then show ?thesis
      using False 1(5) by (subst roundup_loop.simps) (auto simp: Let_def)
  qed
qed

lemma roundup_pow_of_two_spec:
  assumes "unat x \<le> 2 ^ 31"
  shows "\<exists>k < 32. unat (roundup_pow_of_two x) = 2 ^ k \<and> unat x \<le> 2 ^ k \<and> (\<forall>j < k. 2 ^ j < unat x)"
  using roundup_loop_spec[of 0 x 0] assms unfolding roundup_pow_of_two_def by auto

section \<open>The ring buffer is a FIFO\<close>

definition rb_ok :: "ringbuf \<Rightarrow> bool" where
  "rb_ok f \<longleftrightarrow> is_power_of_2 (rb_size f) \<and> length (rb_buffer f) = unat (rb_size f) \<and>
     unat (RingBuffer_Len f) \<le> unat (rb_size f)"

text \<open>The abstract queue: what lies between the two counters, in order.\<close>

definition rb_contents :: "ringbuf \<Rightarrow> u8 list" where
  "rb_contents f = circ (rb_buffer f) (unat (rb_out f)) (unat (RingBuffer_Len f))"

lemmas rb_defs = RingBuffer_Size_def RingBuffer_Len_def RingBuffer_Avail_def
  RingBuffer_IsEmpty_def RingBuffer_IsFull_def

lemma rb_contents_length [simp]: "length (rb_contents f) = unat (RingBuffer_Len f)"
  by (simp add: rb_contents_def)

lemma rb_ok_avail: "rb_ok f \<Longrightarrow> unat (RingBuffer_Avail f) = unat (rb_size f) - unat (RingBuffer_Len f)"
  by (simp add: rb_ok_def RingBuffer_Avail_def RingBuffer_Size_def unat_sub word_le_nat_alt)

text \<open>Masking with size - 1 is reduction modulo the size, for a power of two.\<close>

lemma mask_index:
  assumes "is_power_of_2 sz"
  shows "unat (x AND (sz - 1)) = unat x mod unat sz"
proof -
  obtain k where k: "unat sz = 2 ^ k" using assms by (auto simp: is_power_of_2_iff)
  then have "sz \<noteq> 0" by auto
  then have "unat (sz - 1) = mask k"
    using k by (simp add: unat_minus_one mask_eq_exp_minus_1)
  then have "unat (x AND (sz - 1)) = take_bit k (unat x)"
    by (simp add: unsigned_and_eq take_bit_eq_mask)
  with k show ?thesis by (simp add: take_bit_eq_mod)
qed

text \<open>The counters wrap at 32 bits, which a power of two divides.\<close>

lemma counter_wrap:
  assumes "is_power_of_2 sz"
  shows "unat (x + y :: u32) mod unat sz = (unat x + unat y) mod unat sz"
proof -
  obtain k where k: "unat sz = 2 ^ k" using assms by (auto simp: is_power_of_2_iff)
  have "(2::nat) ^ k < 2 ^ 32" using k unsigned_less[of sz, where ?'a = nat] by simp
  then have "k \<le> 32" using power_strict_increasing_iff[of "2::nat" k 32] by simp
  then have "(2::nat) ^ k dvd 2 ^ 32" by (rule le_imp_power_dvd)
  then show ?thesis by (simp add: unat_word_ariths k mod_mod_cancel)
qed

lemma unat_min: "unat (min a b) = min (unat a) (unat (b :: 'a::len word))"
  by (simp add: min_def word_le_nat_alt)

lemma rb_in_index:
  assumes "rb_ok f"
  shows "unat (rb_in f) mod unat (rb_size f)
    = (unat (rb_out f) + unat (RingBuffer_Len f)) mod unat (rb_size f)"
  using counter_wrap[of "rb_size f" "rb_out f" "RingBuffer_Len f"] assms
  by (simp add: rb_ok_def RingBuffer_Len_def)

lemma rb_ok_facts:
  assumes "rb_ok f"
  shows "is_power_of_2 (rb_size f)" and "length (rb_buffer f) = unat (rb_size f)"
    and "unat (RingBuffer_Len f) \<le> unat (rb_size f)" and "0 < unat (rb_size f)"
  using assms by (auto simp: rb_ok_def is_power_of_2_def unat_gt_0)

lemma RingBuffer_In_spec:
  assumes ok: "rb_ok f" and src: "unat len0 \<le> length src"
  defines "n \<equiv> min (unat len0) (unat (rb_size f) - unat (RingBuffer_Len f))"
  shows "\<exists>f'. RingBuffer_In src len0 f = Inr (of_nat n, f') \<and> rb_ok f' \<and>
     rb_contents f' = rb_contents f @ take n src \<and> rb_size f' = rb_size f \<and>
     unat (RingBuffer_Len f') = unat (RingBuffer_Len f) + n"
proof -
  note facts = rb_ok_facts[OF ok]
  define len where "len = min len0 (RingBuffer_Avail f)"
  define off where "off = rb_in f AND (rb_size f - 1)"
  define l where "l = min len (rb_size f - off)"
  have n: "unat len = n"
    by (simp add: len_def n_def unat_min rb_ok_avail[OF ok])
  have off: "unat off = unat (rb_in f) mod unat (rb_size f)"
    unfolding off_def by (rule mask_index) (rule facts)
  then have off_lt: "unat off < unat (rb_size f)" using facts(4) by simp
  have l: "unat l = min n (unat (rb_size f) - unat off)"
    using off_lt by (simp add: l_def unat_min n unat_sub word_le_nat_alt)
  have rest: "unat (len - l) = n - unat l"
    using l n by (simp add: unat_sub word_le_nat_alt)
  have nle: "n \<le> unat (rb_size f)" "n \<le> length src"
    using src by (auto simp: n_def)
  define bs where "bs = take n src"
  have lbs: "length bs = n" using nle by (simp add: bs_def)
  have p1: "take (unat l) (drop 0 src) = take (unat l) bs"
    using l by (simp add: bs_def)
  have p2: "take (n - unat l) (drop (unat l) src) = drop (unat l) bs"
    using l by (simp add: bs_def take_drop)
  define b1 where "b1 = take (unat off) (rb_buffer f) @ take (unat l) bs @ drop (unat off + unat l) (rb_buffer f)"
  have lb1: "length b1 = unat (rb_size f)"
    using off_lt l lbs facts(2) by (auto simp: b1_def)
  define b2 where "b2 = drop (unat l) bs @ drop (n - unat l) b1"
  have put: "b2 = circ_put (rb_buffer f) (unat (rb_in f)) bs"
    using off l lbs facts(2) by (simp add: circ_put_def Let_def b2_def b1_def)
  let ?f' = "f\<lparr>rb_buffer := b2, rb_in := rb_in f + len\<rparr>"
  have run: "RingBuffer_In src len0 f = Inr (of_nat n, ?f')"
  proof -
    have "mem_get src 0 (unat l) = Inr (take (unat l) bs)"
      using l nle by (simp add: bs_def)
    moreover have "mem_put (rb_buffer f) (unat off) (take (unat l) bs) = Inr b1"
      using l lbs off_lt facts(2) by (simp add: b1_def)
    moreover have "mem_get src (unat l) (unat (len - l)) = Inr (drop (unat l) bs)"
      using l nle p2 rest by simp
    moreover have "mem_put b1 0 (drop (unat l) bs) = Inr b2"
      using l lbs lb1 nle by (simp add: b2_def)
    moreover have "len = of_nat n" using n by (metis of_nat_unat ucast_id)
    ultimately show ?thesis
      unfolding RingBuffer_In_def Let_def len_def[symmetric] off_def[symmetric] l_def[symmetric]
      by simp
  qed
  have len': "unat (RingBuffer_Len ?f') = unat (RingBuffer_Len f) + n"
  proof -
    have "RingBuffer_Len ?f' = RingBuffer_Len f + len"
      by (simp add: RingBuffer_Len_def)
    moreover have "unat (RingBuffer_Len f) + unat len < 2 ^ 32"
      using n facts(3) unsigned_less[of "rb_size f", where ?'a = nat] by (auto simp: n_def)
    ultimately show ?thesis using n by (simp add: unat_add_lem[THEN iffD1])
  qed
  have ok': "rb_ok ?f'"
    using facts len' by (auto simp: rb_ok_def put lbs nle n_def)
  have "circ (rb_buffer f) (unat (rb_out f)) (unat (RingBuffer_Len f)) @ bs
      = circ b2 (unat (rb_out f)) (unat (RingBuffer_Len f) + n)"
  proof -
    have "b2 = circ_put (rb_buffer f) (unat (rb_out f) + unat (RingBuffer_Len f)) bs"
      unfolding put using rb_in_index[OF ok] facts(2) by (simp add: circ_put_def)
    then show ?thesis
      using circ_circ_put[of "unat (RingBuffer_Len f)" bs "rb_buffer f" "unat (rb_out f)"] lbs facts
      by (simp add: n_def)
  qed
  then have "rb_contents ?f' = rb_contents f @ take n src"
    unfolding rb_contents_def len' by (simp add: bs_def)
  with run ok' len' show ?thesis by simp
qed

lemma RingBuffer_Out_spec:
  fixes len0 :: u32
  assumes ok: "rb_ok f"
  defines "n \<equiv> min (unat len0) (unat (RingBuffer_Len f))"
  shows "\<exists>f'. RingBuffer_Out len0 f = Inr (of_nat n, take n (rb_contents f), f') \<and> rb_ok f' \<and>
     rb_contents f' = drop n (rb_contents f) \<and> rb_size f' = rb_size f \<and>
     unat (RingBuffer_Len f') = unat (RingBuffer_Len f) - n"
proof -
  note facts = rb_ok_facts[OF ok]
  define len where "len = min len0 (RingBuffer_Len f)"
  define off where "off = rb_out f AND (rb_size f - 1)"
  define l where "l = min len (rb_size f - off)"
  have n: "unat len = n" by (simp add: len_def n_def unat_min)
  then have len_n: "len = word_of_nat n" by (metis of_nat_unat ucast_id)
  have off: "unat off = unat (rb_out f) mod unat (rb_size f)"
    unfolding off_def by (rule mask_index) (rule facts)
  then have off_lt: "unat off < unat (rb_size f)" using facts(4) by simp
  have l: "unat l = min n (unat (rb_size f) - unat off)"
    using off_lt by (simp add: l_def unat_min n unat_sub word_le_nat_alt)
  have rest: "unat (len - l) = n - unat l"
    using l n by (simp add: unat_sub word_le_nat_alt)
  have nle: "n \<le> unat (rb_size f)" using facts(3) by (auto simp: n_def)
  have read: "take (unat l) (drop (unat off) (rb_buffer f)) @ take (n - unat l) (rb_buffer f)
      = circ (rb_buffer f) (unat (rb_out f)) n"
    using facts(2) nle off l by (intro circ_read) auto
  let ?f' = "f\<lparr>rb_out := rb_out f + len\<rparr>"
  have out: "circ (rb_buffer f) (unat (rb_out f)) n = take n (rb_contents f)"
    by (simp add: rb_contents_def circ_take n_def min_def)
  have run: "RingBuffer_Out len0 f = Inr (of_nat n, take n (rb_contents f), ?f')"
  proof -
    have "mem_get (rb_buffer f) (unat off) (unat l) = Inr (take (unat l) (drop (unat off) (rb_buffer f)))"
      using l off_lt facts(2) by simp
    moreover have "mem_get (rb_buffer f) 0 (unat (len - l)) = Inr (take (n - unat l) (rb_buffer f))"
      using rest nle facts(2) by simp
    ultimately show ?thesis
      unfolding RingBuffer_Out_def Let_def len_def[symmetric] off_def[symmetric] l_def[symmetric]
      using read out len_n by simp
  qed
  have len': "unat (RingBuffer_Len ?f') = unat (RingBuffer_Len f) - n"
  proof -
    have "RingBuffer_Len ?f' = RingBuffer_Len f - len" by (simp add: RingBuffer_Len_def)
    then show ?thesis using n by (simp add: unat_sub word_le_nat_alt n_def)
  qed
  have "rb_contents ?f' = drop n (rb_contents f)"
  proof -
    have "circ (rb_buffer f) (unat (rb_out f + len)) m = circ (rb_buffer f) (unat (rb_out f) + n) m" for m
      using counter_wrap[OF facts(1), of "rb_out f" len] facts(2) n by (intro circ_cong) simp
    then show ?thesis
      unfolding rb_contents_def len' by (simp add: circ_drop n_def)
  qed
  moreover have "rb_ok ?f'" using facts len' by (simp add: rb_ok_def)
  ultimately show ?thesis using run len' by simp
qed

section \<open>The contract\<close>

definition rb_push :: "u8 list \<Rightarrow> ringbuf \<Rightarrow> ringbuf res" where
  "rb_push xs f = bindR (RingBuffer_In xs (of_nat (length xs)) f) (\<lambda>(_, f'). Inr f')"

definition rb_pop :: "nat \<Rightarrow> ringbuf \<Rightarrow> (u8 list \<times> ringbuf) res" where
  "rb_pop n f = bindR (RingBuffer_Out (of_nat n) f) (\<lambda>(_, ys, f'). Inr (ys, f'))"

lemma unat_of_nat_le: "n \<le> unat (w :: 'a::len word) \<Longrightarrow> unat (of_nat n :: 'a word) = n"
  by (metis le_unat_uoi)

interpretation rb: bulk_fifo rb_push rb_pop rb_contents "\<lambda>f. unat (RingBuffer_Avail f)" rb_ok
proof
  fix f :: ringbuf and xs :: "u8 list"
  assume ok: "rb_ok f" and le: "length xs \<le> unat (RingBuffer_Avail f)"
  from le have "unat (of_nat (length xs) :: u32) = length xs" by (rule unat_of_nat_le)
  with RingBuffer_In_spec[OF ok, of "of_nat (length xs)" xs] le ok
  show "\<exists>f'. rb_push xs f = Inr f' \<and> rb_ok f' \<and> rb_contents f' = rb_contents f @ xs \<and>
      unat (RingBuffer_Avail f') = unat (RingBuffer_Avail f) - length xs"
    by (force simp: rb_push_def rb_ok_avail)
next
  fix f :: ringbuf and n :: nat
  assume ok: "rb_ok f" and le: "n \<le> length (rb_contents f)"
  then have "unat (of_nat n :: u32) = n" using unat_of_nat_le[of n "RingBuffer_Len f"] by simp
  with RingBuffer_Out_spec[OF ok, of "of_nat n"] le ok rb_ok_facts(3)[OF ok]
  show "\<exists>f'. rb_pop n f = Inr (take n (rb_contents f), f') \<and> rb_ok f' \<and>
      rb_contents f' = drop n (rb_contents f) \<and>
      unat (RingBuffer_Avail f') = unat (RingBuffer_Avail f) + n"
    by (force simp: rb_pop_def rb_ok_avail)
qed

section \<open>The instruction trace of the CPU loop\<close>

text \<open>
  \<open>exec_once\<close> (\<open>nemu/src/cpu/cpu-exec.c\<close>) logs every instruction word into a ring buffer of
  IRINGBUF_SIZE bytes, dropping the oldest word when it is full; \<open>assert_fail_msg\<close> prints what
  it holds.
\<close>

definition IRINGBUF_SIZE :: u32 where
  "IRINGBUF_SIZE = 32"

definition iringbuf_log :: "u32 \<Rightarrow> ringbuf \<Rightarrow> ringbuf res" where
  "iringbuf_log inst f =
     (let put = (\<lambda>g. bindR (RingBuffer_In (le_bytes 4 inst) 4 g) (\<lambda>(_, g'). Inr g'))
      in if RingBuffer_IsFull f then bindR (RingBuffer_Out 4 f) (\<lambda>(_, _, g). put g) else put f)"

fun iringbuf_dump :: "nat \<Rightarrow> ringbuf \<Rightarrow> (u32 list \<times> ringbuf) res" where
  "iringbuf_dump 0 f = Inr ([], f)"
| "iringbuf_dump (Suc n) f =
     (if \<not> RingBuffer_IsEmpty f
      then bindR (RingBuffer_Out 4 f) (\<lambda>(_, bs, f').
           bindR (iringbuf_dump n f') (\<lambda>(ws, f''). Inr (le_word bs # ws, f'')))
      else iringbuf_dump n f)"

definition assert_fail_trace :: "ringbuf \<Rightarrow> (u32 list \<times> ringbuf) res" where
  "assert_fail_trace f = iringbuf_dump (unat IRINGBUF_SIZE div 4) f"

text \<open>Logging is the sliding window of the contract.\<close>

lemma iringbuf_log_slide:
  assumes ok: "rb_ok f" and "4 dvd unat (RingBuffer_Avail f)"
  shows "iringbuf_log inst f = rb.slide (le_bytes 4 inst) f"
proof -
  have "unat (RingBuffer_Avail f) < 4 \<longleftrightarrow> RingBuffer_IsFull f"
    using assms(2) by (auto simp: RingBuffer_IsFull_def unat_eq_0 dest: dvd_imp_le)
  then show ?thesis
    by (auto simp: iringbuf_log_def rb.slide_def rb_push_def rb_pop_def Let_def bindR_def
        split: sum.splits)
qed

lemma iringbuf_log_ok:
  assumes "rb_ok f" and "unat (rb_size f) = 4 * c" and "4 dvd unat (RingBuffer_Avail f)"
  shows "\<exists>f'. iringbuf_log i f = Inr f' \<and> rb.slide (le_bytes 4 i) f = Inr f' \<and> rb_ok f' \<and>
    unat (rb_size f') = 4 * c \<and> 4 dvd unat (RingBuffer_Avail f')"
proof -
  have sz: "unat (RingBuffer_Len f) + unat (RingBuffer_Avail f) = unat (rb_size f)"
    using rb_ok_avail[OF assms(1)] rb_ok_facts(3)[OF assms(1)] by simp
  have "unat (rb_size f) > 0" using rb_ok_facts(4)[OF assms(1)] .
  then have "4 \<le> unat (rb_size f)" using assms(2) by (cases c) auto
  then have "unat (RingBuffer_Avail f) < 4 \<Longrightarrow> 4 \<le> unat (RingBuffer_Len f)"
    using assms(3) sz by (cases "unat (RingBuffer_Avail f)") (auto dest: dvd_imp_le)
  then obtain f' where f': "rb.slide (le_bytes 4 i) f = Inr f'" "rb_ok f'"
    "unat (RingBuffer_Len f') + unat (RingBuffer_Avail f') = unat (RingBuffer_Len f) + unat (RingBuffer_Avail f)"
    "rb_contents f' = (if unat (RingBuffer_Avail f) < 4 then drop 4 (rb_contents f) else rb_contents f) @ le_bytes 4 i"
    using rb.slide_step[OF assms(1), of "le_bytes 4 i"] sz
      \<open>4 \<le> unat (rb_size f)\<close> by (auto cong: if_cong)
  have sz': "unat (rb_size f') = 4 * c"
    using rb_ok_avail[OF f'(2)] rb_ok_facts(3)[OF f'(2)] f'(3) sz assms(2) by simp
  have "unat (RingBuffer_Len f') = (if unat (RingBuffer_Avail f) < 4 then unat (RingBuffer_Len f) - 4
       else unat (RingBuffer_Len f)) + 4"
    using arg_cong[OF f'(4), of length] by simp
  moreover have "4 dvd unat (RingBuffer_Len f)"
    using sz assms(2,3) by (metis dvd_add_left_iff dvd_triv_left)
  ultimately have "4 dvd unat (RingBuffer_Len f')" by simp
  then have "4 dvd unat (RingBuffer_Avail f')"
    using f'(3) sz assms(2) by (metis dvd_add_right_iff dvd_triv_left)
  with f'(1,2) sz' iringbuf_log_slide[OF assms(1,3)] show ?thesis by simp
qed

lemma iringbuf_log_run:
  assumes "rb_ok f" and "unat (rb_size f) = 4 * c" and "4 dvd unat (RingBuffer_Avail f)"
  shows "forR iringbuf_log insts f = forR rb.slide (map (le_bytes 4) insts) f"
  using assms
proof (induction insts arbitrary: f)
  case (Cons i insts)
  from iringbuf_log_ok[OF Cons.prems, of i] Cons.IH show ?case by auto
qed simp

lemma iringbuf_dump_words:
  assumes "rb_ok f" and "rb_contents f = concat (map (le_bytes 4) ws)" and "length ws \<le> n"
  shows "\<exists>f'. iringbuf_dump n f = Inr (ws, f') \<and> rb_ok f' \<and> RingBuffer_IsEmpty f'"
  using assms
proof (induction n arbitrary: f ws)
  case 0
  then have "RingBuffer_Len f = 0" using rb_contents_length[of f] by (simp add: unat_eq_0)
  with 0 show ?case by (simp add: RingBuffer_IsEmpty_def)
next
  case (Suc n)
  have len: "unat (RingBuffer_Len f) = 4 * length ws"
    using arg_cong[OF Suc.prems(2), of length]
    by (simp add: length_concat o_def sum_list_triv)
  show ?case
  proof (cases ws)
    case Nil
    then have "RingBuffer_IsEmpty f" using len by (simp add: RingBuffer_IsEmpty_def unat_eq_0)
    with Suc Nil show ?thesis by simp
  next
    case (Cons w ws')
    then have "\<not> RingBuffer_IsEmpty f" using len by (auto simp: RingBuffer_IsEmpty_def)
    moreover obtain f' where f': "RingBuffer_Out 4 f = Inr (4, le_bytes 4 w, f')" "rb_ok f'"
      "rb_contents f' = concat (map (le_bytes 4) ws')"
      using RingBuffer_Out_spec[OF Suc.prems(1), of 4] len Cons Suc.prems(2) by auto
    moreover have "le_word (le_bytes 4 w) = w"
      by (simp add: le_word_le_bytes take_bit_word_eq_self)
    ultimately show ?thesis
      using Suc.IH[OF f'(2,3)] Suc.prems(3) Cons by auto
  qed
qed

lemma rb_fresh_ok:
  assumes "is_power_of_2 sz" and "length b = unat sz"
  shows "rb_ok \<lparr>rb_buffer = b, rb_size = sz, rb_in = 0, rb_out = 0\<rparr>"
  using assms by (simp add: rb_ok_def RingBuffer_Len_def)

lemma RingBuffer_Malloc_power:
  "is_power_of_2 sz \<Longrightarrow> blk sz = Some b \<Longrightarrow>
   RingBuffer_Malloc True blk sz = (2, Some \<lparr>rb_buffer = b, rb_size = sz, rb_in = 0, rb_out = 0\<rparr>)"
  by (simp add: RingBuffer_Malloc_def)

text \<open>
  C6. The ring buffer is a first-in first-out queue, however often its free running 32 bit
  counters wrap and wherever a block crosses the end of the array: for every sequence of block
  writes and block reads that never overfills it nor asks for more than it holds, no memcpy
  leaves the array, and what was read followed by what is left is what was there followed by
  what was written.
\<close>

theorem RingBuffer_fifo:
  assumes "rb_ok f" and "rb.admissible ops (unat (RingBuffer_Len f)) (unat (RingBuffer_Avail f))"
  shows "\<exists>out f'. rb.run ops ([], f) = Inr (out, f') \<and> rb_ok f' \<and>
     out @ rb_contents f' = rb_contents f @ rb.pushed ops"
  using rb.run_fifo_order[of f ops "[]"] assms by simp

theorem RingBuffer_fifo_witness:
  "let f = \<lparr>rb_buffer = replicate 8 0, rb_size = 8, rb_in = 0xfffffffe, rb_out = 0xfffffff8\<rparr>;
       ops = [Pop 3, Push [1, 2, 3, 4], Pop 6]
   in \<exists>out f'. rb.run ops ([], f) = Inr (out, f') \<and> rb_ok f' \<and>
        out @ rb_contents f' = rb_contents f @ rb.pushed ops"
proof -
  let ?f = "\<lparr>rb_buffer = replicate 8 0, rb_size = 8, rb_in = 0xfffffffe, rb_out = 0xfffffff8\<rparr> :: ringbuf"
  have "rb_ok ?f" by (simp add: rb_ok_def is_power_of_2_def RingBuffer_Len_def)
  moreover have "rb.admissible [Pop 3, Push [1, 2, 3, 4], Pop 6]
      (unat (RingBuffer_Len ?f)) (unat (RingBuffer_Avail ?f))"
    by (simp add: rb_defs)
  ultimately show ?thesis
    unfolding Let_def by (rule RingBuffer_fifo)
qed

text \<open>
  A ring buffer is allocated with the least power of two that is at least the requested
  size (a request of 0 gives 1 byte), empty and well formed; on every failure (no header, a
  size above \<open>2 ^ 31\<close> that is no power of two, no buffer) NULL is returned and nothing stays
  allocated, and freeing the buffer releases both blocks.
\<close>

theorem RingBuffer_Malloc_correct:
  assumes blk: "\<And>n b. blk n = Some b \<Longrightarrow> length b = unat n"
  shows "case RingBuffer_Malloc hdr blk sz of
      (live, None) \<Rightarrow> live = 0 \<and> (hdr \<longrightarrow> unat sz \<le> 2 ^ 31 \<longrightarrow> (\<exists>n. unat sz \<le> unat n \<and> blk n = None))
    | (live, Some f) \<Rightarrow> RingBuffer_Free live = 0 \<and> rb_ok f \<and> rb_contents f = [] \<and> unat sz \<le> unat (rb_size f) \<and>
        (\<forall>k. unat sz \<le> 2 ^ k \<longrightarrow> unat (rb_size f) \<le> 2 ^ k)"
proof (cases "is_power_of_2 sz")
  case True
  then show ?thesis
    using rb_fresh_ok[OF True blk] by (cases "blk sz")
      (auto simp: RingBuffer_Malloc_def RingBuffer_Free_def rb_contents_def circ_def RingBuffer_Len_def)
next
  case False
  show ?thesis
  proof (cases "sz > 0x80000000")
    case True
    then show ?thesis using False by (auto simp: RingBuffer_Malloc_def word_less_nat_alt)
  next
    case small: False
    define s where "s = roundup_pow_of_two sz"
    obtain k where k: "unat s = 2 ^ k" "unat sz \<le> 2 ^ k" "\<forall>j < k. 2 ^ j < unat sz"
      using roundup_pow_of_two_spec[of sz] small by (auto simp: s_def word_less_nat_alt)
    then have pow: "is_power_of_2 s" by (auto simp: is_power_of_2_iff)
    have least: "2 ^ k \<le> (2 :: nat) ^ j" if "unat sz \<le> 2 ^ j" for j
      using k(3) that by (metis leD not_le power_increasing one_le_numeral)
    show ?thesis
      using rb_fresh_ok[OF pow blk] False small k least by (cases "blk s")
       (auto simp: RingBuffer_Malloc_def RingBuffer_Free_def rb_contents_def circ_def RingBuffer_Len_def
          s_def[symmetric] intro: exI[of _ s])
  qed
qed

theorem RingBuffer_Malloc_correct_witness:
  "case RingBuffer_Malloc True (\<lambda>n. if n < 64 then Some (replicate (unat n) 0) else None) 20 of
      (live, None) \<Rightarrow> False | (live, Some f) \<Rightarrow> rb_ok f \<and> unat (rb_size f) \<le> 2 ^ 5"
proof -
  let ?blk = "\<lambda>n :: u32. if n < 64 then Some (replicate (unat n) 0) else None :: u8 list option"
  have "\<And>n b. ?blk n = Some b \<Longrightarrow> length b = unat n" by (auto split: if_splits)
  note correct = RingBuffer_Malloc_correct[of ?blk True 20, OF this]
  have "snd (RingBuffer_Malloc True ?blk 20) \<noteq> None" by code_simp
  moreover obtain live fo where "RingBuffer_Malloc True ?blk 20 = (live, fo)"
    by (rule prod.exhaust)
  ultimately obtain f where run: "RingBuffer_Malloc True ?blk 20 = (live, Some f)"
    by (cases fo) simp_all
  have "rb_ok f" and least: "\<And>k. unat (20 :: u32) \<le> 2 ^ k \<Longrightarrow> unat (rb_size f) \<le> 2 ^ k"
    using correct unfolding run by auto
  moreover have "unat (rb_size f) \<le> 2 ^ 5" by (rule least) simp
  ultimately show ?thesis unfolding run by simp
qed

lemma trace_after_log:
  assumes "length b = 32"
    and "RingBuffer_Malloc True (\<lambda>n. if n = 32 then Some b else None) IRINGBUF_SIZE = (live, Some f0)"
  shows "\<exists>f f'. forR iringbuf_log insts f0 = Inr f \<and> rb_ok f \<and>
     assert_fail_trace f = Inr (last_n 8 insts, f')"
proof -
  have pow: "is_power_of_2 (32 :: u32)" by (simp add: is_power_of_2_def)
  with assms have f0: "f0 = \<lparr>rb_buffer = b, rb_size = 32, rb_in = 0, rb_out = 0\<rparr>"
    by (auto simp: RingBuffer_Malloc_def IRINGBUF_SIZE_def)
  have ok: "rb_ok f0" unfolding f0 using pow assms(1) by (intro rb_fresh_ok) auto
  have c0: "rb_contents f0 = concat []" and "unat (RingBuffer_Avail f0) = 32" "unat (rb_size f0) = 4 * 8"
    by (simp_all add: f0 rb_contents_def circ_def rb_defs)
  moreover have "length (rb_contents f0) + unat (RingBuffer_Avail f0) = 8 * 4"
    by (simp add: f0 rb_defs)
  ultimately obtain f where f: "forR iringbuf_log insts f0 = Inr f" "rb_ok f"
    "rb_contents f = concat (last_n 8 (map (le_bytes 4) insts))"
    using rb.slide_run[OF ok, of 8 4 "[]" "map (le_bytes 4) insts"] iringbuf_log_run[OF ok, of 8 insts]
    by auto
  have "length (last_n 8 insts) \<le> unat IRINGBUF_SIZE div 4"
    by (simp add: last_n_def IRINGBUF_SIZE_def)
  with iringbuf_dump_words[OF f(2), of "last_n 8 insts"] f(3)
  show ?thesis using f(1,2) by (auto simp: assert_fail_trace_def last_n_map)
qed

text \<open>
  C27. When an assertion fails, the trace that is printed is the last eight instruction words
  that were executed (all of them when there were fewer), oldest first.
\<close>

theorem iringbuf_last_instructions:
  assumes "length b = 32"
    and "RingBuffer_Malloc True (\<lambda>n. if n = 32 then Some b else None) IRINGBUF_SIZE = (live, Some f0)"
  shows "\<exists>f f'. forR iringbuf_log insts f0 = Inr f \<and> rb_ok f \<and>
     assert_fail_trace f = Inr (last_n 8 insts, f')"
  using assms by (rule trace_after_log)

theorem iringbuf_last_instructions_witness:
  "\<exists>f f'. forR iringbuf_log (map of_nat [1..<12]) \<lparr>rb_buffer = replicate 32 0, rb_size = 32, rb_in = 0, rb_out = 0\<rparr>
     = Inr f \<and> rb_ok f \<and> assert_fail_trace f = Inr ([4, 5, 6, 7, 8, 9, 10, 11], f')"
proof -
  have "RingBuffer_Malloc True (\<lambda>n. if n = 32 then Some (replicate 32 0) else None) IRINGBUF_SIZE
      = (2, Some \<lparr>rb_buffer = replicate 32 0, rb_size = 32, rb_in = 0, rb_out = 0\<rparr>)"
    by (simp add: RingBuffer_Malloc_def IRINGBUF_SIZE_def is_power_of_2_def)
  from iringbuf_last_instructions[OF _ this, of "map of_nat [1..<12]"]
  show ?thesis by (simp add: last_n_def upt_rec)
qed

end
