(* ===== verification/Riscv32.thy ===== *)
theory Riscv32
  imports Bits IoMap "HOL-Library.Signed_Division"
begin

text \<open>
  The riscv32 interpreter: \<open>nemu/src/isa/riscv32\<close> (registers, traps, the INSTPAT table of
  inst.c, the built-in image) with \<open>include/cpu/ifetch.h\<close> and
  \<open>src/engine/interpreter/hostcall.c\<close>. What the C standard leaves undefined in an instruction
  body (division by zero, overflowing division, a shift by the width or more) is an \<open>Undef\<close>.
\<close>

section \<open>State\<close>

record cpu_state =
  gpr :: "u32 list"
  cpu_pc :: u32
  csr :: "u32 list"

record machine =
  cpu :: cpu_state
  mbus :: bus

record decode =
  s_pc :: u32
  s_snpc :: u32
  s_dnpc :: u32
  s_inst :: u32

definition check_reg_idx :: "int \<Rightarrow> nat res" where
  "check_reg_idx idx = guardR (0 \<le> idx \<and> idx < 32) (AssertFail ''check_reg_idx'') (Inr (nat idx))"

text \<open>\<open>csr(idx)\<close> takes an \<open>int\<close>: a sign extended immediate above 0x7ff is negative.\<close>

definition check_csr_idx :: "u32 \<Rightarrow> nat res" where
  "check_csr_idx idx =
     guardR (idx = 0x300 \<or> idx = 0x305 \<or> idx = 0x341 \<or> idx = 0x342) (AssertFail ''check_csr_idx'')
       (Inr (if idx = 0x300 then 0 else if idx = 0x305 then 1 else if idx = 0x341 then 2 else 3))"

abbreviation (input) MSTATUS :: u32 where "MSTATUS \<equiv> 0x300"
abbreviation (input) MTVEC :: u32 where "MTVEC \<equiv> 0x305"
abbreviation (input) MEPC :: u32 where "MEPC \<equiv> 0x341"
abbreviation (input) MCAUSE :: u32 where "MCAUSE \<equiv> 0x342"

definition get_R :: "nat \<Rightarrow> machine \<Rightarrow> u32 res" where
  "get_R i m = bindR (check_reg_idx (int i)) (\<lambda>k. Inr (gpr (cpu m) ! k))"

definition set_R :: "nat \<Rightarrow> u32 \<Rightarrow> machine \<Rightarrow> machine res" where
  "set_R i v m = bindR (check_reg_idx (int i)) (\<lambda>k. Inr (m\<lparr>cpu := (cpu m)\<lparr>gpr := (gpr (cpu m))[k := v]\<rparr>\<rparr>))"

definition get_csr :: "u32 \<Rightarrow> machine \<Rightarrow> u32 res" where
  "get_csr i m = bindR (check_csr_idx i) (\<lambda>k. Inr (csr (cpu m) ! k))"

definition set_csr :: "u32 \<Rightarrow> u32 \<Rightarrow> machine \<Rightarrow> machine res" where
  "set_csr i v m = bindR (check_csr_idx i) (\<lambda>k. Inr (m\<lparr>cpu := (cpu m)\<lparr>csr := (csr (cpu m))[k := v]\<rparr>\<rparr>))"

section \<open>Traps\<close>

definition isa_raise_intr :: "u32 \<Rightarrow> u32 \<Rightarrow> machine \<Rightarrow> (u32 \<times> machine) res" where
  "isa_raise_intr NO epc m =
     bindR (set_csr MCAUSE NO m) (\<lambda>m1.
     bindR (set_csr MEPC epc m1) (\<lambda>m2.
     bindR (get_csr MTVEC m2) (\<lambda>v. Inr (v, m2))))"

definition isa_query_intr :: u32 where
  "isa_query_intr = - 1"

definition inst_fetch :: "u32 \<Rightarrow> nat \<Rightarrow> bus \<Rightarrow> (u32 \<times> u32 \<times> bus) res" where
  "inst_fetch pc len b = bindR (vaddr_ifetch pc len b) (\<lambda>(inst, b'). Inr (inst, pc + of_nat len, b'))"

definition nemutrap :: "u32 \<Rightarrow> u32 \<Rightarrow> machine \<Rightarrow> machine" where
  "nemutrap pc code m = m\<lparr>mbus := set_nemu_state NEMU_END pc code (mbus m)\<rparr>"

text \<open>The two words that are printed are fetched from the bus.\<close>

definition invalid_inst :: "u32 \<Rightarrow> machine \<Rightarrow> machine res" where
  "invalid_inst thispc m =
     bindR (inst_fetch thispc 4 (mbus m)) (\<lambda>(_, pc1, b1).
     bindR (inst_fetch pc1 4 b1) (\<lambda>(_, _, b2).
       Inr (m\<lparr>mbus := set_nemu_state NEMU_ABORT thispc (- 1) b2\<rparr>)))"

section \<open>Operands\<close>

datatype operand_type = TYPE_I | TYPE_U | TYPE_S | TYPE_J | TYPE_R | TYPE_B | TYPE_N

definition immI :: "u32 \<Rightarrow> u32" where
  "immI i = ucast (SEXT (BITS i 31 20) 12)"

definition immU :: "u32 \<Rightarrow> u32" where
  "immU i = ucast (push_bit 12 (SEXT (BITS i 31 12) 20))"

definition immS :: "u32 \<Rightarrow> u32" where
  "immS i = ucast (push_bit 5 (SEXT (BITS i 31 25) 7) OR BITS i 11 7)"

definition immJ :: "u32 \<Rightarrow> u32" where
  "immJ i = ucast (push_bit 20 (SEXT (BITS i 31 31) 1) OR push_bit 12 (BITS i 19 12) OR
     push_bit 11 (BITS i 20 20) OR push_bit 1 (BITS i 30 21) OR 0)"

definition immB :: "u32 \<Rightarrow> u32" where
  "immB i = ucast (push_bit 12 (SEXT (BITS i 31 31) 1) OR push_bit 11 (BITS i 7 7) OR
     push_bit 5 (BITS i 30 25) OR push_bit 1 (BITS i 11 8) OR 0)"

definition decode_operand :: "operand_type \<Rightarrow> u32 \<Rightarrow> machine \<Rightarrow> (nat \<times> u32 \<times> u32 \<times> u32) res" where
  "decode_operand ty i m =
     (let rs1 = unat (BITS i 19 15); rs2 = unat (BITS i 24 20); rd = unat (BITS i 11 7);
          src1R = get_R rs1 m; src2R = get_R rs2 m
      in case ty of
           TYPE_I \<Rightarrow> bindR src1R (\<lambda>a. Inr (rd, a, 0, immI i))
         | TYPE_U \<Rightarrow> Inr (rd, 0, 0, immU i)
         | TYPE_S \<Rightarrow> bindR src1R (\<lambda>a. bindR src2R (\<lambda>b. Inr (rd, a, b, immS i)))
         | TYPE_J \<Rightarrow> Inr (rd, 0, 0, immJ i)
         | TYPE_R \<Rightarrow> bindR src1R (\<lambda>a. bindR src2R (\<lambda>b. Inr (rd, a, b, 0)))
         | TYPE_B \<Rightarrow> bindR src1R (\<lambda>a. bindR src2R (\<lambda>b. Inr (rd, a, b, immB i)))
         | TYPE_N \<Rightarrow> Inr (rd, 0, 0, 0))"

section \<open>The INSTPAT table\<close>

datatype rv_op =
    Lui | Auipc | Lw | Addi | Jalr | Sltiu | Andi | Srai | Slli | Lbu | Srli | Xori | Lh | Lhu | Slti | Lb | Ori
  | Csrrw | Csrrs | Ecall | Sw | Sb | Sh | Jal | Beq | Bne | Bge | Bgeu | Bltu | Blt
  | Add | Sub | Rem | Div | Mul | Or | Sltu | Xor | Sll | Mulh | Remu | Divu | And | Slt | Sra | Srl | Mulhu
  | Mret | Ebreak | Inv

definition rv_table :: "(string \<times> rv_op \<times> operand_type) list" where
  "rv_table = [
    (''??????? ????? ????? ??? ????? 01101 11'', Lui, TYPE_U),
    (''??????? ????? ????? ??? ????? 00101 11'', Auipc, TYPE_U),
    (''??????? ????? ????? 010 ????? 00000 11'', Lw, TYPE_I),
    (''??????? ????? ????? 000 ????? 00100 11'', Addi, TYPE_I),
    (''??????? ????? ????? 000 ????? 11001 11'', Jalr, TYPE_I),
    (''??????? ????? ????? 011 ????? 00100 11'', Sltiu, TYPE_I),
    (''??????? ????? ????? 111 ????? 00100 11'', Andi, TYPE_I),
    (''010000? ????? ????? 101 ????? 00100 11'', Srai, TYPE_I),
    (''000000? ????? ????? 001 ????? 00100 11'', Slli, TYPE_I),
    (''??????? ????? ????? 100 ????? 00000 11'', Lbu, TYPE_I),
    (''000000? ????? ????? 101 ????? 00100 11'', Srli, TYPE_I),
    (''??????? ????? ????? 100 ????? 00100 11'', Xori, TYPE_I),
    (''??????? ????? ????? 001 ????? 00000 11'', Lh, TYPE_I),
    (''??????? ????? ????? 101 ????? 00000 11'', Lhu, TYPE_I),
    (''??????? ????? ????? 010 ????? 00100 11'', Slti, TYPE_I),
    (''??????? ????? ????? 000 ????? 00000 11'', Lb, TYPE_I),
    (''??????? ????? ????? 110 ????? 00100 11'', Ori, TYPE_I),
    (''??????? ????? ????? 001 ????? 11100 11'', Csrrw, TYPE_I),
    (''??????? ????? ????? 010 ????? 11100 11'', Csrrs, TYPE_I),
    (''0000000 00000 00000 000 00000 11100 11'', Ecall, TYPE_I),
    (''??????? ????? ????? 010 ????? 01000 11'', Sw, TYPE_S),
    (''??????? ????? ????? 000 ????? 01000 11'', Sb, TYPE_S),
    (''??????? ????? ????? 001 ????? 01000 11'', Sh, TYPE_S),
    (''??????? ????? ????? ??? ????? 11011 11'', Jal, TYPE_J),
    (''??????? ????? ????? 000 ????? 11000 11'', Beq, TYPE_B),
    (''??????? ????? ????? 001 ????? 11000 11'', Bne, TYPE_B),
    (''??????? ????? ????? 101 ????? 11000 11'', Bge, TYPE_B),
    (''??????? ????? ????? 111 ????? 11000 11'', Bgeu, TYPE_B),
    (''??????? ????? ????? 110 ????? 11000 11'', Bltu, TYPE_B),
    (''??????? ????? ????? 100 ????? 11000 11'', Blt, TYPE_B),
    (''0000000 ????? ????? 000 ????? 01100 11'', Add, TYPE_R),
    (''0100000 ????? ????? 000 ????? 01100 11'', Sub, TYPE_R),
    (''0000001 ????? ????? 110 ????? 01100 11'', Rem, TYPE_R),
    (''0000001 ????? ????? 100 ????? 01100 11'', Div, TYPE_R),
    (''0000001 ????? ????? 000 ????? 01100 11'', Mul, TYPE_R),
    (''0000000 ????? ????? 110 ????? 01100 11'', Or, TYPE_R),
    (''0000000 ????? ????? 011 ????? 01100 11'', Sltu, TYPE_R),
    (''0000000 ????? ????? 100 ????? 01100 11'', Xor, TYPE_R),
    (''0000000 ????? ????? 001 ????? 01100 11'', Sll, TYPE_R),
    (''0000001 ????? ????? 001 ????? 01100 11'', Mulh, TYPE_R),
    (''0000001 ????? ????? 111 ????? 01100 11'', Remu, TYPE_R),
    (''0000001 ????? ????? 101 ????? 01100 11'', Divu, TYPE_R),
    (''0000000 ????? ????? 111 ????? 01100 11'', And, TYPE_R),
    (''0000000 ????? ????? 010 ????? 01100 11'', Slt, TYPE_R),
    (''0100000 ????? ????? 101 ????? 01100 11'', Sra, TYPE_R),
    (''0000000 ????? ????? 101 ????? 01100 11'', Srl, TYPE_R),
    (''0000001 ????? ????? 011 ????? 01100 11'', Mulhu, TYPE_R),
    (''0011000 00010 00000 000 00000 11100 11'', Mret, TYPE_R),
    (''0000000 00001 00000 000 00000 11100 11'', Ebreak, TYPE_N),
    (''??????? ????? ????? ??? ????? ????? ??'', Inv, TYPE_N)]"

text \<open>The INSTPATs are tried in order; a match leaves the block.\<close>

fun instpat_find :: "(string \<times> 'a \<times> 'b) list \<Rightarrow> u32 \<Rightarrow> ('a \<times> 'b) option res" where
  "instpat_find [] inst = Inr None"
| "instpat_find ((pat, x) # ps) inst =
     bindR (instpat_match pat inst) (\<lambda>hit. if hit then Inr (Some x) else instpat_find ps inst)"

section \<open>The instruction bodies\<close>

text \<open>C's \<open>/\<close> and \<open>%\<close> on \<open>int32_t\<close>, and the shifts, with their undefined cases.\<close>

definition c_div32 :: "u32 \<Rightarrow> u32 \<Rightarrow> u32 res" where
  "c_div32 a b = guardR (b \<noteq> 0 \<and> \<not> (a = 0x80000000 \<and> b = 0xffffffff)) (Undef ''division'')
     (Inr (word_of_int (sint a sdiv sint b)))"

definition c_rem32 :: "u32 \<Rightarrow> u32 \<Rightarrow> u32 res" where
  "c_rem32 a b = guardR (b \<noteq> 0 \<and> \<not> (a = 0x80000000 \<and> b = 0xffffffff)) (Undef ''remainder'')
     (Inr (word_of_int (sint a smod sint b)))"

definition c_divu32 :: "u32 \<Rightarrow> u32 \<Rightarrow> u32 res" where
  "c_divu32 a b = guardR (b \<noteq> 0) (Undef ''division'') (Inr (a div b))"

definition c_remu32 :: "u32 \<Rightarrow> u32 \<Rightarrow> u32 res" where
  "c_remu32 a b = guardR (b \<noteq> 0) (Undef ''remainder'') (Inr (a mod b))"

definition c_shl32 :: "u32 \<Rightarrow> u64 \<Rightarrow> u32 res" where
  "c_shl32 a n = guardR (n < 32) (Undef ''shift'') (Inr (push_bit (unat n) a))"

definition c_shr32 :: "u32 \<Rightarrow> u64 \<Rightarrow> u32 res" where
  "c_shr32 a n = guardR (n < 32) (Undef ''shift'') (Inr (drop_bit (unat n) a))"

definition c_sar32 :: "u32 \<Rightarrow> u64 \<Rightarrow> u32 res" where
  "c_sar32 a n = guardR (n < 32) (Undef ''shift'') (Inr (signed_drop_bit (unat n) a))"

definition load_R :: "nat \<Rightarrow> u32 \<Rightarrow> nat \<Rightarrow> (u32 \<Rightarrow> u32) \<Rightarrow> machine \<Rightarrow> machine res" where
  "load_R rd addr len f m =
     bindR (vaddr_read addr len (mbus m)) (\<lambda>(v, b). set_R rd (f v) (m\<lparr>mbus := b\<rparr>))"

definition store_M :: "u32 \<Rightarrow> nat \<Rightarrow> u32 \<Rightarrow> machine \<Rightarrow> machine res" where
  "store_M addr len v m = bindR (vaddr_write addr len v (mbus m)) (\<lambda>b. Inr (m\<lparr>mbus := b\<rparr>))"

text \<open>
  The result of a body is the next pc and the machine; \<open>seq\<close> is a body that leaves
  \<open>dnpc = snpc\<close>.
\<close>

definition rv_exec :: "rv_op \<Rightarrow> decode \<Rightarrow> nat \<Rightarrow> u32 \<Rightarrow> u32 \<Rightarrow> u32 \<Rightarrow> machine \<Rightarrow> (u32 \<times> machine) res" where
  "rv_exec op s rd src1 src2 imm m =
     (let seq = (\<lambda>r. bindR r (\<lambda>m'. Inr (s_snpc s, m')));
          wr = (\<lambda>v. seq (set_R rd v m));
          wrR = (\<lambda>r. bindR r wr);
          branch = (\<lambda>c. Inr (if c then s_pc s + imm else s_snpc s, m))
      in case op of
           Lui \<Rightarrow> wr imm
         | Auipc \<Rightarrow> wr (s_pc s + imm)
         | Lw \<Rightarrow> seq (load_R rd (src1 + imm) 4 id m)
         | Addi \<Rightarrow> wr (src1 + imm)
         | Jalr \<Rightarrow> bindR (set_R rd (s_pc s + 4) m) (\<lambda>m'. Inr ((src1 + imm) AND NOT 1, m'))
         | Sltiu \<Rightarrow> wr (bool_u32 (src1 < imm))
         | Andi \<Rightarrow> wr (src1 AND imm)
         | Srai \<Rightarrow> wrR (c_sar32 src1 (BITS imm 5 0))
         | Slli \<Rightarrow> wrR (c_shl32 src1 (BITS imm 5 0))
         | Lbu \<Rightarrow> seq (load_R rd (src1 + imm) 1 id m)
         | Srli \<Rightarrow> wrR (c_shr32 src1 (BITS imm 5 0))
         | Xori \<Rightarrow> wr (src1 XOR imm)
         | Lh \<Rightarrow> seq (load_R rd (src1 + imm) 2 (\<lambda>v. ucast (SEXT (ucast v) 16)) m)
         | Lhu \<Rightarrow> seq (load_R rd (src1 + imm) 2 id m)
         | Slti \<Rightarrow> wr (bool_u32 (sint src1 < sint imm))
         | Lb \<Rightarrow> seq (load_R rd (src1 + imm) 1 (\<lambda>v. ucast (SEXT (ucast v) 8)) m)
         | Ori \<Rightarrow> wr (src1 OR imm)
         | Csrrw \<Rightarrow> bindR (get_csr imm m) (\<lambda>t. bindR (set_csr imm src1 m) (\<lambda>m1. seq (set_R rd t m1)))
         | Csrrs \<Rightarrow> bindR (get_csr imm m) (\<lambda>t. bindR (set_csr imm (t OR src1) m) (\<lambda>m1. seq (set_R rd t m1)))
         | Ecall \<Rightarrow> isa_raise_intr 0x0b (s_pc s) m
         | Sw \<Rightarrow> seq (store_M (src1 + imm) 4 src2 m)
         | Sb \<Rightarrow> seq (store_M (src1 + imm) 1 (ucast (BITS src2 7 0)) m)
         | Sh \<Rightarrow> seq (store_M (src1 + imm) 2 (ucast (BITS src2 15 0)) m)
         | Jal \<Rightarrow> bindR (set_R rd (s_pc s + 4) m) (\<lambda>m'. Inr (s_pc s + imm, m'))
         | Beq \<Rightarrow> branch (src1 = src2)
         | Bne \<Rightarrow> branch (src1 \<noteq> src2)
         | Bge \<Rightarrow> branch (sint src1 \<ge> sint src2)
         | Bgeu \<Rightarrow> branch (src1 \<ge> src2)
         | Bltu \<Rightarrow> branch (src1 < src2)
         | Blt \<Rightarrow> branch (sint src1 < sint src2)
         | Add \<Rightarrow> wr (src1 + src2)
         | Sub \<Rightarrow> wr (src1 - src2)
         | Rem \<Rightarrow> wrR (c_rem32 src1 src2)
         | Div \<Rightarrow> wrR (c_div32 src1 src2)
         | Mul \<Rightarrow> wr (src1 * src2)
         | Or \<Rightarrow> wr (src1 OR src2)
         | Sltu \<Rightarrow> wr (bool_u32 (src1 < src2))
         | Xor \<Rightarrow> wr (src1 XOR src2)
         | Sll \<Rightarrow> wrR (c_shl32 src1 (BITS src2 4 0))
         | Mulh \<Rightarrow> wr (ucast (drop_bit 32 (SEXT (ucast src1) 32 * SEXT (ucast src2) 32)))
         | Remu \<Rightarrow> wrR (c_remu32 src1 src2)
         | Divu \<Rightarrow> wrR (c_divu32 src1 src2)
         | And \<Rightarrow> wr (src1 AND src2)
         | Slt \<Rightarrow> wr (bool_u32 (sint src1 < sint src2))
         | Sra \<Rightarrow> wrR (c_sar32 src1 (BITS src2 4 0))
         | Srl \<Rightarrow> wrR (c_shr32 src1 (BITS src2 4 0))
         | Mulhu \<Rightarrow> wr (ucast (drop_bit 32 ((ucast src1 :: u64) * ucast src2)))
         | Mret \<Rightarrow> bindR (get_csr MEPC m) (\<lambda>v. Inr (v, m))
         | Ebreak \<Rightarrow> bindR (get_R 10 m) (\<lambda>code. Inr (s_snpc s, nemutrap (s_pc s) code m))
         | Inv \<Rightarrow> seq (invalid_inst (s_pc s) m))"

text \<open>Without a match (the last pattern always matches) the block falls through.\<close>

definition decode_exec :: "decode \<Rightarrow> machine \<Rightarrow> (decode \<times> machine) res" where
  "decode_exec s0 m =
     (let s = s0\<lparr>s_dnpc := s_snpc s0\<rparr>
      in bindR (instpat_find rv_table (s_inst s)) (\<lambda>hit.
           bindR (case hit of
                    None \<Rightarrow> Inr (s_dnpc s, m)
                  | Some (op, ty) \<Rightarrow>
                      bindR (decode_operand ty (s_inst s) m) (\<lambda>(rd, src1, src2, imm). rv_exec op s rd src1 src2 imm m))
             (\<lambda>(dnpc, m1). bindR (set_R 0 0 m1) (\<lambda>m2. Inr (s\<lparr>s_dnpc := dnpc\<rparr>, m2)))))"

definition isa_exec_once :: "decode \<Rightarrow> machine \<Rightarrow> (decode \<times> machine) res" where
  "isa_exec_once s m =
     bindR (inst_fetch (s_snpc s) 4 (mbus m)) (\<lambda>(inst, snpc, b).
       decode_exec (s\<lparr>s_inst := inst, s_snpc := snpc\<rparr>) (m\<lparr>mbus := b\<rparr>))"

section \<open>Initialisation and registers by name\<close>

definition builtin_img :: "u32 list" where
  "builtin_img = [0x800002b7, 0x0002a023, 0x0002a503, 0x00100073]"

definition RESET_VECTOR :: u32 where
  "RESET_VECTOR = CONFIG_MBASE + 0"

definition restart :: "machine \<Rightarrow> machine res" where
  "restart m =
     (let m1 = m\<lparr>cpu := (cpu m)\<lparr>cpu_pc := RESET_VECTOR, gpr := (gpr (cpu m))[0 := 0]\<rparr>\<rparr>
      in set_csr MSTATUS 0x1800 m1)"

definition init_isa :: "machine \<Rightarrow> machine res" where
  "init_isa m =
     (let bytes = concat (map (le_bytes 4) builtin_img); off = guest_to_host RESET_VECTOR
      in guardR (0 \<le> off \<and> off + int (length bytes) \<le> int CONFIG_MSIZE) (Undef ''init_isa: memcpy'')
           (restart (m\<lparr>mbus := (mbus m)\<lparr>pmem := store_bytes (pmem (mbus m)) (nat off) bytes\<rparr>\<rparr>)))"

definition reg_names :: "string list" where
  "reg_names = [''$0'', ''ra'', ''sp'', ''gp'', ''tp'', ''t0'', ''t1'', ''t2'',
     ''s0'', ''s1'', ''a0'', ''a1'', ''a2'', ''a3'', ''a4'', ''a5'',
     ''a6'', ''a7'', ''s2'', ''s3'', ''s4'', ''s5'', ''s6'', ''s7'',
     ''s8'', ''s9'', ''s10'', ''s11'', ''t3'', ''t4'', ''t5'', ''t6'']"

text \<open>
  \<open>tmp\<close> is made of the second and third character of \<open>s\<close> (reading past the terminator of a
  shorter string is undefined; its terminator ends \<open>tmp\<close>).
\<close>

definition c_char :: "string \<Rightarrow> nat \<Rightarrow> char res" where
  "c_char s i = guardR (i \<le> length s) (Undef ''string read past its end'')
     (Inr (if i < length s then s ! i else CHR 0x00))"

definition isa_reg_str2val :: "string \<Rightarrow> cpu_state \<Rightarrow> (u32 \<times> bool) res" where
  "isa_reg_str2val s c =
     bindR (c_char s 1) (\<lambda>c1. bindR (c_char s 2) (\<lambda>c2.
       let tmp = takeWhile (\<lambda>x. x \<noteq> CHR 0x00) [c1, c2]
       in case find (\<lambda>i. reg_names ! i = tmp) [0..<32] of
            Some i \<Rightarrow> Inr (gpr c ! i, True)
          | None \<Rightarrow> if tmp = ''pc'' then Inr (cpu_pc c, True) else Inr (0, False)))"

definition isa_difftest_checkregs :: "cpu_state \<Rightarrow> cpu_state \<Rightarrow> bool" where
  "isa_difftest_checkregs ref dut \<longleftrightarrow>
     list_all (\<lambda>i. gpr ref ! i = gpr dut ! i) [0..<32] \<and> cpu_pc ref = cpu_pc dut"

end
