(* ===== verification/Expr.thy ===== *)
theory Expr
  imports Riscv32
begin

text \<open>
  The expression evaluator of the debugger, \<open>nemu/src/monitor/sdb/expr.c\<close>: the tokenizer over
  the rules table, the choice of the dominant operator, the recursive evaluation and the
  reclassification of unary operators. The regular expressions are matched as POSIX does for
  these patterns (the leftmost longest match).
\<close>

section \<open>Tokens and rules\<close>

datatype token_type = TK_NOTYPE | TK_HEXNUM | TK_NUM | TK_REG | TK_EQ | TK_NOEQ | TK_AND | TK_OR
  | TK_NEG | TK_POS | TK_DEREF | TK_CHAR char

record token =
  tok_type :: token_type
  tok_str :: string

datatype rep = Once | Opt | Plus

type_synonym regex = "(rep \<times> (char \<Rightarrow> bool)) list"

definition in_range :: "char \<Rightarrow> char \<Rightarrow> char \<Rightarrow> bool" where
  "in_range lo hi c \<longleftrightarrow> lo \<le> c \<and> c \<le> hi"

definition is_digit :: "char \<Rightarrow> bool" where "is_digit = in_range CHR ''0'' CHR ''9''"

definition is_xdigit :: "char \<Rightarrow> bool" where
  "is_xdigit c \<longleftrightarrow> is_digit c \<or> in_range CHR ''a'' CHR ''f'' c \<or> in_range CHR ''A'' CHR ''F'' c"

definition is_reg_char :: "char \<Rightarrow> bool" where
  "is_reg_char c \<longleftrightarrow> is_digit c \<or> in_range CHR ''a'' CHR ''z'' c"

definition lit :: "string \<Rightarrow> regex" where
  "lit s = map (\<lambda>c. (Once, (=) c)) s"

definition rules :: "(regex \<times> token_type) list" where
  "rules = [
    ([(Plus, (=) CHR '' '')], TK_NOTYPE),
    ([(Once, (=) CHR ''0''), (Once, \<lambda>c. c = CHR ''x'' \<or> c = CHR ''X''), (Plus, is_xdigit)], TK_HEXNUM),
    ([(Plus, is_digit)], TK_NUM),
    ([(Once, (=) CHR ''$''), (Opt, (=) CHR ''$''), (Plus, is_reg_char)], TK_REG),
    (lit ''+'', TK_CHAR CHR ''+''),
    (lit ''-'', TK_CHAR CHR ''-''),
    (lit ''*'', TK_CHAR CHR ''*''),
    (lit ''/'', TK_CHAR CHR ''/''),
    (lit ''('', TK_CHAR CHR ''(''),
    (lit '')'', TK_CHAR CHR '')''),
    (lit ''=='', TK_EQ),
    (lit ''!='', TK_NOEQ),
    (lit ''&&'', TK_AND),
    (lit ''||'', TK_OR)]"

text \<open>The length of the match at the start of the string.\<close>

fun re_match :: "regex \<Rightarrow> string \<Rightarrow> nat option" where
  "re_match [] s = Some 0"
| "re_match ((Once, P) # r) s =
     (case s of c # s' \<Rightarrow> if P c then map_option Suc (re_match r s') else None | [] \<Rightarrow> None)"
| "re_match ((Opt, P) # r) s =
     (case s of c # s' \<Rightarrow> if P c then map_option Suc (re_match r s') else re_match r s | [] \<Rightarrow> re_match r s)"
| "re_match ((Plus, P) # r) s =
     (let n = length (takeWhile P s)
      in if n = 0 then None else map_option (\<lambda>k. n + k) (re_match r (drop n s)))"

fun find_rule :: "(regex \<times> token_type) list \<Rightarrow> string \<Rightarrow> (nat \<times> token_type) option" where
  "find_rule [] s = None"
| "find_rule ((re, ty) # rs) s = (case re_match re s of Some n \<Rightarrow> Some (n, ty) | None \<Rightarrow> find_rule rs s)"

text \<open>Every rule takes at least one character, so the tokenizer advances.\<close>

lemma re_match_pos: "re_match r s = Some n \<Longrightarrow> r \<noteq> [] \<Longrightarrow> fst (hd r) \<noteq> Opt \<Longrightarrow> 0 < n \<and> s \<noteq> []"
  by (cases "(r, s)" rule: re_match.cases) (auto simp: Let_def split: list.splits if_splits)

lemma find_rule_Some: "find_rule rs s = Some (n, ty) \<Longrightarrow> \<exists>re. (re, ty) \<in> set rs \<and> re_match re s = Some n"
  by (induction rs s rule: find_rule.induct) (auto split: option.splits)

lemma find_rule_pos: "find_rule rules s = Some (n, ty) \<Longrightarrow> 0 < n \<and> s \<noteq> []"
proof -
  assume "find_rule rules s = Some (n, ty)"
  then obtain re where "(re, ty) \<in> set rules" "re_match re s = Some n"
    using find_rule_Some by blast
  moreover have "list_all (\<lambda>(re, ty). re \<noteq> [] \<and> fst (hd re) \<noteq> Opt) rules"
    by (simp add: rules_def lit_def)
  ultimately show ?thesis using re_match_pos[of re s n] by (auto simp: list_all_iff)
qed

abbreviation (input) TOKENS_MAX :: nat where "TOKENS_MAX \<equiv> 1024"
abbreviation (input) TOKEN_STR :: nat where "TOKEN_STR \<equiv> 32"

definition keeps_text :: "token_type \<Rightarrow> bool" where
  "keeps_text ty \<longleftrightarrow> ty = TK_HEXNUM \<or> ty = TK_NUM \<or> ty = TK_REG"

text \<open>
  The tokens recorded so far come last first. A token without text keeps what the array held;
  it is never read and stands for nothing here.
\<close>

function make_token_loop :: "string \<Rightarrow> token list \<Rightarrow> (bool \<times> token list) res" where
  "make_token_loop e acc =
     (if e = [] then Inr (True, rev acc)
      else case find_rule rules e of
             None \<Rightarrow> Inr (False, rev acc)
           | Some (n, ty) \<Rightarrow>
               guardR (n < TOKEN_STR) (AssertFail ''the length of substring is too long!'')
                 (guardR (length acc < TOKENS_MAX) (AssertFail ''tokens are too many!'')
                   (make_token_loop (drop n e)
                      (if ty = TK_NOTYPE then acc
                       else \<lparr>tok_type = ty, tok_str = (if keeps_text ty then take n e else [])\<rparr> # acc))))"
  by pat_completeness auto
termination
  by (relation "measure (length o fst)") (auto dest: find_rule_pos)

declare make_token_loop.simps [simp del]

definition make_token :: "string \<Rightarrow> (bool \<times> token list) res" where
  "make_token e = make_token_loop e []"

section \<open>The dominant operator\<close>

definition type_at :: "token list \<Rightarrow> int \<Rightarrow> token_type" where
  "type_at toks i = tok_type (toks ! nat i)"

fun parens_loop :: "token list \<Rightarrow> int list \<Rightarrow> int \<Rightarrow> int \<Rightarrow> bool" where
  "parens_loop toks [] q count \<longleftrightarrow> count = 0"
| "parens_loop toks (i # is) q count \<longleftrightarrow>
     (let count' = (if type_at toks i = TK_CHAR CHR ''('' then count + 1
                    else if type_at toks i = TK_CHAR CHR '')'' then count - 1 else count)
      in if count' = 0 \<and> i < q then False else parens_loop toks is q count')"

definition check_parentheses :: "token list \<Rightarrow> int \<Rightarrow> int \<Rightarrow> bool" where
  "check_parentheses toks p q \<longleftrightarrow>
     (if type_at toks p \<noteq> TK_CHAR CHR ''('' \<or> type_at toks q \<noteq> TK_CHAR CHR '')'' then False
      else parens_loop toks [p..q] q 0)"

fun op_priority :: "token_type \<Rightarrow> nat" where
  "op_priority TK_POS = 1"
| "op_priority TK_NEG = 1"
| "op_priority TK_DEREF = 2"
| "op_priority (TK_CHAR c) = (if c = CHR ''*'' \<or> c = CHR ''/'' then 3 else if c = CHR ''+'' \<or> c = CHR ''-'' then 4 else 0)"
| "op_priority TK_EQ = 5"
| "op_priority TK_NOEQ = 5"
| "op_priority TK_AND = 6"
| "op_priority TK_OR = 7"
| "op_priority _ = 0"

fun dominant_loop :: "token list \<Rightarrow> int list \<Rightarrow> int \<Rightarrow> int \<Rightarrow> nat \<Rightarrow> int" where
  "dominant_loop toks [] count op priority = op"
| "dominant_loop toks (i # is) count op priority =
     (let ty = type_at toks i;
          count1 = (if ty = TK_CHAR CHR ''('' then count + 1 else count);
          count2 = (if ty = TK_CHAR CHR '')'' then count1 - 1 else count1);
          cur_pri = op_priority ty
      in if count2 \<noteq> 0 then dominant_loop toks is count2 op priority
         else if cur_pri = 0 then dominant_loop toks is count2 op priority
         else if cur_pri > 2 \<and> cur_pri \<ge> priority then dominant_loop toks is count2 i cur_pri
         else if cur_pri \<le> 2 \<and> priority \<le> 2 then i
         else dominant_loop toks is count2 op priority)"

definition dominant_op :: "token list \<Rightarrow> int \<Rightarrow> int \<Rightarrow> int" where
  "dominant_op toks p q = dominant_loop toks [p..q] 0 (- 1) 0"

lemma dominant_loop_in: "dominant_loop toks is count op priority \<in> insert op (set is)"
proof (induction "is" arbitrary: count op priority)
  case (Cons i "is")
  have branch: "(if c then x else y) \<in> S" if "x \<in> S" "y \<in> S" for c S and x y :: int
    using that by simp
  show ?case
    unfolding dominant_loop.simps Let_def
    by (intro branch; (rule subsetD[OF _ Cons.IH])?; auto)
qed simp

lemma dominant_op_in: "dominant_op toks p q = op \<Longrightarrow> op \<noteq> - 1 \<Longrightarrow> p \<le> op \<and> op \<le> q"
  using dominant_loop_in[of toks "[p..q]" 0 "- 1" 0] by (auto simp: dominant_op_def)

section \<open>Evaluation\<close>

definition hex_val :: "char \<Rightarrow> int" where
  "hex_val c = (if is_digit c then of_char c - 48 else if in_range CHR ''a'' CHR ''f'' c then of_char c - 87
     else of_char c - 55)"

definition digits_val :: "int \<Rightarrow> string \<Rightarrow> int" where
  "digits_val base s = foldl (\<lambda>n c. base * n + hex_val c) 0 s"

text \<open>\<open>sscanf\<close> with \<open>%u\<close> and \<open>%x\<close>: a value that does not fit is undefined; nothing to convert leaves \<open>num\<close>.\<close>

definition scan_digits :: "int \<Rightarrow> (char \<Rightarrow> bool) \<Rightarrow> string \<Rightarrow> u32 \<Rightarrow> u32 res" where
  "scan_digits base P s num =
     (let ds = takeWhile P s; n = digits_val base ds
      in if ds = [] then Inr num
         else guardR (n < 2 ^ 32) (Undef ''sscanf: result not representable'') (Inr (of_int n)))"

definition scan_u :: "string \<Rightarrow> u32 \<Rightarrow> u32 res" where
  "scan_u s num = scan_digits 10 is_digit s num"

definition scan_x :: "string \<Rightarrow> u32 \<Rightarrow> u32 res" where
  "scan_x s num =
     scan_digits 16 is_xdigit (if take 2 s = ''0x'' \<or> take 2 s = ''0X'' then drop 2 s else s) num"

definition is_unary :: "token_type \<Rightarrow> bool" where
  "is_unary ty \<longleftrightarrow> ty = TK_POS \<or> ty = TK_NEG \<or> ty = TK_DEREF"

text \<open>One operand: the number or the register; another token clears the flag.\<close>

definition eval_leaf :: "token \<Rightarrow> cpu_state \<Rightarrow> bool \<Rightarrow> bus \<Rightarrow> (u32 \<times> bool \<times> bus) res" where
  "eval_leaf t c ok b =
     (case tok_type t of
        TK_HEXNUM \<Rightarrow> bindR (scan_x (tok_str t) 0) (\<lambda>v. Inr (v, ok, b))
      | TK_NUM \<Rightarrow> bindR (scan_u (tok_str t) 0) (\<lambda>v. Inr (v, ok, b))
      | TK_REG \<Rightarrow> bindR (isa_reg_str2val (tok_str t) c) (\<lambda>(v, found). Inr (v, found, b))
      | _ \<Rightarrow> Inr (0, False, b))"

text \<open>The operator applied to the values of the operands.\<close>

definition eval_op :: "token_type \<Rightarrow> u32 \<Rightarrow> u32 \<Rightarrow> bool \<Rightarrow> bus \<Rightarrow> (u32 \<times> bool \<times> bus) res" where
  "eval_op ty val1 val2 ok b =
     (case ty of
        TK_CHAR c \<Rightarrow>
          (if c = CHR ''+'' then Inr (val1 + val2, ok, b)
           else if c = CHR ''-'' then Inr (val1 - val2, ok, b)
           else if c = CHR ''*'' then Inr (val1 * val2, ok, b)
           else if c = CHR ''/'' then (if val2 = 0 then Inr (0, False, b) else Inr (val1 div val2, ok, b))
           else Inr (0, False, b))
      | TK_AND \<Rightarrow> Inr (bool_u32 (val1 \<noteq> 0 \<and> val2 \<noteq> 0), ok, b)
      | TK_OR \<Rightarrow> Inr (bool_u32 (val1 \<noteq> 0 \<or> val2 \<noteq> 0), ok, b)
      | TK_EQ \<Rightarrow> Inr (bool_u32 (val1 = val2), ok, b)
      | TK_NOEQ \<Rightarrow> Inr (bool_u32 (val1 \<noteq> val2), ok, b)
      | TK_POS \<Rightarrow> Inr (val2, ok, b)
      | TK_NEG \<Rightarrow> Inr (- val2, ok, b)
      | TK_DEREF \<Rightarrow> bindR (vaddr_read val2 4 b) (\<lambda>(v, b'). Inr (v, ok, b'))
      | _ \<Rightarrow> Inr (0, False, b))"

function eval_tokens :: "token list \<Rightarrow> cpu_state \<Rightarrow> int \<Rightarrow> int \<Rightarrow> bool \<Rightarrow> bus \<Rightarrow> (u32 \<times> bool \<times> bus) res" where
  "eval_tokens toks c p q ok b =
     (if p > q then Inr (0, False, b)
      else if p = q then eval_leaf (toks ! nat p) c ok b
      else if check_parentheses toks p q then eval_tokens toks c (p + 1) (q - 1) ok b
      else
        (let op = dominant_op toks p q
         in if op \<noteq> - 1 then
              bindR (if is_unary (type_at toks op) then Inr (0, ok, b)
                     else eval_tokens toks c p (op - 1) ok b) (\<lambda>(val1, ok1, b1).
              bindR (eval_tokens toks c (op + 1) q ok1 b1) (\<lambda>(val2, ok2, b2).
                eval_op (type_at toks op) val1 val2 ok2 b2))
            else Inr (0, False, b)))"
  by pat_completeness auto
termination
proof (relation "measure (\<lambda>(toks, c, p, q, ok, b). nat (q - p + 1))", goal_cases)
  case (3 toks c p q ok b op)
  then show ?case using dominant_op_in[of toks p q op] by auto
next
  case (4 toks c p q ok b op x y z)
  then show ?case using dominant_op_in[of toks p q op] by auto
qed auto

declare eval_tokens.simps [simp del]

definition operand_end :: "token_type \<Rightarrow> bool" where
  "operand_end ty \<longleftrightarrow> ty = TK_HEXNUM \<or> ty = TK_NUM \<or> ty = TK_REG \<or> ty = TK_CHAR CHR '')''"

text \<open>
  The loop that turns operators without a left operand into unary ones: each test reads the type
  the previous token has by then.
\<close>

definition unary_type :: "token_type \<Rightarrow> token_type" where
  "unary_type ty =
     (if ty = TK_CHAR CHR ''+'' then TK_POS else if ty = TK_CHAR CHR ''-'' then TK_NEG
      else if ty = TK_CHAR CHR ''*'' then TK_DEREF else ty)"

fun mark_unary :: "token_type option \<Rightarrow> token list \<Rightarrow> token list" where
  "mark_unary prev [] = []"
| "mark_unary prev (t # ts) =
     (let t' = (case prev of
                  Some ty \<Rightarrow> if operand_end ty then t else t\<lparr>tok_type := unary_type (tok_type t)\<rparr>
                | None \<Rightarrow> t\<lparr>tok_type := unary_type (tok_type t)\<rparr>)
      in t' # mark_unary (Some (tok_type t')) ts)"

definition expr :: "string \<Rightarrow> cpu_state \<Rightarrow> bool \<Rightarrow> bus \<Rightarrow> (u32 \<times> bool \<times> bus) res" where
  "expr e c ok b =
     bindR (make_token e) (\<lambda>(matched, toks).
       if \<not> matched then Inr (0, False, b)
       else (let toks' = mark_unary None toks
             in eval_tokens toks' c 0 (int (length toks') - 1) ok b))"

end
