(* ===== verification/Watchpoint.thy ===== *)
theory Watchpoint
  imports Expr
begin

text \<open>
  The watchpoint pool of the debugger, \<open>nemu/src/monitor/sdb/watchpoint.c\<close>: an array of 32 nodes
  in two linked lists, the watchpoints in use and the free ones. Pointers into the array are
  indices; a walk takes at most as many steps as the array has nodes, which the invariant makes
  enough. The pool refines a list of watchpoints with a stack of free numbers.
\<close>

section \<open>State and operations\<close>

record wp =
  wp_NO :: int
  wp_next :: "nat option"
  wp_e :: string
  wp_value :: u32

record wps =
  wp_pool :: "wp list"
  wp_head :: "nat option"
  wp_free :: "nat option"

abbreviation (input) NR_WP :: nat where "NR_WP \<equiv> 32"

definition init_wp_pool :: wps where
  "init_wp_pool = \<lparr>wp_pool = map (\<lambda>i. \<lparr>wp_NO = int i, wp_next = (if i = NR_WP - 1 then None else Some (i + 1)),
       wp_e = [], wp_value = 0\<rparr>) [0..<NR_WP],
     wp_head = None, wp_free = Some 0\<rparr>"

definition node :: "nat \<Rightarrow> (wp \<Rightarrow> wp) \<Rightarrow> wps \<Rightarrow> wps" where
  "node i f s = s\<lparr>wp_pool := (wp_pool s)[i := f (wp_pool s ! i)]\<rparr>"

definition endless :: cerr where
  "endless = Undef ''walk longer than the pool''"

text \<open>\<open>while (p->next) p = p->next\<close>\<close>

fun last_node :: "nat \<Rightarrow> wp list \<Rightarrow> nat \<Rightarrow> nat res" where
  "last_node 0 pool p = Inl endless"
| "last_node (Suc n) pool p = (case wp_next (pool ! p) of None \<Rightarrow> Inr p | Some q \<Rightarrow> last_node n pool q)"

text \<open>The copy into \<open>e[32]\<close> has to fit with its terminator.\<close>

definition new_wp :: "string \<Rightarrow> cpu_state \<Rightarrow> bus \<Rightarrow> wps \<Rightarrow> (nat \<times> wps \<times> bus) res" where
  "new_wp e c b s =
     (case wp_free s of
        None \<Rightarrow> Inl (AssertFail ''new_wp: free_'')
      | Some tmp \<Rightarrow>
          let s1 = node tmp (\<lambda>w. w\<lparr>wp_next := None\<rparr>) (s\<lparr>wp_free := wp_next (wp_pool s ! tmp)\<rparr>)
          in guardR (length e < 32) (Undef ''strcpy past WP.e'')
            (bindR (expr e c True b) (\<lambda>(v, success, b1).
               let s2 = node tmp (\<lambda>w. w\<lparr>wp_e := e, wp_value := v\<rparr>) s1
               in guardR success (AssertFail ''new_wp: success'')
                 (case wp_head s2 of
                    None \<Rightarrow> Inr (tmp, s2\<lparr>wp_head := Some tmp\<rparr>, b1)
                  | Some p \<Rightarrow>
                      bindR (last_node NR_WP (wp_pool s2) p) (\<lambda>q.
                        Inr (tmp, node q (\<lambda>w. w\<lparr>wp_next := Some tmp\<rparr>) s2, b1))))))"

text \<open>\<open>while (tmp != NULL && tmp->next != wp) tmp = tmp->next\<close>\<close>

fun before_node :: "nat \<Rightarrow> wp list \<Rightarrow> nat option \<Rightarrow> nat \<Rightarrow> nat option res" where
  "before_node 0 pool p w = Inl endless"
| "before_node (Suc n) pool None w = Inr None"
| "before_node (Suc n) pool (Some p) w =
     (if wp_next (pool ! p) \<noteq> Some w then before_node n pool (wp_next (pool ! p)) w else Inr (Some p))"

definition free_wp :: "nat \<Rightarrow> wps \<Rightarrow> wps res" where
  "free_wp wp s =
     (case wp_head s of
        None \<Rightarrow> Inl (AssertFail ''free_wp: head'')
      | Some h \<Rightarrow>
          bindR (if wp = h then Inr (s\<lparr>wp_head := wp_next (wp_pool s ! h)\<rparr>)
                 else bindR (before_node (NR_WP + 1) (wp_pool s) (Some h) wp) (\<lambda>tmp.
                   case tmp of
                     None \<Rightarrow> Inl (Undef ''free_wp: NULL->next'')
                   | Some t \<Rightarrow> Inr (node t (\<lambda>w. w\<lparr>wp_next := wp_next (wp_pool s ! wp)\<rparr>) s)))
            (\<lambda>s1. Inr (node wp (\<lambda>w. w\<lparr>wp_next := wp_free s1, wp_value := 0, wp_e := []\<rparr>) s1\<lparr>wp_free := Some wp\<rparr>)))"

text \<open>
  The loop of \<open>check_wp\<close>. The hit message evaluates \<open>$pc\<close>; the result is only printed, but the
  flag is shared.
\<close>

fun check_wp_loop :: "nat \<Rightarrow> cpu_state \<Rightarrow> nat option \<Rightarrow> bool \<Rightarrow> bool \<Rightarrow> wps \<Rightarrow> bus \<Rightarrow> (bool \<times> wps \<times> bus) res" where
  "check_wp_loop n c None check success s b = Inr (check, s, b)"
| "check_wp_loop 0 c (Some t) check success s b = Inl endless"
| "check_wp_loop (Suc n) c (Some t) check success s b =
     (let w = wp_pool s ! t
      in bindR (expr (wp_e w) c success b) (\<lambda>(ans, success1, b1).
           bindR (if ans \<noteq> wp_value w
                  then bindR (expr ''$pc'' c success1 b1) (\<lambda>(pc, success2, b2). Inr (True, success2, b2))
                  else Inr (check, success1, b1))
             (\<lambda>(check1, success3, b3).
               let s1 = node t (\<lambda>w. w\<lparr>wp_value := ans\<rparr>) s
               in check_wp_loop n c (wp_next (wp_pool s1 ! t)) check1 success3 s1 b3)))"

definition check_wp :: "cpu_state \<Rightarrow> wps \<Rightarrow> bus \<Rightarrow> (bool \<times> wps \<times> bus) res" where
  "check_wp c s b = check_wp_loop NR_WP c (wp_head s) False True s b"

fun find_NO :: "nat \<Rightarrow> wp list \<Rightarrow> nat option \<Rightarrow> int \<Rightarrow> nat option res" where
  "find_NO n pool None N = Inr None"
| "find_NO 0 pool (Some p) N = Inl endless"
| "find_NO (Suc n) pool (Some p) N =
     (if wp_NO (pool ! p) \<noteq> N then find_NO n pool (wp_next (pool ! p)) N else Inr (Some p))"

definition delete_wp :: "int \<Rightarrow> wps \<Rightarrow> (nat option \<times> bool) res" where
  "delete_wp N s = bindR (find_NO NR_WP (wp_pool s) (wp_head s) N) (\<lambda>tmp. Inr (tmp, tmp \<noteq> None))"

text \<open>What \<open>print_wp\<close> lists: number, expression and value, in order.\<close>

fun print_wp_loop :: "nat \<Rightarrow> wp list \<Rightarrow> nat option \<Rightarrow> (int \<times> string \<times> u32) list res" where
  "print_wp_loop n pool None = Inr []"
| "print_wp_loop 0 pool (Some p) = Inl endless"
| "print_wp_loop (Suc n) pool (Some p) =
     bindR (print_wp_loop n pool (wp_next (pool ! p))) (\<lambda>ls.
       Inr ((wp_NO (pool ! p), wp_e (pool ! p), wp_value (pool ! p)) # ls))"

definition print_wp :: "wps \<Rightarrow> (int \<times> string \<times> u32) list res" where
  "print_wp s = print_wp_loop NR_WP (wp_pool s) (wp_head s)"

section \<open>The invariant\<close>

fun path :: "wp list \<Rightarrow> nat option \<Rightarrow> nat list \<Rightarrow> bool" where
  "path pool p [] \<longleftrightarrow> p = None"
| "path pool p (i # is) \<longleftrightarrow> p = Some i \<and> path pool (wp_next (pool ! i)) is"

definition wps_ok :: "wps \<Rightarrow> nat list \<Rightarrow> nat list \<Rightarrow> bool" where
  "wps_ok s us fs \<longleftrightarrow> path (wp_pool s) (wp_head s) us \<and> path (wp_pool s) (wp_free s) fs \<and>
     distinct (us @ fs) \<and> set (us @ fs) = {..<32} \<and> length (wp_pool s) = 32 \<and>
     (\<forall>i < 32. wp_NO (wp_pool s ! i) = int i)"

lemma path_update: "i \<notin> set is \<Longrightarrow> path (pool[i := w]) p is \<longleftrightarrow> path pool p is"
  by (induction pool p "is" rule: path.induct) auto

lemma path_update_same:
  "i < length pool \<Longrightarrow> wp_next w = wp_next (pool ! i) \<Longrightarrow> path (pool[i := w]) p is \<longleftrightarrow> path pool p is"
  by (induction pool p "is" rule: path.induct) (auto simp: nth_list_update)

lemma path_None: "path pool None us \<longleftrightarrow> us = []"
  by (cases us) auto

lemma path_link:
  "path pool p (as @ [l]) \<Longrightarrow> distinct (as @ [l]) \<Longrightarrow> l < length pool \<Longrightarrow>
   path (pool[l := w]) (wp_next w) bs \<Longrightarrow> path (pool[l := w]) p (as @ l # bs)"
  by (induction as arbitrary: p) auto

lemma path_split: "path pool p (as @ i # bs) \<Longrightarrow> path pool (wp_next (pool ! i)) bs"
  by (induction as arbitrary: p) auto

lemma path_take: "path pool p (as @ i # bs) \<Longrightarrow> distinct (as @ [i]) \<Longrightarrow> i < length pool \<Longrightarrow>
   wp_next w = None \<Longrightarrow> path (pool[i := w]) p (as @ [i])"
  by (induction as arbitrary: p) auto

text \<open>Relinking a node drops its successor from the path.\<close>

lemma path_relink:
  "path pool p (as @ a # cs) \<Longrightarrow> distinct (as @ [a]) \<Longrightarrow> a < length pool \<Longrightarrow>
   path (pool[a := w]) (wp_next w) bs \<Longrightarrow> path (pool[a := w]) p (as @ a # bs)"
  by (induction as arbitrary: p) auto

lemma last_node_path:
  "path pool (Some p) us \<Longrightarrow> length us \<le> n \<Longrightarrow> last_node n pool p = Inr (last us)"
proof (induction n pool p arbitrary: us rule: last_node.induct)
  case (2 n pool p)
  show ?case
  proof (cases "tl us")
    case Nil
    then show ?thesis using 2(2,3) by (cases us) auto
  next
    case (Cons q us')
    then have "us = p # q # us'" "path pool (Some q) (q # us')" "wp_next (pool ! p) = Some q"
      using 2(2) by (cases us; auto)+
    then show ?thesis using 2(1)[of q "q # us'"] 2(3) by simp
  qed
qed (auto simp: neq_Nil_conv)

lemma before_node_path:
  "path pool p (as @ a # w # bs) \<Longrightarrow> distinct (as @ a # w # bs) \<Longrightarrow> length as < n \<Longrightarrow>
   before_node n pool p w = Inr (Some a)"
proof (induction n pool p w arbitrary: as rule: before_node.induct)
  case (3 n pool p w)
  show ?case
  proof (cases as)
    case Nil
    then show ?thesis using 3(2) by simp
  next
    case (Cons x as')
    then have x: "x = p" "path pool (wp_next (pool ! p)) (as' @ a # w # bs)" using 3(2) by auto
    then have "wp_next (pool ! p) \<noteq> Some w" using 3(3) Cons by (cases as') auto
    then show ?thesis using 3(1)[OF _ x(2)] 3(3,4) Cons by simp
  qed
qed (auto simp: path_None)

lemma wps_ok_lt: "wps_ok s us fs \<Longrightarrow> i \<in> set us \<union> set fs \<Longrightarrow> i < length (wp_pool s)"
  by (auto simp: wps_ok_def)

lemma wps_ok_lengths: "wps_ok s us fs \<Longrightarrow> length us + length fs = 32"
proof -
  assume "wps_ok s us fs"
  then have "card (set (us @ fs)) = length (us @ fs)" "set (us @ fs) = {..<32}"
    unfolding wps_ok_def by (blast intro: distinct_card)+
  then show ?thesis by simp
qed

section \<open>The abstract pool\<close>

type_synonym wp_abs = "(nat \<times> string \<times> u32) list \<times> nat list"

definition abs_entry :: "wps \<Rightarrow> nat \<Rightarrow> nat \<times> string \<times> u32" where
  "abs_entry s i = (i, wp_e (wp_pool s ! i), wp_value (wp_pool s ! i))"

definition wps_rel :: "wps \<Rightarrow> wp_abs \<Rightarrow> bool" where
  "wps_rel s a \<longleftrightarrow> (\<exists>us. wps_ok s us (snd a) \<and> fst a = map (abs_entry s) us)"

text \<open>Watchpoints in the order they were set; the number of a new one is the last freed.\<close>

definition abs_new :: "string \<Rightarrow> cpu_state \<Rightarrow> bus \<Rightarrow> wp_abs \<Rightarrow> (nat \<times> wp_abs \<times> bus) res" where
  "abs_new e c b a =
     (case a of
        (ws, []) \<Rightarrow> Inl (AssertFail ''new_wp: free_'')
      | (ws, i # fs) \<Rightarrow>
          guardR (length e < 32) (Undef ''strcpy past WP.e'')
            (bindR (expr e c True b) (\<lambda>(v, success, b1).
               guardR success (AssertFail ''new_wp: success'') (Inr (i, (ws @ [(i, e, v)], fs), b1)))))"

definition abs_delete :: "int \<Rightarrow> wp_abs \<Rightarrow> bool \<times> wp_abs" where
  "abs_delete N a =
     (case a of (ws, fs) \<Rightarrow>
        if \<exists>(i, _) \<in> set ws. int i = N
        then (True, (filter (\<lambda>(i, _). int i \<noteq> N) ws, nat N # fs)) else (False, a))"

fun abs_check :: "cpu_state \<Rightarrow> bool \<Rightarrow> bool \<Rightarrow> (nat \<times> string \<times> u32) list \<Rightarrow> bus \<Rightarrow>
    (bool \<times> (nat \<times> string \<times> u32) list \<times> bus) res" where
  "abs_check c check success [] b = Inr (check, [], b)"
| "abs_check c check success ((i, e, v) # ws) b =
     bindR (expr e c success b) (\<lambda>(ans, success1, b1).
     bindR (if ans \<noteq> v
            then bindR (expr ''$pc'' c success1 b1) (\<lambda>(pc, success2, b2). Inr (True, success2, b2))
            else Inr (check, success1, b1)) (\<lambda>(check1, success3, b3).
     bindR (abs_check c check1 success3 ws b3) (\<lambda>(check2, ws', b4). Inr (check2, (i, e, ans) # ws', b4))))"

section \<open>Every operation refines its abstraction\<close>

lemma wps_rel_init: "wps_rel init_wp_pool ([], [0..<32])"
proof -
  have "path (wp_pool init_wp_pool) (if k < 32 then Some k else None) [k..<32]" if "k \<le> 32" for k
    using that
  proof (induction "32 - k" arbitrary: k)
    case (Suc n)
    then have "k < 32" by simp
    moreover have "wp_next (wp_pool init_wp_pool ! k) = (if Suc k < 32 then Some (Suc k) else None)"
      using \<open>k < 32\<close> by (auto simp: init_wp_pool_def)
    ultimately show ?case using Suc(1)[of "Suc k"] Suc(2) by (simp add: upt_conv_Cons)
  qed simp
  from this[of 0] show ?thesis
    by (auto simp: wps_rel_def wps_ok_def init_wp_pool_def intro!: exI[of _ "[]"])
qed

lemma new_wp_refines:
  assumes "wps_rel s a"
  shows "rel_sum (=) (\<lambda>(i, s', b1) (j, a', b2). i = j \<and> wps_rel s' a' \<and> b1 = b2) (new_wp e c b s) (abs_new e c b a)"
proof -
  obtain us fs ws where a: "a = (ws, fs)" and ok: "wps_ok s us fs" and ws: "ws = map (abs_entry s) us"
    using assms by (cases a) (auto simp: wps_rel_def)
  show ?thesis
  proof (cases fs)
    case Nil
    then have "wp_free s = None" using ok by (simp add: wps_ok_def)
    then show ?thesis using Nil by (simp add: new_wp_def abs_new_def a)
  next
    case (Cons t fs')
    have free: "wp_free s = Some t" and rest: "path (wp_pool s) (wp_next (wp_pool s ! t)) fs'"
      using ok Cons by (simp_all add: wps_ok_def)
    have t: "t < 32" "t < length (wp_pool s)" "t \<notin> set us" "t \<notin> set fs'" "length us \<le> 32"
      using ok Cons wps_ok_lt[OF ok, of t] wps_ok_lengths[OF ok] by (auto simp: wps_ok_def)
    show ?thesis
    proof (cases "expr e c True b")
      case (Inr r)
      obtain v success b1 where r: "r = (v, success, b1)" by (rule prod_cases3)
      define pool2 where "pool2 = (wp_pool s)[t := (wp_pool s ! t)\<lparr>wp_next := None, wp_e := e, wp_value := v\<rparr>]"
      have p2: "path pool2 (wp_head s) us" "path pool2 (wp_next (wp_pool s ! t)) fs'" "length pool2 = 32"
        "path pool2 (Some t) [t]"
        using ok rest t by (simp_all add: pool2_def path_update wps_ok_def)
      let ?s2 = "s\<lparr>wp_free := wp_next (wp_pool s ! t), wp_pool := pool2\<rparr>"
      have no: "\<forall>i < 32. wp_NO (pool2 ! i) = int i"
        using ok t by (auto simp: pool2_def wps_ok_def nth_list_update)
      have s2: "node t (\<lambda>w. w\<lparr>wp_e := e, wp_value := v\<rparr>)
          (node t (\<lambda>w. w\<lparr>wp_next := None\<rparr>) (s\<lparr>wp_free := wp_next (wp_pool s ! t)\<rparr>)) = ?s2"
        using t by (simp add: node_def pool2_def)
      have entries: "map (abs_entry (?s2\<lparr>wp_pool := pool2[l := (pool2 ! l)\<lparr>wp_next := x\<rparr>]\<rparr>)) us = ws" if "l < 32" for l x
        using t that p2(3) unfolding ws by (auto simp: abs_entry_def pool2_def nth_list_update)
      have sets: "distinct ((us @ [t]) @ fs')" "set ((us @ [t]) @ fs') = {..<32}"
        using ok Cons by (auto simp: wps_ok_def)
      show ?thesis
      proof (cases "length e < 32 \<and> success")
        case False
        then show ?thesis
          unfolding new_wp_def abs_new_def a Cons free by (auto simp: guardR_def Inr r Let_def)
      next
        case True
        have a': "abs_new e c b a = Inr (t, (ws @ [(t, e, v)], fs'), b1)"
          using True by (simp add: abs_new_def a Cons Inr r)
        show ?thesis
        proof (cases us rule: rev_cases)
          case Nil
          then have "wp_head s = None" using ok by (simp add: wps_ok_def)
          then have n: "new_wp e c b s = Inr (t, ?s2\<lparr>wp_head := Some t\<rparr>, b1)"
            using True s2 unfolding new_wp_def free by (simp add: Inr r Let_def)
          have "wps_ok (?s2\<lparr>wp_head := Some t\<rparr>) [t] fs'"
            using p2 no sets Nil by (simp add: wps_ok_def)
          then have "wps_rel (?s2\<lparr>wp_head := Some t\<rparr>) (ws @ [(t, e, v)], fs')"
            using Nil t ws by (auto simp: wps_rel_def abs_entry_def pool2_def intro!: exI[of _ "[t]"])
          then show ?thesis by (simp add: n a')
        next
          case (snoc us' l)
          have l: "l < 32" "l \<noteq> t" using ok snoc t by (auto simp: wps_ok_def)
          obtain p where p: "wp_head s = Some p" using p2(1) snoc by (cases us') auto
          let ?s3 = "?s2\<lparr>wp_pool := pool2[l := (pool2 ! l)\<lparr>wp_next := Some t\<rparr>]\<rparr>"
          have "last_node 32 pool2 p = Inr l"
            using last_node_path[of pool2 p us 32] p2(1) p t(5) snoc by simp
          then have n: "new_wp e c b s = Inr (t, ?s3, b1)"
            using True s2 p unfolding new_wp_def free by (simp add: Inr r Let_def node_def)
          have "path (wp_pool ?s3) (wp_head s) (us' @ l # [t])"
            using path_link[of pool2 "wp_head s" us' l "(pool2 ! l)\<lparr>wp_next := Some t\<rparr>" "[t]"] p2 l snoc sets
            by (simp add: path_update)
          then have "wps_ok ?s3 (us @ [t]) fs'"
            using p2 no sets l snoc by (auto simp: wps_ok_def path_update nth_list_update)
          moreover have "map (abs_entry ?s3) (us @ [t]) = ws @ [(t, e, v)]"
            using entries[OF l(1), of "Some t"] l t by (simp add: abs_entry_def pool2_def)
          ultimately have "wps_rel ?s3 (ws @ [(t, e, v)], fs')" by (auto simp: wps_rel_def)
          then show ?thesis by (simp add: n a')
        qed
      qed
    qed (simp add: new_wp_def abs_new_def a Cons free guardR_def)
  qed
qed

lemma find_NO_path:
  assumes "path pool p us" "length us \<le> n" "\<forall>i \<in> set us. wp_NO (pool ! i) = int i"
  shows "find_NO n pool p N = Inr (if N \<in> int ` set us then Some (nat N) else None)"
  using assms
proof (induction us arbitrary: n p)
  case Nil
  then show ?case by (cases n) auto
next
  case (Cons i us)
  then show ?case by (cases n) auto
qed

lemma delete_wp_refines:
  assumes "wps_rel s a"
  shows "\<exists>tmp. delete_wp N s = Inr (tmp, fst (abs_delete N a)) \<and>
     (if fst (abs_delete N a)
      then tmp = Some (nat N) \<and> (\<exists>s'. free_wp (nat N) s = Inr s' \<and> wps_rel s' (snd (abs_delete N a)))
      else tmp = None \<and> snd (abs_delete N a) = a)"
proof -
  obtain us fs ws where a: "a = (ws, fs)" and ok: "wps_ok s us fs" and ws: "ws = map (abs_entry s) us"
    using assms by (cases a) (auto simp: wps_rel_def)
  have "length us \<le> 32" using wps_ok_lengths[OF ok] by simp
  moreover have "\<forall>i \<in> set us. wp_NO (wp_pool s ! i) = int i" using ok by (auto simp: wps_ok_def)
  moreover have "path (wp_pool s) (wp_head s) us" using ok by (simp add: wps_ok_def)
  ultimately have del: "delete_wp N s = Inr (if N \<in> int ` set us then (Some (nat N), True) else (None, False))"
    by (simp add: delete_wp_def find_NO_path)
  have found: "(\<exists>(i, _) \<in> set ws. int i = N) \<longleftrightarrow> N \<in> int ` set us"
    by (auto simp: ws abs_entry_def)
  show ?thesis
  proof (cases "N \<in> int ` set us")
    case False
    then show ?thesis using found by (simp add: del abs_delete_def a)
  next
    case True
    then obtain w where w: "w \<in> set us" "N = int w" by auto
    then obtain as bs where us: "us = as @ w # bs" by (meson split_list)
    have wl: "w < 32" "w \<notin> set as" "w \<notin> set bs" "w \<notin> set fs" using ok w us by (auto simp: wps_ok_def)
    let ?new = "\<lambda>s1. node w (\<lambda>x. x\<lparr>wp_next := wp_free s1, wp_value := 0, wp_e := []\<rparr>) s1\<lparr>wp_free := Some w\<rparr>"
    have "\<exists>s1. free_wp w s = Inr (?new s1) \<and> path (wp_pool s1) (wp_head s1) (as @ bs) \<and>
       wp_free s1 = wp_free s \<and> length (wp_pool s1) = 32 \<and>
       (\<forall>i. wp_NO (wp_pool s1 ! i) = wp_NO (wp_pool s ! i) \<and> abs_entry s1 i = abs_entry s i) \<and>
       path (wp_pool s1) (wp_free s) fs"
    proof (cases as rule: rev_cases)
      case Nil
      then have h: "wp_head s = Some w" "path (wp_pool s) (wp_next (wp_pool s ! w)) bs"
        using ok us by (simp_all add: wps_ok_def)
      show ?thesis
        using h Nil ok by (intro exI[of _ "s\<lparr>wp_head := wp_next (wp_pool s ! w)\<rparr>"])
          (simp add: free_wp_def wps_ok_def abs_entry_def)
    next
      case (snoc as' a)
      obtain h where h: "wp_head s = Some h" "h \<noteq> w"
        using ok us wl(2) snoc by (cases as') (auto simp: wps_ok_def)
      have p: "path (wp_pool s) (Some h) (as' @ a # w # bs)" "distinct (as' @ a # w # bs)" "a < 32" "a \<notin> set fs"
        using ok us snoc h by (auto simp: wps_ok_def)
      have "length as' < 33" using wps_ok_lengths[OF ok] us snoc by simp
      then have "before_node 33 (wp_pool s) (Some h) w = Inr (Some a)"
        by (rule before_node_path[OF p(1,2)])
      moreover have "path (wp_pool s) (wp_next (wp_pool s ! w)) bs"
        using path_split[of "wp_pool s" "Some h" "as' @ [a]" w bs] p(1) by simp
      then have "path ((wp_pool s)[a := (wp_pool s ! a)\<lparr>wp_next := wp_next (wp_pool s ! w)\<rparr>]) (Some h) (as' @ a # bs)"
        using path_relink[OF p(1), of "(wp_pool s ! a)\<lparr>wp_next := wp_next (wp_pool s ! w)\<rparr>" bs] p ok
        by (simp add: path_update wps_ok_def)
      ultimately show ?thesis
        using h snoc p ok by (intro exI[of _ "node a (\<lambda>x. x\<lparr>wp_next := wp_next (wp_pool s ! w)\<rparr>) s"])
          (auto simp: free_wp_def wps_ok_def abs_entry_def node_def path_update nth_list_update)
    qed
    then obtain s1 where s1: "free_wp w s = Inr (?new s1)" "path (wp_pool s1) (wp_head s1) (as @ bs)"
      "wp_free s1 = wp_free s" "length (wp_pool s1) = 32" "path (wp_pool s1) (wp_free s) fs"
      "\<And>i. wp_NO (wp_pool s1 ! i) = wp_NO (wp_pool s ! i)" "\<And>i. abs_entry s1 i = abs_entry s i" by blast
    have "wps_ok (?new s1) (as @ bs) (w # fs)"
      using ok us wl s1 unfolding wps_ok_def by (auto simp: node_def path_update nth_list_update)
    moreover have "map (abs_entry (?new s1)) (as @ bs) = filter (\<lambda>(i, _). int i \<noteq> N) ws"
    proof -
      have keep: "abs_entry (?new s1) i = abs_entry s i" if "i \<noteq> w" for i
        using s1(7)[of i] that by (simp add: abs_entry_def node_def)
      have "filter (\<lambda>(i, _). int i \<noteq> N) (map (abs_entry s) xs) = map (abs_entry s) xs" if "w \<notin> set xs" for xs
        using that by (induction xs) (auto simp: abs_entry_def w(2))
      moreover have "map (abs_entry (?new s1)) xs = map (abs_entry s) xs" if "w \<notin> set xs" for xs
        using that keep by (induction xs) auto
      ultimately show ?thesis
        using wl by (simp add: ws us) (simp add: abs_entry_def w(2))
    qed
    ultimately have "wps_rel (?new s1) (filter (\<lambda>(i, _). int i \<noteq> N) ws, w # fs)"
      unfolding wps_rel_def by (intro exI[of _ "as @ bs"]) simp
    moreover have "delete_wp N s = Inr (Some w, True)" using del True w(2) by simp
    ultimately show ?thesis using True found s1(1) w(2) by (simp add: abs_delete_def a)
  qed
qed

text \<open>The nodes before \<open>us\<close> are done; the loop stands at \<open>us\<close>.\<close>

lemma check_loop_refines:
  assumes "wps_ok s (ds @ us) fs" "path (wp_pool s) p us" "length us \<le> n"
  shows "rel_sum (=) (\<lambda>(k, s', b1) (k', ws', b2). k = k' \<and> b1 = b2 \<and> wps_ok s' (ds @ us) fs \<and>
      map (abs_entry s') (ds @ us) = map (abs_entry s) ds @ ws')
    (check_wp_loop n c p check success s b) (abs_check c check success (map (abs_entry s) us) b)"
  using assms
proof (induction us arbitrary: ds n p check success s b)
  case Nil
  then show ?case by (cases n) auto
next
  case (Cons t us)
  obtain n' where n: "n = Suc n'" using Cons.prems(3) by (cases n) auto
  have p: "p = Some t" and rest: "path (wp_pool s) (wp_next (wp_pool s ! t)) us" using Cons.prems(2) by auto
  have t: "t < 32" "t < length (wp_pool s)" "t \<notin> set ds" "t \<notin> set us"
    using Cons.prems(1) wps_ok_lt[OF Cons.prems(1), of t] by (auto simp: wps_ok_def)
  let ?w = "wp_pool s ! t"
  show ?case
  proof (cases "expr (wp_e ?w) c success b")
    case (Inl err)
    then show ?thesis by (simp add: n p abs_entry_def)
  next
    case (Inr r1)
    obtain ans success1 b1 where r1: "r1 = (ans, success1, b1)" by (rule prod_cases3)
    define hit where "hit = (if ans \<noteq> wp_value ?w
        then bindR (expr ''$pc'' c success1 b1) (\<lambda>(pc, success2, b2). Inr (True, success2, b2))
        else Inr (check, success1, b1))"
    show ?thesis
    proof (cases hit)
      case (Inl err)
      then show ?thesis using Inr by (simp add: n p abs_entry_def r1 hit_def)
    next
      case hit: (Inr r2)
      obtain check1 success3 b3 where r2: "r2 = (check1, success3, b3)" by (rule prod_cases3)
      let ?s1 = "node t (\<lambda>w. w\<lparr>wp_value := ans\<rparr>) s"
      have ok1: "wps_ok ?s1 ((ds @ [t]) @ us) fs"
        using Cons.prems(1) t by (auto simp: wps_ok_def node_def path_update_same nth_list_update)
      have rest1: "path (wp_pool ?s1) (wp_next (wp_pool ?s1 ! t)) us" using rest t by (simp add: node_def path_update)
      have same: "map (abs_entry ?s1) xs = map (abs_entry s) xs" if "t \<notin> set xs" for xs
      proof -
        have "abs_entry ?s1 x = abs_entry s x" if "x \<noteq> t" for x using that by (simp add: abs_entry_def node_def)
        then show ?thesis using that by (induction xs) auto
      qed
      have new: "abs_entry ?s1 t = (t, wp_e ?w, ans)" using t by (simp add: abs_entry_def node_def)
      have loop: "check_wp_loop n c p check success s b =
          check_wp_loop n' c (wp_next (wp_pool ?s1 ! t)) check1 success3 ?s1 b3"
        using Inr hit by (simp add: n p r1 r2 hit_def Let_def)
      have spec: "abs_check c check success (map (abs_entry s) (t # us)) b =
          bindR (abs_check c check1 success3 (map (abs_entry ?s1) us) b3)
            (\<lambda>(check2, ws', b4). Inr (check2, (t, wp_e ?w, ans) # ws', b4))"
        unfolding same[OF t(4)] using Inr hit by (simp add: abs_entry_def[of s t] r1 r2 hit_def)
      show ?thesis
        unfolding loop spec
        using Cons.IH[OF ok1 rest1, of n' check1 success3 b3] Cons.prems(3) same[OF t(3)] new
        by (auto simp: n bindR_def rel_sum.simps split: sum.splits)
    qed
  qed
qed

lemma check_wp_refines:
  assumes "wps_rel s (ws, fs)"
  shows "rel_sum (=) (\<lambda>(k, s', b1) (k', ws', b2). k = k' \<and> b1 = b2 \<and> wps_rel s' (ws', fs))
    (check_wp c s b) (abs_check c False True ws b)"
proof -
  obtain us where ok: "wps_ok s us fs" and ws: "ws = map (abs_entry s) us"
    using assms by (auto simp: wps_rel_def)
  have "length us \<le> 32" using wps_ok_lengths[OF ok] by simp
  then show ?thesis
    using check_loop_refines[of s "[]" us fs "wp_head s" 32 c False True b] ok unfolding check_wp_def ws
    by (auto simp: wps_ok_def[of s] rel_sum.simps) (auto simp: wps_rel_def)
qed

lemma print_wp_refines:
  assumes "wps_rel s (ws, fs)"
  shows "print_wp s = Inr (map (\<lambda>(i, e, v). (int i, e, v)) ws)"
proof -
  have loop: "print_wp_loop n (wp_pool s) p = Inr (map (\<lambda>(i, e, v). (int i, e, v)) (map (abs_entry s) us))"
    if "path (wp_pool s) p us" "length us \<le> n" "\<forall>i \<in> set us. wp_NO (wp_pool s ! i) = int i" for us n p
    using that
  proof (induction us arbitrary: n p)
    case Nil
    then show ?case by (cases n) auto
  next
    case (Cons i us)
    then show ?case by (cases n) (auto simp: abs_entry_def)
  qed
  obtain us where ok: "wps_ok s us fs" and ws: "ws = map (abs_entry s) us"
    using assms by (auto simp: wps_rel_def)
  show ?thesis
    unfolding print_wp_def ws using wps_ok_lengths[OF ok] ok by (intro loop) (auto simp: wps_ok_def)
qed

section \<open>Runs of the debugger's commands\<close>

text \<open>
  The three places that change the pool, as sdb.c and cpu-exec.c use it: setting, deleting by
  number, and the check after an instruction. Registers and memory may change in between.
\<close>

datatype wp_cmd = WNew string | WDelete int | WCheck | WPrint
datatype wp_out = OSet nat | ODelete bool | OCheck bool | OPrint "(int \<times> string \<times> u32) list"

fun wp_step :: "cpu_state \<Rightarrow> bus \<Rightarrow> wp_cmd \<Rightarrow> wps \<Rightarrow> (wp_out \<times> wps \<times> bus) res" where
  "wp_step c b (WNew e) s = bindR (new_wp e c b s) (\<lambda>(i, s', b'). Inr (OSet i, s', b'))"
| "wp_step c b (WDelete N) s =
     bindR (delete_wp N s) (\<lambda>(tmp, search).
       if search then bindR (free_wp (the tmp) s) (\<lambda>s'. Inr (ODelete True, s', b)) else Inr (ODelete False, s, b))"
| "wp_step c b WCheck s = bindR (check_wp c s b) (\<lambda>(k, s', b'). Inr (OCheck k, s', b'))"
| "wp_step c b WPrint s = bindR (print_wp s) (\<lambda>ls. Inr (OPrint ls, s, b))"

fun abs_step :: "cpu_state \<Rightarrow> bus \<Rightarrow> wp_cmd \<Rightarrow> wp_abs \<Rightarrow> (wp_out \<times> wp_abs \<times> bus) res" where
  "abs_step c b (WNew e) a = bindR (abs_new e c b a) (\<lambda>(i, a', b'). Inr (OSet i, a', b'))"
| "abs_step c b (WDelete N) a = (case abs_delete N a of (k, a') \<Rightarrow> Inr (ODelete k, a', b))"
| "abs_step c b WCheck (ws, fs) = bindR (abs_check c False True ws b) (\<lambda>(k, ws', b'). Inr (OCheck k, (ws', fs), b'))"
| "abs_step c b WPrint (ws, fs) = Inr (OPrint (map (\<lambda>(i, e, v). (int i, e, v)) ws), (ws, fs), b)"

definition step_rel :: "wp_out \<times> wps \<times> bus \<Rightarrow> wp_out \<times> wp_abs \<times> bus \<Rightarrow> bool" where
  "step_rel = (\<lambda>(o1, s, b1) (o2, a, b2). o1 = o2 \<and> wps_rel s a \<and> b1 = b2)"

lemma wp_step_refines: "wps_rel s a \<Longrightarrow> rel_sum (=) step_rel (wp_step c b cmd s) (abs_step c b cmd a)"
proof (cases cmd)
  case (WNew e)
  assume "wps_rel s a"
  from new_wp_refines[OF this, of e c b] show ?thesis
    by (auto simp: WNew step_rel_def rel_sum.simps)
next
  case (WDelete N)
  assume "wps_rel s a"
  then show ?thesis
    using delete_wp_refines[of s a N] by (cases "abs_delete N a"; cases "fst (abs_delete N a)")
      (auto simp: WDelete step_rel_def)
next
  case WCheck
  assume "wps_rel s a"
  then show ?thesis
    using check_wp_refines[of s "fst a" "snd a" c b] by (cases a) (auto simp: WCheck step_rel_def rel_sum.simps)
next
  case WPrint
  assume "wps_rel s a"
  then show ?thesis
    using print_wp_refines[of s "fst a" "snd a"] by (cases a) (auto simp: WPrint step_rel_def)
qed

fun wp_run :: "(cpu_state \<times> bus \<times> wp_cmd) list \<Rightarrow> wps \<Rightarrow> (wp_out \<times> bus) list res" where
  "wp_run [] s = Inr []"
| "wp_run ((c, b, cmd) # cmds) s =
     bindR (wp_step c b cmd s) (\<lambda>(out, s', b'). bindR (wp_run cmds s') (\<lambda>outs. Inr ((out, b') # outs)))"

fun abs_run :: "(cpu_state \<times> bus \<times> wp_cmd) list \<Rightarrow> wp_abs \<Rightarrow> (wp_out \<times> bus) list res" where
  "abs_run [] a = Inr []"
| "abs_run ((c, b, cmd) # cmds) a =
     bindR (abs_step c b cmd a) (\<lambda>(out, a', b'). bindR (abs_run cmds a') (\<lambda>outs. Inr ((out, b') # outs)))"

lemma wp_run_refines: "wps_rel s a \<Longrightarrow> wp_run cmds s = abs_run cmds a"
proof (induction cmds arbitrary: s a)
  case (Cons x cmds)
  obtain c b cmd where x: "x = (c, b, cmd)" by (rule prod_cases3)
  from wp_step_refines[OF Cons.prems, of c b cmd] Cons.IH show ?case
    by (auto simp: x rel_sum.simps step_rel_def)
qed simp

text \<open>
  C5. The watchpoint pool behaves as a list of watchpoints with 32 numbers. For every
  sequence of set, delete, check and list commands from the initial pool, with any machine
  state at each, the linked lists in the array give exactly the results of the abstract pool:
  watchpoints are checked and listed in the order they were set, a new one takes the number freed
  last (0 to 31 at first), deleting removes just the one with that number, a hit is reported
  exactly when some value changed, and the only failures are a full pool, an illegal expression,
  one longer than 31 characters, or a failing evaluation. No walk is endless, no null pointer is
  followed.
\<close>

theorem watchpoints_refine_list: "wp_run cmds init_wp_pool = abs_run cmds ([], [0..<32])"
  by (rule wp_run_refines[OF wps_rel_init])

end
