(* ===== verification/Difftest.thy ===== *)
theory Difftest
  imports Riscv32
begin

text \<open>
  Differential testing, \<open>nemu/src/cpu/difftest/dut.c\<close>. The reference is a shared object loaded at
  run time: its four functions are a record of functions over a state of their own. The theorem
  here says what one step of the comparison does; \<open>CpuProps\<close> instantiates the reference with the
  interpreter itself (\<open>ref.c\<close>).
\<close>

record 'r diff_ref =
  ref_memcpy :: "u32 \<Rightarrow> u8 list \<Rightarrow> 'r \<Rightarrow> 'r res"
  ref_get :: "'r \<Rightarrow> cpu_state"
  ref_put :: "cpu_state \<Rightarrow> 'r \<Rightarrow> 'r"
  ref_exec :: "u64 \<Rightarrow> 'r \<Rightarrow> 'r res"
  ref_raise_intr :: "u32 \<Rightarrow> 'r \<Rightarrow> 'r res"
  ref_init :: "int \<Rightarrow> 'r \<Rightarrow> 'r res"

text \<open>\<open>skip_dut_nr_inst\<close> and \<open>is_skip_ref\<close> are fields of the bus, where the devices set them.\<close>

definition difftest_skip_dut :: "'r diff_ref \<Rightarrow> int \<Rightarrow> int \<Rightarrow> bus \<Rightarrow> 'r \<Rightarrow> (bus \<times> 'r) res" where
  "difftest_skip_dut R nr_ref nr_dut b r =
     bindR (forR (\<lambda>_. ref_exec R 1) [0..<nat nr_ref] r) (\<lambda>r'.
       Inr (b\<lparr>skip_dut_nr_inst := skip_dut_nr_inst b + nr_dut\<rparr>, r'))"

definition init_difftest :: "'r diff_ref \<Rightarrow> int \<Rightarrow> int \<Rightarrow> machine \<Rightarrow> 'r \<Rightarrow> 'r res" where
  "init_difftest R img_size port m r =
     bindR (ref_init R port r) (\<lambda>r1.
     guardR (guest_to_host RESET_VECTOR + img_size \<le> int CONFIG_MSIZE) (Undef ''memcpy past pmem'')
       (bindR (ref_memcpy R RESET_VECTOR (load_bytes (pmem (mbus m)) (nat (guest_to_host RESET_VECTOR)) (nat img_size)) r1)
         (\<lambda>r2. Inr (ref_put R (cpu m) r2))))"

definition checkregs :: "cpu_state \<Rightarrow> u32 \<Rightarrow> machine \<Rightarrow> machine" where
  "checkregs ref_r pc m =
     (if \<not> isa_difftest_checkregs ref_r (cpu m)
      then m\<lparr>mbus := (mbus m)\<lparr>nemu_state := (nemu_state (mbus m))\<lparr>st_state := NEMU_ABORT, halt_pc := pc\<rparr>\<rparr>\<rparr>
      else m)"

definition difftest_step :: "'r diff_ref \<Rightarrow> u32 \<Rightarrow> u32 \<Rightarrow> machine \<Rightarrow> 'r \<Rightarrow> (machine \<times> 'r) res" where
  "difftest_step R pc npc m r =
     (let b = mbus m
      in if skip_dut_nr_inst b > 0 then
           (let ref_r = ref_get R r
            in if cpu_pc ref_r = npc then
                 Inr (checkregs ref_r npc (m\<lparr>mbus := b\<lparr>skip_dut_nr_inst := 0\<rparr>\<rparr>), r)
               else
                 (let n = skip_dut_nr_inst b - 1
                  in guardR (n \<noteq> 0) (Panic ''can not catch up with ref.pc'')
                       (Inr (m\<lparr>mbus := b\<lparr>skip_dut_nr_inst := n\<rparr>\<rparr>, r))))
         else if is_skip_ref b then Inr (m\<lparr>mbus := b\<lparr>is_skip_ref := False\<rparr>\<rparr>, ref_put R (cpu m) r)
         else bindR (ref_exec R 1 r) (\<lambda>r'. Inr (checkregs (ref_get R r') pc m, r')))"

section \<open>What a step reports\<close>

lemma checkregs_state:
  "cpu (checkregs ref_r pc m) = cpu m"
  "isa_difftest_checkregs ref_r (cpu m) \<Longrightarrow> checkregs ref_r pc m = m"
  "\<not> isa_difftest_checkregs ref_r (cpu m) \<Longrightarrow>
     st_state (nemu_state (mbus (checkregs ref_r pc m))) = NEMU_ABORT \<and> halt_pc (nemu_state (mbus (checkregs ref_r pc m))) = pc"
  by (simp_all add: checkregs_def)

lemma checkregs_iff:
  assumes "length (gpr a) = 32" "length (gpr c) = 32"
  shows "isa_difftest_checkregs a c \<longleftrightarrow> gpr a = gpr c \<and> cpu_pc a = cpu_pc c"
  using assms by (auto simp: isa_difftest_checkregs_def list_all_iff list_eq_iff_nth_eq)

text \<open>
  One step of differential testing. When nothing is being skipped the reference runs one
  instruction; the machine is stopped with NEMU_ABORT at this pc exactly when a general register or
  the pc then differs, and otherwise nothing changes. When the instruction was marked as one the
  reference cannot run, no comparison is made and the reference takes over all registers of the
  machine, so the next step compares again.
\<close>

theorem difftest_step_detects:
  assumes "skip_dut_nr_inst (mbus m) \<le> 0" "length (gpr (cpu m)) = 32"
  shows "if is_skip_ref (mbus m)
     then difftest_step R pc npc m r = Inr (m\<lparr>mbus := (mbus m)\<lparr>is_skip_ref := False\<rparr>\<rparr>, ref_put R (cpu m) r)
     else (\<forall>r'. ref_exec R 1 r = Inr r' \<longrightarrow> length (gpr (ref_get R r')) = 32 \<longrightarrow>
       (\<exists>m'. difftest_step R pc npc m r = Inr (m', r') \<and>
         (if gpr (ref_get R r') = gpr (cpu m) \<and> cpu_pc (ref_get R r') = cpu_pc (cpu m) then m' = m
          else st_state (nemu_state (mbus m')) = NEMU_ABORT \<and> halt_pc (nemu_state (mbus m')) = pc \<and> cpu m' = cpu m)))"
  using assms by (auto simp: difftest_step_def checkregs_iff checkregs_state)

theorem difftest_step_detects_witness:
  "\<exists>m' r'. difftest_step \<lparr>ref_memcpy = \<lambda>_ _ r. Inr r, ref_get = id, ref_put = \<lambda>c _. c,
       ref_exec = \<lambda>_ c. Inr (c\<lparr>cpu_pc := cpu_pc c + 4\<rparr>), ref_raise_intr = \<lambda>_ r. Inr r, ref_init = \<lambda>_ r. Inr r\<rparr>
     0x80000000 0x80000008
     \<lparr>cpu = \<lparr>gpr = replicate 32 0, cpu_pc = 0x80000008, csr = replicate 4 0\<rparr>, mbus = static_bus full_conf (\<lambda>_. 0) of_nat\<rparr>
     \<lparr>gpr = replicate 32 0, cpu_pc = 0x80000000, csr = replicate 4 0\<rparr> = Inr (m', r') \<and>
   st_state (nemu_state (mbus m')) = NEMU_ABORT"
  (is "\<exists>m' r'. difftest_step ?R _ _ ?m ?r = _ \<and> _")
proof -
  have "skip_dut_nr_inst (mbus ?m) \<le> 0" "length (gpr (cpu ?m)) = 32" by (simp_all add: static_bus_def)
  from difftest_step_detects[OF this, of ?R "0x80000000" "0x80000008" ?r]
  show ?thesis by (auto simp: static_bus_def)
qed

end
