(* ===== verification/CpuExec.thy ===== *)
theory CpuExec
  imports RingBuf Watchpoint Difftest
begin

text \<open>
  The CPU loop, \<open>nemu/src/cpu/cpu-exec.c\<close>: fetching and executing instructions, the instruction
  trace, differential testing and watchpoints after each, the run state around it, the statistics
  and the message of a failing assertion.
\<close>

section \<open>State\<close>

text \<open>The pointer \<open>rb\<close>: no buffer yet, a live one, or one that was given back.\<close>

datatype rb_ptr = RbNull | RbLive ringbuf | RbFreed

datatype trap_msg = MsgAbort | MsgGoodTrap | MsgBadTrap

record 'r emu =
  mach :: machine
  rb :: rb_ptr
  g_nr_guest_inst :: u64
  g_timer :: u64
  g_print_step :: bool
  em_wps :: wps
  ref_state :: 'r
  stepped :: "(u32 \<times> u32) list"
  trap_log :: "(trap_msg \<times> u32) list"
  stat_log :: "(u64 \<times> u64 \<times> u64 option) list"

text \<open>
  What the build and the host fix: the trace and the watchpoints can be configured out, malloc may
  fail, and the reference is loaded.
\<close>

record 'r env =
  cfg_iringbuf :: bool
  cfg_watchpoint :: bool
  cfg_itrace :: bool
  malloc_hdr :: bool
  malloc_blk :: "u32 \<Rightarrow> u8 list option"
  diff :: "'r diff_ref"

definition run_state :: "'r emu \<Rightarrow> nemu_run" where
  "run_state e = st_state (nemu_state (mbus (mach e)))"

definition set_run_state :: "nemu_run \<Rightarrow> 'r emu \<Rightarrow> 'r emu" where
  "set_run_state st e = e\<lparr>mach := (mach e)\<lparr>mbus := (mbus (mach e))\<lparr>nemu_state := (nemu_state (mbus (mach e)))\<lparr>st_state := st\<rparr>\<rparr>\<rparr>\<rparr>"

section \<open>After an instruction\<close>

definition watch_step :: "'r emu \<Rightarrow> 'r emu res" where
  "watch_step e =
     bindR (check_wp (cpu (mach e)) (em_wps e) (mbus (mach e))) (\<lambda>(hit, w, b).
       let e1 = e\<lparr>em_wps := w, mach := (mach e)\<lparr>mbus := b\<rparr>\<rparr>
       in Inr (if hit \<and> run_state e1 = NEMU_RUNNING then set_run_state NEMU_STOP e1 else e1))"

text \<open>A printed step shows the pc and the word.\<close>

definition trace_and_difftest :: "'r env \<Rightarrow> decode \<Rightarrow> u32 \<Rightarrow> 'r emu \<Rightarrow> 'r emu res" where
  "trace_and_difftest v s dnpc e =
     (let e1 = (if g_print_step e \<and> cfg_itrace v then e\<lparr>stepped := stepped e @ [(s_pc s, s_inst s)]\<rparr> else e)
      in bindR (if cfg_difftest (conf (mbus (mach e1)))
                then bindR (difftest_step (diff v) (s_pc s) dnpc (mach e1) (ref_state e1)) (\<lambda>(m, r).
                       Inr (e1\<lparr>mach := m, ref_state := r\<rparr>))
                else Inr e1) (\<lambda>e2.
           if cfg_watchpoint v then watch_step e2 else Inr e2))"

definition rb_log :: "'r env \<Rightarrow> u32 \<Rightarrow> 'r emu \<Rightarrow> 'r emu res" where
  "rb_log v inst e =
     (if \<not> cfg_iringbuf v then Inr e
      else case rb e of
             RbNull \<Rightarrow> Inr e
           | RbLive f \<Rightarrow> bindR (iringbuf_log inst f) (\<lambda>f'. Inr (e\<lparr>rb := RbLive f'\<rparr>))
           | RbFreed \<Rightarrow> Inl (Undef ''use of the freed ring buffer''))"

text \<open>\<open>Decode s\<close> is uninitialised in \<open>execute\<close>; every field is written before it is read.\<close>

definition exec_once :: "'r env \<Rightarrow> u32 \<Rightarrow> 'r emu \<Rightarrow> (decode \<times> 'r emu) res" where
  "exec_once v pc e =
     bindR (isa_exec_once \<lparr>s_pc = pc, s_snpc = pc, s_dnpc = 0, s_inst = 0\<rparr> (mach e)) (\<lambda>(s, m).
       bindR (rb_log v (s_inst s) (e\<lparr>mach := m\<lparr>cpu := (cpu m)\<lparr>cpu_pc := s_dnpc s\<rparr>\<rparr>\<rparr>)) (\<lambda>e'. Inr (s, e')))"

section \<open>The loop\<close>

definition device_step :: "'r emu \<Rightarrow> 'r emu res" where
  "device_step e =
     (if cfg_device (conf (mbus (mach e)))
      then bindR (device_update (mbus (mach e))) (\<lambda>b. Inr (e\<lparr>mach := (mach e)\<lparr>mbus := b\<rparr>\<rparr>)) else Inr e)"

definition loop_body :: "'r env \<Rightarrow> 'r emu \<Rightarrow> 'r emu res" where
  "loop_body v e =
     bindR (exec_once v (cpu_pc (cpu (mach e))) e) (\<lambda>(s, e1).
       trace_and_difftest v s (cpu_pc (cpu (mach e1))) (e1\<lparr>g_nr_guest_inst := g_nr_guest_inst e1 + 1\<rparr>))"

fun execute_loop :: "'r env \<Rightarrow> nat \<Rightarrow> 'r emu \<Rightarrow> 'r emu res" where
  "execute_loop v 0 e = Inr e"
| "execute_loop v (Suc n) e =
     bindR (loop_body v e) (\<lambda>e1.
       if run_state e1 \<noteq> NEMU_RUNNING then Inr e1
       else bindR (device_step e1) (execute_loop v n))"

text \<open>The first call allocates the trace; without memory the size of NULL is read.\<close>

definition rb_create :: "'r env \<Rightarrow> 'r emu \<Rightarrow> 'r emu res" where
  "rb_create v e =
     (if cfg_iringbuf v \<and> rb e = RbNull
      then case snd (RingBuffer_Malloc (malloc_hdr v) (malloc_blk v) IRINGBUF_SIZE) of
             Some f \<Rightarrow> Inr (e\<lparr>rb := RbLive f\<rparr>)
           | None \<Rightarrow> Inl (Undef ''RingBuffer_Size of NULL'')
      else Inr e)"

definition execute :: "'r env \<Rightarrow> u64 \<Rightarrow> 'r emu \<Rightarrow> 'r emu res" where
  "execute v n e = bindR (rb_create v e) (execute_loop v (unat n))"

definition statistic :: "'r env \<Rightarrow> 'r emu \<Rightarrow> 'r emu res" where
  "statistic v e =
     (let log = (g_timer e, g_nr_guest_inst e,
           if g_timer e > 0 then Some (g_nr_guest_inst e * 1000000 div g_timer e) else None);
          e' = e\<lparr>stat_log := stat_log e @ [log]\<rparr>
      in if \<not> cfg_iringbuf v \<or> rb e = RbNull then Inr e'
         else if rb e = RbFreed then Inl (Undef ''free of the freed ring buffer'')
         else Inr (e'\<lparr>rb := RbFreed\<rparr>))"

definition assert_fail_msg :: "'r env \<Rightarrow> 'r emu \<Rightarrow> (u32 list \<times> 'r emu) res" where
  "assert_fail_msg v e =
     bindR (case rb e of
              RbLive f \<Rightarrow> if cfg_iringbuf v
                then bindR (assert_fail_trace f) (\<lambda>(ws, f'). Inr (ws, e\<lparr>rb := RbLive f'\<rparr>)) else Inr ([], e)
            | RbNull \<Rightarrow> Inr ([], e)
            | RbFreed \<Rightarrow> if cfg_iringbuf v then Inl (Undef ''use of the freed ring buffer'') else Inr ([], e))
       (\<lambda>(ws, e1). bindR (statistic v e1) (\<lambda>e2. Inr (ws, e2)))"

definition emu_time :: "'r emu \<Rightarrow> u64 \<times> 'r emu" where
  "emu_time e = (case get_time (mbus (mach e)) of (t, b) \<Rightarrow> (t, e\<lparr>mach := (mach e)\<lparr>mbus := b\<rparr>\<rparr>))"

abbreviation (input) MAX_INST_TO_PRINT :: u64 where "MAX_INST_TO_PRINT \<equiv> 10"

text \<open>The switch after the loop.\<close>

definition cpu_exec_end :: "'r env \<Rightarrow> 'r emu \<Rightarrow> 'r emu res" where
  "cpu_exec_end v e =
     (case run_state e of
        NEMU_RUNNING \<Rightarrow> Inr (set_run_state NEMU_STOP e)
      | NEMU_STOP \<Rightarrow> Inr e
      | NEMU_QUIT \<Rightarrow> statistic v e
      | st \<Rightarrow>
          (let msg = (if st = NEMU_ABORT then MsgAbort
                      else if halt_ret (nemu_state (mbus (mach e))) = 0 then MsgGoodTrap else MsgBadTrap)
           in statistic v (e\<lparr>trap_log := trap_log e @ [(msg, halt_pc (nemu_state (mbus (mach e))))]\<rparr>)))"

definition cpu_exec :: "'r env \<Rightarrow> u64 \<Rightarrow> 'r emu \<Rightarrow> 'r emu res" where
  "cpu_exec v n e0 =
     (let e = e0\<lparr>g_print_step := n < MAX_INST_TO_PRINT\<rparr>
      in if run_state e = NEMU_END \<or> run_state e = NEMU_ABORT then Inr e
         else (case emu_time (set_run_state NEMU_RUNNING e) of (timer_start, e1) \<Rightarrow>
           bindR (execute v n e1) (\<lambda>e2.
           (case emu_time e2 of (timer_end, e3) \<Rightarrow>
              cpu_exec_end v (e3\<lparr>g_timer := g_timer e3 + (timer_end - timer_start)\<rparr>)))))"

end
