(* ===== verification/RvEncode.thy ===== *)
theory RvEncode
  imports Riscv32
begin

text \<open>
  The instructions of the RISC-V specification that the interpreter knows, with their encodings
  in the formats of the specification, and the proof that the INSTPAT table and the operand
  macros of inst.c decode every one of them.
\<close>

section \<open>Instructions and formats of the specification\<close>

datatype rv_alu = A_ADD | A_SUB | A_SLL | A_SLT | A_SLTU | A_XOR | A_SRL | A_SRA | A_OR | A_AND
  | A_MUL | A_MULH | A_MULHU | A_DIV | A_DIVU | A_REM | A_REMU

datatype rv_alui = I_ADDI | I_SLTI | I_SLTIU | I_XORI | I_ORI | I_ANDI
datatype rv_shifti = S_SLLI | S_SRLI | S_SRAI
datatype rv_load = L_LB | L_LH | L_LW | L_LBU | L_LHU
datatype rv_store = St_SB | St_SH | St_SW
datatype rv_branch = B_EQ | B_NE | B_LT | B_GE | B_LTU | B_GEU
datatype rv_csr = C_RW | C_RS

type_synonym reg = "5 word"

datatype rv_instr =
    RLui reg "20 word"
  | RAuipc reg "20 word"
  | RJal reg "20 word"
  | RJalr reg reg "12 word"
  | RBranch rv_branch reg reg "12 word"
  | RLoad rv_load reg reg "12 word"
  | RStore rv_store reg reg "12 word"
  | RAluI rv_alui reg reg "12 word"
  | RShiftI rv_shifti reg reg "5 word"
  | RAlu rv_alu reg reg reg
  | RCsr rv_csr reg "12 word" reg
  | REcall
  | REbreak
  | RMret

text \<open>The three ways the fields are laid out; immediates that are split are in the field arguments.\<close>

definition enc_R :: "7 word \<Rightarrow> 5 word \<Rightarrow> 5 word \<Rightarrow> 3 word \<Rightarrow> 5 word \<Rightarrow> 7 word \<Rightarrow> u32" where
  "enc_R f7 rs2 rs1 f3 rd opc =
     push_bit 25 (ucast f7) OR push_bit 20 (ucast rs2) OR push_bit 15 (ucast rs1) OR push_bit 12 (ucast f3) OR
     push_bit 7 (ucast rd) OR ucast opc"

definition enc_I :: "12 word \<Rightarrow> 5 word \<Rightarrow> 3 word \<Rightarrow> 5 word \<Rightarrow> 7 word \<Rightarrow> u32" where
  "enc_I imm rs1 f3 rd opc =
     push_bit 20 (ucast imm) OR push_bit 15 (ucast rs1) OR push_bit 12 (ucast f3) OR push_bit 7 (ucast rd) OR ucast opc"

definition enc_U :: "20 word \<Rightarrow> 5 word \<Rightarrow> 7 word \<Rightarrow> u32" where
  "enc_U imm rd opc = push_bit 12 (ucast imm) OR push_bit 7 (ucast rd) OR ucast opc"

text \<open>S, B and J immediates: B and J hold the offset divided by two.\<close>

definition enc_S :: "12 word \<Rightarrow> 5 word \<Rightarrow> 5 word \<Rightarrow> 3 word \<Rightarrow> 7 word \<Rightarrow> u32" where
  "enc_S imm rs2 rs1 f3 opc = enc_R (ucast (drop_bit 5 imm)) rs2 rs1 f3 (ucast imm) opc"

definition enc_B :: "12 word \<Rightarrow> 5 word \<Rightarrow> 5 word \<Rightarrow> 3 word \<Rightarrow> 7 word \<Rightarrow> u32" where
  "enc_B imm rs2 rs1 f3 opc =
     enc_R (push_bit 6 (ucast (drop_bit 11 imm)) OR take_bit 6 (ucast (drop_bit 4 imm))) rs2 rs1 f3
       (push_bit 1 (take_bit 4 (ucast imm)) OR take_bit 1 (ucast (drop_bit 10 imm))) opc"

definition enc_J :: "20 word \<Rightarrow> 5 word \<Rightarrow> 7 word \<Rightarrow> u32" where
  "enc_J imm rd opc =
     enc_U (push_bit 19 (drop_bit 19 imm) OR push_bit 9 (take_bit 10 imm) OR
            push_bit 8 (take_bit 1 (drop_bit 10 imm)) OR take_bit 8 (drop_bit 11 imm)) rd opc"

fun alu_fields :: "rv_alu \<Rightarrow> 7 word \<times> 3 word" where
  "alu_fields A_ADD = (0, 0)" | "alu_fields A_SUB = (0x20, 0)" | "alu_fields A_SLL = (0, 1)"
| "alu_fields A_SLT = (0, 2)" | "alu_fields A_SLTU = (0, 3)" | "alu_fields A_XOR = (0, 4)"
| "alu_fields A_SRL = (0, 5)" | "alu_fields A_SRA = (0x20, 5)" | "alu_fields A_OR = (0, 6)"
| "alu_fields A_AND = (0, 7)" | "alu_fields A_MUL = (1, 0)" | "alu_fields A_MULH = (1, 1)"
| "alu_fields A_MULHU = (1, 3)" | "alu_fields A_DIV = (1, 4)" | "alu_fields A_DIVU = (1, 5)"
| "alu_fields A_REM = (1, 6)" | "alu_fields A_REMU = (1, 7)"

fun alui_f3 :: "rv_alui \<Rightarrow> 3 word" where
  "alui_f3 I_ADDI = 0" | "alui_f3 I_SLTI = 2" | "alui_f3 I_SLTIU = 3" | "alui_f3 I_XORI = 4"
| "alui_f3 I_ORI = 6" | "alui_f3 I_ANDI = 7"

fun shifti_fields :: "rv_shifti \<Rightarrow> 7 word \<times> 3 word" where
  "shifti_fields S_SLLI = (0, 1)" | "shifti_fields S_SRLI = (0, 5)" | "shifti_fields S_SRAI = (0x20, 5)"

fun load_f3 :: "rv_load \<Rightarrow> 3 word" where
  "load_f3 L_LB = 0" | "load_f3 L_LH = 1" | "load_f3 L_LW = 2" | "load_f3 L_LBU = 4" | "load_f3 L_LHU = 5"

fun store_f3 :: "rv_store \<Rightarrow> 3 word" where
  "store_f3 St_SB = 0" | "store_f3 St_SH = 1" | "store_f3 St_SW = 2"

fun branch_f3 :: "rv_branch \<Rightarrow> 3 word" where
  "branch_f3 B_EQ = 0" | "branch_f3 B_NE = 1" | "branch_f3 B_LT = 4" | "branch_f3 B_GE = 5"
| "branch_f3 B_LTU = 6" | "branch_f3 B_GEU = 7"

fun csr_f3 :: "rv_csr \<Rightarrow> 3 word" where
  "csr_f3 C_RW = 1" | "csr_f3 C_RS = 2"

fun rv_encode :: "rv_instr \<Rightarrow> u32" where
  "rv_encode (RLui rd imm) = enc_U imm rd 0x37"
| "rv_encode (RAuipc rd imm) = enc_U imm rd 0x17"
| "rv_encode (RJal rd imm) = enc_J imm rd 0x6f"
| "rv_encode (RJalr rd rs1 imm) = enc_I imm rs1 0 rd 0x67"
| "rv_encode (RBranch c rs1 rs2 imm) = enc_B imm rs2 rs1 (branch_f3 c) 0x63"
| "rv_encode (RLoad l rd rs1 imm) = enc_I imm rs1 (load_f3 l) rd 0x03"
| "rv_encode (RStore st rs2 rs1 imm) = enc_S imm rs2 rs1 (store_f3 st) 0x23"
| "rv_encode (RAluI a rd rs1 imm) = enc_I imm rs1 (alui_f3 a) rd 0x13"
| "rv_encode (RShiftI sh rd rs1 n) =
     (case shifti_fields sh of (f7, f3) \<Rightarrow> enc_R f7 n rs1 f3 rd 0x13)"
| "rv_encode (RAlu a rd rs1 rs2) = (case alu_fields a of (f7, f3) \<Rightarrow> enc_R f7 rs2 rs1 f3 rd 0x33)"
| "rv_encode (RCsr c rd i rs1) = enc_I i rs1 (csr_f3 c) rd 0x73"
| "rv_encode REcall = 0x00000073"
| "rv_encode REbreak = 0x00100073"
| "rv_encode RMret = 0x30200073"

section \<open>The operand macros\<close>

lemma bit_enc_R:
  "bit (enc_R f7 rs2 rs1 f3 rd opc) j \<longleftrightarrow>
     (if j < 7 then bit opc j else if j < 12 then bit rd (j - 7) else if j < 15 then bit f3 (j - 12)
      else if j < 20 then bit rs1 (j - 15) else if j < 25 then bit rs2 (j - 20) else j < 32 \<and> bit f7 (j - 25))"
  by (auto simp: enc_R_def bit_simps dest: bit_imp_le_length)

lemma bit_enc_I:
  "bit (enc_I imm rs1 f3 rd opc) j \<longleftrightarrow>
     (if j < 7 then bit opc j else if j < 12 then bit rd (j - 7) else if j < 15 then bit f3 (j - 12)
      else if j < 20 then bit rs1 (j - 15) else j < 32 \<and> bit imm (j - 20))"
  by (auto simp: enc_I_def bit_simps dest: bit_imp_le_length)

lemma bit_enc_U:
  "bit (enc_U imm rd opc) j \<longleftrightarrow>
     (if j < 7 then bit opc j else if j < 12 then bit rd (j - 7) else j < 32 \<and> bit imm (j - 12))"
  by (auto simp: enc_U_def bit_simps dest: bit_imp_le_length)

lemma unat_field: "(\<And>j. bit (w :: u64) j \<longleftrightarrow> bit (v :: 5 word) j) \<Longrightarrow> unat w = unat v"
proof -
  assume eq: "\<And>j. bit w j \<longleftrightarrow> bit v j"
  have "unat w = unat (ucast v :: u64)"
    by (rule arg_cong[where f = unat], rule bit_word_eqI) (simp add: eq bit_simps)
  moreover have "unat v < 2 ^ 64" using unsigned_less[of v, where ?'a = nat] by simp
  then have "unat (ucast v :: u64) = unat v" by (simp add: unsigned_ucast_eq take_bit_nat_eq_self)
  ultimately show ?thesis by simp
qed

lemma fields_enc_R:
  "unat (BITS (enc_R f7 rs2 rs1 f3 rd opc) 19 15) = unat rs1"
  "unat (BITS (enc_R f7 rs2 rs1 f3 rd opc) 24 20) = unat rs2"
  "unat (BITS (enc_R f7 rs2 rs1 f3 rd opc) 11 7) = unat rd"
  by (rule unat_field; auto simp: bit_BITS bit_enc_R dest: bit_imp_le_length)+

lemma fields_enc_I:
  "unat (BITS (enc_I imm rs1 f3 rd opc) 19 15) = unat rs1"
  "unat (BITS (enc_I imm rs1 f3 rd opc) 11 7) = unat rd"
  by (rule unat_field; auto simp: bit_BITS bit_enc_I dest: bit_imp_le_length)+

lemma fields_enc_U: "unat (BITS (enc_U imm rd opc) 11 7) = unat rd"
  by (rule unat_field; auto simp: bit_BITS bit_enc_U dest: bit_imp_le_length)

lemma immI_enc: "immI (enc_I imm rs1 f3 rd opc) = scast imm"
  by (rule bit_word_eqI) (auto simp: immI_def bit_simps bit_SEXT bit_BITS bit_enc_I min_def)

lemma immU_enc: "immU (enc_U imm rd opc) = push_bit 12 (ucast imm)"
  by (rule bit_word_eqI) (auto simp: immU_def bit_simps bit_SEXT bit_BITS bit_enc_U min.absorb2 dest: bit_imp_le_length)

lemma immS_enc: "immS (enc_S imm rs2 rs1 f3 opc) = scast imm"
  by (rule bit_word_eqI) (auto simp: immS_def enc_S_def bit_simps bit_SEXT bit_BITS bit_enc_R min_def dest: bit_imp_le_length)

lemma upt_32: "[0..<32] = [0,1,2,3,4,5,6,7,8,9,10,11,12,13,14,15,16,17,18,19,20,21,22,23,24,25,26,27,28,29,30,31]"
  by code_simp

lemma below_32: "(n::nat) < 32 \<Longrightarrow> n \<in> set [0,1,2,3,4,5,6,7,8,9,10,11,12,13,14,15,16,17,18,19,20,21,22,23,24,25,26,27,28,29,30,31]"
  unfolding upt_32[symmetric] by simp

lemma immB_enc: "immB (enc_B imm rs2 rs1 f3 opc) = 2 * scast imm"
proof -
  have "immB (enc_B imm rs2 rs1 f3 opc) = push_bit 1 (scast imm)"
  proof (rule bit_word_eqI)
    fix n assume "n < LENGTH(32)"
    then have "n \<in> set [0,1,2,3,4,5,6,7,8,9,10,11,12,13,14,15,16,17,18,19,20,21,22,23,24,25,26,27,28,29,30,31]"
      by (intro below_32) simp
    then show "bit (immB (enc_B imm rs2 rs1 f3 opc)) n \<longleftrightarrow> bit (push_bit 1 (scast imm) :: u32) n"
      unfolding immB_def enc_B_def bit_or_iff bit_push_bit_iff bit_unsigned_iff bit_signed_iff bit_word_ucast_iff bit_SEXT
      bit_BITS bit_enc_R bit_take_bit_iff bit_drop_bit_eq comp_def
      by (simp only: list.set insert_iff empty_iff, elim disjE) simp_all
  qed
  then show ?thesis by simp
qed

lemma immJ_enc: "immJ (enc_J imm rd opc) = 2 * scast imm"
proof -
  have "immJ (enc_J imm rd opc) = push_bit 1 (scast imm)"
  proof (rule bit_word_eqI)
    fix n assume "n < LENGTH(32)"
    then have "n \<in> set [0,1,2,3,4,5,6,7,8,9,10,11,12,13,14,15,16,17,18,19,20,21,22,23,24,25,26,27,28,29,30,31]"
      by (intro below_32) simp
    then show "bit (immJ (enc_J imm rd opc)) n \<longleftrightarrow> bit (push_bit 1 (scast imm) :: u32) n"
      unfolding immJ_def enc_J_def bit_or_iff bit_push_bit_iff bit_unsigned_iff bit_signed_iff bit_word_ucast_iff bit_SEXT
      bit_BITS bit_enc_U bit_take_bit_iff bit_drop_bit_eq comp_def
      by (simp only: list.set insert_iff empty_iff, elim disjE) simp_all
  qed
  then show ?thesis by simp
qed

section \<open>The table decodes every instruction\<close>

text \<open>Two patterns conflict when some position wants 0 in one and 1 in the other.\<close>

definition pat_bits :: "string \<Rightarrow> bool option list" where
  "pat_bits p = map (\<lambda>c. if c = CHR ''?'' then None else Some (c = CHR ''1'')) (pat_chars p)"

fun bits_conflict :: "bool option list \<Rightarrow> bool option list \<Rightarrow> bool" where
  "bits_conflict [] q \<longleftrightarrow> False"
| "bits_conflict (a # p) [] \<longleftrightarrow> False"
| "bits_conflict (None # p) (b # q) \<longleftrightarrow> bits_conflict p q"
| "bits_conflict (Some a # p) (None # q) \<longleftrightarrow> bits_conflict p q"
| "bits_conflict (Some a # p) (Some b # q) \<longleftrightarrow> (if a \<noteq> b then True else bits_conflict p q)"

fun pairwise_conflict :: "bool option list list \<Rightarrow> bool" where
  "pairwise_conflict [] \<longleftrightarrow> True"
| "pairwise_conflict (p # ps) \<longleftrightarrow> list_all (bits_conflict p) ps \<and> pairwise_conflict ps"

definition bits_match :: "bool option list \<Rightarrow> u32 \<Rightarrow> bool" where
  "bits_match bs w \<longleftrightarrow> (\<forall>j < length bs. bs ! j = None \<or> bs ! j = Some (bit w j))"

lemma pat_matches_bits: "pat_matches p w \<longleftrightarrow> bits_match (pat_bits p) w"
  by (auto simp: pat_matches_def bits_match_def pat_bits_def)

lemma bits_conflictE:
  "bits_conflict p q \<Longrightarrow> \<exists>n b. n < length p \<and> n < length q \<and> p ! n = Some b \<and> q ! n = Some (\<not> b)"
proof (induction p q rule: bits_conflict.induct)
  case (5 a p b q)
  then show ?case
  proof (cases "a = b")
    case True
    with 5 obtain n c where "n < length p" "n < length q" "p ! n = Some c" "q ! n = Some (\<not> c)" by auto
    then show ?thesis by (intro exI[of _ "Suc n"]) auto
  qed (intro exI[of _ 0], auto)
qed (auto intro: exI[of _ "Suc _"])

lemma conflict_no_match: "bits_conflict q p \<Longrightarrow> bits_match p w \<Longrightarrow> \<not> bits_match q w"
  unfolding bits_match_def by (drule bits_conflictE) fastforce

lemma conflicting_find:
  assumes "pairwise_conflict (map (\<lambda>(p, x). pat_bits p) t)" "list_all (\<lambda>(p, x). pat_ok p) t"
    and "(p, x) \<in> set t" "pat_matches p w"
  shows "instpat_find (t @ rest) w = Inr (Some x)"
  using assms
proof (induction t)
  case (Cons e t)
  obtain q y where e: "e = (q, y)" by (rule prod.exhaust)
  show ?case
  proof (cases "(p, x) = e")
    case True
    then show ?thesis using Cons(3,5) e by (cases x) (auto simp: instpat_match_spec)
  next
    case False
    then have "(p, x) \<in> set t" using Cons(4) by simp
    moreover from this Cons(2) have "bits_conflict (pat_bits q) (pat_bits p)"
      by (auto simp: e list_all_iff)
    then have "\<not> pat_matches q w" using Cons(5) conflict_no_match by (auto simp: pat_matches_bits)
    ultimately show ?thesis using Cons e by (cases y) (auto simp: instpat_match_spec)
  qed
qed simp

lemma rv_table_conflicts: "pairwise_conflict (map (\<lambda>(p, x). pat_bits p) (butlast rv_table))"
  by code_simp

lemma rv_table_pat_ok: "list_all (\<lambda>(p, x). pat_ok p) (butlast rv_table)"
  by code_simp

lemma rv_table_decodes:
  assumes "(p, x) \<in> set (butlast rv_table)" "pat_matches p w"
  shows "instpat_find rv_table w = Inr (Some x)"
  using conflicting_find[OF rv_table_conflicts rv_table_pat_ok assms, of "[last rv_table]"]
  by (simp add: append_butlast_last_id rv_table_def)

fun rv_entry :: "rv_instr \<Rightarrow> rv_op \<times> operand_type" where
  "rv_entry (RLui rd imm) = (Lui, TYPE_U)"
| "rv_entry (RAuipc rd imm) = (Auipc, TYPE_U)"
| "rv_entry (RJal rd imm) = (Jal, TYPE_J)"
| "rv_entry (RJalr rd rs1 imm) = (Jalr, TYPE_I)"
| "rv_entry (RBranch c rs1 rs2 imm) =
     (case c of B_EQ \<Rightarrow> Beq | B_NE \<Rightarrow> Bne | B_LT \<Rightarrow> Blt | B_GE \<Rightarrow> Bge | B_LTU \<Rightarrow> Bltu | B_GEU \<Rightarrow> Bgeu, TYPE_B)"
| "rv_entry (RLoad l rd rs1 imm) =
     (case l of L_LB \<Rightarrow> Lb | L_LH \<Rightarrow> Lh | L_LW \<Rightarrow> Lw | L_LBU \<Rightarrow> Lbu | L_LHU \<Rightarrow> Lhu, TYPE_I)"
| "rv_entry (RStore st rs2 rs1 imm) = (case st of St_SB \<Rightarrow> Sb | St_SH \<Rightarrow> Sh | St_SW \<Rightarrow> Sw, TYPE_S)"
| "rv_entry (RAluI a rd rs1 imm) =
     (case a of I_ADDI \<Rightarrow> Addi | I_SLTI \<Rightarrow> Slti | I_SLTIU \<Rightarrow> Sltiu | I_XORI \<Rightarrow> Xori | I_ORI \<Rightarrow> Ori
       | I_ANDI \<Rightarrow> Andi, TYPE_I)"
| "rv_entry (RShiftI sh rd rs1 n) = (case sh of S_SLLI \<Rightarrow> Slli | S_SRLI \<Rightarrow> Srli | S_SRAI \<Rightarrow> Srai, TYPE_I)"
| "rv_entry (RAlu a rd rs1 rs2) =
     (case a of A_ADD \<Rightarrow> Add | A_SUB \<Rightarrow> Sub | A_SLL \<Rightarrow> Sll | A_SLT \<Rightarrow> Slt | A_SLTU \<Rightarrow> Sltu | A_XOR \<Rightarrow> Xor
       | A_SRL \<Rightarrow> Srl | A_SRA \<Rightarrow> Sra | A_OR \<Rightarrow> Or | A_AND \<Rightarrow> And | A_MUL \<Rightarrow> Mul | A_MULH \<Rightarrow> Mulh
       | A_MULHU \<Rightarrow> Mulhu | A_DIV \<Rightarrow> Div | A_DIVU \<Rightarrow> Divu | A_REM \<Rightarrow> Rem | A_REMU \<Rightarrow> Remu, TYPE_R)"
| "rv_entry (RCsr c rd i rs1) = (case c of C_RW \<Rightarrow> Csrrw | C_RS \<Rightarrow> Csrrs, TYPE_I)"
| "rv_entry REcall = (Ecall, TYPE_I)"
| "rv_entry REbreak = (Ebreak, TYPE_N)"
| "rv_entry RMret = (Mret, TYPE_R)"

text \<open>
  The fixed bits of each format, from bit 0 upwards, and the check that the table lists the
  instructions of the specification one by one with exactly these bits.
\<close>

definition fixed :: "nat \<Rightarrow> 'a::len word \<Rightarrow> bool option list" where
  "fixed n w = map (\<lambda>j. Some (bit w j)) [0..<n]"

definition bits_R :: "7 word \<Rightarrow> 3 word \<Rightarrow> 7 word \<Rightarrow> bool option list" where
  "bits_R f7 f3 opc = fixed 7 opc @ replicate 5 None @ fixed 3 f3 @ replicate 10 None @ fixed 7 f7"

definition bits_R6 :: "7 word \<Rightarrow> 3 word \<Rightarrow> 7 word \<Rightarrow> bool option list" where
  "bits_R6 f7 f3 opc = fixed 7 opc @ replicate 5 None @ fixed 3 f3 @ replicate 11 None @ fixed 6 (drop_bit 1 f7)"

definition bits_I :: "3 word \<Rightarrow> 7 word \<Rightarrow> bool option list" where
  "bits_I f3 opc = fixed 7 opc @ replicate 5 None @ fixed 3 f3 @ replicate 17 None"

definition bits_U :: "7 word \<Rightarrow> bool option list" where
  "bits_U opc = fixed 7 opc @ replicate 25 None"

fun rv_bits :: "rv_instr \<Rightarrow> bool option list" where
  "rv_bits (RLui rd imm) = bits_U 0x37"
| "rv_bits (RAuipc rd imm) = bits_U 0x17"
| "rv_bits (RJal rd imm) = bits_U 0x6f"
| "rv_bits (RJalr rd rs1 imm) = bits_I 0 0x67"
| "rv_bits (RBranch c rs1 rs2 imm) = bits_I (branch_f3 c) 0x63"
| "rv_bits (RLoad l rd rs1 imm) = bits_I (load_f3 l) 0x03"
| "rv_bits (RStore st rs2 rs1 imm) = bits_I (store_f3 st) 0x23"
| "rv_bits (RAluI a rd rs1 imm) = bits_I (alui_f3 a) 0x13"
| "rv_bits (RShiftI sh rd rs1 n) = (case shifti_fields sh of (f7, f3) \<Rightarrow> bits_R6 f7 f3 0x13)"
| "rv_bits (RAlu a rd rs1 rs2) = (case alu_fields a of (f7, f3) \<Rightarrow> bits_R f7 f3 0x33)"
| "rv_bits (RCsr c rd i rs1) = bits_I (csr_f3 c) 0x73"
| "rv_bits REcall = fixed 32 (0x00000073 :: u32)"
| "rv_bits REbreak = fixed 32 (0x00100073 :: u32)"
| "rv_bits RMret = fixed 32 (0x30200073 :: u32)"

definition rv_protos :: "rv_instr list" where
  "rv_protos = [RLui 0 0, RAuipc 0 0, RLoad L_LW 0 0 0, RAluI I_ADDI 0 0 0, RJalr 0 0 0, RAluI I_SLTIU 0 0 0,
     RAluI I_ANDI 0 0 0, RShiftI S_SRAI 0 0 0, RShiftI S_SLLI 0 0 0, RLoad L_LBU 0 0 0, RShiftI S_SRLI 0 0 0,
     RAluI I_XORI 0 0 0, RLoad L_LH 0 0 0, RLoad L_LHU 0 0 0, RAluI I_SLTI 0 0 0, RLoad L_LB 0 0 0, RAluI I_ORI 0 0 0,
     RCsr C_RW 0 0 0, RCsr C_RS 0 0 0, REcall, RStore St_SW 0 0 0, RStore St_SB 0 0 0, RStore St_SH 0 0 0, RJal 0 0,
     RBranch B_EQ 0 0 0, RBranch B_NE 0 0 0, RBranch B_GE 0 0 0, RBranch B_GEU 0 0 0, RBranch B_LTU 0 0 0,
     RBranch B_LT 0 0 0, RAlu A_ADD 0 0 0, RAlu A_SUB 0 0 0, RAlu A_REM 0 0 0, RAlu A_DIV 0 0 0, RAlu A_MUL 0 0 0,
     RAlu A_OR 0 0 0, RAlu A_SLTU 0 0 0, RAlu A_XOR 0 0 0, RAlu A_SLL 0 0 0, RAlu A_MULH 0 0 0, RAlu A_REMU 0 0 0,
     RAlu A_DIVU 0 0 0, RAlu A_AND 0 0 0, RAlu A_SLT 0 0 0, RAlu A_SRA 0 0 0, RAlu A_SRL 0 0 0, RAlu A_MULHU 0 0 0,
     RMret, REbreak]"

fun rv_proto :: "rv_instr \<Rightarrow> rv_instr" where
  "rv_proto (RLui rd imm) = RLui 0 0"
| "rv_proto (RAuipc rd imm) = RAuipc 0 0"
| "rv_proto (RJal rd imm) = RJal 0 0"
| "rv_proto (RJalr rd rs1 imm) = RJalr 0 0 0"
| "rv_proto (RBranch c rs1 rs2 imm) = RBranch c 0 0 0"
| "rv_proto (RLoad l rd rs1 imm) = RLoad l 0 0 0"
| "rv_proto (RStore st rs2 rs1 imm) = RStore st 0 0 0"
| "rv_proto (RAluI a rd rs1 imm) = RAluI a 0 0 0"
| "rv_proto (RShiftI sh rd rs1 n) = RShiftI sh 0 0 0"
| "rv_proto (RAlu a rd rs1 rs2) = RAlu a 0 0 0"
| "rv_proto (RCsr c rd i rs1) = RCsr c 0 0 0"
| "rv_proto i = i"

lemma rv_table_lists_protos:
  "map (\<lambda>(p, x). (pat_bits p, x)) (butlast rv_table) = map (\<lambda>i. (rv_bits i, rv_entry i)) rv_protos"
  by code_simp

lemma rv_proto_same: "rv_bits (rv_proto i) = rv_bits i" "rv_entry (rv_proto i) = rv_entry i"
  by (cases i; simp)+

lemma rv_proto_in: "rv_proto i \<in> set rv_protos"
proof (cases i)
  case (RAlu a) then show ?thesis by (cases a) (simp_all add: rv_protos_def)
next
  case (RAluI a) then show ?thesis by (cases a) (simp_all add: rv_protos_def)
next
  case (RShiftI a) then show ?thesis by (cases a) (simp_all add: rv_protos_def)
next
  case (RLoad a) then show ?thesis by (cases a) (simp_all add: rv_protos_def)
next
  case (RStore a) then show ?thesis by (cases a) (simp_all add: rv_protos_def)
next
  case (RBranch a) then show ?thesis by (cases a) (simp_all add: rv_protos_def)
next
  case (RCsr a) then show ?thesis by (cases a) (simp_all add: rv_protos_def)
qed (simp_all add: rv_protos_def)

subsection \<open>Every encoding has the fixed bits of its format\<close>

text \<open>The match, position by position.\<close>

fun match_from :: "nat \<Rightarrow> bool option list \<Rightarrow> u32 \<Rightarrow> bool" where
  "match_from j [] w \<longleftrightarrow> True"
| "match_from j (None # bs) w \<longleftrightarrow> match_from (Suc j) bs w"
| "match_from j (Some b # bs) w \<longleftrightarrow> bit w j = b \<and> match_from (Suc j) bs w"

lemma match_from_iff:
  "match_from j bs w \<longleftrightarrow> (\<forall>i < length bs. bs ! i = None \<or> bs ! i = Some (bit w (j + i)))"
  by (induction j bs w rule: match_from.induct) (auto simp: All_less_Suc2 simp del: bit_0)

lemma bits_match_code: "bits_match bs w \<longleftrightarrow> match_from 0 bs w"
  by (simp add: bits_match_def match_from_iff)

lemma match_from_append: "match_from j (xs @ ys) w \<longleftrightarrow> match_from j xs w \<and> match_from (j + length xs) ys w"
  by (induction j xs w rule: match_from.induct) auto

lemma match_from_replicate [simp]: "match_from j (replicate n None) w"
  by (induction n arbitrary: j) auto

lemma match_from_fixed: "match_from j (fixed n v) w \<longleftrightarrow> (\<forall>i < n. bit w (j + i) = bit v i)"
  by (auto simp: match_from_iff fixed_def)

lemma length_fixed [simp]: "length (fixed n v) = n"
  by (simp add: fixed_def)

lemmas match_fields = bits_match_code match_from_append match_from_fixed bits_R_def bits_R6_def bits_I_def bits_U_def

lemma match_enc_R: "bits_match (bits_R f7 f3 opc) (enc_R f7 rs2 rs1 f3 rd opc)"
  by (simp add: match_fields bit_enc_R)

lemma match_enc_R6: "bits_match (bits_R6 f7 f3 opc) (enc_R f7 rs2 rs1 f3 rd opc)"
  by (simp add: match_fields bit_enc_R bit_drop_bit_eq del: bit_0)

lemma match_enc_R_I: "bits_match (bits_I f3 opc) (enc_R f7 rs2 rs1 f3 rd opc)"
  by (simp add: match_fields bit_enc_R)

lemma match_enc_I: "bits_match (bits_I f3 opc) (enc_I imm rs1 f3 rd opc)"
  by (simp add: match_fields bit_enc_I)

lemma match_enc_U: "bits_match (bits_U opc) (enc_U imm rd opc)"
  by (simp add: match_fields bit_enc_U)

lemma match_all: "bits_match (fixed n w) w"
  by (simp add: match_fields)

lemma rv_bits_match: "bits_match (rv_bits i) (rv_encode i)"
  by (cases i) (simp_all add: match_enc_R match_enc_R6 match_enc_R_I match_enc_I match_enc_U match_all enc_S_def
      enc_B_def enc_J_def split: prod.split)

lemma rv_decodes: "instpat_find rv_table (rv_encode i) = Inr (Some (rv_entry i))"
proof -
  have "(rv_bits (rv_proto i), rv_entry (rv_proto i)) \<in> set (map (\<lambda>i. (rv_bits i, rv_entry i)) rv_protos)"
    using rv_proto_in by auto
  then have "(rv_bits i, rv_entry i) \<in> set (map (\<lambda>(p, x). (pat_bits p, x)) (butlast rv_table))"
    by (simp only: rv_proto_same rv_table_lists_protos)
  then obtain p where "(p, rv_entry i) \<in> set (butlast rv_table)" and "pat_bits p = rv_bits i"
    by fastforce
  then show ?thesis
    using rv_bits_match[of i] rv_table_decodes pat_matches_bits by metis
qed

end
