(* ===== verification/RvSpec.thy ===== *)
theory RvSpec
  imports RvEncode BusProps
begin

text \<open>
  The RV32IM semantics of the instructions (MULHSU and FENCE aside, which NEMU does not have), written
  from the RISC-V manual on an abstract state
  (registers and CSRs as functions), and the proof that one \<open>isa_exec_once\<close> of the interpreter is
  one step of it. Memory is the bus of the model, whose behaviour IoMap and BusProps describe.
\<close>

section \<open>Abstract machine\<close>

record arch =
  xreg :: "reg \<Rightarrow> u32"
  xcsr :: "nat \<Rightarrow> u32"
  xpc :: u32
  xbus :: bus

definition xset :: "reg \<Rightarrow> u32 \<Rightarrow> arch \<Rightarrow> arch" where
  "xset r v a = (if r = 0 then a else a\<lparr>xreg := (xreg a)(r := v)\<rparr>)"

definition advance :: "arch \<Rightarrow> arch" where
  "advance a = a\<lparr>xpc := xpc a + 4\<rparr>"

text \<open>The CSRs that exist, as the manual numbers them.\<close>

definition csr_index :: "12 word \<Rightarrow> nat option" where
  "csr_index i = (if i = 0x300 then Some 0 else if i = 0x305 then Some 1 else if i = 0x341 then Some 2
     else if i = 0x342 then Some 3 else None)"

fun alu_spec :: "rv_alu \<Rightarrow> u32 \<Rightarrow> u32 \<Rightarrow> u32" where
  "alu_spec A_ADD a b = a + b"
| "alu_spec A_SUB a b = a - b"
| "alu_spec A_SLL a b = push_bit (unat (take_bit 5 b)) a"
| "alu_spec A_SLT a b = (if sint a < sint b then 1 else 0)"
| "alu_spec A_SLTU a b = (if uint a < uint b then 1 else 0)"
| "alu_spec A_XOR a b = a XOR b"
| "alu_spec A_SRL a b = word_of_int (uint a div 2 ^ unat (take_bit 5 b))"
| "alu_spec A_SRA a b = word_of_int (sint a div 2 ^ unat (take_bit 5 b))"
| "alu_spec A_OR a b = a OR b"
| "alu_spec A_AND a b = a AND b"
| "alu_spec A_MUL a b = word_of_int (sint a * sint b)"
| "alu_spec A_MULH a b = word_of_int (sint a * sint b div 2 ^ 32)"
| "alu_spec A_MULHU a b = word_of_int (uint a * uint b div 2 ^ 32)"
| "alu_spec A_DIV a b = (if b = 0 then - 1 else word_of_int (sint a sdiv sint b))"
| "alu_spec A_DIVU a b = (if b = 0 then - 1 else word_of_int (uint a div uint b))"
| "alu_spec A_REM a b = (if b = 0 then a else word_of_int (sint a smod sint b))"
| "alu_spec A_REMU a b = (if b = 0 then a else word_of_int (uint a mod uint b))"

fun alui_spec :: "rv_alui \<Rightarrow> u32 \<Rightarrow> u32 \<Rightarrow> u32" where
  "alui_spec I_ADDI a b = a + b"
| "alui_spec I_SLTI a b = (if sint a < sint b then 1 else 0)"
| "alui_spec I_SLTIU a b = (if uint a < uint b then 1 else 0)"
| "alui_spec I_XORI a b = a XOR b"
| "alui_spec I_ORI a b = a OR b"
| "alui_spec I_ANDI a b = a AND b"

fun shifti_spec :: "rv_shifti \<Rightarrow> u32 \<Rightarrow> 5 word \<Rightarrow> u32" where
  "shifti_spec S_SLLI a n = push_bit (unat n) a"
| "shifti_spec S_SRLI a n = word_of_int (uint a div 2 ^ unat n)"
| "shifti_spec S_SRAI a n = word_of_int (sint a div 2 ^ unat n)"

fun branch_spec :: "rv_branch \<Rightarrow> u32 \<Rightarrow> u32 \<Rightarrow> bool" where
  "branch_spec B_EQ a b \<longleftrightarrow> a = b"
| "branch_spec B_NE a b \<longleftrightarrow> a \<noteq> b"
| "branch_spec B_LT a b \<longleftrightarrow> sint a < sint b"
| "branch_spec B_GE a b \<longleftrightarrow> sint a \<ge> sint b"
| "branch_spec B_LTU a b \<longleftrightarrow> uint a < uint b"
| "branch_spec B_GEU a b \<longleftrightarrow> uint a \<ge> uint b"

fun load_spec :: "rv_load \<Rightarrow> nat \<times> (u32 \<Rightarrow> u32)" where
  "load_spec L_LB = (1, \<lambda>v. scast (ucast v :: u8))"
| "load_spec L_LH = (2, \<lambda>v. scast (ucast v :: u16))"
| "load_spec L_LW = (4, \<lambda>v. v)"
| "load_spec L_LBU = (1, \<lambda>v. v)"
| "load_spec L_LHU = (2, \<lambda>v. v)"

fun store_spec :: "rv_store \<Rightarrow> nat \<times> (u32 \<Rightarrow> u32)" where
  "store_spec St_SB = (1, take_bit 8)"
| "store_spec St_SH = (2, take_bit 16)"
| "store_spec St_SW = (4, \<lambda>v. v)"

section \<open>One step\<close>

definition csr_op :: "rv_csr \<Rightarrow> u32 \<Rightarrow> u32 \<Rightarrow> u32" where
  "csr_op c old v = (case c of C_RW \<Rightarrow> v | C_RS \<Rightarrow> old OR v)"

text \<open>
  Computations, branches, jumps, loads, stores and CSR accesses follow the manual. What the manual
  leaves to the environment or NEMU simplifies follows NEMU: ECALL and MRET without mstatus, EBREAK as the
  trap that ends the program, an assertion for a CSR that does not exist, and no exception for a
  misaligned target.
\<close>

fun rv_step :: "rv_instr \<Rightarrow> arch \<Rightarrow> arch res" where
  "rv_step (RLui rd imm) a = Inr (advance (xset rd (push_bit 12 (ucast imm)) a))"
| "rv_step (RAuipc rd imm) a = Inr (advance (xset rd (xpc a + push_bit 12 (ucast imm)) a))"
| "rv_step (RJal rd imm) a = Inr ((xset rd (xpc a + 4) a)\<lparr>xpc := xpc a + 2 * scast imm\<rparr>)"
| "rv_step (RJalr rd rs1 imm) a =
     Inr ((xset rd (xpc a + 4) a)\<lparr>xpc := (xreg a rs1 + scast imm) AND NOT 1\<rparr>)"
| "rv_step (RBranch c rs1 rs2 imm) a =
     Inr (if branch_spec c (xreg a rs1) (xreg a rs2) then a\<lparr>xpc := xpc a + 2 * scast imm\<rparr> else advance a)"
| "rv_step (RLoad l rd rs1 imm) a =
     (case load_spec l of (len, ext) \<Rightarrow>
        bindR (vaddr_read (xreg a rs1 + scast imm) len (xbus a)) (\<lambda>(v, b).
          Inr (advance (xset rd (ext v) (a\<lparr>xbus := b\<rparr>)))))"
| "rv_step (RStore st rs2 rs1 imm) a =
     (case store_spec st of (len, trim) \<Rightarrow>
        bindR (vaddr_write (xreg a rs1 + scast imm) len (trim (xreg a rs2)) (xbus a)) (\<lambda>b.
          Inr (advance (a\<lparr>xbus := b\<rparr>))))"
| "rv_step (RAluI op rd rs1 imm) a = Inr (advance (xset rd (alui_spec op (xreg a rs1) (scast imm)) a))"
| "rv_step (RShiftI op rd rs1 n) a = Inr (advance (xset rd (shifti_spec op (xreg a rs1) n) a))"
| "rv_step (RAlu op rd rs1 rs2) a = Inr (advance (xset rd (alu_spec op (xreg a rs1) (xreg a rs2)) a))"
| "rv_step (RCsr c rd i rs1) a =
     (case csr_index i of None \<Rightarrow> Inl (AssertFail ''check_csr_idx'')
      | Some k \<Rightarrow> Inr (advance (xset rd (xcsr a k) (a\<lparr>xcsr := (xcsr a)(k := csr_op c (xcsr a k) (xreg a rs1))\<rparr>))))"
| "rv_step REcall a = Inr (a\<lparr>xcsr := (xcsr a)(3 := 11, 2 := xpc a), xpc := xcsr a 1\<rparr>)"
| "rv_step REbreak a = Inr (advance (a\<lparr>xbus := set_nemu_state NEMU_END (xpc a) (xreg a 10) (xbus a)\<rparr>))"
| "rv_step RMret a = Inr (a\<lparr>xpc := xcsr a 2\<rparr>)"

text \<open>Where the C of the body is undefined although the manual defines the result.\<close>

definition host_defined :: "rv_instr \<Rightarrow> arch \<Rightarrow> bool" where
  "host_defined i a = (case i of
     RAlu op rd rs1 rs2 \<Rightarrow>
       (op \<in> {A_DIV, A_REM} \<longrightarrow> xreg a rs2 \<noteq> 0 \<and> \<not> (xreg a rs1 = 0x80000000 \<and> xreg a rs2 = 0xffffffff)) \<and>
       (op \<in> {A_DIVU, A_REMU} \<longrightarrow> xreg a rs2 \<noteq> 0)
   | _ \<Rightarrow> True)"

section \<open>The interpreter's machine as an abstract one\<close>

definition cpu_ok :: "cpu_state \<Rightarrow> bool" where
  "cpu_ok c \<longleftrightarrow> length (gpr c) = 32 \<and> gpr c ! 0 = 0 \<and> length (csr c) = 4"

definition arch_of :: "u32 \<Rightarrow> machine \<Rightarrow> arch" where
  "arch_of pc m = \<lparr>xreg = \<lambda>r. gpr (cpu m) ! unat r, xcsr = \<lambda>k. if k < 4 then csr (cpu m) ! k else 0,
     xpc = pc, xbus = mbus m\<rparr>"

lemma unat_reg [simp]: "unat (r :: reg) < 32"
  using unsigned_less[of r, where ?'a = nat] by simp

lemma unat_reg_nz: "(r :: reg) \<noteq> 0 \<Longrightarrow> unat r \<noteq> 0"
  by (simp add: unat_eq_0)

lemma check_reg_idx_ok: "n < 32 \<Longrightarrow> check_reg_idx (int n) = Inr n"
  by (simp add: check_reg_idx_def)

lemma get_R_ok: "n < 32 \<Longrightarrow> get_R n m = Inr (gpr (cpu m) ! n)"
  unfolding get_R_def by (simp only: check_reg_idx_ok bindR_Inr)

lemma set_R_ok: "n < 32 \<Longrightarrow> set_R n v m = Inr (m\<lparr>cpu := (cpu m)\<lparr>gpr := (gpr (cpu m))[n := v]\<rparr>\<rparr>)"
  unfolding set_R_def by (simp only: check_reg_idx_ok bindR_Inr)

lemmas reg_access [simp] = get_R_ok[OF unat_reg] set_R_ok[OF unat_reg]

lemma set_R_0: "set_R 0 0 m = Inr (m\<lparr>cpu := (cpu m)\<lparr>gpr := (gpr (cpu m))[0 := 0]\<rparr>\<rparr>)"
  by (rule set_R_ok) simp

text \<open>Writing a register and clearing register 0 afterwards is the write of the abstract machine.\<close>

lemma gpr_write:
  assumes "length g = 32" "g ! 0 = 0"
  shows "(\<lambda>r :: reg. g[unat rd := v, 0 := 0] ! unat r) = (if rd = 0 then \<lambda>r. g ! unat r else (\<lambda>r. g ! unat r)(rd := v))"
proof
  fix r :: reg
  have "unat r < length g" using assms by simp
  then show "g[unat rd := v, 0 := 0] ! unat r = (if rd = 0 then \<lambda>r. g ! unat r else (\<lambda>r. g ! unat r)(rd := v)) r"
    using assms unat_reg_nz[of r] unat_reg_nz[of rd] word_unat_eq_iff[of r rd]
    by (cases "r = 0"; cases "rd = 0"; cases "r = rd") (simp_all add: nth_list_update)
qed

lemma gpr_keep: "g ! 0 = 0 \<Longrightarrow> g[0 := 0] = g"
  by (metis list_update_id)

lemma arch_of_simps [simp]:
  "xreg (arch_of pc m) r = gpr (cpu m) ! unat r" "xpc (arch_of pc m) = pc" "xbus (arch_of pc m) = mbus m"
  "k < 4 \<Longrightarrow> xcsr (arch_of pc m) k = csr (cpu m) ! k"
  by (simp_all add: arch_of_def)

section \<open>The instruction bodies compute what the manual says\<close>

lemma sra_spec: "signed_drop_bit k (a :: u32) = word_of_int (sint a div 2 ^ k)"
proof -
  have "word_of_int (sint (signed_drop_bit k a)) = (word_of_int (drop_bit k (sint a)) :: u32)"
    by (simp only: sint_signed_drop_bit_eq)
  then show ?thesis by (simp add: drop_bit_eq_div)
qed

lemma srl_spec: "drop_bit k (a :: u32) = word_of_int (uint a div 2 ^ k)"
  unfolding drop_bit_eq_div[symmetric]
  by (rule bit_word_eqI) (auto simp: bit_word_of_int_iff bit_drop_bit_eq bit_uint_iff Bit_Operations.bit_drop_bit_eq dest: bit_imp_le_length)

lemma divu_spec: "(a :: u32) div b = word_of_int (uint a div uint b)" "(a :: u32) mod b = word_of_int (uint a mod uint b)"
  by (simp_all add: word_div_def word_mod_def)

lemma mul_spec: "(a :: u32) * b = word_of_int (sint a * sint b)"
  by (simp flip: wi_hom_mult)

lemma high_half: "ucast (drop_bit 32 (word_of_int x :: u64)) = (word_of_int (x div 2 ^ 32) :: u32)"
proof (rule bit_word_eqI)
  fix n assume "n < LENGTH(32)"
  then show "bit (ucast (drop_bit 32 (word_of_int x :: u64)) :: u32) n \<longleftrightarrow> bit (word_of_int (x div 2 ^ 32) :: u32) n"
    by (simp only: flip: drop_bit_eq_div) (simp add: bit_simps)
qed

lemma SEXT_scast: "SEXT (ucast (a :: u32)) 32 = scast a"
  by (rule bit_word_eqI) (simp add: bit_SEXT bit_simps min_def)

lemma SEXT_byte: "ucast (SEXT (ucast (v :: u32)) 8) = (scast (ucast v :: u8) :: u32)"
  by (rule bit_word_eqI) (simp add: bit_SEXT bit_simps min_def)

lemma SEXT_half: "ucast (SEXT (ucast (v :: u32)) 16) = (scast (ucast v :: u16) :: u32)"
  by (rule bit_word_eqI) (simp add: bit_SEXT bit_simps min_def)

lemma mulh_spec: "ucast (drop_bit 32 (SEXT (ucast a) 32 * SEXT (ucast b) 32)) = (word_of_int (sint a * sint b div 2 ^ 32) :: u32)"
  for a b :: u32
proof -
  have "SEXT (ucast a) 32 * SEXT (ucast b) 32 = word_of_int (sint a * sint b)"
    by (simp add: SEXT_scast)
  then show ?thesis by (simp only: high_half)
qed

lemma mulhu_spec: "ucast (drop_bit 32 ((ucast a :: u64) * ucast b)) = (word_of_int (uint a * uint b div 2 ^ 32) :: u32)"
  for a b :: u32
proof -
  have "(ucast a :: u64) * ucast b = word_of_int (uint a * uint b)"
    by (simp add: wi_hom_mult)
  then show ?thesis by (simp only: high_half)
qed

lemma BITS_low: "ucast (BITS (v :: u32) 7 0) = take_bit 8 v" "ucast (BITS (v :: u32) 15 0) = take_bit 16 v"
  by (rule bit_word_eqI; auto simp: bit_BITS bit_simps)+

lemma shamt_low: "BITS (b :: u32) 4 0 = ucast (take_bit 5 b)"
  by (rule bit_word_eqI) (auto simp: bit_BITS bit_simps dest: bit_imp_le_length)

text \<open>The bodies that are undefined for some operands, where they are defined.\<close>

lemma shift_amount_lt: "unat (take_bit 5 (b :: u32)) < 32" "(ucast (take_bit 5 b) :: u64) < 32"
proof -
  have "take_bit 5 b = b mod 32" by (simp add: take_bit_eq_mod)
  then show "unat (take_bit 5 b) < 32" by (simp add: unat_mod)
  then show "(ucast (take_bit 5 b) :: u64) < 32"
    by (simp add: word_less_nat_alt unsigned_ucast_eq unsigned_take_bit_eq take_bit_nat_def)
qed

lemma unat_shamt: "unat (ucast (take_bit 5 (b :: u32)) :: u64) = unat (take_bit 5 b)"
  using shift_amount_lt(1)[of b] by (simp add: unsigned_ucast_eq take_bit_nat_eq_self)

lemma unat_reg_u64: "unat (ucast (n :: reg) :: u64) = unat n" "(ucast (n :: reg) :: u64) < 32"
proof -
  have "unat n < 2 ^ 64" by (rule less_trans[OF unat_reg]) simp
  then show *: "unat (ucast n :: u64) = unat n" by (simp add: unsigned_ucast_eq take_bit_nat_eq_self)
  have "unat n < 32" by simp
  with * show "(ucast n :: u64) < 32" by (simp add: word_less_nat_alt)
qed

lemma c_shifts:
  "n < 32 \<Longrightarrow> c_shl32 a n = Inr (push_bit (unat n) a)"
  "n < 32 \<Longrightarrow> c_shr32 a n = Inr (word_of_int (uint a div 2 ^ unat n))"
  "n < 32 \<Longrightarrow> c_sar32 a n = Inr (word_of_int (sint a div 2 ^ unat n))"
  by (simp_all add: c_shl32_def c_shr32_def c_sar32_def srl_spec sra_spec)

lemmas reg_shifts = c_shifts[OF shift_amount_lt(2), unfolded unat_shamt]
lemmas imm_shifts = c_shifts[OF unat_reg_u64(2), unfolded unat_reg_u64(1)]

lemma shamt_enc:
  assumes "\<not> bit f7 0"
  shows "BITS (immI (enc_R f7 n rs1 f3 rd opc)) 5 0 = ucast n"
proof (rule bit_word_eqI)
  fix j assume "j < LENGTH(64)"
  consider "j < 5" | "j = 5" | "5 < j" by linarith
  then show "bit (BITS (immI (enc_R f7 n rs1 f3 rd opc)) 5 0) j \<longleftrightarrow> bit (ucast n :: u64) j"
    using assms by cases (simp_all add: bit_BITS immI_def bit_simps bit_SEXT bit_enc_R min_def del: bit_0,
        auto dest: bit_imp_le_length)
qed

section \<open>One interpreted instruction is one step\<close>

lemma operands_R: "decode_operand TYPE_R (enc_R f7 rs2 rs1 f3 rd opc) m =
    Inr (unat rd, gpr (cpu m) ! unat rs1, gpr (cpu m) ! unat rs2, 0)"
  by (simp add: decode_operand_def fields_enc_R)

lemma operands_sh: "decode_operand TYPE_I (enc_R f7 rs2 rs1 f3 rd opc) m =
    Inr (unat rd, gpr (cpu m) ! unat rs1, 0, immI (enc_R f7 rs2 rs1 f3 rd opc))"
  by (simp add: decode_operand_def fields_enc_R)

lemma operands_I: "decode_operand TYPE_I (enc_I imm rs1 f3 rd opc) m =
    Inr (unat rd, gpr (cpu m) ! unat rs1, 0, scast imm)"
  by (simp add: decode_operand_def fields_enc_I immI_enc)

lemma operands_U: "decode_operand TYPE_U (enc_U imm rd opc) m = Inr (unat rd, 0, 0, push_bit 12 (ucast imm))"
  by (simp add: decode_operand_def fields_enc_U immU_enc)

lemma operands_J: "decode_operand TYPE_J (enc_J imm rd opc) m = Inr (unat rd, 0, 0, 2 * scast imm)"
  unfolding decode_operand_def Let_def immJ_enc
  by (simp add: enc_J_def fields_enc_U)

lemma operands_S: "\<exists>rd. rd < 32 \<and> decode_operand TYPE_S (enc_S imm rs2 rs1 f3 opc) m =
    Inr (rd, gpr (cpu m) ! unat rs1, gpr (cpu m) ! unat rs2, scast imm)"
  unfolding decode_operand_def Let_def immS_enc
  by (simp add: enc_S_def fields_enc_R)

lemma operands_B: "\<exists>rd. rd < 32 \<and> decode_operand TYPE_B (enc_B imm rs2 rs1 f3 opc) m =
    Inr (rd, gpr (cpu m) ! unat rs1, gpr (cpu m) ! unat rs2, 2 * scast imm)"
  unfolding decode_operand_def Let_def immB_enc
  by (simp add: enc_B_def fields_enc_R)

text \<open>The end of every body: register 0 is cleared.\<close>

lemma arch_write:
  "cpu_ok (cpu m) \<Longrightarrow>
   arch_of pc (m\<lparr>cpu := (cpu m)\<lparr>gpr := (gpr (cpu m))[unat rd := v, 0 := 0]\<rparr>\<rparr>) = xset rd v (arch_of pc m)"
  by (simp add: arch_of_def xset_def cpu_ok_def gpr_write cong: if_cong)

lemma machine_keep: "cpu_ok (cpu m) \<Longrightarrow> m\<lparr>cpu := (cpu m)\<lparr>gpr := (gpr (cpu m))[0 := 0]\<rparr>\<rparr> = m"
  by (simp add: cpu_ok_def gpr_keep)

definition finish :: "u32 \<times> machine \<Rightarrow> arch" where
  "finish = (\<lambda>(pc, m). arch_of pc (m\<lparr>cpu := (cpu m)\<lparr>gpr := (gpr (cpu m))[0 := 0]\<rparr>\<rparr>))"

text \<open>A body, from the decoded operands to the cleared register 0.\<close>

definition rv_body :: "rv_instr \<Rightarrow> decode \<Rightarrow> machine \<Rightarrow> arch res" where
  "rv_body i s m =
     (case rv_entry i of (op, ty) \<Rightarrow>
        bindR (decode_operand ty (rv_encode i) m) (\<lambda>(rd, src1, src2, imm).
          bindR (rv_exec op s rd src1 src2 imm m) (\<lambda>r. Inr (finish r))))"

lemma decode_exec_body:
  assumes "s_inst s = rv_encode i"
  shows "bindR (decode_exec s m) (\<lambda>(s', m'). Inr (arch_of (s_dnpc s') m')) = rv_body i (s\<lparr>s_dnpc := s_snpc s\<rparr>) m"
  unfolding decode_exec_def Let_def rv_body_def
  by (simp add: assms rv_decodes set_R_0 finish_def split: prod.split)
     (auto simp: bindR_def split: sum.splits)

lemma finish_write:
  assumes "cpu_ok (cpu m)" "s_snpc s = s_pc s + 4"
  shows "finish (s_snpc s, m\<lparr>cpu := (cpu m)\<lparr>gpr := (gpr (cpu m))[unat rd := v]\<rparr>\<rparr>) =
    advance (xset rd v (arch_of (s_pc s) m))"
  using assms by (simp add: finish_def arch_write advance_def) (simp add: arch_of_def xset_def)

lemma exec_write:
  assumes "cpu_ok (cpu m)" "s_snpc s = s_pc s + 4"
    and "rv_entry i = (op, ty)" "decode_operand ty (rv_encode i) m = Inr (unat rd, a, b, imm)"
    and "rv_exec op s (unat rd) a b imm m =
      bindR (set_R (unat rd) v m) (\<lambda>m'. Inr (s_snpc s, m'))"
  shows "rv_body i s m = Inr (advance (xset rd v (arch_of (s_pc s) m)))"
  using finish_write[OF assms(1,2), of rd v] assms(3-) by (simp add: rv_body_def)

lemma body_alu:
  assumes "cpu_ok (cpu m)" "s_snpc s = s_pc s + 4" "host_defined (RAlu op rd rs1 rs2) (arch_of (s_pc s) m)"
  shows "rv_body (RAlu op rd rs1 rs2) s m = rv_step (RAlu op rd rs1 rs2) (arch_of (s_pc s) m)"
proof -
  let ?a = "gpr (cpu m) ! unat rs1" and ?b = "gpr (cpu m) ! unat rs2"
  obtain o' where e: "rv_entry (RAlu op rd rs1 rs2) = (o', TYPE_R)" by (cases op) auto
  have "rv_exec o' s (unat rd) ?a ?b 0 m = bindR (set_R (unat rd) (alu_spec op ?a ?b) m) (\<lambda>m'. Inr (s_snpc s, m'))"
  proof (cases op)
    case A_SRL then show ?thesis using e by (simp add: rv_exec_def shamt_low reg_shifts)
  next
    case A_SRA then show ?thesis using e by (simp add: rv_exec_def shamt_low reg_shifts)
  next
    case A_SLL then show ?thesis using e by (simp add: rv_exec_def shamt_low reg_shifts)
  next
    case A_MULH then show ?thesis using e by (auto simp: rv_exec_def mulh_spec)
  next
    case A_MULHU then show ?thesis using e by (auto simp: rv_exec_def mulhu_spec)
  next
    case A_DIVU then show ?thesis using e assms(3) by (auto simp: rv_exec_def host_defined_def c_divu32_def divu_spec)
  next
    case A_REMU then show ?thesis using e assms(3) by (auto simp: rv_exec_def host_defined_def c_remu32_def divu_spec)
  next
    case A_DIV then show ?thesis using e assms(3) by (auto simp: rv_exec_def host_defined_def c_div32_def)
  next
    case A_REM then show ?thesis using e assms(3) by (auto simp: rv_exec_def host_defined_def c_rem32_def)
  next
    case A_SLTU then show ?thesis using e by (auto simp: rv_exec_def bool_u32_def word_less_def)
  next
    case A_SLT then show ?thesis using e by (auto simp: rv_exec_def bool_u32_def)
  qed (use e in \<open>auto simp: rv_exec_def\<close>)
  then show ?thesis
    using exec_write[OF assms(1,2) e, of rd ?a ?b 0 "alu_spec op ?a ?b"]
    by (simp add: operands_R[where rd = rd] split: prod.split)
qed

lemma body_alui:
  assumes "cpu_ok (cpu m)" "s_snpc s = s_pc s + 4"
  shows "rv_body (RAluI op rd rs1 imm) s m = rv_step (RAluI op rd rs1 imm) (arch_of (s_pc s) m)"
proof -
  let ?a = "gpr (cpu m) ! unat rs1"
  obtain o' where e: "rv_entry (RAluI op rd rs1 imm) = (o', TYPE_I)" by (cases op) auto
  have "rv_exec o' s (unat rd) ?a 0 (scast imm) m =
      bindR (set_R (unat rd) (alui_spec op ?a (scast imm)) m) (\<lambda>m'. Inr (s_snpc s, m'))"
    using e by (cases op) (auto simp: rv_exec_def bool_u32_def word_less_def)
  then show ?thesis
    using exec_write[OF assms e, of rd ?a 0 "scast imm" "alui_spec op ?a (scast imm)"]
    by (simp add: operands_I)
qed

lemma body_shifti:
  assumes "cpu_ok (cpu m)" "s_snpc s = s_pc s + 4"
  shows "rv_body (RShiftI op rd rs1 n) s m = rv_step (RShiftI op rd rs1 n) (arch_of (s_pc s) m)"
proof -
  let ?a = "gpr (cpu m) ! unat rs1"
  obtain o' where e: "rv_entry (RShiftI op rd rs1 n) = (o', TYPE_I)" by (cases op) auto
  obtain f7 f3 where f: "shifti_fields op = (f7, f3)" by force
  then have "\<not> bit f7 0" by (cases op) auto
  note sh = shamt_enc[OF this]
  let ?w = "enc_R f7 n rs1 f3 rd 0x13"
  have "rv_exec o' s (unat rd) ?a 0 (immI ?w) m =
      bindR (set_R (unat rd) (shifti_spec op ?a n) m) (\<lambda>m'. Inr (s_snpc s, m'))"
    using e by (cases op) (auto simp: rv_exec_def sh imm_shifts)
  then show ?thesis
    using exec_write[OF assms e, of rd ?a 0 "immI ?w" "shifti_spec op ?a n"] f
    by (simp add: operands_sh)
qed

lemma body_lui:
  assumes "cpu_ok (cpu m)" "s_snpc s = s_pc s + 4"
  shows "rv_body (RLui rd imm) s m = rv_step (RLui rd imm) (arch_of (s_pc s) m)"
    and "rv_body (RAuipc rd imm) s m = rv_step (RAuipc rd imm) (arch_of (s_pc s) m)"
  by (simp_all add: rv_body_def operands_U rv_exec_def finish_write[OF assms])

text \<open>Jumps and branches.\<close>

lemma finish_jump:
  "cpu_ok (cpu m) \<Longrightarrow> finish (pc', m\<lparr>cpu := (cpu m)\<lparr>gpr := (gpr (cpu m))[unat rd := v]\<rparr>\<rparr>) =
    (xset rd v (arch_of pc m))\<lparr>xpc := pc'\<rparr>"
  by (simp add: finish_def arch_write) (simp add: arch_of_def xset_def)

lemma finish_keep: "cpu_ok (cpu m) \<Longrightarrow> finish (pc', m) = (arch_of pc m)\<lparr>xpc := pc'\<rparr>"
  by (simp add: finish_def machine_keep) (simp add: arch_of_def)

lemma body_jump:
  assumes "cpu_ok (cpu m)"
  shows "rv_body (RJal rd jmm) s m = rv_step (RJal rd jmm) (arch_of (s_pc s) m)"
    and "rv_body (RJalr rd rs1 imm) s m = rv_step (RJalr rd rs1 imm) (arch_of (s_pc s) m)"
  using finish_jump[OF assms, where pc = "s_pc s"]
  by (simp_all add: rv_body_def operands_J operands_I rv_exec_def)

lemma body_branch:
  assumes "cpu_ok (cpu m)" "s_snpc s = s_pc s + 4"
  shows "rv_body (RBranch c rs1 rs2 imm) s m = rv_step (RBranch c rs1 rs2 imm) (arch_of (s_pc s) m)"
proof -
  let ?a = "gpr (cpu m) ! unat rs1" and ?b = "gpr (cpu m) ! unat rs2"
  obtain o' where e: "rv_entry (RBranch c rs1 rs2 imm) = (o', TYPE_B)" by (cases c) auto
  obtain rd where d: "decode_operand TYPE_B (rv_encode (RBranch c rs1 rs2 imm)) m = Inr (rd, ?a, ?b, 2 * scast imm)"
    using operands_B by fastforce
  have "rv_exec o' s rd ?a ?b (2 * scast imm) m =
      Inr (if branch_spec c ?a ?b then s_pc s + 2 * scast imm else s_snpc s, m)"
    using e by (cases c) (auto simp: rv_exec_def word_less_def word_le_def)
  then show ?thesis
    unfolding rv_body_def e by (simp add: d[simplified] finish_keep[OF assms(1), of _ "s_pc s"] advance_def assms(2))
qed

text \<open>Memory.\<close>

lemma arch_of_bus: "arch_of pc (m\<lparr>mbus := b\<rparr>) = (arch_of pc m)\<lparr>xbus := b\<rparr>"
  by (simp add: arch_of_def cong: if_cong)

lemma body_load:
  assumes "cpu_ok (cpu m)" "s_snpc s = s_pc s + 4"
  shows "rv_body (RLoad l rd rs1 imm) s m = rv_step (RLoad l rd rs1 imm) (arch_of (s_pc s) m)"
proof -
  let ?a = "gpr (cpu m) ! unat rs1"
  obtain o' where e: "rv_entry (RLoad l rd rs1 imm) = (o', TYPE_I)" by (cases l) auto
  obtain len ext where l: "load_spec l = (len, ext)" by force
  have "rv_exec o' s (unat rd) ?a 0 (scast imm) m =
      bindR (load_R (unat rd) (?a + scast imm) len ext m) (\<lambda>m'. Inr (s_snpc s, m'))"
    using e l by (cases l) (auto simp: rv_exec_def load_R_def SEXT_byte SEXT_half split: prod.split)
  then show ?thesis
    unfolding rv_body_def e
    by (simp add: operands_I l load_R_def bindR_assoc split_def)
       (rule bindR_cong; simp add: finish_write[of "m\<lparr>mbus := _\<rparr>" s, simplified] assms arch_of_bus)
qed

lemma body_store:
  assumes "cpu_ok (cpu m)" "s_snpc s = s_pc s + 4"
  shows "rv_body (RStore st rs2 rs1 imm) s m = rv_step (RStore st rs2 rs1 imm) (arch_of (s_pc s) m)"
proof -
  let ?a = "gpr (cpu m) ! unat rs1" and ?b = "gpr (cpu m) ! unat rs2"
  obtain o' where e: "rv_entry (RStore st rs2 rs1 imm) = (o', TYPE_S)" by (cases st) auto
  obtain len trim where l: "store_spec st = (len, trim)" by force
  obtain rd where d: "decode_operand TYPE_S (rv_encode (RStore st rs2 rs1 imm)) m = Inr (rd, ?a, ?b, scast imm)"
    using operands_S by fastforce
  have "rv_exec o' s rd ?a ?b (scast imm) m =
      bindR (store_M (?a + scast imm) len (trim ?b) m) (\<lambda>m'. Inr (s_snpc s, m'))"
    using e l by (cases st) (auto simp: rv_exec_def BITS_low)
  then show ?thesis
    unfolding rv_body_def e
    by (simp add: d[simplified] l store_M_def bindR_assoc)
       (rule bindR_cong; simp add: finish_keep[of "m\<lparr>mbus := _\<rparr>" _ "s_pc s"] assms arch_of_bus advance_def)
qed

text \<open>CSRs and traps.\<close>

lemma check_csr_scast:
  "check_csr_idx (scast (i :: 12 word)) =
     (case csr_index i of None \<Rightarrow> Inl (AssertFail ''check_csr_idx'') | Some k \<Rightarrow> Inr k)"
proof -
  have "ucast (scast i :: u32) = i"
    by (rule bit_word_eqI) (simp add: bit_simps)
  then have *: "(scast i :: u32) = n \<longleftrightarrow> i = ucast n" if "scast (ucast n :: 12 word) = n" for n
    using that by metis
  show ?thesis
    by (simp add: check_csr_idx_def csr_index_def *)
qed

lemma csr_index_lt: "csr_index i = Some k \<Longrightarrow> k < 4"
  by (auto simp: csr_index_def split: if_splits)

lemma arch_of_csr:
  assumes "cpu_ok (cpu m)" "k < 4"
  shows "arch_of pc (m\<lparr>cpu := (cpu m)\<lparr>csr := (csr (cpu m))[k := v]\<rparr>\<rparr>) =
    (arch_of pc m)\<lparr>xcsr := (xcsr (arch_of pc m))(k := v)\<rparr>"
  using assms by (auto simp: arch_of_def fun_eq_iff cpu_ok_def nth_list_update)

lemma body_csr:
  assumes "cpu_ok (cpu m)" "s_snpc s = s_pc s + 4"
  shows "rv_body (RCsr c rd i rs1) s m = rv_step (RCsr c rd i rs1) (arch_of (s_pc s) m)"
proof (cases "csr_index i")
  case None
  then show ?thesis
    by (cases c) (simp_all add: rv_body_def operands_I rv_exec_def get_csr_def check_csr_scast)
next
  case (Some k)
  note k = csr_index_lt[OF Some]
  have ok: "cpu_ok (cpu (m\<lparr>cpu := (cpu m)\<lparr>csr := (csr (cpu m))[k := v]\<rparr>\<rparr>))" for v
    using assms(1) by (simp add: cpu_ok_def)
  show ?thesis
    using Some finish_write[OF ok assms(2), where rd = rd] arch_of_csr[OF assms(1) k]
    by (cases c) (simp_all add: rv_body_def operands_I rv_exec_def get_csr_def set_csr_def check_csr_scast csr_op_def k)
qed

lemma BITS_less: "unat (BITS (x :: 'a::len word) hi lo) < 2 ^ (hi - lo + 1)"
proof -
  have "BITS x hi lo = take_bit (hi - lo + 1) (ucast (drop_bit lo x))"
    by (simp only: BITS_def BITMASK_eq_mask take_bit_eq_mask)
  then have "unat (BITS x hi lo) = take_bit (hi - lo + 1) (unat (ucast (drop_bit lo x) :: u64))"
    by (simp only: unsigned_take_bit_eq)
  then show ?thesis by (simp only: take_bit_nat_less_exp)
qed

lemma BITS_reg: "unat (BITS (w :: u32) 19 15) < 32" "unat (BITS w 24 20) < 32" "unat (BITS w 11 7) < 32"
  using BITS_less[of w 19 15] BITS_less[of w 24 20] BITS_less[of w 11 7] by simp_all

lemmas reg_fields [simp] = get_R_ok[OF BITS_reg(1)] get_R_ok[OF BITS_reg(2)]

lemma body_trap:
  assumes "cpu_ok (cpu m)" "s_snpc s = s_pc s + 4"
  shows "rv_body REcall s m = rv_step REcall (arch_of (s_pc s) m)"
    and "rv_body RMret s m = rv_step RMret (arch_of (s_pc s) m)"
    and "rv_body REbreak s m = rv_step REbreak (arch_of (s_pc s) m)"
proof -
  let ?m = "m\<lparr>cpu := (cpu m)\<lparr>csr := (csr (cpu m))[3 := 11, 2 := s_pc s]\<rparr>\<rparr>"
  have ok: "cpu_ok (cpu ?m)" using assms(1) by (simp add: cpu_ok_def)
  have a: "arch_of (s_pc s) ?m = (arch_of (s_pc s) m)\<lparr>xcsr := (xcsr (arch_of (s_pc s) m))(3 := 11, 2 := s_pc s)\<rparr>"
    using assms(1) by (auto simp: arch_of_def fun_eq_iff cpu_ok_def nth_list_update)
  have "rv_exec Ecall s rd a b imm m = Inr (csr (cpu m) ! 1, ?m)" for rd a b imm
    using assms(1) by (simp add: rv_exec_def isa_raise_intr_def set_csr_def get_csr_def check_csr_idx_def cpu_ok_def)
  then show "rv_body REcall s m = rv_step REcall (arch_of (s_pc s) m)"
    using finish_keep[OF ok, of _ "s_pc s"] a
    by (simp add: rv_body_def decode_operand_def get_R_ok)
  show "rv_body RMret s m = rv_step RMret (arch_of (s_pc s) m)"
    using finish_keep[OF assms(1), of _ "s_pc s"]
    by (simp add: rv_body_def decode_operand_def rv_exec_def get_csr_def check_csr_idx_def)
  show "rv_body REbreak s m = rv_step REbreak (arch_of (s_pc s) m)"
    using finish_keep[of "nemutrap (s_pc s) (gpr (cpu m) ! 10) m" _ "s_pc s"] assms
    by (simp add: rv_body_def decode_operand_def get_R_ok rv_exec_def nemutrap_def arch_of_bus advance_def)
qed

lemma rv_body_step:
  assumes "cpu_ok (cpu m)" "s_snpc s = s_pc s + 4" "host_defined i (arch_of (s_pc s) m)"
  shows "rv_body i s m = rv_step i (arch_of (s_pc s) m)"
  using assms
  by (cases i) (simp_all add: body_alu body_alui body_shifti body_lui body_jump body_branch body_load body_store
      body_csr body_trap del: rv_step.simps)

lemma isa_exec_once_spec:
  assumes "cpu_ok (cpu m)" "s_snpc s = s_pc s"
    and "inst_fetch (s_pc s) 4 (mbus m) = Inr (rv_encode i, pc', b)"
    and "host_defined i (arch_of (s_pc s) m)"
  shows "bindR (isa_exec_once s m) (\<lambda>(s', m'). Inr (arch_of (s_dnpc s') m')) =
    rv_step i (arch_of (s_pc s) (m\<lparr>mbus := b\<rparr>))"
proof -
  have pc': "pc' = s_pc s + 4"
    using assms(3) by (auto simp: inst_fetch_def elim!: bindR_eq_Inr[THEN iffD1, elim_format])
  have h: "host_defined i (arch_of (s_pc s) (m\<lparr>mbus := b\<rparr>))"
    using assms(4) by (simp add: host_defined_def arch_of_bus split: rv_instr.splits)
  show ?thesis
    using rv_body_step[of "m\<lparr>mbus := b\<rparr>" "s\<lparr>s_inst := rv_encode i, s_snpc := pc', s_dnpc := pc'\<rparr>" i]
      decode_exec_body[of "s\<lparr>s_inst := rv_encode i, s_snpc := pc'\<rparr>" i "m\<lparr>mbus := b\<rparr>"] assms h
    by (simp add: isa_exec_once_def pc')
qed

text \<open>
  C1. The interpreter implements RV32IM without MULHSU and FENCE (which inst.c does not have). When the
  word fetched at pc is the encoding of an instruction of the specification (any register and
  immediate fields), one isa_exec_once does exactly the step rv_step: the same registers, CSRs and next
  pc, the same bus, and the same abort when a memory access is refused. For the computations,
  branches, jumps, loads, stores and CSR accesses that step is what the manual prescribes, and register 0
  reads as zero; ECALL and MRET (which leave mstatus alone), EBREAK (NEMU's trap), the assertion for an
  unknown CSR number and misaligned targets (accepted) are as NEMU has them. The hypothesis
  host_defined leaves out the divisions whose C operands make them undefined.
\<close>

theorem isa_exec_once_correct:
  assumes "cpu_ok (cpu m)" "s_snpc s = s_pc s"
    and "inst_fetch (s_pc s) 4 (mbus m) = Inr (rv_encode i, pc', b)"
    and "host_defined i (arch_of (s_pc s) m)"
  shows "bindR (isa_exec_once s m) (\<lambda>(s', m'). Inr (arch_of (s_dnpc s') m')) =
    rv_step i (arch_of (s_pc s) (m\<lparr>mbus := b\<rparr>))"
  using assms by (rule isa_exec_once_spec)

section \<open>The register file\<close>

definition cpu_sizes :: "machine \<Rightarrow> bool" where
  "cpu_sizes m \<longleftrightarrow> length (gpr (cpu m)) = 32 \<and> length (csr (cpu m)) = 4"

lemma cpu_sizes_bus [simp]: "cpu_sizes (m\<lparr>mbus := b\<rparr>) \<longleftrightarrow> cpu_sizes m"
  by (simp add: cpu_sizes_def)

lemma set_R_sizes: "set_R i v m = Inr m1 \<Longrightarrow> cpu_sizes m \<Longrightarrow> cpu_sizes m1"
  by (auto simp: set_R_def res_elims cpu_sizes_def)

lemma set_csr_sizes: "set_csr i v m = Inr m1 \<Longrightarrow> cpu_sizes m \<Longrightarrow> cpu_sizes m1"
  by (auto simp: set_csr_def res_elims cpu_sizes_def)

lemma load_store_sizes:
  "load_R rd addr len f m = Inr m1 \<Longrightarrow> cpu_sizes m \<Longrightarrow> cpu_sizes m1"
  "store_M addr len v m = Inr m1 \<Longrightarrow> cpu_sizes m \<Longrightarrow> cpu_sizes m1"
  by (auto simp: load_R_def store_M_def res_elims dest: set_R_sizes)

lemma trap_sizes:
  "isa_raise_intr NO epc m = Inr (v, m1) \<Longrightarrow> cpu_sizes m \<Longrightarrow> cpu_sizes m1"
  "invalid_inst pc m = Inr m1 \<Longrightarrow> cpu_sizes m \<Longrightarrow> cpu_sizes m1"
  "cpu_sizes m \<Longrightarrow> cpu_sizes (nemutrap pc code m)"
  by (auto simp: isa_raise_intr_def invalid_inst_def nemutrap_def res_elims dest: set_csr_sizes)

lemmas sizes = set_R_sizes set_csr_sizes load_store_sizes trap_sizes

lemma rv_exec_sizes: "rv_exec op s rd a b imm m = Inr (pc, m1) \<Longrightarrow> cpu_sizes m \<Longrightarrow> cpu_sizes m1"
  by (cases op; simp add: rv_exec_def res_elims; (elim exE conjE)?; (blast intro: sizes)?;
      auto simp: res_elims dest: sizes split: if_splits)

lemma isa_exec_once_sizes:
  assumes "cpu_sizes m" "isa_exec_once s m = Inr (s', m')"
  shows "cpu_ok (cpu m')"
proof -
  obtain inst snpc b where dec: "decode_exec (s\<lparr>s_inst := inst, s_snpc := snpc\<rparr>) (m\<lparr>mbus := b\<rparr>) = Inr (s', m')"
    using assms(2) by (auto simp: isa_exec_once_def res_elims)
  let ?s = "s\<lparr>s_inst := inst, s_snpc := snpc, s_dnpc := snpc\<rparr>"
  obtain hit where hit: "instpat_find rv_table inst = Inr hit"
    using dec by (cases "instpat_find rv_table inst") (simp_all add: decode_exec_def Let_def)
  let ?body = "case hit of None \<Rightarrow> Inr (snpc, m\<lparr>mbus := b\<rparr>)
       | Some (op, ty) \<Rightarrow> bindR (decode_operand ty inst (m\<lparr>mbus := b\<rparr>)) (\<lambda>(rd, src1, src2, imm).
           rv_exec op ?s rd src1 src2 imm (m\<lparr>mbus := b\<rparr>))"
  have eq: "decode_exec (s\<lparr>s_inst := inst, s_snpc := snpc\<rparr>) (m\<lparr>mbus := b\<rparr>) =
      bindR ?body (\<lambda>(dnpc, m1). bindR (set_R 0 0 m1) (\<lambda>m2. Inr (?s\<lparr>s_dnpc := dnpc\<rparr>, m2)))"
    by (cases hit) (simp_all add: decode_exec_def Let_def hit split: prod.split)
  obtain dnpc m1 where body: "?body = Inr (dnpc, m1)"
    using dec unfolding eq by (cases ?body) auto
  then have m': "set_R 0 0 m1 = Inr m'"
    using dec unfolding eq body by (simp add: set_R_0)
  have "cpu_sizes m1"
  proof (cases hit)
    case (Some x)
    then show ?thesis using body assms(1) by (cases x) (auto simp: res_elims dest: rv_exec_sizes)
  qed (use body assms(1) in auto)
  then show ?thesis
    using m' unfolding set_R_0 by (auto simp: cpu_ok_def cpu_sizes_def)
qed

text \<open>
  C39. The register file stays well formed: from any machine with 32 registers and 4 CSRs,
  whatever word is executed (undecodable ones included), the machine afterwards has 32 registers
  with register 0 equal to zero and 4 CSRs.
\<close>

theorem register_file_invariant:
  assumes "cpu_ok (cpu m)" "isa_exec_once s m = Inr (s', m')"
  shows "cpu_ok (cpu m')"
  using isa_exec_once_sizes[OF _ assms(2)] assms(1) by (simp add: cpu_ok_def cpu_sizes_def)

text \<open>
  A word that no pattern of the table describes stops the machine: the run state becomes
  NEMU_ABORT with the pc of the word and return value -1, execution would go on behind it, and
  registers and CSRs do not change.
\<close>

theorem invalid_instruction_aborts:
  assumes "cpu_ok (cpu m)" "s_snpc s = s_pc s"
    and "inst_fetch (s_pc s) 4 (mbus m) = Inr (w, pc1, b1)"
    and "\<forall>(p, x) \<in> set (butlast rv_table). \<not> pat_matches p w"
    and "inst_fetch (s_pc s) 4 b1 = Inr (w, pc1, b2)" "inst_fetch pc1 4 b2 = Inr (w2, pc2, b3)"
  shows "\<exists>s'. isa_exec_once s m = Inr (s', m\<lparr>mbus := set_nemu_state NEMU_ABORT (s_pc s) (- 1) b3\<rparr>) \<and>
     s_dnpc s' = s_pc s + 4"
proof -
  have find: "instpat_find (t @ [(''??????? ????? ????? ??? ????? ????? ??'', Inv, TYPE_N)]) w = Inr (Some (Inv, TYPE_N))"
    if "\<forall>(p, x) \<in> set t. pat_ok p \<and> \<not> pat_matches p w" for t
    using that
  proof (induction t)
    case Nil
    have "pat_ok ''??????? ????? ????? ??? ????? ????? ??''" by code_simp
    moreover have "match_from 0 (pat_bits ''??????? ????? ????? ??? ????? ????? ??'') w"
      by (simp add: pat_bits_def pat_chars_def)
    ultimately show ?case by (simp add: instpat_match_spec pat_matches_bits bits_match_code)
  next
    case (Cons e t)
    then show ?case by (cases e rule: prod_cases3) (simp add: instpat_match_spec)
  qed
  have tab: "rv_table = butlast rv_table @ [(''??????? ????? ????? ??? ????? ????? ??'', Inv, TYPE_N)]"
    unfolding rv_table_def by simp
  have "\<forall>(p, x) \<in> set (butlast rv_table). pat_ok p \<and> \<not> pat_matches p w"
    using assms(4) rv_table_pat_ok unfolding list_all_iff by blast
  then have "instpat_find rv_table w = Inr (Some (Inv, TYPE_N))"
    by (subst tab) (rule find)
  moreover have "pc1 = s_pc s + 4" using assms(3) by (auto simp: inst_fetch_def res_elims)
  ultimately show ?thesis
    using assms machine_keep[of "m\<lparr>mbus := set_nemu_state NEMU_ABORT (s_pc s) (- 1) b3\<rparr>"]
    by (simp add: isa_exec_once_def decode_exec_def Let_def decode_operand_def rv_exec_def invalid_inst_def set_R_0)
qed

text \<open>
  C40. What the C of the division instructions leaves undefined is left undefined: division and
  remainder by zero, and the signed overflow, abort the interpreter although the RISC-V manual
  gives them results.
\<close>

theorem division_undefined:
  assumes "cpu_ok (cpu m)" "s_snpc s = s_pc s"
    and "inst_fetch (s_pc s) 4 (mbus m) = Inr (rv_encode (RAlu op rd rs1 rs2), pc', b)"
    and "\<not> host_defined (RAlu op rd rs1 rs2) (arch_of (s_pc s) m)"
  shows "\<exists>e. isa_exec_once s m = Inl (Undef e)"
proof -
  let ?i = "RAlu op rd rs1 rs2" and ?m = "m\<lparr>mbus := b\<rparr>"
  let ?s = "s\<lparr>s_inst := rv_encode ?i, s_snpc := pc', s_dnpc := pc'\<rparr>"
  obtain o' where e: "rv_entry ?i = (o', TYPE_R)" by (cases op) auto
  have "op = A_DIV \<or> op = A_REM \<or> op = A_DIVU \<or> op = A_REMU" using assms(4) by (auto simp: host_defined_def)
  then have "\<exists>err. rv_exec o' ?s (unat rd) (gpr (cpu m) ! unat rs1) (gpr (cpu m) ! unat rs2) 0 ?m = Inl (Undef err)"
  proof (elim disjE)
    assume op: "op = A_DIV"
    show ?thesis using e assms(4) unfolding op by (auto simp: host_defined_def rv_exec_def c_div32_def)
  next
    assume op: "op = A_REM"
    show ?thesis using e assms(4) unfolding op by (auto simp: host_defined_def rv_exec_def c_rem32_def)
  next
    assume op: "op = A_DIVU"
    show ?thesis using e assms(4) unfolding op by (auto simp: host_defined_def rv_exec_def c_divu32_def)
  next
    assume op: "op = A_REMU"
    show ?thesis using e assms(4) unfolding op by (auto simp: host_defined_def rv_exec_def c_remu32_def)
  qed
  then obtain err where
    "rv_exec o' ?s (unat rd) (gpr (cpu m) ! unat rs1) (gpr (cpu m) ! unat rs2) 0 ?m = Inl (Undef err)" by blast
  moreover have "decode_operand TYPE_R (rv_encode ?i) ?m =
      Inr (unat rd, gpr (cpu m) ! unat rs1, gpr (cpu m) ! unat rs2, 0)"
    by (simp add: operands_R split: prod.split)
  ultimately have "rv_body ?i ?s ?m = Inl (Undef err)"
    unfolding rv_body_def e by (simp del: rv_encode.simps)
  then have "decode_exec (s\<lparr>s_inst := rv_encode ?i, s_snpc := pc'\<rparr>) ?m = Inl (Undef err)"
    using decode_exec_body[of "s\<lparr>s_inst := rv_encode ?i, s_snpc := pc'\<rparr>" ?i ?m]
    by (simp add: bindR_eq_Inl split_beta del: rv_encode.simps)
  then have "isa_exec_once s m = Inl (Undef err)"
    unfolding isa_exec_once_def assms(2,3) by simp
  then show ?thesis by blast
qed

section \<open>Concrete machines\<close>

lemma fetch_pmem:
  assumes "in_pmem pc" "guest_to_host pc + 4 \<le> int CONFIG_MSIZE"
  shows "inst_fetch pc 4 b = Inr (le_word (load_bytes (pmem b) (nat (guest_to_host pc)) 4), pc + 4, b)"
proof -
  have "0 \<le> guest_to_host pc" using assms(1) by (simp add: in_pmem_iff)
  then show ?thesis
    using assms by (simp add: inst_fetch_def vaddr_ifetch_def paddr_read_def pmem_read_def host_read_def
        del: load_bytes.simps)
qed

definition demo_mach :: "u32 \<Rightarrow> machine" where
  "demo_mach w = \<lparr>cpu = \<lparr>gpr = [0, 7, 3] @ replicate 29 0, cpu_pc = 0x80000000, csr = [0, 0, 0, 0]\<rparr>,
     mbus = static_bus full_conf (store_bytes (\<lambda>_. 0) 0 (le_bytes 4 w)) of_nat\<rparr>"

definition demo_decode :: decode where
  "demo_decode = \<lparr>s_pc = 0x80000000, s_snpc = 0x80000000, s_dnpc = 0, s_inst = 0\<rparr>"

lemma demo_mach_facts:
  "cpu_ok (cpu (demo_mach w))" "s_snpc demo_decode = s_pc demo_decode"
  "inst_fetch (s_pc demo_decode) 4 (mbus (demo_mach w)) = Inr (w, 0x80000004, mbus (demo_mach w))"
  "inst_fetch 0x80000004 4 (mbus (demo_mach w)) = Inr (0, 0x80000008, mbus (demo_mach w))"
proof -
  show "cpu_ok (cpu (demo_mach w))" by (simp add: demo_mach_def cpu_ok_def)
  show "s_snpc demo_decode = s_pc demo_decode" by (simp add: demo_decode_def)
  have mem: "pmem (mbus (demo_mach w)) = store_bytes (\<lambda>_. 0) 0 (le_bytes 4 w)"
    by (simp add: demo_mach_def static_bus_def)
  have "load_bytes (store_bytes (\<lambda>_. 0) 0 (le_bytes 4 w)) 0 4 = le_bytes 4 w"
    by (rule load_store_same) simp
  then show "inst_fetch (s_pc demo_decode) 4 (mbus (demo_mach w)) = Inr (w, 0x80000004, mbus (demo_mach w))"
    unfolding demo_decode_def decode.simps by (subst fetch_pmem) (simp_all add: in_pmem_def guest_to_host_def mem)
  have "load_bytes (store_bytes (\<lambda>_. 0) 0 (le_bytes 4 w)) 4 4 = load_bytes (\<lambda>_. 0 :: u8) 4 4"
    by (rule load_store_disjoint) simp
  moreover have "le_word (load_bytes (\<lambda>_. 0 :: u8) 4 4) = (0 :: u32)" by code_simp
  ultimately show "inst_fetch 0x80000004 4 (mbus (demo_mach w)) = Inr (0, 0x80000008, mbus (demo_mach w))"
    by (subst fetch_pmem) (simp_all add: in_pmem_def guest_to_host_def mem)
qed

theorem isa_exec_once_correct_witness:
  "bindR (isa_exec_once demo_decode (demo_mach (rv_encode (RAlu A_DIV 5 1 2)))) (\<lambda>(s', m'). Inr (xreg (arch_of (s_dnpc s') m') 5))
     = Inr 2"
proof -
  let ?i = "RAlu A_DIV 5 1 2" and ?m = "demo_mach (rv_encode (RAlu A_DIV 5 1 2))"
  have "host_defined ?i (arch_of (s_pc demo_decode) ?m)"
    by (simp add: host_defined_def demo_mach_def)
  from isa_exec_once_correct[OF demo_mach_facts(1-3) this]
  have "bindR (isa_exec_once demo_decode ?m) (\<lambda>(s', m'). Inr (arch_of (s_dnpc s') m')) =
      rv_step ?i (arch_of (s_pc demo_decode) ?m)" by simp
  then have "bindR (bindR (isa_exec_once demo_decode ?m) (\<lambda>(s', m'). Inr (arch_of (s_dnpc s') m'))) (\<lambda>a. Inr (xreg a 5)) =
      bindR (rv_step ?i (arch_of (s_pc demo_decode) ?m)) (\<lambda>a. Inr (xreg a 5))" by simp
  moreover have "bindR (rv_step ?i (arch_of (s_pc demo_decode) ?m)) (\<lambda>a. Inr (xreg a 5)) = Inr 2"
    by (simp add: demo_mach_def xset_def advance_def)
  ultimately show ?thesis by (simp add: bindR_assoc split_def)
qed

theorem register_file_invariant_witness:
  "\<exists>s' m'. isa_exec_once demo_decode (demo_mach (rv_encode (RJal 0 8))) = Inr (s', m') \<and> cpu_ok (cpu m')"
proof -
  let ?i = "RJal 0 8" and ?m = "demo_mach (rv_encode (RJal 0 8))"
  have "host_defined ?i (arch_of (s_pc demo_decode) ?m)" by (simp add: host_defined_def)
  from isa_exec_once_spec[OF demo_mach_facts(1-3) this]
  obtain s' m' where r: "isa_exec_once demo_decode ?m = Inr (s', m')"
    by (cases "isa_exec_once demo_decode ?m") auto
  from register_file_invariant[OF demo_mach_facts(1) r] r show ?thesis by blast
qed

theorem invalid_instruction_aborts_witness:
  "\<exists>s'. isa_exec_once demo_decode (demo_mach 0) =
     Inr (s', demo_mach 0\<lparr>mbus := set_nemu_state NEMU_ABORT 0x80000000 (- 1) (mbus (demo_mach 0))\<rparr>) \<and> s_dnpc s' = 0x80000004"
proof -
  have "list_all (\<lambda>(p, x). \<not> match_from 0 (pat_bits p) 0) (butlast rv_table)" by code_simp
  then have no: "\<forall>(p, x) \<in> set (butlast rv_table). \<not> pat_matches p (0 :: u32)"
    by (auto simp: list_all_iff pat_matches_bits bits_match_code)
  have pc: "s_pc demo_decode = 0x80000000" by (simp add: demo_decode_def)
  from invalid_instruction_aborts[OF demo_mach_facts(1-3) no demo_mach_facts(3,4)]
  show ?thesis unfolding pc by simp
qed

theorem division_undefined_witness:
  "\<exists>e. isa_exec_once demo_decode (demo_mach (rv_encode (RAlu A_REMU 5 1 3))) = Inl (Undef e)"
proof (rule division_undefined[OF demo_mach_facts(1-3)])
  show "\<not> host_defined (RAlu A_REMU 5 1 3) (arch_of (s_pc demo_decode) (demo_mach (rv_encode (RAlu A_REMU 5 1 3))))"
    by (simp add: host_defined_def demo_mach_def)
qed

end
