(* ===== verification/ExprProps.thy ===== *)
theory ExprProps
  imports Expr
begin

text \<open>
  Correctness of the expression evaluator. Expressions are trees with C's binary operators; a
  tree is printed with the parentheses that the precedence of C needs (left associative,
  a leading unary operator in a left operand is parenthesised, because a unary operator at the
  start takes everything to its right). Tokenizing and evaluating the print gives the value of
  the tree.
\<close>

section \<open>Expressions and their values\<close>

datatype bin = BAdd | BSub | BMul | BDiv | BEq | BNe | BAnd | BOr
datatype un = UPos | UNeg | UDeref

text \<open>\<open>APar\<close> is an operand in parentheses that its place does not need.\<close>

datatype ast = ANum string | AHex string | AReg string | APar ast | AUn un ast | ABin bin ast ast

fun bin_type :: "bin \<Rightarrow> token_type" where
  "bin_type BAdd = TK_CHAR CHR ''+''" | "bin_type BSub = TK_CHAR CHR ''-''" | "bin_type BMul = TK_CHAR CHR ''*''"
| "bin_type BDiv = TK_CHAR CHR ''/''" | "bin_type BEq = TK_EQ" | "bin_type BNe = TK_NOEQ"
| "bin_type BAnd = TK_AND" | "bin_type BOr = TK_OR"

fun un_type :: "un \<Rightarrow> token_type" where
  "un_type UPos = TK_POS" | "un_type UNeg = TK_NEG" | "un_type UDeref = TK_DEREF"

fun bin_val :: "bin \<Rightarrow> u32 \<Rightarrow> u32 \<Rightarrow> u32 option" where
  "bin_val BAdd a b = Some (a + b)" | "bin_val BSub a b = Some (a - b)" | "bin_val BMul a b = Some (a * b)"
| "bin_val BDiv a b = (if b = 0 then None else Some (a div b))"
| "bin_val BEq a b = Some (if a = b then 1 else 0)" | "bin_val BNe a b = Some (if a = b then 0 else 1)"
| "bin_val BAnd a b = Some (if a \<noteq> 0 \<and> b \<noteq> 0 then 1 else 0)"
| "bin_val BOr a b = Some (if a \<noteq> 0 \<or> b \<noteq> 0 then 1 else 0)"

text \<open>A value exists when numbers fit, registers exist, divisors are not 0 and reads stay in pmem.\<close>

definition mem_val :: "bus \<Rightarrow> u32 \<Rightarrow> u32 option" where
  "mem_val b addr = (if in_pmem addr then case pmem_read addr 4 b of Inr v \<Rightarrow> Some v | Inl _ \<Rightarrow> None else None)"

fun un_val :: "un \<Rightarrow> bus \<Rightarrow> u32 \<Rightarrow> u32 option" where
  "un_val UPos b v = Some v" | "un_val UNeg b v = Some (- v)" | "un_val UDeref b v = mem_val b v"

definition number_val :: "int \<Rightarrow> string \<Rightarrow> u32 option" where
  "number_val base ds = (if digits_val base ds < 2 ^ 32 then Some (of_int (digits_val base ds)) else None)"

fun ast_val :: "cpu_state \<Rightarrow> bus \<Rightarrow> ast \<Rightarrow> u32 option" where
  "ast_val c b (ANum ds) = number_val 10 ds"
| "ast_val c b (AHex ds) = number_val 16 ds"
| "ast_val c b (AReg r) = (case isa_reg_str2val (CHR ''$'' # r) c of Inr (v, True) \<Rightarrow> Some v | _ \<Rightarrow> None)"
| "ast_val c b (APar t) = ast_val c b t"
| "ast_val c b (AUn u t) = Option.bind (ast_val c b t) (un_val u b)"
| "ast_val c b (ABin o' t1 t2) =
     Option.bind (ast_val c b t1) (\<lambda>v1. Option.bind (ast_val c b t2) (\<lambda>v2. bin_val o' v1 v2))"

section \<open>Printing\<close>

text \<open>
  The precedence of C's binary operators, as the clauses of the standard order them (C11, 6.5.5
  multiplicative, 6.5.6 additive, 6.5.9 equality, 6.5.13 logical and, 6.5.14 logical or): an operator of
  an earlier clause binds tighter. The table of expr.c, \<open>op_priority\<close>, has no part in it.
\<close>

fun bin_prio :: "bin \<Rightarrow> nat" where
  "bin_prio BMul = 5" | "bin_prio BDiv = 5" | "bin_prio BAdd = 6" | "bin_prio BSub = 6"
| "bin_prio BEq = 9" | "bin_prio BNe = 9" | "bin_prio BAnd = 13" | "bin_prio BOr = 14"

fun prio :: "ast \<Rightarrow> nat" where
  "prio (ABin o' t1 t2) = bin_prio o'"
| "prio _ = 0"

fun is_un :: "ast \<Rightarrow> bool" where
  "is_un (AUn u t) \<longleftrightarrow> True"
| "is_un _ \<longleftrightarrow> False"

fun is_bin :: "ast \<Rightarrow> bool" where
  "is_bin (ABin o' t1 t2) \<longleftrightarrow> True"
| "is_bin _ \<longleftrightarrow> False"

fun is_par :: "ast \<Rightarrow> bool" where
  "is_par (APar t) \<longleftrightarrow> True"
| "is_par _ \<longleftrightarrow> False"

definition op_token :: "token_type \<Rightarrow> token" where
  "op_token ty = \<lparr>tok_type = ty, tok_str = []\<rparr>"

abbreviation "LP \<equiv> TK_CHAR CHR ''(''"
abbreviation "RP \<equiv> TK_CHAR CHR '')''"

definition wrap :: "bool \<Rightarrow> token list \<Rightarrow> token list" where
  "wrap w ts = (if w then op_token LP # ts @ [op_token RP] else ts)"

fun print_ast :: "ast \<Rightarrow> token list" where
  "print_ast (ANum ds) = [\<lparr>tok_type = TK_NUM, tok_str = ds\<rparr>]"
| "print_ast (AHex ds) = [\<lparr>tok_type = TK_HEXNUM, tok_str = ''0x'' @ ds\<rparr>]"
| "print_ast (AReg r) = [\<lparr>tok_type = TK_REG, tok_str = CHR ''$'' # r\<rparr>]"
| "print_ast (APar t) = wrap True (print_ast t)"
| "print_ast (AUn u t) = op_token (un_type u) # wrap (is_bin t) (print_ast t)"
| "print_ast (ABin o' t1 t2) =
     wrap (prio t1 > bin_prio o' \<or> is_un t1) (print_ast t1) @ [op_token (bin_type o')] @
     wrap (prio t2 \<ge> bin_prio o') (print_ast t2)"

definition types_of :: "ast \<Rightarrow> token_type list" where
  "types_of t = map tok_type (print_ast t)"

definition wrap_types :: "bool \<Rightarrow> token_type list \<Rightarrow> token_type list" where
  "wrap_types w ts = (if w then LP # ts @ [RP] else ts)"

lemma types_of_simps [simp]:
  "types_of (ANum ds) = [TK_NUM]" "types_of (AHex ds) = [TK_HEXNUM]" "types_of (AReg r) = [TK_REG]"
  "types_of (APar t) = wrap_types True (types_of t)"
  "types_of (AUn u t) = un_type u # wrap_types (is_bin t) (types_of t)"
  "types_of (ABin o' t1 t2) = wrap_types (prio t1 > bin_prio o' \<or> is_un t1) (types_of t1) @ [bin_type o'] @
     wrap_types (prio t2 \<ge> bin_prio o') (types_of t2)"
  by (simp_all add: types_of_def wrap_def wrap_types_def op_token_def)

section \<open>The loops over lists of token types\<close>

fun pl :: "token_type list \<Rightarrow> int \<Rightarrow> bool" where
  "pl [] n \<longleftrightarrow> n = 0"
| "pl (t # ts) n \<longleftrightarrow>
     (let n' = (if t = LP then n + 1 else if t = RP then n - 1 else n)
      in if n' = 0 \<and> ts \<noteq> [] then False else pl ts n')"

fun dl :: "token_type list \<Rightarrow> int \<Rightarrow> int \<Rightarrow> int \<Rightarrow> nat \<Rightarrow> int" where
  "dl [] i n op pri = op"
| "dl (t # ts) i n op pri =
     (let n1 = (if t = LP then n + 1 else n); n2 = (if t = RP then n1 - 1 else n1); cur = op_priority t
      in if n2 \<noteq> 0 then dl ts (i + 1) n2 op pri
         else if cur = 0 then dl ts (i + 1) n2 op pri
         else if cur > 2 \<and> cur \<ge> pri then dl ts (i + 1) n2 i cur
         else if cur \<le> 2 \<and> pri \<le> 2 then i
         else dl ts (i + 1) n2 op pri)"

lemma parens_loop_pl: "parens_loop toks [p..q] q n \<longleftrightarrow> pl (map (type_at toks) [p..q]) n"
proof (induction p q arbitrary: n rule: upto.induct)
  case (1 p q)
  show ?case
  proof (cases "p \<le> q")
    case True
    have "[p + 1..q] \<noteq> [] \<longleftrightarrow> p < q" by (simp add: upto_Nil2 not_le)
    then show ?thesis using 1[OF True] True by (simp add: upto_rec1[of p q] Let_def)
  qed simp
qed

lemma dominant_loop_dl: "dominant_loop toks [p..q] n op pri = dl (map (type_at toks) [p..q]) p n op pri"
proof (induction p q arbitrary: n op pri rule: upto.induct)
  case (1 p q)
  show ?case
  proof (cases "p \<le> q")
    case True
    then show ?thesis using 1[OF True] by (simp only: upto_rec1 list.map dominant_loop.simps dl.simps Let_def)
  qed simp
qed

subsection \<open>Parenthesised segments\<close>

definition skipped :: "token_type list \<Rightarrow> bool" where
  "skipped ts \<longleftrightarrow> (\<forall>n \<ge> 1. \<forall>rest. pl (ts @ rest) n = pl rest n) \<and>
     (\<forall>n \<ge> 1. \<forall>rest i op pri. dl (ts @ rest) i n op pri = dl rest (i + int (length ts)) n op pri)"

lemma skipped_append: "skipped a \<Longrightarrow> skipped b \<Longrightarrow> skipped (a @ b)"
  by (simp add: skipped_def add.assoc)

lemma skipped_token: "t \<noteq> LP \<Longrightarrow> t \<noteq> RP \<Longrightarrow> skipped [t]"
  by (simp add: skipped_def)

lemma skipped_paren: "skipped a \<Longrightarrow> skipped (LP # a @ [RP])"
  by (simp add: skipped_def Let_def ac_simps)

lemma skipped_wrap: "skipped a \<Longrightarrow> skipped (wrap_types w a)"
  by (simp add: wrap_types_def skipped_paren)

lemma op_types_no_paren: "bin_type o' \<noteq> LP" "bin_type o' \<noteq> RP" "un_type u \<noteq> LP" "un_type u \<noteq> RP"
  by (cases o'; simp; fail | cases u; simp; fail)+

lemma skipped_types: "skipped (types_of t)"
proof (induction t)
  case (APar t)
  then show ?case by (simp add: skipped_wrap)
next
  case (AUn u t)
  then show ?case
    using skipped_append[OF skipped_token skipped_wrap, OF op_types_no_paren(3,4) AUn] by simp
next
  case (ABin o' t1 t2)
  then show ?case unfolding types_of_simps
    by (intro skipped_append skipped_token skipped_wrap op_types_no_paren)
qed (simp_all add: skipped_token)

text \<open>A parenthesised segment at depth 0 is not the whole expression when something follows.\<close>

definition closes :: "token_type list \<Rightarrow> bool" where
  "closes ts \<longleftrightarrow> (\<forall>rest. rest \<noteq> [] \<longrightarrow> \<not> pl (ts @ rest) 0)"

lemma closes_append: "closes a \<Longrightarrow> closes (a @ b)"
  by (simp add: closes_def)

lemma closes_token: "t \<noteq> LP \<Longrightarrow> t \<noteq> RP \<Longrightarrow> closes (t # a)"
  by (simp add: closes_def)

lemma closes_paren: "skipped a \<Longrightarrow> closes (LP # a @ [RP])"
  by (simp add: closes_def skipped_def)

lemma closes_types: "closes (types_of t)"
proof (induction t)
  case (APar t)
  then show ?case using closes_paren[OF skipped_types[of t]] by (simp add: wrap_types_def)
next
  case (AUn u t)
  then show ?case by (simp add: closes_token op_types_no_paren)
next
  case (ABin o' t1 t2)
  have "closes (wrap_types w (types_of t1))" for w
    using ABin(1) closes_paren[OF skipped_types] by (simp add: wrap_types_def)
  then show ?case unfolding types_of_simps by (rule closes_append)
qed (simp_all add: closes_token)

subsection \<open>The dominant operator of a printed tree\<close>

lemma bin_prio_ge: "3 \<le> bin_prio o'" "3 \<le> op_priority (bin_type o')"
  by (cases o'; simp)+

text \<open>The priorities of expr.c order the operators as C does.\<close>

lemma op_priority_order: "op_priority (bin_type o1) \<le> op_priority (bin_type o2) \<longleftrightarrow> bin_prio o1 \<le> bin_prio o2"
  by (cases o1; cases o2) simp_all

definition root_prio :: "ast \<Rightarrow> nat" where
  "root_prio t = (case t of ABin o' t1 t2 \<Rightarrow> op_priority (bin_type o') | _ \<Rightarrow> 0)"

lemma root_prio_simps [simp]:
  "root_prio (ANum ds) = 0" "root_prio (AHex ds) = 0" "root_prio (AReg r) = 0" "root_prio (APar t) = 0"
  "root_prio (AUn u t) = 0" "root_prio (ABin o' t1 t2) = op_priority (bin_type o')"
  by (simp_all add: root_prio_def)

lemma root_prio_order: "root_prio t \<le> op_priority (bin_type o') \<longleftrightarrow> prio t \<le> bin_prio o'"
  "root_prio t < op_priority (bin_type o') \<longleftrightarrow> prio t < bin_prio o'"
  using bin_prio_ge[of o'] op_priority_order
  by (cases t; simp; fail | cases t; simp add: not_le[symmetric]; fail)+

lemma un_prio: "1 \<le> op_priority (un_type u) \<and> op_priority (un_type u) \<le> 2"
  by (cases u) simp_all

text \<open>The loop at depth 0 leaves its state over a segment.\<close>

definition transparent :: "nat \<Rightarrow> token_type list \<Rightarrow> bool" where
  "transparent pri ts \<longleftrightarrow> (\<forall>rest i op. dl (ts @ rest) i 0 op pri = dl rest (i + int (length ts)) 0 op pri)"

lemma transparent_append: "transparent pri a \<Longrightarrow> transparent pri b \<Longrightarrow> transparent pri (a @ b)"
  by (simp add: transparent_def add.assoc)

lemma transparent_paren: "skipped a \<Longrightarrow> transparent pri (LP # a @ [RP])"
  by (simp add: transparent_def skipped_def Let_def ac_simps)

lemma transparent_atom: "t \<noteq> LP \<Longrightarrow> t \<noteq> RP \<Longrightarrow> op_priority t = 0 \<Longrightarrow> transparent pri [t]"
  by (simp add: transparent_def)

lemma transparent_weak:
  "t \<noteq> LP \<Longrightarrow> t \<noteq> RP \<Longrightarrow> op_priority t < pri \<Longrightarrow> 2 < pri \<Longrightarrow> transparent pri [t]"
  by (auto simp: transparent_def Let_def)

lemma transparent_wrap: "\<not> w \<longrightarrow> transparent pri (types_of t) \<Longrightarrow> transparent pri (wrap_types w (types_of t))"
  by (cases w) (simp_all add: wrap_types_def transparent_paren[OF skipped_types])

text \<open>A right operand whose operators bind tighter does not change the choice.\<close>

lemma transparent_types: "2 < pri \<Longrightarrow> root_prio t < pri \<Longrightarrow> transparent pri (types_of t)"
proof (induction t)
  case (APar t)
  then show ?case using transparent_paren[OF skipped_types[of t]] by (simp add: wrap_types_def)
next
  case (AUn u t)
  have "transparent pri ([un_type u] @ wrap_types (is_bin t) (types_of t))"
    using AUn un_prio[of u]
    by (intro transparent_append transparent_weak transparent_wrap op_types_no_paren impI) (cases t; simp)+
  then show ?case by simp
next
  case (ABin o' t1 t2)
  have le: "root_prio t1 \<le> op_priority (bin_type o')" if "\<not> prio t1 > bin_prio o'" using that root_prio_order(1) by simp
  have less: "root_prio t2 < op_priority (bin_type o')" if "\<not> prio t2 \<ge> bin_prio o'" using that root_prio_order(2) by simp
  show ?case unfolding types_of_simps
    by (intro transparent_append transparent_weak transparent_wrap op_types_no_paren impI ABin.IH)
      (use ABin.prems le less in fastforce)+
qed (simp_all add: transparent_atom)

text \<open>From the start, a tree that does not begin with a unary operator is cut at its root.\<close>

lemma dl_root:
  assumes "\<not> is_un t"
  shows "dl (types_of t @ rest) p 0 (- 1) 0 =
    (case t of ABin o' t1 t2 \<Rightarrow>
       dl rest (p + int (length (types_of t))) 0
         (p + int (length (wrap_types (prio t1 > bin_prio o' \<or> is_un t1) (types_of t1)))) (op_priority (bin_type o'))
     | _ \<Rightarrow> dl rest (p + int (length (types_of t))) 0 (- 1) 0)"
  using assms
proof (induction t arbitrary: rest)
  case (APar t)
  then show ?case using transparent_paren[OF skipped_types[of t], of 0] by (simp add: wrap_types_def transparent_def)
next
  case (ABin o' t1 t2)
  let ?w = "prio t1 > bin_prio o' \<or> is_un t1"
  let ?A = "wrap_types ?w (types_of t1)" and ?B = "wrap_types (prio t2 \<ge> bin_prio o') (types_of t2)"
  let ?pri = "op_priority (bin_type o')"
  have b: "transparent ?pri ?B"
    using bin_prio_ge[of o'] by (intro transparent_wrap impI transparent_types) (auto simp: root_prio_order)
  have root: "dl ([bin_type o'] @ ?B @ rest) (p + int (length ?A)) 0 op pri =
      dl rest (p + int (length ?A) + 1 + int (length ?B)) 0 (p + int (length ?A)) ?pri"
    if "pri \<le> ?pri" for op pri
    using that bin_prio_ge[of o'] b op_types_no_paren(1,2)[of o']
    by (simp add: transparent_def Let_def)
  have "\<exists>op pri. dl (?A @ [bin_type o'] @ ?B @ rest) p 0 (- 1) 0 =
      dl ([bin_type o'] @ ?B @ rest) (p + int (length ?A)) 0 op pri \<and> pri \<le> ?pri"
  proof (cases ?w)
    case True
    then have "transparent 0 ?A" by (intro transparent_wrap) simp
    then show ?thesis by (intro exI[of _ "- 1"] exI[of _ 0]) (simp add: transparent_def)
  next
    case False
    then have "?A = types_of t1" by (simp add: wrap_types_def)
    moreover have "op_priority (bin_type o'') \<le> ?pri" if "t1 = ABin o'' x y" for o'' x y
      using False that op_priority_order[of o'' o'] by simp
    ultimately show ?thesis using ABin.IH(1)[of "[bin_type o'] @ ?B @ rest"] False
      by (cases t1) (fastforce simp del: types_of_simps)+
  qed
  then show ?case using root by (auto simp: ac_simps)
qed (auto simp: Let_def)

section \<open>Evaluation of a slice\<close>

definition slice :: "token list \<Rightarrow> int \<Rightarrow> token list \<Rightarrow> bool" where
  "slice toks p ts \<longleftrightarrow> 0 \<le> p \<and> (\<exists>post. drop (nat p) toks = ts @ post)"

lemma slice_append: "slice toks p (a @ b) \<longleftrightarrow> slice toks p a \<and> slice toks (p + int (length a)) b"
proof -
  have d: "0 \<le> p \<Longrightarrow> drop (nat (p + int (length a))) toks = drop (length a) (drop (nat p) toks)"
    by (simp add: nat_add_distrib add.commute)
  show ?thesis
    unfolding slice_def by (auto simp: d)
qed

lemma slice_Cons: "slice toks p (t # ts) \<longleftrightarrow> slice toks p [t] \<and> slice toks (p + 1) ts"
  using slice_append[of toks p "[t]" ts] by simp

lemma slice_ConsD: "slice toks p (t # ts) \<Longrightarrow> slice toks p [t] \<and> slice toks (p + 1) ts"
  by (simp only: slice_Cons[of toks p t ts] simp_thms)

lemma slice_nth: "slice toks p ts \<Longrightarrow> i < length ts \<Longrightarrow> toks ! nat (p + int i) = ts ! i"
proof -
  assume s: "slice toks p ts" "i < length ts"
  then obtain post where d: "drop (nat p) toks = ts @ post" "0 \<le> p" by (auto simp: slice_def)
  then have "nat p \<le> length toks" using s(2) by (cases "nat p \<le> length toks") auto
  then have "toks ! (nat p + i) = drop (nat p) toks ! i" by simp
  then show ?thesis using d s(2) by (simp add: nat_add_distrib nth_append)
qed

lemma slice_token: "slice toks p [t] \<Longrightarrow> toks ! nat p = t"
  using slice_nth[of toks p "[t]" 0] by simp

lemma slice_types:
  assumes "slice toks p ts"
  shows "map (type_at toks) [p..p + int (length ts) - 1] = map tok_type ts"
  using assms
proof (induction ts arbitrary: p)
  case (Cons t ts)
  then have "slice toks p [t]" "slice toks (p + 1) ts" using slice_ConsD by blast+
  then show ?case
    using Cons.IH[of "p + 1"] by (simp add: upto_rec1 type_at_def slice_token add.commute add.left_commute)
qed simp

text \<open>The two loops on a slice.\<close>

lemma check_parentheses_slice:
  assumes "slice toks p ts" "ts \<noteq> []"
  shows "check_parentheses toks p (p + int (length ts) - 1) \<longleftrightarrow>
    tok_type (hd ts) = LP \<and> tok_type (last ts) = RP \<and> pl (map tok_type ts) 0"
proof -
  have "toks ! nat p = hd ts" using slice_nth[OF assms(1), of 0] assms(2) by (simp add: hd_conv_nth)
  moreover have "toks ! nat (p + int (length ts) - 1) = last ts"
    using slice_nth[OF assms(1), of "length ts - 1"] assms(2)
    by (cases ts) (simp_all add: last_conv_nth algebra_simps)
  ultimately show ?thesis
    unfolding check_parentheses_def parens_loop_pl slice_types[OF assms(1)] by (auto simp: type_at_def)
qed

lemma dominant_op_slice:
  "slice toks p ts \<Longrightarrow> dominant_op toks p (p + int (length ts) - 1) = dl (map tok_type ts) p 0 (- 1) 0"
  by (simp add: dominant_op_def dominant_loop_dl slice_types)

section \<open>The value of a printed tree\<close>

text \<open>What the tokenizer can produce as text of a leaf.\<close>

fun leaves_ok :: "ast \<Rightarrow> bool" where
  "leaves_ok (ANum ds) \<longleftrightarrow> ds \<noteq> [] \<and> list_all is_digit ds \<and> length ds < 32"
| "leaves_ok (AHex ds) \<longleftrightarrow> ds \<noteq> [] \<and> list_all is_xdigit ds \<and> length ds < 30"
| "leaves_ok (AReg r) \<longleftrightarrow> r \<noteq> [] \<and> length r < 31 \<and> list_all is_reg_char (if hd r = CHR ''$'' then tl r else r) \<and>
     (hd r = CHR ''$'' \<longrightarrow> tl r \<noteq> [])"
| "leaves_ok (APar t) \<longleftrightarrow> leaves_ok t"
| "leaves_ok (AUn u t) \<longleftrightarrow> leaves_ok t"
| "leaves_ok (ABin o' t1 t2) \<longleftrightarrow> leaves_ok t1 \<and> leaves_ok t2"

lemma takeWhile_all: "list_all P s \<Longrightarrow> takeWhile P s = s"
  by (simp add: list_all_iff takeWhile_eq_all_conv)

lemma scan_ok:
  "ds \<noteq> [] \<Longrightarrow> list_all P ds \<Longrightarrow> number_val base ds = Some v \<Longrightarrow> scan_digits base P ds num = Inr v"
  by (auto simp: scan_digits_def takeWhile_all number_val_def split: if_splits)

lemma print_ast_ne [simp]: "print_ast t \<noteq> []"
  by (cases t) (auto simp: wrap_def)

lemma check_parens_tree:
  assumes "slice toks p (print_ast t)" "1 < length (print_ast t)" "\<not> is_par t"
  shows "\<not> check_parentheses toks p (p + int (length (print_ast t)) - 1)"
proof (cases t)
  case (AUn u t')
  then show ?thesis
    using check_parentheses_slice[OF assms(1)] op_types_no_paren(3) by (simp add: op_token_def)
next
  case (ABin o' t1 t2)
  have "closes (wrap_types w (types_of t1))" for w
    using closes_types closes_paren[OF skipped_types] by (simp add: wrap_types_def)
  then have "\<not> pl (types_of t) 0" unfolding ABin types_of_simps closes_def by simp
  then show ?thesis using check_parentheses_slice[OF assms(1)] by (simp add: types_of_def)
qed (use assms in simp_all)

lemma read_pmem: "mem_val b a = Some v \<Longrightarrow> vaddr_read a 4 b = Inr (v, b)"
  by (auto simp: mem_val_def vaddr_read_def paddr_read_def split: if_splits sum.splits)

lemma length_print: "length (types_of t) = length (print_ast t)"
  by (simp add: types_of_def)

lemma eval_wrap:
  assumes ev: "\<And>p. slice toks p (print_ast t) \<Longrightarrow>
      eval_tokens toks c p (p + int (length (print_ast t)) - 1) ok b = r"
    and sl: "slice toks p (wrap w (print_ast t))"
  shows "eval_tokens toks c p (p + int (length (wrap w (print_ast t))) - 1) ok b = r"
proof (cases w)
  case True
  let ?ts = "op_token LP # print_ast t @ [op_token RP]"
  have sl': "slice toks p ?ts" using sl True by (simp add: wrap_def)
  have "pl (types_of t @ [RP]) 1 = pl [RP] 1" using skipped_types[of t] by (simp add: skipped_def)
  then have "check_parentheses toks p (p + int (length ?ts) - 1)"
    by (subst check_parentheses_slice[OF sl']) (simp_all add: op_token_def types_of_def)
  moreover have "slice toks (p + 1) (print_ast t)"
    using slice_ConsD[OF sl'] slice_append by blast
  from ev[OF this] have "eval_tokens toks c (p + 1) (p + int (length ?ts) - 1 - 1) ok b = r"
    by (simp add: algebra_simps)
  ultimately have "eval_tokens toks c p (p + int (length ?ts) - 1) ok b = r"
    by (subst eval_tokens.simps) simp
  then show ?thesis using True by (simp add: wrap_def)
qed (use assms in \<open>simp add: wrap_def\<close>)

lemma eval_leaf_slice: "slice toks p [t] \<Longrightarrow> eval_tokens toks c p (p + int (length [t]) - 1) ok b = eval_leaf t c ok b"
  by (subst eval_tokens.simps) (simp add: slice_token)

lemma eval_bin_step:
  assumes "p < q" "\<not> check_parentheses toks p q" "dominant_op toks p q = m" "m \<noteq> - 1" "\<not> is_unary (type_at toks m)"
    and "eval_tokens toks c p (m - 1) ok b = Inr (v1, ok1, b1)" "eval_tokens toks c (m + 1) q ok1 b1 = Inr (v2, ok2, b2)"
  shows "eval_tokens toks c p q ok b = eval_op (type_at toks m) v1 v2 ok2 b2"
  using assms by (subst eval_tokens.simps) simp

lemma eval_un_step:
  assumes "p < q" "\<not> check_parentheses toks p q" "dominant_op toks p q = p" "p \<noteq> - 1" "is_unary (type_at toks p)"
    and "eval_tokens toks c (p + 1) q ok b = Inr (v2, ok2, b2)"
  shows "eval_tokens toks c p q ok b = eval_op (type_at toks p) 0 v2 ok2 b2"
  using assms by (subst eval_tokens.simps) simp

lemma eval_print:
  assumes "leaves_ok t" "ast_val c b t = Some v" "slice toks p (print_ast t)"
  shows "eval_tokens toks c p (p + int (length (print_ast t)) - 1) True b = Inr (v, True, b)"
  using assms
proof (induction t arbitrary: p v)
  case (ANum ds)
  then show ?case
    using eval_leaf_slice[of toks p "\<lparr>tok_type = TK_NUM, tok_str = ds\<rparr>" c True b]
    by (simp add: eval_leaf_def scan_u_def scan_ok)
next
  case (AHex ds)
  then show ?case
    using eval_leaf_slice[of toks p "\<lparr>tok_type = TK_HEXNUM, tok_str = ''0x'' @ ds\<rparr>" c True b]
    by (simp add: eval_leaf_def scan_x_def scan_ok)
next
  case (AReg r)
  then show ?case
    using eval_leaf_slice[of toks p "\<lparr>tok_type = TK_REG, tok_str = CHR ''$'' # r\<rparr>" c True b]
    by (auto simp: eval_leaf_def split: sum.splits bool.splits)
next
  case (APar t)
  then show ?case using eval_wrap[of toks t c True b _ p True] by simp
next
  case (AUn u t)
  let ?q = "p + int (length (print_ast (AUn u t))) - 1"
  obtain v' where v': "ast_val c b t = Some v'" "un_val u b v' = Some v"
    using AUn.prems(2) by (auto simp: bind_eq_Some_conv)
  have sl: "slice toks p [op_token (un_type u)]" "slice toks (p + 1) (wrap (is_bin t) (print_ast t))"
    using slice_ConsD[OF AUn.prems(3)[unfolded print_ast.simps]] by simp_all
  have ev: "eval_tokens toks c (p + 1) ?q True b = Inr (v', True, b)"
    using eval_wrap[OF AUn.IH[OF _ v'(1)] sl(2)] AUn.prems(1) by (simp add: algebra_simps)
  have dom: "dominant_op toks p ?q = p"
    using dominant_op_slice[OF AUn.prems(3)] un_prio[of u] op_types_no_paren(3,4)[of u]
    by (simp add: op_token_def Let_def)
  have ty: "type_at toks p = un_type u" "is_unary (un_type u)"
    using slice_token[OF sl(1)] by (cases u; simp add: type_at_def op_token_def is_unary_def)+
  have "0 < length (wrap (is_bin t) (print_ast t))" by (simp add: wrap_def)
  then have "p < ?q" by simp
  moreover have "\<not> check_parentheses toks p ?q" "p \<noteq> - 1"
    using check_parens_tree[OF AUn.prems(3)] calculation sl(1) by (auto simp: slice_def)
  ultimately have "eval_tokens toks c p ?q True b = eval_op (un_type u) 0 v' True b"
    using eval_un_step[of p ?q toks c True b] dom ev ty by simp
  moreover have "eval_op (un_type u) 0 v' True b = Inr (v, True, b)"
    using v'(2) by (cases u) (auto simp: eval_op_def read_pmem)
  ultimately show ?case by simp
next
  case (ABin o' t1 t2)
  let ?A = "wrap (prio t1 > bin_prio o' \<or> is_un t1) (print_ast t1)" and ?B = "wrap (prio t2 \<ge> bin_prio o') (print_ast t2)"
  let ?q = "p + int (length (print_ast (ABin o' t1 t2))) - 1" and ?m = "p + int (length ?A)"
  obtain v1 v2 where v: "ast_val c b t1 = Some v1" "ast_val c b t2 = Some v2" "bin_val o' v1 v2 = Some v"
    using ABin.prems(2) by (auto simp: bind_eq_Some_conv)
  have sl: "slice toks p ?A" "slice toks ?m [op_token (bin_type o')]" "slice toks (?m + 1) ?B"
    using ABin.prems(3)[unfolded print_ast.simps slice_append] by (simp_all add: add.assoc)
  have ev: "eval_tokens toks c p (?m - 1) True b = Inr (v1, True, b)"
    "eval_tokens toks c (?m + 1) ?q True b = Inr (v2, True, b)"
    using eval_wrap[OF ABin.IH(1)[OF _ v(1)] sl(1)] eval_wrap[OF ABin.IH(2)[OF _ v(2)] sl(3)] ABin.prems(1)
    by (simp_all add: algebra_simps)
  have dom: "dominant_op toks p ?q = ?m"
    using dominant_op_slice[OF ABin.prems(3)] dl_root[of "ABin o' t1 t2" "[]" p]
    by (simp add: types_of_def wrap_types_def wrap_def)
  have ty: "type_at toks ?m = bin_type o'" "\<not> is_unary (bin_type o')"
    using slice_token[OF sl(2)] by (cases o'; simp add: type_at_def op_token_def is_unary_def)+
  have "0 < length ?A" "0 < length ?B" by (simp_all add: wrap_def)
  have np: "\<not> is_par (ABin o' t1 t2)" by simp
  have q: "p < ?q" "1 < length (print_ast (ABin o' t1 t2))"
    using \<open>0 < length ?A\<close> \<open>0 < length ?B\<close> by (simp_all only: print_ast.simps length_append)
  have "?m \<noteq> - 1" using sl(1) by (auto simp: slice_def)
  then have "eval_tokens toks c p ?q True b = eval_op (bin_type o') v1 v2 True b"
    using eval_bin_step[OF q(1) check_parens_tree[OF ABin.prems(3) q(2) np] dom _ _ ev] ty by simp
  moreover have "eval_op (bin_type o') v1 v2 True b = Inr (v, True, b)"
    using v(3) by (cases o') (auto simp: eval_op_def bool_u32_def split: if_splits)
  ultimately show ?case by simp
qed

section \<open>Tokenizing a print\<close>

definition lexeme :: "token \<Rightarrow> string" where
  "lexeme t = (case tok_type t of
     TK_CHAR c \<Rightarrow> [c] | TK_EQ \<Rightarrow> ''=='' | TK_NOEQ \<Rightarrow> ''!='' | TK_AND \<Rightarrow> ''&&'' | TK_OR \<Rightarrow> ''||''
   | TK_POS \<Rightarrow> ''+'' | TK_NEG \<Rightarrow> ''-'' | TK_DEREF \<Rightarrow> ''*'' | _ \<Rightarrow> tok_str t)"

text \<open>Each token is followed by some blanks.\<close>

fun render :: "(token \<times> nat) list \<Rightarrow> string" where
  "render [] = []"
| "render ((t, k) # ts) = lexeme t @ replicate k CHR '' '' @ render ts"

text \<open>The token as the tokenizer records it, before the unary operators are marked.\<close>

definition raw :: "token \<Rightarrow> token" where
  "raw t = t\<lparr>tok_type := (case tok_type t of TK_POS \<Rightarrow> TK_CHAR CHR ''+'' | TK_NEG \<Rightarrow> TK_CHAR CHR ''-''
     | TK_DEREF \<Rightarrow> TK_CHAR CHR ''*'' | ty \<Rightarrow> ty)\<rparr>"

definition plain_type :: "token_type \<Rightarrow> bool" where
  "plain_type ty \<longleftrightarrow> ty \<in> {TK_EQ, TK_NOEQ, TK_AND, TK_OR, TK_POS, TK_NEG, TK_DEREF, LP, RP,
     TK_CHAR CHR ''+'', TK_CHAR CHR ''-'', TK_CHAR CHR ''*'', TK_CHAR CHR ''/''}"

definition token_ok :: "token \<Rightarrow> bool" where
  "token_ok t \<longleftrightarrow> plain_type (tok_type t) \<and> tok_str t = [] \<or>
     (\<exists>ds. t = \<lparr>tok_type = TK_NUM, tok_str = ds\<rparr> \<and> leaves_ok (ANum ds)) \<or>
     (\<exists>ds. t = \<lparr>tok_type = TK_HEXNUM, tok_str = ''0x'' @ ds\<rparr> \<and> leaves_ok (AHex ds)) \<or>
     (\<exists>r. t = \<lparr>tok_type = TK_REG, tok_str = CHR ''$'' # r\<rparr> \<and> leaves_ok (AReg r))"

lemma token_ok_cases [consumes 1, case_names plain num hex reg]:
  assumes "token_ok t"
  obtains "plain_type (tok_type t)" "tok_str t = []"
  | ds where "t = \<lparr>tok_type = TK_NUM, tok_str = ds\<rparr>" "leaves_ok (ANum ds)"
  | ds where "t = \<lparr>tok_type = TK_HEXNUM, tok_str = ''0x'' @ ds\<rparr>" "leaves_ok (AHex ds)"
  | r where "t = \<lparr>tok_type = TK_REG, tok_str = CHR ''$'' # r\<rparr>" "leaves_ok (AReg r)"
  using assms unfolding token_ok_def by blast

text \<open>What may follow a lexeme: nothing that would make the match longer.\<close>

definition stops :: "string \<Rightarrow> bool" where
  "stops rest \<longleftrightarrow> (case rest of [] \<Rightarrow> True | c # _ \<Rightarrow> \<not> is_xdigit c \<and> \<not> is_reg_char c \<and> c \<noteq> CHR ''x'' \<and> c \<noteq> CHR ''X'')"

lemma takeWhile_stop: "list_all P s \<Longrightarrow> (case rest of [] \<Rightarrow> True | c # _ \<Rightarrow> \<not> P c) \<Longrightarrow> takeWhile P (s @ rest) = s"
  by (cases rest) (auto simp: list_all_iff takeWhile_append)

lemma digit_char: "is_digit c \<Longrightarrow> is_xdigit c \<and> is_reg_char c \<and> c \<noteq> CHR '' '' \<and> c \<noteq> CHR ''x'' \<and> c \<noteq> CHR ''X''"
  by (auto simp: is_digit_def is_xdigit_def is_reg_char_def in_range_def)

lemma find_num:
  assumes "ds \<noteq> []" "list_all is_digit ds" "stops rest"
  shows "find_rule rules (ds @ rest) = Some (length ds, TK_NUM)"
proof -
  obtain d ds' where ds: "ds = d # ds'" "is_digit d" using assms(1,2) by (cases ds) auto
  have "takeWhile is_digit (ds @ rest) = ds"
    using assms(2,3) digit_char by (intro takeWhile_stop) (auto simp: stops_def split: list.splits)
  moreover have "(case ds' @ rest of [] \<Rightarrow> True | c # _ \<Rightarrow> c \<noteq> CHR ''x'' \<and> c \<noteq> CHR ''X'')"
    using assms(2,3) digit_char ds by (cases ds') (auto simp: stops_def split: list.splits)
  moreover have "d \<noteq> CHR '' ''" using ds digit_char by auto
  ultimately show ?thesis using ds by (auto simp: rules_def Let_def split: list.splits)
qed

lemma find_hex:
  assumes "ds \<noteq> []" "list_all is_xdigit ds" "stops rest"
  shows "find_rule rules (''0x'' @ ds @ rest) = Some (2 + length ds, TK_HEXNUM)"
proof -
  have "takeWhile is_xdigit (ds @ rest) = ds"
    using assms by (intro takeWhile_stop) (auto simp: stops_def split: list.splits)
  then show ?thesis using assms(1) by (simp add: rules_def Let_def)
qed

lemma find_reg:
  assumes "leaves_ok (AReg r)" "stops rest"
  shows "find_rule rules ((CHR ''$'' # r) @ rest) = Some (Suc (length r), TK_REG)"
proof -
  have tw: "takeWhile is_reg_char (s @ rest) = s" if "list_all is_reg_char s" for s
    using that assms(2) by (intro takeWhile_stop) (auto simp: stops_def split: list.splits)
  have d: "\<not> is_digit CHR ''$''" "\<not> is_reg_char CHR ''$''"
    by (simp_all add: is_digit_def is_reg_char_def in_range_def)
  obtain x r' where r: "r = x # r'" using assms(1) by (cases r) auto
  show ?thesis
  proof (cases "x = CHR ''$''")
    case True
    then have "takeWhile is_reg_char (r' @ rest) = r'" "r' \<noteq> []" using assms(1) r tw by auto
    then show ?thesis using True r d by (simp add: rules_def Let_def)
  next
    case False
    then have "takeWhile is_reg_char (x # r' @ rest) = r" using assms(1) r tw[of r] by auto
    then show ?thesis using False r d by (simp add: rules_def Let_def)
  qed
qed

lemma find_plain:
  assumes "plain_type (tok_type t)" "tok_str t = []"
  shows "find_rule rules (lexeme t @ rest) = Some (length (lexeme t), tok_type (raw t)) \<and> raw t = op_token (tok_type (raw t)) \<and>
    \<not> keeps_text (tok_type (raw t)) \<and> tok_type (raw t) \<noteq> TK_NOTYPE \<and> length (lexeme t) < 32 \<and> lexeme t \<noteq> []"
  using assms
  by (cases t) (auto simp: plain_type_def lexeme_def raw_def rules_def lit_def op_token_def keeps_text_def
      is_digit_def in_range_def)

lemma find_token:
  assumes "token_ok t" "keeps_text (tok_type t) \<Longrightarrow> stops rest"
  shows "find_rule rules (lexeme t @ rest) = Some (length (lexeme t), tok_type (raw t)) \<and>
    tok_type (raw t) \<noteq> TK_NOTYPE \<and> length (lexeme t) < 32 \<and> lexeme t \<noteq> [] \<and>
    raw t = \<lparr>tok_type = tok_type (raw t), tok_str = (if keeps_text (tok_type (raw t)) then lexeme t else [])\<rparr>"
  using assms(1)
proof (cases rule: token_ok_cases)
  case plain
  then show ?thesis using find_plain[of t rest] by (simp add: op_token_def)
next
  case (num ds)
  then have "stops rest" using assms(2) by (simp add: keeps_text_def)
  then show ?thesis using find_num[of ds rest] num by (simp add: lexeme_def raw_def keeps_text_def)
next
  case (hex ds)
  then have "stops rest" using assms(2) by (simp add: keeps_text_def)
  then show ?thesis using find_hex[of ds rest] hex by (simp add: lexeme_def raw_def keeps_text_def)
next
  case (reg r)
  then have "stops rest" using assms(2) by (simp add: keeps_text_def)
  then show ?thesis using find_reg[of r rest] reg by (simp add: lexeme_def raw_def keeps_text_def)
qed

lemma find_blank:
  assumes "rest = [] \<or> hd rest \<noteq> CHR '' ''"
  shows "find_rule rules (replicate (Suc k) CHR '' '' @ rest) = Some (Suc k, TK_NOTYPE)"
proof -
  have "takeWhile ((=) CHR '' '') (replicate (Suc k) CHR '' '' @ rest) = replicate (Suc k) CHR '' ''"
    using assms by (intro takeWhile_stop) (auto simp: list_all_iff split: list.splits)
  then show ?thesis by (simp add: rules_def Let_def)
qed

text \<open>Two tokens with text are separated by a blank or by another token.\<close>

fun sep_ok :: "(token \<times> nat) list \<Rightarrow> bool" where
  "sep_ok ((t, k) # (t', k') # ts) \<longleftrightarrow>
     (keeps_text (tok_type t) \<and> keeps_text (tok_type t') \<longrightarrow> 0 < k) \<and> sep_ok ((t', k') # ts)"
| "sep_ok _ \<longleftrightarrow> True"

lemma lexeme_hd:
  assumes "token_ok t"
  shows "hd (lexeme t) \<noteq> CHR '' '' \<and> lexeme t \<noteq> []"
  using assms
proof (cases rule: token_ok_cases)
  case (num ds)
  then show ?thesis using digit_char by (cases ds) (auto simp: lexeme_def)
qed (auto simp: plain_type_def lexeme_def)

lemma plain_stops: "plain_type (tok_type t) \<Longrightarrow> stops (lexeme t @ rest)"
  by (auto simp: plain_type_def lexeme_def stops_def is_xdigit_def is_reg_char_def is_digit_def in_range_def)

lemma render_hd: "\<forall>(t, k) \<in> set ts. token_ok t \<Longrightarrow> render ts = [] \<or> hd (render ts) \<noteq> CHR '' ''"
  using lexeme_hd by (cases ts rule: render.cases) auto

lemma text_or_plain: "token_ok t \<Longrightarrow> keeps_text (tok_type t) \<or> plain_type (tok_type t)"
  by (erule token_ok_cases) (auto simp: keeps_text_def)

lemma stops_render:
  assumes "sep_ok ((t, k) # ts)" "\<forall>(t, k) \<in> set ts. token_ok t" "keeps_text (tok_type t)"
  shows "stops (replicate k CHR '' '' @ render ts)"
proof (cases k)
  case 0
  show ?thesis
  proof (cases ts rule: render.cases)
    case (2 t' k' ts')
    then have "plain_type (tok_type t')" using assms 0 text_or_plain[of t'] by auto
    then show ?thesis using 0 2 plain_stops by simp
  qed (simp add: 0 stops_def)
qed (simp add: stops_def is_xdigit_def is_reg_char_def is_digit_def in_range_def)

lemma tokenize_render:
  assumes "\<forall>(t, k) \<in> set ts. token_ok t \<and> k < 32" "sep_ok ts" "length acc + length ts < 1024"
  shows "make_token_loop (render ts) acc = Inr (True, rev acc @ map (raw o fst) ts)"
  using assms
proof (induction ts arbitrary: acc rule: render.induct)
  case 1
  then show ?case by (simp add: make_token_loop.simps)
next
  case (2 t k ts)
  let ?rest = "replicate k CHR '' '' @ render ts"
  have ok: "token_ok t" "\<forall>(t, k) \<in> set ts. token_ok t" "\<forall>(t, k) \<in> set ts. token_ok t \<and> k < 32" "k < 32"
    using 2(2) by auto
  have sep: "sep_ok ts" using 2(3) by (cases ts rule: render.cases) auto
  note f = find_token[OF ok(1) stops_render[OF 2(3) ok(2)]]
  have step: "make_token_loop (lexeme t @ ?rest) acc = make_token_loop ?rest (raw t # acc)"
    using f 2(4) by (subst make_token_loop.simps) auto
  have blanks: "make_token_loop ?rest (raw t # acc) = make_token_loop (render ts) (raw t # acc)"
  proof (cases k)
    case (Suc j)
    then show ?thesis
      using find_blank[OF render_hd[OF ok(2)], of j] ok(4) 2(4)
      by (subst make_token_loop.simps) (simp add: Suc del: replicate_Suc)
  qed simp
  show ?case using step blanks 2(1)[OF ok(3) sep, of "raw t # acc"] 2(4) by simp
qed

section \<open>The unary operators of a print\<close>

lemma raw_simps [simp]:
  "raw \<lparr>tok_type = TK_NUM, tok_str = s\<rparr> = \<lparr>tok_type = TK_NUM, tok_str = s\<rparr>"
  "raw \<lparr>tok_type = TK_HEXNUM, tok_str = s\<rparr> = \<lparr>tok_type = TK_HEXNUM, tok_str = s\<rparr>"
  "raw \<lparr>tok_type = TK_REG, tok_str = s\<rparr> = \<lparr>tok_type = TK_REG, tok_str = s\<rparr>"
  "raw (op_token LP) = op_token LP" "raw (op_token RP) = op_token RP"
  "raw (op_token (bin_type o')) = op_token (bin_type o')"
  by (simp_all add: raw_def op_token_def) (cases o'; simp)

definition opens :: "token_type option \<Rightarrow> bool" where
  "opens prev \<longleftrightarrow> (case prev of None \<Rightarrow> True | Some ty \<Rightarrow> \<not> operand_end ty)"

lemma mark_first:
  "opens prev \<Longrightarrow> mark_unary prev (t # ts) =
     t\<lparr>tok_type := unary_type (tok_type t)\<rparr> # mark_unary (Some (unary_type (tok_type t))) ts"
  by (cases prev) (simp_all add: opens_def)

lemma mark_keep: "operand_end ty \<Longrightarrow> mark_unary (Some ty) (t # ts) = t # mark_unary (Some (tok_type t)) ts"
  by simp

declare mark_unary.simps(2) [simp del]

lemma mark_wrap:
  assumes "\<And>prev rest. opens prev \<Longrightarrow>
      \<exists>ty. operand_end ty \<and> mark_unary prev (map raw ts @ rest) = ts @ mark_unary (Some ty) rest"
    and "opens prev"
  shows "\<exists>ty. operand_end ty \<and> mark_unary prev (map raw (wrap w ts) @ rest) = wrap w ts @ mark_unary (Some ty) rest"
proof (cases w)
  case True
  obtain ty where ty: "operand_end ty"
    "mark_unary (Some LP) (map raw ts @ op_token RP # rest) = ts @ mark_unary (Some ty) (op_token RP # rest)"
    using assms(1)[of "Some LP" "op_token RP # rest"] by (auto simp: opens_def operand_end_def)
  then have "mark_unary prev (map raw (wrap w ts) @ rest) = wrap w ts @ mark_unary (Some RP) rest"
    using True assms(2) by (simp add: wrap_def mark_first mark_keep op_token_def unary_type_def raw_def)
  then show ?thesis by (intro exI[of _ RP]) (simp add: operand_end_def)
qed (use assms in \<open>simp add: wrap_def\<close>)

lemma mark_print:
  "opens prev \<Longrightarrow> \<exists>ty. operand_end ty \<and> mark_unary prev (map raw (print_ast t) @ rest) = print_ast t @ mark_unary (Some ty) rest"
proof (induction t arbitrary: prev rest)
  case (APar t)
  then show ?case using mark_wrap[OF APar.IH APar.prems, of True rest] by simp
next
  case (AUn u t)
  have o: "opens (Some (un_type u))" by (cases u) (simp_all add: opens_def operand_end_def)
  have m: "mark_unary prev (raw (op_token (un_type u)) # ts) = op_token (un_type u) # mark_unary (Some (un_type u)) ts" for ts
    using AUn.prems by (cases u) (simp_all add: mark_first raw_def op_token_def unary_type_def)
  show ?case using mark_wrap[OF AUn.IH o, of "is_bin t" rest] by (auto simp: m)
next
  case (ABin o' t1 t2)
  let ?A = "wrap (prio t1 > bin_prio o' \<or> is_un t1) (print_ast t1)" and ?B = "wrap (prio t2 \<ge> bin_prio o') (print_ast t2)"
  have o: "opens (Some (bin_type o'))" by (cases o') (simp_all add: opens_def operand_end_def)
  obtain ty where ty: "operand_end ty" "mark_unary prev (map raw ?A @ op_token (bin_type o') # map raw ?B @ rest) =
      ?A @ mark_unary (Some ty) (op_token (bin_type o') # map raw ?B @ rest)"
    using mark_wrap[OF ABin.IH(1) ABin.prems, of _ "op_token (bin_type o') # map raw ?B @ rest"] by blast
  then have "mark_unary (Some ty) (op_token (bin_type o') # map raw ?B @ rest) =
      op_token (bin_type o') # mark_unary (Some (bin_type o')) (map raw ?B @ rest)"
    by (simp add: op_token_def mark_keep)
  with ty mark_wrap[OF ABin.IH(2) o, of "prio t2 \<ge> bin_prio o'" rest] show ?case by auto
qed (auto simp: mark_first unary_type_def operand_end_def)

section \<open>Every print can be tokenized\<close>

lemma plain_ops: "plain_type (bin_type o')" "plain_type (un_type u)" "plain_type LP" "plain_type RP"
  by (cases o'; simp add: plain_type_def; fail | cases u; simp add: plain_type_def; fail | simp add: plain_type_def; fail)+

lemma token_ok_op: "plain_type ty \<Longrightarrow> token_ok (op_token ty)"
  by (simp add: token_ok_def op_token_def)

lemma token_ok_wrap: "list_all token_ok ts \<Longrightarrow> list_all token_ok (wrap w ts)"
  by (simp add: wrap_def token_ok_op plain_ops)

lemma token_ok_print: "leaves_ok t \<Longrightarrow> list_all token_ok (print_ast t)"
proof (induction t)
  case (ANum ds)
  then show ?case by (simp add: token_ok_def)
next
  case (AHex ds)
  then show ?case by (simp add: token_ok_def)
next
  case (AReg r)
  then show ?case by (simp add: token_ok_def)
qed (simp_all add: token_ok_wrap token_ok_op plain_ops)

definition apart_tokens :: "token \<Rightarrow> token \<Rightarrow> bool" where
  "apart_tokens t t' \<longleftrightarrow> \<not> (keeps_text (tok_type t) \<and> keeps_text (tok_type t'))"

lemma apart_ops: "apart_tokens (op_token ty) t \<and> apart_tokens t (op_token ty)" if "plain_type ty"
  using that by (auto simp: apart_tokens_def keeps_text_def op_token_def plain_type_def)

lemma apart_wrap: "successively apart_tokens ts \<Longrightarrow> successively apart_tokens (wrap w ts)"
  by (cases ts) (auto simp: wrap_def successively_append_iff successively_Cons apart_ops plain_ops hd_append)

lemma apart_print: "successively apart_tokens (print_ast t)"
proof (induction t)
  case (APar t)
  then show ?case using apart_wrap[OF APar, of True] by simp
next
  case (AUn u t)
  then show ?case using apart_wrap[OF AUn, of "is_bin t"] by (simp add: successively_Cons apart_ops plain_ops)
next
  case (ABin o' t1 t2)
  then show ?case
    using apart_wrap[OF ABin(1)] apart_wrap[OF ABin(2)]
    by (simp add: successively_append_iff successively_Cons apart_ops plain_ops)
qed simp_all

lemma sep_zip: "successively apart_tokens ts \<Longrightarrow> length ks = length ts \<Longrightarrow> sep_ok (zip ts ks)"
proof (induction ts arbitrary: ks rule: induct_list012)
  case (2 t)
  then show ?case by (cases ks) auto
next
  case (3 t t' ts)
  then obtain k k' ks' where ks: "ks = k # k' # ks'" by (metis length_Suc_conv)
  have "sep_ok (zip (t' # ts) (k' # ks'))" by (rule 3(2)) (use 3(3,4) ks in auto)
  moreover have "apart_tokens t t'" using 3 by simp
  ultimately show ?case by (auto simp: ks apart_tokens_def)
qed simp

lemma expr_print:
  assumes "leaves_ok t" "ast_val c b t = Some v"
    and "length ks = length (print_ast t)" "list_all (\<lambda>k. k < 32) ks" "length (print_ast t) < 1024"
  shows "expr (render (zip (print_ast t) ks)) c True b = Inr (v, True, b)"
proof -
  let ?ts = "print_ast t"
  have "\<forall>(t, k) \<in> set (zip ?ts ks). token_ok t \<and> k < 32"
    using token_ok_print[OF assms(1)] assms(4) by (auto simp: list_all_iff dest: set_zip_leftD set_zip_rightD)
  then have "make_token (render (zip ?ts ks)) = Inr (True, map raw ?ts)"
    using tokenize_render[of "zip ?ts ks" "[]"] sep_zip[OF apart_print assms(3)] assms(3,5)
    by (simp add: make_token_def map_map[symmetric] map_fst_zip del: map_map)
  moreover have "mark_unary None (map raw ?ts) = ?ts"
    using mark_print[of None t "[]"] by (auto simp: opens_def)
  moreover have "eval_tokens ?ts c 0 (int (length ?ts) - 1) True b = Inr (v, True, b)"
    using eval_print[OF assms(1,2), of ?ts 0] by (simp add: slice_def)
  ultimately show ?thesis by (simp add: expr_def)
qed

text \<open>
  C3. The debugger evaluates expressions as C does. For every expression tree (decimal and hexadecimal
  numbers, registers, the eight binary operators, unary plus, minus and dereference, and operands with
  more parentheses), printed with the parentheses that C's precedence and left associativity require
  and with up to 31 blanks after any token, expr returns the value of the tree, keeps the success flag and leaves the machine alone,
  provided the tree has a value: numbers fit in 32 bits, registers exist, no divisor is zero,
  and reads stay in physical memory. (A unary operator that starts a left operand needs
  parentheses here, unlike in C.)
\<close>

theorem expr_correct:
  assumes "leaves_ok t" "ast_val c b t = Some v"
    and "length ks = length (print_ast t)" "list_all (\<lambda>k. k < 32) ks" "length (print_ast t) < 1024"
  shows "expr (render (zip (print_ast t) ks)) c True b = Inr (v, True, b)"
  by (rule expr_print[OF assms])

text \<open>An expression with blanks and parentheses, evaluated through the theorem.\<close>

definition demo_cpu :: cpu_state where
  "demo_cpu = \<lparr>gpr = replicate 32 7, cpu_pc = 0x80000000, csr = [0, 0, 0, 0]\<rparr>"

definition demo_ast :: ast where
  "demo_ast = ABin BAnd (ABin BNe (ABin BMul (ANum ''3'') (ABin BAdd (ANum ''2'') (AReg ''a0''))) (AHex ''1c''))
     (AUn UNeg (ANum ''1''))"

theorem expr_correct_witness:
  "expr ''3 *(2+$a0)!=0x1c&& -1'' demo_cpu True (static_bus full_conf (\<lambda>_. 0) of_nat) =
     Inr (1, True, static_bus full_conf (\<lambda>_. 0) of_nat)"
proof -
  let ?b = "static_bus full_conf (\<lambda>_. 0) of_nat" and ?ks = "[1 :: nat, 0, 0, 0, 0, 0, 0, 0, 0, 1, 0, 0]"
  have a0: "isa_reg_str2val ''$a0'' demo_cpu = Inr (7, True)" by code_simp
  have leaves: "leaves_ok demo_ast" unfolding demo_ast_def by code_simp
  have v: "ast_val demo_cpu ?b demo_ast = Some 1"
    by (simp add: demo_ast_def a0 number_val_def digits_val_def hex_val_def is_digit_def in_range_def)
  have "render (zip (print_ast demo_ast) ?ks) = ''3 *(2+$a0)!=0x1c&& -1''" unfolding demo_ast_def by code_simp
  moreover have "length ?ks = length (print_ast demo_ast)" "length (print_ast demo_ast) < 1024"
    unfolding demo_ast_def by code_simp+
  moreover have "list_all (\<lambda>k. k < 32) ?ks" by simp
  ultimately show ?thesis using expr_correct[OF leaves v, of ?ks] by simp
qed

text \<open>
  Two departures from C that the model shows: a unary operator at the start takes the whole rest
  (\<open>-1+2\<close> is -3), and a register read after a division by zero sets the success flag again, so
  the expression counts as legal with the quotient taken as 0.
\<close>

definition shown_value :: "string \<Rightarrow> bus \<Rightarrow> (u32 \<times> bool) res" where
  "shown_value e b = bindR (expr e demo_cpu True b) (\<lambda>(v, ok, _). Inr (v, ok))"

lemma expr_leading_minus: "shown_value ''-1+2'' (static_bus full_conf (\<lambda>_. 0) of_nat) = Inr (- 3, True)"
  by code_simp

lemma expr_flag_revived:
  "shown_value ''1/0'' (static_bus full_conf (\<lambda>_. 0) of_nat) = Inr (0, False)"
  "shown_value ''1/0+$pc'' (static_bus full_conf (\<lambda>_. 0) of_nat) = Inr (0x80000000, True)"
  by code_simp+

end
