(* ===== verification/CpuProps.thy ===== *)
theory CpuProps
  imports CpuExec RvSpec ExprProps
begin

text \<open>
  Properties of the CPU loop: what single stepping, the run states, the counter and the trace do,
  and the run of the built-in image.
\<close>

section \<open>The loop, step by step\<close>

text \<open>
  Stepping composes. A run of \<open>a + b\<close> instructions is a run of \<open>a\<close> instructions followed,
  when the machine is still running after them, by a run of \<open>b\<close> more: the machine, the counters,
  the trace and the watchpoints are the same. A run that aborts also aborts when it is allowed
  more instructions.
\<close>

theorem execute_loop_add:
  "execute_loop v a e = r \<Longrightarrow>
   (case r of Inl err \<Rightarrow> execute_loop v (a + b) e = Inl err
    | Inr e' \<Rightarrow> run_state e' = NEMU_RUNNING \<longrightarrow> execute_loop v (a + b) e = execute_loop v b e')"
proof (induction a arbitrary: e r)
  case (Suc a)
  show ?case
  proof (cases "loop_body v e")
    case (Inr e1)
    show ?thesis
    proof (cases "run_state e1 = NEMU_RUNNING")
      case True
      then show ?thesis
        using Inr Suc.prems Suc.IH[OF refl, of "projr (device_step e1)"]
        by (cases "device_step e1"; cases r) (auto split: sum.splits)
    next
      case False
      then have "r = Inr e1" using Inr Suc.prems by simp
      with False show ?thesis by simp
    qed
  next
    case (Inl err)
    then have "r = Inl err" using Suc.prems by simp
    with Inl show ?thesis by simp
  qed
qed auto

section \<open>Run states\<close>

lemma run_state_simps [simp]:
  "run_state (set_run_state st e) = st" "run_state (e\<lparr>rb := x\<rparr>) = run_state e"
  "run_state (e\<lparr>g_timer := t\<rparr>) = run_state e" "run_state (e\<lparr>g_print_step := p\<rparr>) = run_state e"
  "run_state (e\<lparr>stat_log := l\<rparr>) = run_state e" "run_state (e\<lparr>trap_log := msgs\<rparr>) = run_state e"
  "run_state (e\<lparr>g_nr_guest_inst := n\<rparr>) = run_state e"
  by (simp_all add: run_state_def set_run_state_def)

lemma statistic_keeps:
  "statistic v e = Inr e' \<Longrightarrow> run_state e' = run_state e \<and> g_nr_guest_inst e' = g_nr_guest_inst e \<and> mach e' = mach e"
  by (auto simp: statistic_def Let_def split: if_splits)

lemma emu_time_keeps:
  "run_state (snd (emu_time e)) = run_state e" "rb (snd (emu_time e)) = rb e"
  "g_nr_guest_inst (snd (emu_time e)) = g_nr_guest_inst e" "cpu (mach (snd (emu_time e))) = cpu (mach e)"
  "pmem (mbus (mach (snd (emu_time e)))) = pmem (mbus (mach e))" "conf (mbus (mach (snd (emu_time e)))) = conf (mbus (mach e))"
  "trap_log (snd (emu_time e)) = trap_log e"
  using get_time_frame[of "mbus (mach e)"]
  by (auto simp: emu_time_def run_state_def split: prod.splits)

section \<open>The instruction counter\<close>

lemma rb_log_keeps:
  "rb_log v w e = Inr e' \<Longrightarrow> \<exists>r. e' = e\<lparr>rb := r\<rparr>"
proof -
  assume "rb_log v w e = Inr e'"
  then have "e' = e \<or> (\<exists>r. e' = e\<lparr>rb := r\<rparr>)"
    by (auto simp: rb_log_def res_elims split: if_splits rb_ptr.splits)
  moreover have "e = e\<lparr>rb := rb e\<rparr>" by simp
  ultimately show ?thesis by metis
qed

lemma trace_keeps:
  assumes "trace_and_difftest v s npc e = Inr e'"
  shows "g_nr_guest_inst e' = g_nr_guest_inst e" "rb e' = rb e" "trap_log e' = trap_log e"
  using assms by (auto simp: trace_and_difftest_def Let_def res_elims watch_step_def set_run_state_def split: if_splits)

lemma loop_body_counts:
  assumes "loop_body v e = Inr e'"
  shows "g_nr_guest_inst e' = g_nr_guest_inst e + 1" "trap_log e' = trap_log e"
proof -
  obtain s e1 where "exec_once v (cpu_pc (cpu (mach e))) e = Inr (s, e1)"
    "trace_and_difftest v s (cpu_pc (cpu (mach e1))) (e1\<lparr>g_nr_guest_inst := g_nr_guest_inst e1 + 1\<rparr>) = Inr e'"
    using assms by (auto simp: loop_body_def res_elims)
  moreover from this(1) have "g_nr_guest_inst e1 = g_nr_guest_inst e" "trap_log e1 = trap_log e"
    by (auto simp: exec_once_def res_elims dest!: rb_log_keeps)
  ultimately show "g_nr_guest_inst e' = g_nr_guest_inst e + 1" "trap_log e' = trap_log e"
    using trace_keeps(1,3) by fastforce+
qed

lemma device_step_keeps:
  "device_step e = Inr e' \<Longrightarrow> g_nr_guest_inst e' = g_nr_guest_inst e \<and> rb e' = rb e \<and> trap_log e' = trap_log e"
  by (auto simp: device_step_def res_elims split: if_splits)

lemma execute_loop_run:
  assumes "execute_loop v n e = Inr e'"
  shows "\<exists>k \<le> n. g_nr_guest_inst e' = g_nr_guest_inst e + of_nat k \<and> (0 < n \<longrightarrow> 0 < k) \<and>
    (k < n \<longrightarrow> run_state e' \<noteq> NEMU_RUNNING)"
  using assms
proof (induction n arbitrary: e)
  case (Suc n)
  obtain e1 where e1: "loop_body v e = Inr e1"
    "(if run_state e1 \<noteq> NEMU_RUNNING then Inr e1 else bindR (device_step e1) (execute_loop v n)) = Inr e'"
    using Suc.prems by (auto simp: res_elims)
  note one = loop_body_counts(1)[OF e1(1)]
  show ?case
  proof (cases "run_state e1 = NEMU_RUNNING")
    case False
    then show ?thesis using e1(2) one by (intro exI[of _ 1]) auto
  next
    case True
    then obtain e2 where "device_step e1 = Inr e2" "execute_loop v n e2 = Inr e'"
      using e1(2) by (auto simp: res_elims)
    moreover from Suc.IH[OF this(2)] obtain k where "k \<le> n" "g_nr_guest_inst e' = g_nr_guest_inst e2 + of_nat k"
      "k < n \<longrightarrow> run_state e' \<noteq> NEMU_RUNNING" by blast
    ultimately show ?thesis using one device_step_keeps[of e1 e2] by (intro exI[of _ "Suc k"]) auto
  qed
qed auto

lemma execute_loop_reports:
  "execute_loop v n e = Inr e' \<Longrightarrow> trap_log e' = trap_log e"
proof (induction n arbitrary: e)
  case (Suc n)
  obtain e1 where e1: "loop_body v e = Inr e1"
    "(if run_state e1 \<noteq> NEMU_RUNNING then Inr e1 else bindR (device_step e1) (execute_loop v n)) = Inr e'"
    using Suc.prems by (auto simp: res_elims)
  then show ?case
    using Suc.IH device_step_keeps[of e1] loop_body_counts(2)[OF e1(1)] by (auto simp: res_elims split: if_splits)
qed simp

lemma execute_counts:
  assumes "execute v n e = Inr e'"
  shows "trap_log e' = trap_log e" "\<exists>k \<le> unat n. g_nr_guest_inst e' = g_nr_guest_inst e + of_nat k \<and> (k < unat n \<longrightarrow> run_state e' \<noteq> NEMU_RUNNING)"
proof -
  obtain e1 where e1: "rb_create v e = Inr e1" "execute_loop v (unat n) e1 = Inr e'"
    using assms by (auto simp: execute_def res_elims)
  have "trap_log e1 = trap_log e \<and> g_nr_guest_inst e1 = g_nr_guest_inst e"
    using e1(1) by (auto simp: rb_create_def split: if_splits option.splits)
  then show "trap_log e' = trap_log e" "\<exists>k \<le> unat n. g_nr_guest_inst e' = g_nr_guest_inst e + of_nat k \<and> (k < unat n \<longrightarrow> run_state e' \<noteq> NEMU_RUNNING)"
    using execute_loop_reports[OF e1(2)] execute_loop_run[OF e1(2)] by auto
qed

text \<open>What \<open>cpu_exec\<close> reports of the state it returns with: one message for a stop by a trap or an abort.\<close>

fun stop_report :: "nemustate \<Rightarrow> (trap_msg \<times> u32) list" where
  "stop_report \<lparr>st_state = NEMU_RUNNING, halt_pc = pc, halt_ret = ret\<rparr> = []"
| "stop_report \<lparr>st_state = NEMU_STOP, halt_pc = pc, halt_ret = ret\<rparr> = []"
| "stop_report \<lparr>st_state = NEMU_QUIT, halt_pc = pc, halt_ret = ret\<rparr> = []"
| "stop_report \<lparr>st_state = NEMU_ABORT, halt_pc = pc, halt_ret = ret\<rparr> = [(MsgAbort, pc)]"
| "stop_report \<lparr>st_state = NEMU_END, halt_pc = pc, halt_ret = ret\<rparr> = [(if ret = 0 then MsgGoodTrap else MsgBadTrap, pc)]"

lemma cpu_exec_end_reports:
  assumes "cpu_exec_end v x = Inr x'"
  shows "run_state x' = (if run_state x = NEMU_RUNNING then NEMU_STOP else run_state x)"
    "g_nr_guest_inst x' = g_nr_guest_inst x" "trap_log x' = trap_log x @ stop_report (nemu_state (mbus (mach x')))"
proof -
  obtain st pc ret where n: "nemu_state (mbus (mach x)) = \<lparr>st_state = st, halt_pc = pc, halt_ret = ret\<rparr>"
    by (cases "nemu_state (mbus (mach x))") auto
  have s: "\<And>y. statistic v y = Inr x' \<Longrightarrow> trap_log x' = trap_log y \<and> mach x' = mach y \<and> g_nr_guest_inst x' = g_nr_guest_inst y"
    by (auto simp: statistic_def Let_def split: if_splits)
  show "run_state x' = (if run_state x = NEMU_RUNNING then NEMU_STOP else run_state x)"
    "g_nr_guest_inst x' = g_nr_guest_inst x" "trap_log x' = trap_log x @ stop_report (nemu_state (mbus (mach x')))"
    using assms n by (cases st; auto simp: cpu_exec_end_def run_state_def set_run_state_def Let_def dest!: s)+
qed

text \<open>
  C29. The run state around cpu_exec. A machine that has ended or aborted is left as it is (only
  the step printing flag changes): nothing runs and nothing is reported again. Otherwise cpu_exec
  runs at most the requested instructions, counts them, and returns with the state the loop left,
  NEMU_STOP in place of NEMU_RUNNING; fewer instructions than requested are run only when one of
  them stopped the machine (a watchpoint hit, a trap, an abort, the window closed). A stop by a trap or
  an abort is reported exactly once, with the pc it happened at and good or bad by the return value, and
  no other stop is reported.
\<close>

theorem cpu_exec_states:
  "cpu_exec v n e = Inr e' \<Longrightarrow>
   (if run_state e = NEMU_END \<or> run_state e = NEMU_ABORT then e' = e\<lparr>g_print_step := n < 10\<rparr>
    else \<exists>e2 k. execute v n (snd (emu_time (set_run_state NEMU_RUNNING (e\<lparr>g_print_step := n < 10\<rparr>)))) = Inr e2 \<and>
      run_state e' = (if run_state e2 = NEMU_RUNNING then NEMU_STOP else run_state e2) \<and>
      k \<le> unat n \<and> g_nr_guest_inst e' = g_nr_guest_inst e + of_nat k \<and> (k < unat n \<longrightarrow> run_state e2 \<noteq> NEMU_RUNNING) \<and>
      trap_log e' = trap_log e @ stop_report (nemu_state (mbus (mach e'))))"
proof -
  assume r: "cpu_exec v n e = Inr e'"
  let ?e = "set_run_state NEMU_RUNNING (e\<lparr>g_print_step := n < 10\<rparr>)"
  show ?thesis
  proof (cases "run_state e = NEMU_END \<or> run_state e = NEMU_ABORT")
    case True
    then show ?thesis using r by (auto simp: cpu_exec_def)
  next
    case False
    obtain e2 t where e2: "execute v n (snd (emu_time ?e)) = Inr e2"
      and e3: "cpu_exec_end v (snd (emu_time e2)\<lparr>g_timer := t\<rparr>) = Inr e'"
      using False r by (cases "emu_time ?e"; cases "execute v n (snd (emu_time ?e))"; cases "emu_time (projr (execute v n (snd (emu_time ?e))))")
        (auto simp: cpu_exec_def)
    from execute_counts[OF e2] obtain k where
      k: "k \<le> unat n" "g_nr_guest_inst e2 = g_nr_guest_inst e + of_nat k" "k < unat n \<longrightarrow> run_state e2 \<noteq> NEMU_RUNNING"
      "trap_log e2 = trap_log e" by (auto simp: emu_time_keeps set_run_state_def)
    then show ?thesis
      using False e2 cpu_exec_end_reports[OF e3] by (auto simp: emu_time_keeps)
  qed
qed

section \<open>The instruction trace\<close>

text \<open>The words a run fetches, in order.\<close>

fun loop_words :: "'r env \<Rightarrow> nat \<Rightarrow> 'r emu \<Rightarrow> u32 list" where
  "loop_words v 0 e = []"
| "loop_words v (Suc n) e =
     (case exec_once v (cpu_pc (cpu (mach e))) e of
        Inl _ \<Rightarrow> []
      | Inr (s, _) \<Rightarrow> s_inst s # (case loop_body v e of
          Inl _ \<Rightarrow> []
        | Inr e1 \<Rightarrow> if run_state e1 \<noteq> NEMU_RUNNING then []
            else (case device_step e1 of Inl _ \<Rightarrow> [] | Inr e2 \<Rightarrow> loop_words v n e2)))"

lemma loop_body_rb:
  assumes "loop_body v e = Inr e1" "cfg_iringbuf v" "rb e = RbLive f"
  shows "\<exists>s f' e0. exec_once v (cpu_pc (cpu (mach e))) e = Inr (s, e0) \<and> iringbuf_log (s_inst s) f = Inr f' \<and> rb e1 = RbLive f'"
proof -
  obtain s e0 where x: "exec_once v (cpu_pc (cpu (mach e))) e = Inr (s, e0)"
    and "trace_and_difftest v s (cpu_pc (cpu (mach e0))) (e0\<lparr>g_nr_guest_inst := g_nr_guest_inst e0 + 1\<rparr>) = Inr e1"
    using assms(1) by (auto simp: loop_body_def res_elims)
  moreover from x obtain f' where "iringbuf_log (s_inst s) f = Inr f'" "rb e0 = RbLive f'"
    using assms(2,3) by (auto simp: exec_once_def rb_log_def res_elims)
  ultimately show ?thesis using trace_keeps(2) by fastforce
qed

lemma execute_loop_trace:
  assumes "execute_loop v n e = Inr e'" "cfg_iringbuf v" "rb e = RbLive f"
  shows "\<exists>f'. rb e' = RbLive f' \<and> forR iringbuf_log (loop_words v n e) f = Inr f'"
  using assms(1,3)
proof (induction n arbitrary: e f)
  case (Suc n)
  obtain e1 where e1: "loop_body v e = Inr e1"
    "(if run_state e1 \<noteq> NEMU_RUNNING then Inr e1 else bindR (device_step e1) (execute_loop v n)) = Inr e'"
    using Suc.prems(1) by (auto simp: res_elims)
  obtain s f1 e0 where s: "exec_once v (cpu_pc (cpu (mach e))) e = Inr (s, e0)" "iringbuf_log (s_inst s) f = Inr f1"
    "rb e1 = RbLive f1"
    using loop_body_rb[OF e1(1) assms(2) Suc.prems(2)] by blast
  show ?case
  proof (cases "run_state e1 = NEMU_RUNNING")
    case False
    then show ?thesis using e1 s by auto
  next
    case True
    then obtain e2 where e2: "device_step e1 = Inr e2" "execute_loop v n e2 = Inr e'"
      using e1(2) by (auto simp: res_elims)
    then have "rb e2 = RbLive f1" using device_step_keeps[OF e2(1)] s(3) by simp
    from Suc.IH[OF e2(2) this] show ?thesis using True e1(1) e2(1) s by auto
  qed
qed auto

text \<open>
  C28. When an assertion fails during the first run of the CPU loop, the message prints the last
  instructions, oldest first: after any run that starts with a fresh trace buffer of 32 bytes,
  assert_fail_msg lists exactly the last eight instruction words that were executed (all of them
  when there were fewer).
\<close>

theorem assert_fail_msg_lists_trace:
  assumes "cfg_iringbuf v" "malloc_hdr v" "malloc_blk v 32 = Some blk" "length blk = 32" "rb e = RbNull"
    and "execute v n e = Inr e'"
  shows "\<exists>e1 e2. rb_create v e = Inr e1 \<and>
     assert_fail_msg v e' = Inr (last_n 8 (loop_words v (unat n) e1), e2)"
proof -
  obtain f0 where m: "RingBuffer_Malloc True (\<lambda>n. if n = 32 then Some blk else None) IRINGBUF_SIZE = (2, Some f0)"
    and m': "snd (RingBuffer_Malloc (malloc_hdr v) (malloc_blk v) IRINGBUF_SIZE) = Some f0"
    using assms(2,3) by (simp add: RingBuffer_Malloc_def IRINGBUF_SIZE_def is_power_of_2_def)
  let ?e1 = "e\<lparr>rb := RbLive f0\<rparr>"
  have c: "rb_create v e = Inr ?e1" using assms(1,5) m' by (simp add: rb_create_def)
  then have "execute_loop v (unat n) ?e1 = Inr e'" using assms(6) by (simp add: execute_def)
  from execute_loop_trace[OF this assms(1), of f0] obtain f' where
    f': "rb e' = RbLive f'" "forR iringbuf_log (loop_words v (unat n) ?e1) f0 = Inr f'" by auto
  obtain f'' where "assert_fail_trace f' = Inr (last_n 8 (loop_words v (unat n) ?e1), f'')"
    using trace_after_log[OF assms(4) m, of "loop_words v (unat n) ?e1"] f'(2) by auto
  then show ?thesis
    using f'(1) c assms(1) by (auto simp: assert_fail_msg_def statistic_def Let_def)
qed

section \<open>After the program has ended\<close>

lemma statistic_frees: "statistic v e = Inr e' \<Longrightarrow> cfg_iringbuf v \<Longrightarrow> rb e \<noteq> RbNull \<Longrightarrow> rb e' = RbFreed"
  by (auto simp: statistic_def Let_def split: if_splits)

lemma rb_create_live: "rb_create v e = Inr e' \<Longrightarrow> cfg_iringbuf v \<Longrightarrow> rb e' \<noteq> RbNull"
  by (auto simp: rb_create_def split: if_splits option.splits)

lemma execute_rb: "execute v n e = Inr e' \<Longrightarrow> cfg_iringbuf v \<Longrightarrow> rb e' \<noteq> RbNull"
proof -
  assume r: "execute v n e = Inr e'" and c: "cfg_iringbuf v"
  have keep: "rb x' \<noteq> RbNull" if "execute_loop v k x = Inr x'" "rb x \<noteq> RbNull" for k x x'
    using that
  proof (induction k arbitrary: x)
    case (Suc k)
    obtain x1 where x1: "loop_body v x = Inr x1"
      "(if run_state x1 \<noteq> NEMU_RUNNING then Inr x1 else bindR (device_step x1) (execute_loop v k)) = Inr x'"
      using Suc.prems(1) by (auto simp: res_elims)
    have "rb x1 \<noteq> RbNull"
    proof (cases "rb x")
      case (RbLive f)
      then show ?thesis using loop_body_rb[OF x1(1) c] by auto
    next
      case RbFreed
      then show ?thesis using x1(1) c by (auto simp: loop_body_def exec_once_def rb_log_def res_elims)
    qed (use Suc.prems in auto)
    then show ?thesis
      using x1(2) Suc.IH device_step_keeps[of x1] by (auto simp: res_elims split: if_splits) metis
  qed auto
  then show ?thesis using r rb_create_live[OF _ c] by (auto simp: execute_def res_elims)
qed

text \<open>
  After the program has ended the trace buffer is gone, but its pointer is not cleared:
  when cpu_exec returns with NEMU_END or NEMU_ABORT, an assertion that fails later in the
  debugger (for instance a panic for an address out of bound) makes assert_fail_msg read the freed
  ring buffer.
\<close>

theorem freed_trace_is_used:
  assumes "cfg_iringbuf v" "run_state e \<noteq> NEMU_END" "run_state e \<noteq> NEMU_ABORT"
    and "cpu_exec v n e = Inr e'" "run_state e' = NEMU_END \<or> run_state e' = NEMU_ABORT"
  shows "assert_fail_msg v e' = Inl (Undef ''use of the freed ring buffer'')"
proof -
  let ?e = "set_run_state NEMU_RUNNING (e\<lparr>g_print_step := n < 10\<rparr>)"
  obtain e2 e3 t where e2: "execute v n (snd (emu_time ?e)) = Inr e2"
    and e3: "e3 = snd (emu_time e2)\<lparr>g_timer := t\<rparr>" "cpu_exec_end v e3 = Inr e'"
    using assms(2-4) by (cases "emu_time ?e"; cases "execute v n (snd (emu_time ?e))"; cases "emu_time (projr (execute v n (snd (emu_time ?e))))")
      (auto simp: cpu_exec_def)
  have "rb e3 \<noteq> RbNull" using execute_rb[OF e2 assms(1)] by (simp add: e3(1) emu_time_keeps)
  moreover have "\<exists>x. statistic v x = Inr e' \<and> rb x = rb e3"
    using e3(2) assms(5) by (cases "run_state e3") (auto simp: cpu_exec_end_def Let_def)
  ultimately have "rb e' = RbFreed" using statistic_frees assms(1) by metis
  then show ?thesis using assms(1) by (simp add: assert_fail_msg_def)
qed

section \<open>The built-in image\<close>

text \<open>
  With no watchpoint set, the check after an instruction does nothing: the run is the same as with
  watchpoints configured out.
\<close>

definition no_watch :: "'r env \<Rightarrow> 'r emu \<Rightarrow> bool" where
  "no_watch v e \<longleftrightarrow> (cfg_watchpoint v \<longrightarrow> wp_head (em_wps e) = None)"

lemma no_watch_kept [simp]:
  "no_watch v (e\<lparr>rb := r\<rparr>) = no_watch v e" "no_watch v (e\<lparr>mach := m\<rparr>) = no_watch v e"
  "no_watch v (e\<lparr>ref_state := x\<rparr>) = no_watch v e" "no_watch v (snd (emu_time e)) = no_watch v e"
  "no_watch v (e\<lparr>g_print_step := p\<rparr>) = no_watch v e" "no_watch v (set_run_state st e) = no_watch v e"
  by (simp_all add: no_watch_def emu_time_def set_run_state_def split: prod.splits)

lemma watch_step_idle: "wp_head (em_wps e) = None \<Longrightarrow> watch_step e = Inr e"
  by (simp add: watch_step_def check_wp_def)

text \<open>A step of the loop with neither differential testing nor a watchpoint set, on an instruction of the manual.\<close>

definition rb_ready :: "'r env \<Rightarrow> 'r emu \<Rightarrow> bool" where
  "rb_ready v e \<longleftrightarrow> \<not> cfg_iringbuf v \<or> (\<exists>f. rb e = RbLive f \<and> rb_ok f \<and> unat (rb_size f) = 32 \<and> 4 dvd unat (RingBuffer_Avail f))"

lemma rb_log_ready:
  assumes "rb_ready v e"
  shows "\<exists>r. rb_log v w e = Inr (e\<lparr>rb := r\<rparr>) \<and> rb_ready v (e\<lparr>rb := r\<rparr>)"
proof (cases "cfg_iringbuf v")
  case True
  then obtain f where f: "rb e = RbLive f" "rb_ok f" "unat (rb_size f) = 4 * 8" "4 dvd unat (RingBuffer_Avail f)"
    using assms by (auto simp: rb_ready_def)
  obtain f' where "iringbuf_log w f = Inr f'" "rb_ok f'" "unat (rb_size f') = 32" "4 dvd unat (RingBuffer_Avail f')"
    using iringbuf_log_ok[OF f(2-4), of w] by auto
  then show ?thesis using f(1) by (intro exI[of _ "RbLive f'"]) (simp add: rb_log_def rb_ready_def True)
next
  case False
  then show ?thesis by (intro exI[of _ "rb e"]) (simp add: rb_log_def rb_ready_def)
qed

definition plain_env :: "'r env \<Rightarrow> 'r emu \<Rightarrow> bool" where
  "plain_env v e \<longleftrightarrow> no_watch v e \<and> \<not> cfg_difftest (conf (mbus (mach e))) \<and> \<not> cfg_device (conf (mbus (mach e)))"

lemma loop_body_step:
  assumes "plain_env v e" "rb_ready v e" "cpu_ok (cpu (mach e))" "host_defined i (arch_of (cpu_pc (cpu (mach e))) (mach e))"
    and "inst_fetch (cpu_pc (cpu (mach e))) 4 (mbus (mach e)) = Inr (rv_encode i, pc', mbus (mach e))"
    and step: "rv_step i (arch_of (cpu_pc (cpu (mach e))) (mach e)) = Inr a"
    and "conf (xbus a) = conf (mbus (mach e))"
  shows "\<exists>e'. loop_body v e = Inr e' \<and> arch_of (cpu_pc (cpu (mach e'))) (mach e') = a \<and> cpu_ok (cpu (mach e')) \<and>
    rb_ready v e' \<and> plain_env v e' \<and> g_nr_guest_inst e' = g_nr_guest_inst e + 1 \<and> trap_log e' = trap_log e \<and> g_timer e' = g_timer e"
proof -
  let ?pc = "cpu_pc (cpu (mach e))"
  let ?s = "\<lparr>s_pc = ?pc, s_snpc = ?pc, s_dnpc = 0, s_inst = 0\<rparr>"
  have "bindR (isa_exec_once ?s (mach e)) (\<lambda>(s', m'). Inr (arch_of (s_dnpc s') m')) = Inr a"
    using isa_exec_once_spec[of "mach e" ?s i pc' "mbus (mach e)"] assms(3-5) step by simp
  then obtain s' m' where x: "isa_exec_once ?s (mach e) = Inr (s', m')" and a: "arch_of (s_dnpc s') m' = a"
    by (auto simp: res_elims)
  have ok: "cpu_ok (cpu m')" using isa_exec_once_sizes[OF _ x] assms(3) by (simp add: cpu_ok_def cpu_sizes_def)
  let ?m = "m'\<lparr>cpu := (cpu m')\<lparr>cpu_pc := s_dnpc s'\<rparr>\<rparr>"
  obtain r where r: "rb_log v (s_inst s') (e\<lparr>mach := ?m\<rparr>) = Inr (e\<lparr>mach := ?m, rb := r\<rparr>)" "rb_ready v (e\<lparr>mach := ?m, rb := r\<rparr>)"
    using rb_log_ready[of v "e\<lparr>mach := ?m\<rparr>"] assms(2) by (auto simp: rb_ready_def)
  have "conf (mbus m') = conf (mbus (mach e))" using assms(7) a by auto
  then have plain: "\<not> cfg_difftest (conf (mbus m'))" "no_watch v e" "\<not> cfg_device (conf (mbus m'))"
    using assms(1) by (simp_all add: plain_env_def)
  have arch: "arch_of (s_dnpc s') ?m = a" using a by (simp add: arch_of_def cong: if_cong)
  show ?thesis
    using x r plain ok arch
    by (simp add: loop_body_def exec_once_def trace_and_difftest_def Let_def rb_ready_def plain_env_def cpu_ok_def no_watch_def
        watch_step_idle)
qed

lemma execute_loop_step:
  assumes "loop_body v e = Inr e1" "plain_env v e1" "run_state e1 = NEMU_RUNNING"
  shows "execute_loop v (Suc n) e = execute_loop v n e1"
  using assms by (simp add: device_step_def plain_env_def)

lemma load_store_inside:
  "i + n \<le> length bs \<Longrightarrow> load_bytes (store_bytes m a bs) (a + i) n = take n (drop i bs)"
  by (rule nth_equalityI) (auto simp: load_bytes_nth store_bytes_apply)

definition img_bytes :: "u8 list" where "img_bytes = concat (map (le_bytes 4) builtin_img)"

definition img_instr :: "rv_instr list" where
  "img_instr = [RLui 5 0x80000, RStore St_SW 0 5 0, RLoad L_LW 10 5 0, REbreak]"

lemma img_decoded: "map rv_encode img_instr = builtin_img"
  by code_simp

lemma img_words:
  "length img_bytes = 16" "le_word (take 4 (drop 0 img_bytes)) = rv_encode (RLui 5 0x80000)"
  "le_word (take 4 (drop 4 img_bytes)) = rv_encode (RStore St_SW 0 5 0)"
  "le_word (take 4 (drop 8 img_bytes)) = rv_encode (RLoad L_LW 10 5 0)"
  "le_word (take 4 (drop 12 img_bytes)) = rv_encode REbreak"
  by code_simp+

lemma img_fetch:
  assumes "k \<in> {0, 4, 8, 12}" "load_bytes (pmem b) k 4 = take 4 (drop k img_bytes)"
    and "le_word (take 4 (drop k img_bytes)) = rv_encode i"
  shows "inst_fetch (0x80000000 + of_nat k) 4 b = Inr (rv_encode i, 0x80000000 + of_nat k + 4, b)"
proof -
  have g: "guest_to_host (0x80000000 + of_nat k) = int k" "in_pmem (0x80000000 + of_nat k)"
    using assms(1) by (auto simp: guest_to_host_def in_pmem_def)
  then have "guest_to_host (0x80000000 + of_nat k) + 4 \<le> int CONFIG_MSIZE" using assms(1) by auto
  from fetch_pmem[OF g(2) this, of b] show ?thesis by (simp add: g assms(2,3) del: rv_encode.simps)
qed

lemma pmem_access:
  assumes "in_pmem a" "guest_to_host a + 4 \<le> int CONFIG_MSIZE"
  shows "vaddr_write a 4 v b = Inr (b\<lparr>pmem := store_bytes (pmem b) (nat (guest_to_host a)) (le_bytes 4 v)\<rparr>)"
    and "vaddr_read a 4 b = Inr (le_word (load_bytes (pmem b) (nat (guest_to_host a)) 4), b)"
proof -
  have "0 \<le> guest_to_host a" using assms(1) by (simp add: in_pmem_iff)
  then show "vaddr_write a 4 v b = Inr (b\<lparr>pmem := store_bytes (pmem b) (nat (guest_to_host a)) (le_bytes 4 v)\<rparr>)"
    "vaddr_read a 4 b = Inr (le_word (load_bytes (pmem b) (nat (guest_to_host a)) 4), b)"
    using assms by (simp_all add: vaddr_write_def paddr_write_def pmem_write_def host_write_def
        vaddr_read_def paddr_read_def pmem_read_def host_read_def del: load_bytes.simps le_bytes.simps store_bytes.simps)
qed

lemma init_isa_result:
  assumes "cpu_sizes m"
  shows "\<exists>m1. init_isa m = Inr m1 \<and> cpu_ok (cpu m1) \<and> cpu_pc (cpu m1) = 0x80000000 \<and>
    mbus m1 = (mbus m)\<lparr>pmem := store_bytes (pmem (mbus m)) 0 img_bytes\<rparr>"
  using assms img_words(1)
  by (auto simp: init_isa_def RESET_VECTOR_def restart_def guest_to_host_def Let_def img_bytes_def[symmetric]
      set_csr_def check_csr_idx_def cpu_ok_def cpu_sizes_def)

text \<open>One instruction of the image: the machine before and after it as abstract machines.\<close>

lemma img_step:
  assumes "plain_env v e" "rb_ready v e" "cpu_ok (cpu (mach e))" "a = arch_of (cpu_pc (cpu (mach e))) (mach e)"
    and "k \<in> {0, 4, 8, 12}" "xpc a = 0x80000000 + of_nat k" "load_bytes (pmem (xbus a)) k 4 = take 4 (drop k img_bytes)"
    and "le_word (take 4 (drop k img_bytes)) = rv_encode i" "host_defined i a"
    and "rv_step i a = Inr a'" "conf (xbus a') = conf (xbus a)"
  shows "\<exists>e'. loop_body v e = Inr e' \<and> a' = arch_of (cpu_pc (cpu (mach e'))) (mach e') \<and> cpu_ok (cpu (mach e')) \<and>
    rb_ready v e' \<and> plain_env v e' \<and> g_nr_guest_inst e' = g_nr_guest_inst e + 1 \<and> trap_log e' = trap_log e"
proof -
  have "cpu_pc (cpu (mach e)) = 0x80000000 + of_nat k" "mbus (mach e) = xbus a" using assms(4,6) by auto
  then have "inst_fetch (cpu_pc (cpu (mach e))) 4 (mbus (mach e)) =
      Inr (rv_encode i, cpu_pc (cpu (mach e)) + 4, mbus (mach e))"
    using img_fetch[OF assms(5) _ assms(8), of "xbus a"] assms(7) by (simp del: rv_encode.simps)
  from loop_body_step[OF assms(1-3) _ this] assms(4,9,10,11) show ?thesis by (auto simp del: rv_step.simps)
qed

lemma img_run:
  fixes e :: "'r emu"
  assumes "plain_env v e" "rb_ready v e" "cpu_ok (cpu (mach e))" "cpu_pc (cpu (mach e)) = 0x80000000"
    and "pmem (mbus (mach e)) = store_bytes p 0 img_bytes" "run_state e = NEMU_RUNNING"
  shows "\<exists>e'. execute_loop v (Suc (Suc (Suc (Suc n)))) e = Inr e' \<and> rb_ready v e' \<and>
    nemu_state (mbus (mach e')) = \<lparr>st_state = NEMU_END, halt_pc = 0x8000000c, halt_ret = 0\<rparr> \<and>
    g_nr_guest_inst e' = g_nr_guest_inst e + 4 \<and> trap_log e' = trap_log e"
proof -
  define a where "a = arch_of (cpu_pc (cpu (mach e))) (mach e)"
  define b where "b = mbus (mach e)"
  have a: "xpc a = 0x80000000" "xbus a = b" "xreg a 0 = 0"
    using assms(3,4) by (simp_all add: a_def b_def cpu_ok_def)
  have mem: "load_bytes (pmem b) k 4 = take 4 (drop k img_bytes)" if "k \<le> 12" for k
    using load_store_inside[of k 4 img_bytes p 0] that img_words(1) by (simp add: assms(5) b_def)
  define a1 where "a1 = advance (xset 5 0x80000000 a)"
  have "rv_step (RLui 5 0x80000) a = Inr a1" by (simp add: a1_def)
  then obtain e1 where e1: "loop_body v e = Inr e1" "a1 = arch_of (cpu_pc (cpu (mach e1))) (mach e1)" "cpu_ok (cpu (mach e1))"
    "rb_ready v e1" "plain_env v e1" "g_nr_guest_inst e1 = g_nr_guest_inst e + 1" "trap_log e1 = trap_log e"
    using img_step[OF assms(1-3) a_def, of 0 "RLui 5 0x80000" a1] a mem[of 0] img_words(2)
    by (auto simp: host_defined_def a1_def advance_def xset_def simp del: rv_step.simps)
  have a1: "xpc a1 = 0x80000004" "xbus a1 = b" "xreg a1 0 = 0" "xreg a1 5 = 0x80000000"
    using a by (simp_all add: a1_def advance_def xset_def)
  define b2 where "b2 = b\<lparr>pmem := store_bytes (pmem b) 0 (le_bytes 4 (0 :: u32))\<rparr>"
  have addr: "in_pmem 0x80000000" "guest_to_host 0x80000000 = 0" by (simp_all add: in_pmem_def guest_to_host_def)
  define a2 where "a2 = advance (a1\<lparr>xbus := b2\<rparr>)"
  have "rv_step (RStore St_SW 0 5 0) a1 = Inr a2"
    using pmem_access(1)[OF addr(1), of 0 b] addr(2) a1 by (simp add: a2_def b2_def)
  then obtain e2 where e2: "loop_body v e1 = Inr e2" "a2 = arch_of (cpu_pc (cpu (mach e2))) (mach e2)" "cpu_ok (cpu (mach e2))"
    "rb_ready v e2" "plain_env v e2" "g_nr_guest_inst e2 = g_nr_guest_inst e + 2" "trap_log e2 = trap_log e"
    using img_step[OF e1(5,4,3,2), of 4 "RStore St_SW 0 5 0" a2] a1 mem[of 4] img_words(3) e1(6,7)
    by (auto simp: host_defined_def a2_def b2_def advance_def simp del: rv_step.simps)
  have mem2: "load_bytes (pmem b2) k 4 = take 4 (drop k img_bytes)" if "4 \<le> k" "k \<le> 12" for k
    using that mem[of k] by (simp add: b2_def load_store_disjoint del: le_bytes.simps)
  have zero: "load_bytes (pmem b2) 0 4 = le_bytes 4 (0 :: u32)"
    by (simp add: b2_def load_store_same del: le_bytes.simps)
  have a2: "xpc a2 = 0x80000008" "xbus a2 = b2" "xreg a2 5 = 0x80000000" using a1 by (simp_all add: a2_def advance_def)
  define a3 where "a3 = advance (xset 10 0 a2)"
  have keep: "a2\<lparr>xbus := b2\<rparr> = a2" unfolding a2(2)[symmetric] by simp
  have "rv_step (RLoad L_LW 10 5 0) a2 = Inr a3"
    using pmem_access(2)[OF addr(1), of b2] addr(2) a2 zero
    by (simp add: a3_def keep del: load_bytes.simps le_bytes.simps)
  then obtain e3 where e3: "loop_body v e2 = Inr e3" "a3 = arch_of (cpu_pc (cpu (mach e3))) (mach e3)" "cpu_ok (cpu (mach e3))"
    "rb_ready v e3" "plain_env v e3" "g_nr_guest_inst e3 = g_nr_guest_inst e + 3" "trap_log e3 = trap_log e"
    using img_step[OF e2(5,4,3,2), of 8 "RLoad L_LW 10 5 0" a3] a2 mem2[of 8] img_words(4) e2(6,7)
    by (auto simp: host_defined_def a3_def advance_def xset_def simp del: rv_step.simps)
  have a3: "xpc a3 = 0x8000000c" "xbus a3 = b2" "xreg a3 10 = 0" using a2 by (simp_all add: a3_def advance_def xset_def)
  define b4 where "b4 = set_nemu_state NEMU_END 0x8000000c 0 b2"
  have plain: "\<not> cfg_difftest (conf b2)" using assms(1) by (simp add: b2_def b_def plain_env_def)
  have "rv_step REbreak a3 = Inr (advance (a3\<lparr>xbus := b4\<rparr>))" using a3 by (simp add: b4_def)
  then obtain e4 where e4: "loop_body v e3 = Inr e4" "advance (a3\<lparr>xbus := b4\<rparr>) = arch_of (cpu_pc (cpu (mach e4))) (mach e4)"
    "rb_ready v e4" "g_nr_guest_inst e4 = g_nr_guest_inst e + 4" "trap_log e4 = trap_log e"
    using img_step[OF e3(5,4,3,2), of 12 REbreak "advance (a3\<lparr>xbus := b4\<rparr>)"] a3 mem2[of 12] img_words(5) e3(6,7) plain
    by (auto simp: host_defined_def advance_def b4_def set_nemu_state_def difftest_skip_ref_def simp del: rv_step.simps)
  have buses: "mbus (mach e1) = b" "mbus (mach e2) = b2" "mbus (mach e3) = b2" "mbus (mach e4) = b4"
    using arg_cong[OF e1(2), of xbus] arg_cong[OF e2(2), of xbus] arg_cong[OF e3(2), of xbus] arg_cong[OF e4(2), of xbus]
      a1 a2 a3 by (simp_all add: advance_def)
  have "run_state e1 = NEMU_RUNNING" "run_state e2 = NEMU_RUNNING" "run_state e3 = NEMU_RUNNING"
    using assms(6) by (simp_all add: run_state_def buses b2_def b_def)
  then have "execute_loop v (Suc (Suc (Suc (Suc n)))) e = execute_loop v (Suc n) e3"
    using execute_loop_step e1 e2 e3 by metis
  moreover have "nemu_state (mbus (mach e4)) = \<lparr>st_state = NEMU_END, halt_pc = 0x8000000c, halt_ret = 0\<rparr>"
    by (simp add: buses b4_def set_nemu_state_def)
  ultimately show ?thesis using e4 by (auto simp: run_state_def)
qed

lemma builtin_run:
  fixes e :: "'r emu"
  assumes "cpu_sizes (mach e)" "run_state e = NEMU_STOP" "plain_env v e"
    and "cfg_iringbuf v \<Longrightarrow> rb e = RbNull \<and> malloc_hdr v \<and> (\<exists>blk. malloc_blk v 32 = Some blk \<and> length blk = 32)"
  shows "\<exists>m1 e'. init_isa (mach e) = Inr m1 \<and> cpu_exec v (- 1) (e\<lparr>mach := m1\<rparr>) = Inr e' \<and>
    nemu_state (mbus (mach e')) = \<lparr>st_state = NEMU_END, halt_pc = 0x8000000c, halt_ret = 0\<rparr> \<and>
    trap_log e' = trap_log e @ [(MsgGoodTrap, 0x8000000c)] \<and> g_nr_guest_inst e' = g_nr_guest_inst e + 4 \<and>
    \<not> is_exit_status_bad (mbus (mach e'))"
proof -
  obtain m1 where m1: "init_isa (mach e) = Inr m1" "cpu_ok (cpu m1)" "cpu_pc (cpu m1) = 0x80000000"
    "mbus m1 = (mbus (mach e))\<lparr>pmem := store_bytes (pmem (mbus (mach e))) 0 img_bytes\<rparr>"
    using init_isa_result[OF assms(1)] by blast
  let ?e0 = "set_run_state NEMU_RUNNING (e\<lparr>mach := m1, g_print_step := False\<rparr>)"
  obtain t1 e1 where e1: "emu_time ?e0 = (t1, e1)" by fastforce
  have k1: "run_state e1 = NEMU_RUNNING" "rb e1 = rb e" "g_nr_guest_inst e1 = g_nr_guest_inst e" "cpu (mach e1) = cpu m1"
    "pmem (mbus (mach e1)) = store_bytes (pmem (mbus (mach e))) 0 img_bytes" "conf (mbus (mach e1)) = conf (mbus (mach e))"
    "trap_log e1 = trap_log e"
    using emu_time_keeps[of ?e0] e1 m1(4) by (simp_all add: set_run_state_def run_state_def)
  have "em_wps e1 = em_wps e" using e1 by (auto simp: emu_time_def set_run_state_def split: prod.splits)
  then have watch: "no_watch v e1 = no_watch v e" by (simp add: no_watch_def)
  have "\<exists>r. rb_create v e1 = Inr (e1\<lparr>rb := r\<rparr>) \<and> rb_ready v (e1\<lparr>rb := r\<rparr>)"
  proof (cases "cfg_iringbuf v")
    case True
    then obtain blk where blk: "rb e = RbNull" "malloc_hdr v" "malloc_blk v 32 = Some blk" "length blk = 32" using assms(4) by auto
    let ?f = "\<lparr>rb_buffer = blk, rb_size = 32, rb_in = 0, rb_out = 0\<rparr>"
    have "rb_ok ?f" using blk(4) by (intro rb_fresh_ok) (auto simp: is_power_of_2_def)
    then show ?thesis
      using blk True k1(2) by (intro exI[of _ "RbLive ?f"])
        (simp add: rb_create_def RingBuffer_Malloc_def IRINGBUF_SIZE_def is_power_of_2_def rb_ready_def rb_defs)
  next
    case False
    then show ?thesis by (intro exI[of _ "rb e1"]) (simp add: rb_create_def rb_ready_def)
  qed
  then obtain r where r: "rb_create v e1 = Inr (e1\<lparr>rb := r\<rparr>)" "rb_ready v (e1\<lparr>rb := r\<rparr>)" by blast
  have n: "unat (- 1 :: u64) = Suc (Suc (Suc (Suc 18446744073709551611)))"
    by (simp add: unsigned_minus_1_eq_mask mask_eq_exp_minus_1)
  obtain e2 where e2: "execute v (- 1) e1 = Inr e2" "rb_ready v e2" "trap_log e2 = trap_log e"
    "nemu_state (mbus (mach e2)) = \<lparr>st_state = NEMU_END, halt_pc = 0x8000000c, halt_ret = 0\<rparr>"
    "g_nr_guest_inst e2 = g_nr_guest_inst e + 4"
    using img_run[of v "e1\<lparr>rb := r\<rparr>" "pmem (mbus (mach e))" 18446744073709551611] r k1 watch m1(2,3) assms(3)
    unfolding execute_def n by (auto simp: plain_env_def)
  obtain t2 e3 where e3: "emu_time e2 = (t2, e3)" by fastforce
  have k3: "rb e3 = rb e2" "g_nr_guest_inst e3 = g_nr_guest_inst e2" "trap_log e3 = trap_log e2"
    "nemu_state (mbus (mach e3)) = nemu_state (mbus (mach e2))"
    using emu_time_keeps[of e2] e3 get_time_frame[of "mbus (mach e2)"] by (auto simp: emu_time_def split: prod.splits)
  let ?e4 = "e3\<lparr>g_timer := g_timer e3 + (t2 - t1), trap_log := trap_log e3 @ [(MsgGoodTrap, 0x8000000c)]\<rparr>"
  have "\<exists>e'. statistic v ?e4 = Inr e' \<and> mach e' = mach ?e4 \<and> trap_log e' = trap_log ?e4 \<and> g_nr_guest_inst e' = g_nr_guest_inst ?e4"
    using e2(2) k3(1) by (auto simp: statistic_def Let_def rb_ready_def)
  then obtain e' where e': "statistic v ?e4 = Inr e'" "mach e' = mach e3" "trap_log e' = trap_log ?e4"
    "g_nr_guest_inst e' = g_nr_guest_inst e3" by auto
  have "cpu_exec v (- 1) (e\<lparr>mach := m1\<rparr>) = Inr e'"
    using e1 e2(1) e3 e'(1) k3(4) e2(4) assms(2) m1(4)
    by (simp add: cpu_exec_def cpu_exec_end_def run_state_def)
  then show ?thesis
    using m1(1) e' k3 e2 by (auto simp: is_exit_status_bad_def)
qed

text \<open>
  The built-in image runs to the good trap. From any machine with the right register counts
  and a stopped run state, whatever its registers and memory hold, init_isa succeeds, and
  cpu_exec(-1) then executes the four instructions of the image (the store of zero over its
  first word, the load of it into a0, the ebreak) and reports HIT GOOD TRAP at 0x8000000c: the
  state is NEMU_END with return value 0, four instructions are counted and the exit status is
  good. Devices and differential testing are configured out and no watchpoint is set; the trace is
  on when memory for it can be allocated.
\<close>

theorem builtin_image_good_trap:
  fixes e :: "'r emu"
  assumes "cpu_sizes (mach e)" "run_state e = NEMU_STOP" "plain_env v e"
    and "cfg_iringbuf v \<Longrightarrow> rb e = RbNull \<and> malloc_hdr v \<and> (\<exists>blk. malloc_blk v 32 = Some blk \<and> length blk = 32)"
  shows "\<exists>m1 e'. init_isa (mach e) = Inr m1 \<and> cpu_exec v (- 1) (e\<lparr>mach := m1\<rparr>) = Inr e' \<and>
    nemu_state (mbus (mach e')) = \<lparr>st_state = NEMU_END, halt_pc = 0x8000000c, halt_ret = 0\<rparr> \<and>
    trap_log e' = trap_log e @ [(MsgGoodTrap, 0x8000000c)] \<and> g_nr_guest_inst e' = g_nr_guest_inst e + 4 \<and>
    \<not> is_exit_status_bad (mbus (mach e'))"
  using assms by (rule builtin_run)

section \<open>Concrete runs\<close>

definition demo_env :: "unit env" where
  "demo_env = \<lparr>cfg_iringbuf = True, cfg_watchpoint = True, cfg_itrace = True, malloc_hdr = True,
     malloc_blk = (\<lambda>n. Some (replicate (unat n) 0)),
     diff = \<lparr>ref_memcpy = \<lambda>_ _ r. Inr r, ref_get = \<lambda>_. demo_cpu, ref_put = \<lambda>_ r. r, ref_exec = \<lambda>_ r. Inr r,
       ref_raise_intr = \<lambda>_ r. Inr r, ref_init = \<lambda>_ r. Inr r\<rparr>\<rparr>"

definition demo_emu :: "bytemem \<Rightarrow> u32 \<Rightarrow> unit emu" where
  "demo_emu mem pc = \<lparr>mach = \<lparr>cpu = \<lparr>gpr = replicate 32 0, cpu_pc = pc, csr = replicate 4 0\<rparr>,
       mbus = static_bus (full_conf\<lparr>cfg_device := False, cfg_difftest := False\<rparr>) mem (\<lambda>n. of_nat (1000 + 7 * n))\<rparr>,
     rb = RbNull, g_nr_guest_inst = 0, g_timer = 0, g_print_step = False, em_wps = init_wp_pool, ref_state = (),
     stepped = [], trap_log = [], stat_log = []\<rparr>"

lemma demo_emu_facts:
  "cpu_sizes (mach (demo_emu mem pc))" "cpu_ok (cpu (mach (demo_emu mem pc)))" "run_state (demo_emu mem pc) = NEMU_STOP"
  "plain_env demo_env (demo_emu mem pc)" "cfg_iringbuf demo_env" "malloc_hdr demo_env"
  "malloc_blk demo_env 32 = Some (replicate 32 0)" "rb (demo_emu mem pc) = RbNull"
  "cpu_pc (cpu (mach (demo_emu mem pc))) = pc" "pmem (mbus (mach (demo_emu mem pc))) = mem"
  by (simp_all add: demo_emu_def demo_env_def cpu_sizes_def cpu_ok_def run_state_def static_bus_def plain_env_def no_watch_def
      init_wp_pool_def)

lemma demo_run: "\<exists>m1 e'. init_isa (mach (demo_emu mem pc)) = Inr m1 \<and>
    cpu_exec demo_env (- 1) (demo_emu mem pc\<lparr>mach := m1\<rparr>) = Inr e' \<and>
    nemu_state (mbus (mach e')) = \<lparr>st_state = NEMU_END, halt_pc = 0x8000000c, halt_ret = 0\<rparr> \<and>
    trap_log e' = [(MsgGoodTrap, 0x8000000c)] \<and> g_nr_guest_inst e' = 4 \<and> \<not> is_exit_status_bad (mbus (mach e'))"
  using builtin_run[of "demo_emu mem pc" demo_env] demo_emu_facts by (simp add: demo_emu_def)

theorem builtin_image_good_trap_witness:
  "\<exists>m1 e'. init_isa (mach (demo_emu (\<lambda>_. 0xcc) 0)) = Inr m1 \<and>
    cpu_exec demo_env (- 1) (demo_emu (\<lambda>_. 0xcc) 0\<lparr>mach := m1\<rparr>) = Inr e' \<and>
    trap_log e' = [(MsgGoodTrap, 0x8000000c)] \<and> g_nr_guest_inst e' = 4"
  using builtin_image_good_trap[of "demo_emu (\<lambda>_. 0xcc) 0" demo_env] demo_emu_facts
  by (auto simp: demo_emu_def)

lemma init_isa_state: "init_isa m = Inr m1 \<Longrightarrow> nemu_state (mbus m1) = nemu_state (mbus m)"
  by (auto simp: init_isa_def restart_def set_csr_def Let_def res_elims)

theorem freed_trace_is_used_witness:
  "\<exists>m1 e'. init_isa (mach (demo_emu (\<lambda>_. 0) 0)) = Inr m1 \<and> cpu_exec demo_env (- 1) (demo_emu (\<lambda>_. 0) 0\<lparr>mach := m1\<rparr>) = Inr e' \<and>
    assert_fail_msg demo_env e' = Inl (Undef ''use of the freed ring buffer'')"
proof -
  let ?e = "demo_emu (\<lambda>_. 0) 0"
  obtain m1 e' where r: "init_isa (mach ?e) = Inr m1" "cpu_exec demo_env (- 1) (?e\<lparr>mach := m1\<rparr>) = Inr e'"
    "run_state e' = NEMU_END" using demo_run[of "\<lambda>_. 0" 0] by (auto simp: run_state_def)
  have "run_state (?e\<lparr>mach := m1\<rparr>) = NEMU_STOP"
    using init_isa_state[OF r(1)] demo_emu_facts(3)[of "\<lambda>_. 0" 0] by (simp add: run_state_def)
  then have "assert_fail_msg demo_env e' = Inl (Undef ''use of the freed ring buffer'')"
    using freed_trace_is_used[OF demo_emu_facts(5) _ _ r(2)] r(3) by simp
  with r show ?thesis by blast
qed

theorem cpu_exec_states_witness:
  "\<exists>m1 e'. init_isa (mach (demo_emu (\<lambda>_. 0) 0)) = Inr m1 \<and> cpu_exec demo_env (- 1) (demo_emu (\<lambda>_. 0) 0\<lparr>mach := m1\<rparr>) = Inr e' \<and>
    run_state e' = NEMU_END \<and> trap_log e' = stop_report (nemu_state (mbus (mach e')))"
proof -
  let ?e = "demo_emu (\<lambda>_. 0) 0"
  obtain m1 e' where r: "init_isa (mach ?e) = Inr m1" "cpu_exec demo_env (- 1) (?e\<lparr>mach := m1\<rparr>) = Inr e'" "run_state e' = NEMU_END"
    using demo_run[of "\<lambda>_. 0" 0] by (auto simp: run_state_def)
  have "run_state (?e\<lparr>mach := m1\<rparr>) = NEMU_STOP" "trap_log (?e\<lparr>mach := m1\<rparr>) = []"
    using init_isa_state[OF r(1)] demo_emu_facts(3)[of "\<lambda>_. 0" 0] by (simp_all add: run_state_def demo_emu_def)
  then show ?thesis using cpu_exec_states[OF r(2)] r by (auto simp: run_state_def)
qed

text \<open>The image in memory and the machine running.\<close>

definition demo_running :: "unit emu" where
  "demo_running = set_run_state NEMU_RUNNING (demo_emu (store_bytes (\<lambda>_. 0) 0 img_bytes) 0x80000000)"

lemma demo_running_run:
  assumes "rb_ready demo_env (demo_running\<lparr>rb := r\<rparr>)"
  shows "\<exists>e'. execute_loop demo_env 4 (demo_running\<lparr>rb := r\<rparr>) = Inr e' \<and> run_state e' = NEMU_END"
proof -
  have "\<exists>e'. execute_loop demo_env (Suc (Suc (Suc (Suc 0)))) (demo_running\<lparr>rb := r\<rparr>) = Inr e' \<and> run_state e' = NEMU_END"
    using img_run[of demo_env "demo_running\<lparr>rb := r\<rparr>" "\<lambda>_. 0" 0] assms demo_emu_facts
    by (auto simp: demo_running_def set_run_state_def run_state_def plain_env_def no_watch_def)
  then show ?thesis by (simp add: numeral_eq_Suc)
qed

lemma demo_ready: "rb_ready demo_env (demo_running\<lparr>rb := RbLive \<lparr>rb_buffer = replicate 32 0, rb_size = 32, rb_in = 0, rb_out = 0\<rparr>\<rparr>)"
  using rb_fresh_ok[of 32 "replicate 32 0"] by (simp add: rb_ready_def rb_defs is_power_of_2_def)

theorem assert_fail_msg_lists_trace_witness:
  "\<exists>e' ws e2. execute demo_env 4 demo_running = Inr e' \<and> assert_fail_msg demo_env e' = Inr (ws, e2)"
proof -
  have rb: "rb demo_running = RbNull" by (simp add: demo_running_def set_run_state_def demo_emu_def)
  then have "rb_create demo_env demo_running =
      Inr (demo_running\<lparr>rb := RbLive \<lparr>rb_buffer = replicate 32 0, rb_size = 32, rb_in = 0, rb_out = 0\<rparr>\<rparr>)"
    by (simp add: rb_create_def demo_env_def RingBuffer_Malloc_def IRINGBUF_SIZE_def is_power_of_2_def)
  then obtain e' where r: "execute demo_env 4 demo_running = Inr e'"
    using demo_running_run[OF demo_ready] by (auto simp: execute_def)
  from assert_fail_msg_lists_trace[OF demo_emu_facts(5-7) _ rb r] r show ?thesis by auto
qed

theorem execute_loop_add_witness:
  "\<exists>err. execute_loop demo_env 1 (demo_emu (\<lambda>_. 0) 0) = Inl err \<and> execute_loop demo_env (1 + 5) (demo_emu (\<lambda>_. 0) 0) = Inl err"
proof -
  have "isa_exec_once s (mach (demo_emu (\<lambda>_. 0) 0)) = out_of_bound" if "s_snpc s = 0" for s
    using that by (simp add: isa_exec_once_def inst_fetch_def vaddr_ifetch_def paddr_read_def in_pmem_def demo_emu_def
        static_bus_def out_of_bound_def)
  then have "execute_loop demo_env 1 (demo_emu (\<lambda>_. 0) 0) = out_of_bound"
    using demo_emu_facts(9)[of "\<lambda>_. 0" 0] by (simp add: loop_body_def exec_once_def out_of_bound_def)
  then obtain err where r: "execute_loop demo_env 1 (demo_emu (\<lambda>_. 0) 0) = Inl err" by (simp add: out_of_bound_def)
  from execute_loop_add[OF r, of 5] r show ?thesis by auto
qed

end
