(* ===== verification/Sdb.thy ===== *)
theory Sdb
  imports CpuExec ExprProps
begin

text \<open>
  The command loop of the debugger, \<open>nemu/src/monitor/sdb/sdb.c\<close>, with the register display of
  \<open>isa/riscv32/reg.c\<close> and \<open>engine_start\<close>. The lines the user types are a list; what the commands
  print is a list of values, one constructor per message. \<open>strtok\<close> and the \<open>%d\<close> of \<open>sscanf\<close> are the
  functions of the C library, on a line and on the rest it remembers.
\<close>

section \<open>The C library\<close>

text \<open>\<open>strtok(line, " ")\<close> on the remembered rest: the token and the new rest.\<close>

definition strtok :: "string \<Rightarrow> string option \<times> string" where
  "strtok s =
     (let s1 = dropWhile (\<lambda>c. c = CHR '' '') s;
          tok = takeWhile (\<lambda>c. c \<noteq> CHR '' '') s1
      in if tok = [] then (None, []) else (Some tok, drop (length tok + 1) s1))"

definition c_isspace :: "char \<Rightarrow> bool" where
  "c_isspace c \<longleftrightarrow> c \<in> {CHR '' '', CHR 0x09, CHR 0x0A, CHR 0x0B, CHR 0x0C, CHR 0x0D}"

text \<open>
  \<open>sscanf(s, "%d", &x)\<close>: blanks, a sign, digits. Without digits \<open>x\<close> stays uninitialised, and a
  number that is no int is undefined.
\<close>

definition sscanf_d :: "string \<Rightarrow> int res" where
  "sscanf_d s =
     (let s1 = dropWhile c_isspace s;
          neg = (s1 \<noteq> [] \<and> hd s1 = CHR ''-'');
          s2 = (if s1 \<noteq> [] \<and> hd s1 \<in> {CHR ''-'', CHR ''+''} then tl s1 else s1);
          ds = takeWhile is_digit s2;
          n = foldl (\<lambda>x c. x * 10 + (int (of_char c) - 48)) 0 ds;
          x = (if neg then - n else n)
      in guardR (ds \<noteq> []) (Undef ''sscanf: nothing stored'')
          (guardR (- (2 ^ 31) \<le> x \<and> x < 2 ^ 31) (Undef ''sscanf: no int'') (Inr x)))"

section \<open>State\<close>

datatype sdb_msg =
    MMissing
  | MReg string u32
  | MWatch int string u32
  | MWord u32 u32
  | MAnswer string u32
  | MIllegal
  | MWpSet int string
  | MWpDeleted int string
  | MNoWp int
  | MHelp string string
  | MUnknown string

record 'r sdb =
  em :: "'r emu"
  is_batch_mode :: bool
  outp :: "sdb_msg list"

definition say :: "sdb_msg list \<Rightarrow> 'r sdb \<Rightarrow> 'r sdb" where
  "say ms s = s\<lparr>outp := outp s @ ms\<rparr>"

definition set_bus :: "bus \<Rightarrow> 'r sdb \<Rightarrow> 'r sdb" where
  "set_bus b s = s\<lparr>em := (em s)\<lparr>mach := (mach (em s))\<lparr>mbus := b\<rparr>\<rparr>\<rparr>"

definition csrs :: "string list" where
  "csrs = [''mstatus'', ''mtvec'', ''mepc'', ''mcause'']"

definition isa_reg_display :: "cpu_state \<Rightarrow> sdb_msg list" where
  "isa_reg_display c =
     map (\<lambda>i. MReg (reg_names ! i) (gpr c ! i)) [0..<32] @ [MReg ''$pc'' (cpu_pc c)] @
     map (\<lambda>i. MReg (csrs ! i) (csr c ! i)) [0..<length csrs]"

section \<open>Commands\<close>

text \<open>A handler gets the rest of the line after its name; \<open>args\<close> is NULL when that is empty.\<close>

type_synonym 'r handler = "string \<Rightarrow> 'r sdb \<Rightarrow> (int \<times> 'r sdb) res"

definition run_cpu :: "'r env \<Rightarrow> u64 \<Rightarrow> 'r sdb \<Rightarrow> (int \<times> 'r sdb) res" where
  "run_cpu v n s = bindR (cpu_exec v n (em s)) (\<lambda>e. Inr (0, s\<lparr>em := e\<rparr>))"

definition cmd_c :: "'r env \<Rightarrow> 'r handler" where
  "cmd_c v rest s = run_cpu v (- 1) s"

definition cmd_q :: "'r handler" where
  "cmd_q rest s = Inr (- 1, s\<lparr>em := set_run_state NEMU_QUIT (em s)\<rparr>)"

definition cmd_si :: "'r env \<Rightarrow> 'r handler" where
  "cmd_si v rest s =
     (case fst (strtok rest) of
        None \<Rightarrow> run_cpu v 1 s
      | Some arg \<Rightarrow> bindR (sscanf_d arg) (\<lambda>steps. run_cpu v (word_of_int steps) s))"

definition cmd_info :: "'r handler" where
  "cmd_info rest s =
     (case fst (strtok rest) of
        None \<Rightarrow> Inr (0, say [MMissing] s)
      | Some arg \<Rightarrow>
          let s1 = (if arg = ''r'' then say (isa_reg_display (cpu (mach (em s)))) s else s)
          in if arg = ''w''
             then bindR (print_wp (em_wps (em s1))) (\<lambda>ls. Inr (0, say (map (\<lambda>(no, e, val). MWatch no e val) ls) s1))
             else Inr (0, s1))"

text \<open>\<open>for (i = 0; i < num; i++)\<close>; \<open>i * 4\<close> is an int.\<close>

fun dump_loop :: "u32 \<Rightarrow> int list \<Rightarrow> bus \<Rightarrow> (sdb_msg list \<times> bus) res" where
  "dump_loop addr [] b = Inr ([], b)"
| "dump_loop addr (i # is) b =
     guardR (i * 4 < 2 ^ 31) (Undef ''cmd_x: i * 4'')
       (bindR (vaddr_read (addr + word_of_int (i * 4)) 4 b) (\<lambda>(data, b1).
        bindR (dump_loop addr is b1) (\<lambda>(ms, b2). Inr (MWord (addr + word_of_int (i * 4)) data # ms, b2))))"

definition cmd_x :: "'r handler" where
  "cmd_x rest s =
     (let (N, rest1) = strtok rest; (EXPR, rest2) = strtok rest1
      in if N = None \<or> EXPR = None then Inr (0, say [MMissing] s)
         else bindR (sscanf_d (the N)) (\<lambda>num.
              bindR (expr (the EXPR) (cpu (mach (em s))) True (mbus (mach (em s)))) (\<lambda>(addr, success, b).
                if success
                then bindR (dump_loop addr [0..num - 1] b) (\<lambda>(ms, b1). Inr (0, say ms (set_bus b1 s)))
                else Inr (0, say [MIllegal] (set_bus b s)))))"

definition cmd_p :: "'r handler" where
  "cmd_p args s =
     (if args = [] then Inr (0, say [MMissing] s)
      else bindR (expr args (cpu (mach (em s))) True (mbus (mach (em s)))) (\<lambda>(ans, success, b).
             Inr (0, say [if success then MAnswer args ans else MIllegal] (set_bus b s))))"

definition cmd_w :: "'r handler" where
  "cmd_w args s =
     (if args = [] then Inr (0, say [MMissing] s)
      else bindR (new_wp args (cpu (mach (em s))) (mbus (mach (em s))) (em_wps (em s))) (\<lambda>(i, ws, b).
             let s1 = set_bus b s; w = wp_pool ws ! i
             in Inr (0, say [MWpSet (wp_NO w) (wp_e w)] (s1\<lparr>em := (em s1)\<lparr>em_wps := ws\<rparr>\<rparr>))))"

definition cmd_d :: "'r handler" where
  "cmd_d args s =
     (if args = [] then Inr (0, say [MMissing] s)
      else bindR (sscanf_d args) (\<lambda>N.
           bindR (delete_wp N (em_wps (em s))) (\<lambda>(tmp, search).
             if search
             then let w = wp_pool (em_wps (em s)) ! the tmp
                  in bindR (free_wp (the tmp) (em_wps (em s))) (\<lambda>ws.
                       Inr (0, say [MWpDeleted (wp_NO w) (wp_e w)] (s\<lparr>em := (em s)\<lparr>em_wps := ws\<rparr>\<rparr>)))
             else Inr (0, say [MNoWp N] s))))"

definition cmd_names :: "(string \<times> string) list" where
  "cmd_names =
    [(''help'', ''Display information about all supported commands''),
     (''c'', ''Continue the execution of the program''),
     (''q'', ''Exit NEMU''),
     (''si'', ''Step over, default N=1''),
     (''info'', ''info r: print register info; info w: print watchpoint info''),
     (''x'', ''x N EXPR: print N * 4 bytes info in mem from addr=EXPR''),
     (''p'', ''p EXPR: evaluate the expression''),
     (''w'', ''w EXPR: set a watchpoint on the value of EXPR''),
     (''d'', ''d N: delete the watchpoint with N'')]"

definition cmd_help :: "'r handler" where
  "cmd_help rest s =
     (case fst (strtok rest) of
        None \<Rightarrow> Inr (0, say (map (\<lambda>(n, d). MHelp n d) cmd_names) s)
      | Some arg \<Rightarrow>
          (case find (\<lambda>(n, d). n = arg) cmd_names of
             Some (n, d) \<Rightarrow> Inr (0, say [MHelp n d] s)
           | None \<Rightarrow> Inr (0, say [MUnknown arg] s)))"

definition cmd_handlers :: "'r env \<Rightarrow> 'r handler list" where
  "cmd_handlers v = [cmd_help, cmd_c v, cmd_q, cmd_si v, cmd_info, cmd_x, cmd_p, cmd_w, cmd_d]"

definition cmd_table :: "'r env \<Rightarrow> (string \<times> 'r handler) list" where
  "cmd_table v = zip (map fst cmd_names) (cmd_handlers v)"

section \<open>The loop\<close>

text \<open>One line: whether the loop goes on, and the new state.\<close>

definition sdb_line :: "'r env \<Rightarrow> string \<Rightarrow> 'r sdb \<Rightarrow> (bool \<times> 'r sdb) res" where
  "sdb_line v str s =
     (case strtok str of
        (None, _) \<Rightarrow> Inr (True, s)
      | (Some cmd, args) \<Rightarrow>
          let s1 = (if cfg_device (conf (mbus (mach (em s))))
                    then set_bus (sdl_clear_event_queue (mbus (mach (em s)))) s else s)
          in (case find (\<lambda>(n, h). n = cmd) (cmd_table v) of
                None \<Rightarrow> Inr (True, say [MUnknown cmd] s1)
              | Some (n, h) \<Rightarrow> bindR (h args s1) (\<lambda>(r, s2). Inr (0 \<le> r, s2))))"

fun sdb_loop :: "'r env \<Rightarrow> string list \<Rightarrow> 'r sdb \<Rightarrow> 'r sdb res" where
  "sdb_loop v [] s = Inr s"
| "sdb_loop v (str # strs) s =
     bindR (sdb_line v str s) (\<lambda>(go_on, s1). if go_on then sdb_loop v strs s1 else Inr s1)"

definition sdb_mainloop :: "'r env \<Rightarrow> string list \<Rightarrow> 'r sdb \<Rightarrow> 'r sdb res" where
  "sdb_mainloop v strs s =
     (if is_batch_mode s then bindR (cmd_c v [] s) (\<lambda>(r, s1). Inr s1) else sdb_loop v strs s)"

definition sdb_set_batch_mode :: "'r sdb \<Rightarrow> 'r sdb" where
  "sdb_set_batch_mode s = s\<lparr>is_batch_mode := True\<rparr>"

definition init_sdb :: "'r sdb \<Rightarrow> 'r sdb" where
  "init_sdb s = s\<lparr>em := (em s)\<lparr>em_wps := init_wp_pool\<rparr>\<rparr>"

definition engine_start :: "'r env \<Rightarrow> string list \<Rightarrow> 'r sdb \<Rightarrow> 'r sdb res" where
  "engine_start v strs s = sdb_mainloop v strs s"

end
