(* ===== verification/SdbProps.thy ===== *)
theory SdbProps
  imports Sdb CpuProps
begin

text \<open>
  The debugger session: whatever lines the user types, the parts of the state the commands share
  stay well formed, and \<open>x\<close> shows memory as it is.
\<close>

section \<open>What running keeps\<close>

definition wps_fine :: "wps \<Rightarrow> bool" where
  "wps_fine w \<longleftrightarrow> (\<exists>a. wps_rel w a)"

definition emu_fine :: "'r emu \<Rightarrow> bool" where
  "emu_fine e \<longleftrightarrow> wps_fine (em_wps e) \<and> cpu_ok (cpu (mach e))"

lemma new_wp_fine:
  assumes "new_wp e c b w = Inr (i, w', b')" "wps_fine w" shows "wps_fine w'"
proof -
  obtain a where "wps_rel w a" using assms(2) unfolding wps_fine_def by blast
  from new_wp_refines[OF this, of e c b] obtain x where "wps_rel w' x"
    unfolding assms(1) by (cases "abs_new e c b a") auto
  then show ?thesis unfolding wps_fine_def by blast
qed

lemma check_wp_fine:
  assumes "check_wp c w b = Inr (k, w', b')" "wps_fine w" shows "wps_fine w'"
proof -
  obtain ws fs where "wps_rel w (ws, fs)" using assms(2) unfolding wps_fine_def by auto
  from check_wp_refines[OF this, of c b] obtain x where "wps_rel w' x"
    unfolding assms(1) by (cases "abs_check c False True ws b") auto
  then show ?thesis unfolding wps_fine_def by blast
qed

lemma delete_wp_fine:
  assumes "delete_wp N w = Inr (tmp, True)" "free_wp (the tmp) w = Inr w'" "wps_fine w"
  shows "wps_fine w'"
proof -
  obtain a where "wps_rel w a" using assms(3) by (auto simp: wps_fine_def)
  from delete_wp_refines[OF this, of N] have "wps_rel w' (snd (abs_delete N a))"
    using assms(1,2) by (auto simp: delete_wp_def split: if_splits)
  then show ?thesis unfolding wps_fine_def by blast
qed

lemma set_run_state_fine [simp]: "emu_fine (set_run_state st e) = emu_fine e"
  by (simp add: emu_fine_def set_run_state_def)

lemma watch_step_fine: "watch_step e = Inr e' \<Longrightarrow> emu_fine e \<Longrightarrow> emu_fine e'"
  by (auto simp: watch_step_def res_elims Let_def emu_fine_def set_run_state_def dest: check_wp_fine split: if_splits)

lemma difftest_step_cpu: "difftest_step R pc npc m r = Inr (m', r') \<Longrightarrow> cpu m' = cpu m"
  by (auto simp: difftest_step_def Let_def res_elims checkregs_state split: if_splits)

lemma trace_fine:
  assumes "trace_and_difftest v s npc e = Inr e'" "emu_fine e"
  shows "emu_fine e'"
proof -
  let ?e1 = "if g_print_step e \<and> cfg_itrace v then e\<lparr>stepped := stepped e @ [(s_pc s, s_inst s)]\<rparr> else e"
  obtain e2 where e2: "(if cfg_difftest (conf (mbus (mach ?e1)))
                then bindR (difftest_step (diff v) (s_pc s) npc (mach ?e1) (ref_state ?e1)) (\<lambda>(m, r).
                       Inr (?e1\<lparr>mach := m, ref_state := r\<rparr>))
                else Inr ?e1) = Inr e2" "(if cfg_watchpoint v then watch_step e2 else Inr e2) = Inr e'"
    using assms(1) unfolding trace_and_difftest_def Let_def bindR_eq_Inr by blast
  have "emu_fine e2"
    using e2(1) assms(2) by (auto simp: res_elims emu_fine_def dest!: difftest_step_cpu split: if_splits)
  then show ?thesis using e2(2) by (auto dest: watch_step_fine split: if_splits)
qed

lemma exec_once_fine: "exec_once v pc e = Inr (s, e') \<Longrightarrow> emu_fine e \<Longrightarrow> emu_fine e'"
  by (auto simp: exec_once_def res_elims emu_fine_def cpu_ok_def cpu_sizes_def
      dest!: rb_log_keeps dest: isa_exec_once_sizes[unfolded cpu_sizes_def cpu_ok_def, rotated])

lemma loop_body_fine: "loop_body v e = Inr e' \<Longrightarrow> emu_fine e \<Longrightarrow> emu_fine e'"
  by (auto simp: loop_body_def res_elims elim!: trace_fine dest!: exec_once_fine) (simp add: emu_fine_def)

lemma device_step_fine: "device_step e = Inr e' \<Longrightarrow> emu_fine e \<Longrightarrow> emu_fine e'"
  by (auto simp: device_step_def res_elims emu_fine_def split: if_splits)

lemma execute_loop_fine: "execute_loop v n e = Inr e' \<Longrightarrow> emu_fine e \<Longrightarrow> emu_fine e'"
proof (induction n arbitrary: e)
  case (Suc n)
  obtain e1 where e1: "loop_body v e = Inr e1" using Suc.prems(1) by (auto simp: res_elims)
  then have "emu_fine e1" using Suc.prems(2) by (rule loop_body_fine)
  then show ?case using Suc.prems(1) Suc.IH e1 by (auto simp: res_elims dest: device_step_fine split: if_splits)
qed simp

lemma emu_time_fine: "emu_fine (snd (emu_time e)) = emu_fine e"
  using get_time_frame[of "mbus (mach e)"] by (auto simp: emu_time_def emu_fine_def split: prod.splits)

lemma statistic_fine: "statistic v e = Inr e' \<Longrightarrow> emu_fine e' = emu_fine e"
  by (auto simp: statistic_def Let_def emu_fine_def split: if_splits)

lemma cpu_exec_end_fine: "cpu_exec_end v e = Inr e' \<Longrightarrow> emu_fine e \<Longrightarrow> emu_fine e'"
  by (auto simp: cpu_exec_end_def Let_def emu_fine_def set_run_state_def split: nemu_run.splits
      dest!: statistic_fine[unfolded emu_fine_def])

lemma rb_create_fine: "rb_create v e = Inr e' \<Longrightarrow> emu_fine e' = emu_fine e"
  by (auto simp: rb_create_def emu_fine_def split: if_splits option.splits)

lemma cpu_exec_fine:
  assumes "cpu_exec v n e = Inr e'" "emu_fine e"
  shows "emu_fine e'"
proof (cases "run_state e = NEMU_END \<or> run_state e = NEMU_ABORT")
  case True
  then have "e' = e\<lparr>g_print_step := n < 10\<rparr>" using assms(1) by (auto simp: cpu_exec_def run_state_def Let_def)
  then show ?thesis using assms(2) by (simp add: emu_fine_def)
next
  case False
  let ?e = "set_run_state NEMU_RUNNING (e\<lparr>g_print_step := n < 10\<rparr>)"
  have "emu_fine ?e" using assms(2) by (simp add: emu_fine_def set_run_state_def)
  moreover obtain x where x: "rb_create v (snd (emu_time ?e)) = Inr x"
    using assms(1) False by (cases "rb_create v (snd (emu_time ?e))") (auto simp: cpu_exec_def execute_def run_state_def Let_def split: prod.splits)
  moreover obtain e2 where e2: "execute_loop v (unat n) x = Inr e2"
    using assms(1) False x by (cases "execute_loop v (unat n) x") (auto simp: cpu_exec_def execute_def run_state_def Let_def split: prod.splits)
  ultimately have "emu_fine (snd (emu_time e2))"
    using rb_create_fine[OF x] execute_loop_fine[OF e2] by (simp add: emu_time_fine)
  then have "emu_fine (snd (emu_time e2)\<lparr>g_timer := t\<rparr>)" for t by (simp add: emu_fine_def)
  then show ?thesis
    using assms(1) False x e2 by (auto simp: cpu_exec_def execute_def run_state_def Let_def dest!: cpu_exec_end_fine split: prod.splits)
qed

section \<open>What a command keeps\<close>

definition sdb_fine :: "'r sdb \<Rightarrow> bool" where
  "sdb_fine s \<longleftrightarrow> emu_fine (em s)"

definition keeps_fine :: "'r handler \<Rightarrow> bool" where
  "keeps_fine h \<longleftrightarrow> (\<forall>args s r s'. h args s = Inr (r, s') \<longrightarrow> sdb_fine s \<longrightarrow> sdb_fine s')"

lemma sdb_fine_simps [simp]:
  "sdb_fine (say ms s) = sdb_fine s" "sdb_fine (set_bus b s) = sdb_fine s"
  "sdb_fine (s\<lparr>em := set_run_state st (em s)\<rparr>) = sdb_fine s"
  by (simp_all add: sdb_fine_def say_def set_bus_def emu_fine_def set_run_state_def)

lemma run_cpu_fine: "run_cpu v n s = Inr (r, s') \<Longrightarrow> sdb_fine s \<Longrightarrow> sdb_fine s'"
  by (auto simp: run_cpu_def sdb_fine_def res_elims dest: cpu_exec_fine)

lemma cmd_w_fine: "keeps_fine cmd_w"
  unfolding keeps_fine_def
proof (intro allI impI)
  fix args r and s s' :: "'a sdb" assume r: "cmd_w args s = Inr (r, s')" and s: "sdb_fine s"
  show "sdb_fine s'"
  proof (cases "args = []")
    case False
    then obtain i ws b where n: "new_wp args (cpu (mach (em s))) (mbus (mach (em s))) (em_wps (em s)) = Inr (i, ws, b)"
      using r by (auto simp: cmd_w_def res_elims)
    have "wps_fine ws" using new_wp_fine[OF n] s by (simp add: sdb_fine_def emu_fine_def)
    then show ?thesis using r s False n by (auto simp: cmd_w_def Let_def sdb_fine_def emu_fine_def say_def set_bus_def)
  qed (use r s in \<open>auto simp: cmd_w_def\<close>)
qed

lemma cmd_d_fine: "keeps_fine cmd_d"
  unfolding keeps_fine_def
proof (intro allI impI)
  fix args r and s s' :: "'a sdb" assume r: "cmd_d args s = Inr (r, s')" and s: "sdb_fine s"
  show "sdb_fine s'"
  proof (cases "args = []")
    case False
    then obtain N tmp search where n: "sscanf_d args = Inr N" "delete_wp N (em_wps (em s)) = Inr (tmp, search)"
      using r by (auto simp: cmd_d_def res_elims)
    show ?thesis
    proof (cases search)
      case True
      then obtain ws where f: "free_wp (the tmp) (em_wps (em s)) = Inr ws"
        using r n False by (auto simp: cmd_d_def res_elims Let_def)
      have "wps_fine ws" using delete_wp_fine[OF _ f] n True s by (simp add: sdb_fine_def emu_fine_def)
      then show ?thesis using r s False n True f by (auto simp: cmd_d_def Let_def sdb_fine_def emu_fine_def say_def)
    qed (use r s n False in \<open>auto simp: cmd_d_def\<close>)
  qed (use r s in \<open>auto simp: cmd_d_def\<close>)
qed

lemma handlers_fine: "\<forall>h \<in> set (cmd_handlers v). keeps_fine h"
proof -
  have "keeps_fine cmd_help" by (auto simp: keeps_fine_def cmd_help_def split: option.splits)
  moreover have "keeps_fine (cmd_c v)" by (auto simp: keeps_fine_def cmd_c_def dest: run_cpu_fine)
  moreover have "keeps_fine cmd_q" by (auto simp: keeps_fine_def cmd_q_def)
  moreover have "keeps_fine (cmd_si v)" by (auto simp: keeps_fine_def cmd_si_def res_elims dest: run_cpu_fine split: option.splits)
  moreover have "keeps_fine cmd_info" by (auto simp: keeps_fine_def cmd_info_def Let_def res_elims split: option.splits if_splits)
  moreover have "keeps_fine cmd_x" by (auto simp: keeps_fine_def cmd_x_def res_elims split: prod.splits if_splits)
  moreover have "keeps_fine cmd_p" by (auto simp: keeps_fine_def cmd_p_def res_elims split: if_splits)
  ultimately show ?thesis using cmd_w_fine cmd_d_fine by (simp add: cmd_handlers_def)
qed

lemma sdb_line_fine:
  assumes "sdb_line v str s = Inr (go, s')" "sdb_fine s" shows "sdb_fine s'"
proof (cases "strtok str")
  case (Pair tok args)
  show ?thesis
  proof (cases tok)
    case (Some cmd)
    define s1 where "s1 = (if cfg_device (conf (mbus (mach (em s)))) then set_bus (sdl_clear_event_queue (mbus (mach (em s)))) s else s)"
    have s1: "sdb_fine s1" using assms(2) by (simp add: s1_def)
    have line: "sdb_line v str s = (case find (\<lambda>(n, h). n = cmd) (cmd_table v) of None \<Rightarrow> Inr (True, say [MUnknown cmd] s1)
        | Some (n, h) \<Rightarrow> bindR (h args s1) (\<lambda>(r, s2). Inr (0 \<le> r, s2)))"
      unfolding sdb_line_def Pair Some s1_def Let_def by simp
    show ?thesis
    proof (cases "find (\<lambda>(n, h). n = cmd) (cmd_table v)")
      case None
      then show ?thesis using assms(1) s1 unfolding line by auto
    next
      case (Some x)
      then have "x \<in> set (cmd_table v)" by (metis find_Some_iff nth_mem)
      then have "(fst x, snd x) \<in> set (zip (map fst cmd_names) (cmd_handlers v))" by (simp add: cmd_table_def)
      then have "snd x \<in> set (cmd_handlers v)" by (rule set_zip_rightD)
      then have "keeps_fine (snd x)" using handlers_fine[of v] by blast
      then show ?thesis using assms(1) s1 Some unfolding line by (cases x) (auto simp: res_elims keeps_fine_def)
    qed
  qed (use assms Pair in \<open>simp add: sdb_line_def\<close>)
qed

lemma sdb_loop_fine: "sdb_loop v strs s = Inr s' \<Longrightarrow> sdb_fine s \<Longrightarrow> sdb_fine s'"
  by (induction strs arbitrary: s) (auto simp: res_elims dest: sdb_line_fine split: if_splits)

lemma init_sdb_fine: "cpu_ok (cpu (mach (em s))) \<Longrightarrow> sdb_fine (init_sdb s)"
  using wps_rel_init by (auto simp: sdb_fine_def emu_fine_def init_sdb_def wps_fine_def)

section \<open>Sessions\<close>

text \<open>
  C14. No session corrupts the debugger. After init_sdb on a machine with a well-formed register
  file, whatever lines the user types, when the loop returns (at the end of the input or by
  \<open>q\<close>) the watchpoint pool is two disjoint chains that make up its 32 nodes, with the numbers 0 to
  31, and the register file is well formed with register 0 equal to zero, all executed instructions,
  watchpoint checks, comparisons and device updates included.
\<close>

theorem sdb_session_invariant:
  assumes "cpu_ok (cpu (mach (em s)))" "engine_start v strs (init_sdb s) = Inr s'"
  shows "(\<exists>us fs. wps_ok (em_wps (em s')) us fs) \<and> cpu_ok (cpu (mach (em s')))"
proof -
  have "sdb_fine (init_sdb s)" using init_sdb_fine[OF assms(1)] .
  then have "sdb_fine s'"
    using assms(2) by (auto simp: engine_start_def sdb_mainloop_def cmd_c_def res_elims dest: run_cpu_fine sdb_loop_fine split: if_splits)
  then show ?thesis by (auto simp: sdb_fine_def emu_fine_def wps_fine_def wps_rel_def)
qed

lemma dump_loop_pmem:
  assumes "\<forall>i \<in> set is. 0 \<le> i \<and> guest_to_host a + 4 * i + 4 \<le> int CONFIG_MSIZE" "0 \<le> guest_to_host a"
  shows "dump_loop a is b = Inr (map (\<lambda>i. MWord (a + word_of_int (i * 4))
     (le_word (load_bytes (pmem b) (nat (guest_to_host a + 4 * i)) 4))) is, b)"
  using assms(1)
proof (induction "is")
  case (Cons i "is")
  have i: "0 \<le> i" "guest_to_host a + 4 * i + 4 \<le> int CONFIG_MSIZE" using Cons.prems by auto
  have g: "guest_to_host (a + word_of_int (i * 4)) = guest_to_host a + 4 * i"
    using i assms(2) by (simp add: guest_to_host_def uint_word_ariths take_bit_eq_mod uint_word_of_int mod_add_right_eq)
  have "in_pmem (a + word_of_int (i * 4))" unfolding in_pmem_iff g using i assms(2) by simp
  then have "vaddr_read (a + word_of_int (i * 4)) 4 b = Inr (le_word (load_bytes (pmem b) (nat (guest_to_host a + 4 * i)) 4), b)"
    using pmem_access(2) i(2) g by simp
  then show ?case using Cons i assms(2) by simp
qed simp

text \<open>
  C31. \<open>x N EXPR\<close> shows memory as it is: for N words that lie in physical memory behind the value of
  the expression, the command prints them in ascending order with their addresses, each the little
  endian word of its four bytes, and leaves the machine alone.
\<close>

theorem sdb_examine_memory:
  assumes "strtok rest = (Some N, rest1)" "strtok rest1 = (Some EXPR, rest2)" "sscanf_d N = Inr n"
    and "expr EXPR (cpu (mach (em s))) True (mbus (mach (em s))) = Inr (a, True, b)"
    and "0 \<le> guest_to_host a" "guest_to_host a + 4 * n \<le> int CONFIG_MSIZE"
  shows "cmd_x rest s = Inr (0, say (map (\<lambda>i. MWord (a + word_of_int (i * 4))
      (le_word (load_bytes (pmem b) (nat (guest_to_host a + 4 * i)) 4))) [0..n - 1]) (set_bus b s))"
proof -
  have "\<forall>i \<in> set [0..n - 1]. 0 \<le> i \<and> guest_to_host a + 4 * i + 4 \<le> int CONFIG_MSIZE"
    using assms(6) by auto
  from dump_loop_pmem[OF this assms(5)] show ?thesis
    by (simp add: cmd_x_def assms(1-4) Let_def)
qed

section \<open>A session\<close>

definition demo_sdb :: "unit sdb" where
  "demo_sdb = \<lparr>em = demo_emu (\<lambda>i. of_nat i) 0x80000000, is_batch_mode = False, outp = []\<rparr>"

lemma demo_sdb_simps: "mach (em demo_sdb) = mach (demo_emu (\<lambda>i. of_nat i) 0x80000000)"
  by (simp add: demo_sdb_def)

theorem sdb_examine_memory_witness:
  "cmd_x ''2 0x80000010'' demo_sdb =
     Inr (0, say [MWord 0x80000010 0x13121110, MWord 0x80000014 0x17161514] demo_sdb)"
proof -
  have tok: "strtok ''2 0x80000010'' = (Some ''2'', ''0x80000010'')" "strtok ''0x80000010'' = (Some ''0x80000010'', [])"
    "sscanf_d ''2'' = Inr 2" by code_simp+
  define b where "b = mbus (mach (em demo_sdb))"
  have "render (zip (print_ast (AHex ''80000010'')) [0]) = ''0x80000010''" "leaves_ok (AHex ''80000010'')"
    by code_simp+
  moreover have "ast_val (cpu (mach (em demo_sdb))) b (AHex ''80000010'') = Some 0x80000010"
    by (simp add: number_val_def digits_val_def hex_val_def is_digit_def in_range_def)
  ultimately have e: "expr ''0x80000010'' (cpu (mach (em demo_sdb))) True b = Inr (0x80000010, True, b)"
    using expr_print[of "AHex ''80000010''" "cpu (mach (em demo_sdb))" b "0x80000010" "[0]"] by simp
  have "cmd_x ''2 0x80000010'' demo_sdb = Inr (0, say (map (\<lambda>i. MWord (0x80000010 + word_of_int (i * 4))
      (le_word (load_bytes (pmem b) (nat (guest_to_host 0x80000010 + 4 * i)) 4))) [0..2 - 1]) (set_bus b demo_sdb))"
    using sdb_examine_memory[OF tok, where s = demo_sdb and a = "0x80000010" and b = b] e by (simp add: b_def guest_to_host_def)
  moreover have "pmem b = (\<lambda>i. of_nat i)" by (simp add: b_def demo_sdb_def demo_emu_def static_bus_def)
  moreover have "[0..2 - 1] = [0, 1 :: int]" by code_simp
  moreover have "le_word (load_bytes (\<lambda>i. of_nat i) (nat (guest_to_host 0x80000010 + 4 * 0)) 4) = (0x13121110 :: u32)"
    "le_word (load_bytes (\<lambda>i. of_nat i) (nat (guest_to_host 0x80000010 + 4 * 1)) 4) = (0x17161514 :: u32)" by code_simp+
  moreover have "set_bus b demo_sdb = demo_sdb" by (simp add: b_def set_bus_def)
  ultimately show ?thesis by simp
qed

theorem sdb_session_invariant_witness:
  "\<exists>s'. engine_start demo_env [''info w'', ''w $pc'', ''info'', ''d 0'', ''help x'', ''q''] (init_sdb demo_sdb) = Inr s' \<and>
     cpu_ok (cpu (mach (em s')))"
proof -
  have "\<exists>s'. engine_start demo_env [''info w'', ''w $pc'', ''info'', ''d 0'', ''help x'', ''q''] (init_sdb demo_sdb) = Inr s'"
  proof -
    have "(case engine_start demo_env [''info w'', ''w $pc'', ''info'', ''d 0'', ''help x'', ''q''] (init_sdb demo_sdb) of
        Inr s' \<Rightarrow> True | Inl e \<Rightarrow> False)" by code_simp
    then show ?thesis by (auto split: sum.splits)
  qed
  then show ?thesis
    using sdb_session_invariant[of demo_sdb demo_env] demo_emu_facts(2) by (auto simp: demo_sdb_simps)
qed

end
