(* ===== verification/Int64.thy ===== *)
theory Int64
  imports NemuPrelude "HOL-Library.Signed_Division"
begin

text \<open>
  64 bit division for 32 bit targets, \<open>abstract-machine/klib/src/int64.c\<close>: counting zeros, the
  unsigned division by shift and subtract, and the signed wrappers. On riscv32 the compiler turns
  \<open>__builtin_clz\<close> and \<open>__builtin_ctz\<close> into calls of \<open>__clzsi2\<close> and \<open>__ctzsi2\<close>. A shift by 32 or more,
  a division by zero and a signed overflow are undefined.
\<close>

section \<open>The two halves of a double word\<close>

definition s_low :: "u64 \<Rightarrow> u32" where
  "s_low x = ucast x"

definition s_high :: "u64 \<Rightarrow> u32" where
  "s_high x = ucast (drop_bit 32 x)"

definition udwords :: "u32 \<Rightarrow> u32 \<Rightarrow> u64" where
  "udwords high low = push_bit 32 (ucast high) OR ucast low"

section \<open>Counting zeros\<close>

text \<open>A comparison is 0 or 1; \<open>t\<close> and \<open>r\<close> stay below 32.\<close>

definition clzsi2 :: "u32 \<Rightarrow> u32" where
  "clzsi2 a =
     (let x = a;
          t = push_bit 4 (bool_u32 (x AND 0xFFFF0000 = 0));
          x = drop_bit (unat (16 - t)) x;
          r = t;
          t = push_bit 3 (bool_u32 (x AND 0xFF00 = 0));
          x = drop_bit (unat (8 - t)) x;
          r = r + t;
          t = push_bit 2 (bool_u32 (x AND 0xF0 = 0));
          x = drop_bit (unat (4 - t)) x;
          r = r + t;
          t = push_bit 1 (bool_u32 (x AND 0xC = 0));
          x = drop_bit (unat (2 - t)) x;
          r = r + t
      in r + ((2 - x) AND - bool_u32 (x AND 2 = 0)))"

definition ctzsi2 :: "u32 \<Rightarrow> u32" where
  "ctzsi2 a =
     (let x = a;
          t = push_bit 4 (bool_u32 (x AND 0x0000FFFF = 0));
          x = drop_bit (unat t) x;
          r = t;
          t = push_bit 3 (bool_u32 (x AND 0x00FF = 0));
          x = drop_bit (unat t) x;
          r = r + t;
          t = push_bit 2 (bool_u32 (x AND 0x0F = 0));
          x = drop_bit (unat t) x;
          r = r + t;
          t = push_bit 1 (bool_u32 (x AND 0x3 = 0));
          x = drop_bit (unat t) x;
          x = x AND 3;
          r = r + t
      in r + ((2 - drop_bit 1 x) AND - bool_u32 (x AND 1 = 0)))"

definition ctzdi2 :: "u64 \<Rightarrow> u32" where
  "ctzdi2 a =
     (let f = - bool_u32 (s_low a = 0)
      in ctzsi2 ((s_high a AND f) OR (s_low a AND NOT f)) + (f AND 32))"

definition clzdi2 :: "u64 \<Rightarrow> u32" where
  "clzdi2 a =
     (let f = - bool_u32 (s_high a = 0)
      in clzsi2 ((s_high a AND NOT f) OR (s_low a AND f)) + (f AND 32))"

section \<open>Unsigned division\<close>

text \<open>
  \<open>rem\<close> says whether a place for the remainder was passed. The special cases return early (\<open>Inl\<close>);
  otherwise the shift count and the pair \<open>r:q\<close> go into the loop (\<open>Inr\<close>).
\<close>

type_synonym divres = "u64 \<times> u64 option"

definition div_out :: "bool \<Rightarrow> u64 \<Rightarrow> u64 option" where
  "div_out rem v = (if rem then Some v else None)"

text \<open>\<open>q.all = n.all << (64 - sr)\<close> and \<open>r.all = n.all >> sr\<close>, for sr below 32.\<close>

definition shift_small :: "u64 \<Rightarrow> u32 \<Rightarrow> (u64 \<times> u64) res" where
  "shift_small n sr =
     guardR (1 \<le> sr \<and> sr \<le> 31) (Undef ''shift'')
       (let q = udwords (push_bit (unat (32 - sr)) (s_low n)) 0;
            r = udwords (drop_bit (unat sr) (s_high n))
                  (push_bit (unat (32 - sr)) (s_high n) OR drop_bit (unat sr) (s_low n))
        in Inr (q, r))"

definition shift_big :: "u64 \<Rightarrow> u32 \<Rightarrow> (u64 \<times> u64) res" where
  "shift_big n sr =
     guardR (33 \<le> sr \<and> sr \<le> 63) (Undef ''shift'')
       (let q = udwords (push_bit (unat (64 - sr)) (s_high n) OR drop_bit (unat (sr - 32)) (s_low n))
                  (push_bit (unat (64 - sr)) (s_low n));
            r = udwords 0 (drop_bit (unat (sr - 32)) (s_high n))
        in Inr (q, r))"

definition udiv_init :: "u64 \<Rightarrow> u64 \<Rightarrow> bool \<Rightarrow> (divres + u32 \<times> u64 \<times> u64) res" where
  "udiv_init n d rem =
     (let enter = (\<lambda>sr s. bindR s (\<lambda>(q, r). Inr (Inr (sr, q, r))))
      in if s_high n = 0 then
           (if s_high d = 0 then
              guardR (s_low d \<noteq> 0) (Undef ''division'')
                (Inr (Inl (ucast (s_low n div s_low d), div_out rem (ucast (s_low n mod s_low d)))))
            else Inr (Inl (0, div_out rem (ucast (s_low n)))))
         else if s_low d = 0 then
           (if s_high d = 0 then Inl (Undef ''division'')
            else if s_low n = 0 then
              Inr (Inl (ucast (s_high n div s_high d), div_out rem (udwords (s_high n mod s_high d) 0)))
            else if s_high d AND (s_high d - 1) = 0 then
              Inr (Inl (ucast (drop_bit (unat (ctzsi2 (s_high d))) (s_high n)),
                div_out rem (udwords (s_high n AND (s_high d - 1)) (s_low n))))
            else
              (let sr = clzsi2 (s_high d) - clzsi2 (s_high n)
               in if sr > 30 then Inr (Inl (0, div_out rem n))
                  else (let sr = sr + 1 in enter sr (shift_small n sr))))
         else if s_high d = 0 then
           (if s_low d AND (s_low d - 1) = 0 then
              (if s_low d = 1 then Inr (Inl (n, div_out rem (ucast (s_low n AND (s_low d - 1)))))
               else
                 (let sr = ctzsi2 (s_low d)
                  in guardR (1 \<le> sr \<and> sr \<le> 31) (Undef ''shift'')
                       (Inr (Inl (udwords (drop_bit (unat sr) (s_high n))
                          (push_bit (unat (32 - sr)) (s_high n) OR drop_bit (unat sr) (s_low n)),
                          div_out rem (ucast (s_low n AND (s_low d - 1))))))))
            else
              (let sr = 1 + 32 + clzsi2 (s_low d) - clzsi2 (s_high n)
               in if sr = 32 then enter sr (Inr (udwords (s_low n) 0, udwords 0 (s_high n)))
                  else if sr < 32 then enter sr (shift_small n sr)
                  else enter sr (shift_big n sr)))
         else
           (let sr = clzsi2 (s_high d) - clzsi2 (s_high n)
            in if sr > 31 then Inr (Inl (0, div_out rem n))
               else
                 (let sr = sr + 1
                  in if sr = 32 then enter sr (Inr (udwords (s_low n) 0, udwords 0 (s_high n)))
                     else enter sr (shift_small n sr))))"

text \<open>
  One round of the loop on \<open>(q, r, carry)\<close>. \<open>s\<close> is all ones when \<open>r >= d\<close>: the sign of
  \<open>d - r - 1\<close>.
\<close>

definition udiv_round :: "u64 \<Rightarrow> u64 \<times> u64 \<times> u32 \<Rightarrow> u64 \<times> u64 \<times> u32" where
  "udiv_round d qrc =
     (case qrc of (q, r, carry) \<Rightarrow>
       let r = udwords (push_bit 1 (s_high r) OR drop_bit 31 (s_low r)) (s_low r);
           r = udwords (s_high r) (push_bit 1 (s_low r) OR drop_bit 31 (s_high q));
           q = udwords (push_bit 1 (s_high q) OR drop_bit 31 (s_low q)) (s_low q);
           q = udwords (s_high q) (push_bit 1 (s_low q) OR carry);
           s = signed_drop_bit 63 (d - r - 1);
           carry = ucast (s AND 1);
           r = r - (d AND s)
       in (q, r, carry))"

fun udiv_loop :: "u64 \<Rightarrow> nat \<Rightarrow> u64 \<times> u64 \<times> u32 \<Rightarrow> u64 \<times> u64 \<times> u32" where
  "udiv_loop d 0 qrc = qrc"
| "udiv_loop d (Suc sr) qrc = udiv_loop d sr (udiv_round d qrc)"

definition udivmoddi4 :: "u64 \<Rightarrow> u64 \<Rightarrow> bool \<Rightarrow> divres res" where
  "udivmoddi4 a b rem =
     bindR (udiv_init a b rem) (\<lambda>st. case st of
       Inl out \<Rightarrow> Inr out
     | Inr (sr, q, r) \<Rightarrow>
         (case udiv_loop b (unat sr) (q, r, 0) of (q, r, carry) \<Rightarrow>
            Inr (push_bit 1 q OR ucast carry, div_out rem r)))"

definition udivdi3 :: "u64 \<Rightarrow> u64 \<Rightarrow> u64 res" where
  "udivdi3 a b = bindR (udivmoddi4 a b False) (\<lambda>(q, _). Inr q)"

definition umoddi3 :: "u64 \<Rightarrow> u64 \<Rightarrow> u64 res" where
  "umoddi3 a b = bindR (udivmoddi4 a b True) (\<lambda>(_, r). Inr (the r))"

section \<open>Signed division\<close>

text \<open>\<open>(a ^ s) - s\<close> on \<open>long long\<close>: the subtraction overflows for the least value.\<close>

definition neg_if :: "u64 \<Rightarrow> u64 \<Rightarrow> u64 res" where
  "neg_if a s = guardR (- (2 ^ 63) \<le> sint (a XOR s) - sint s \<and> sint (a XOR s) - sint s < 2 ^ 63)
     (Undef ''signed overflow'') (Inr ((a XOR s) - s))"

definition divdi3 :: "u64 \<Rightarrow> u64 \<Rightarrow> u64 res" where
  "divdi3 a b =
     (let s_a = signed_drop_bit 63 a; s_b = signed_drop_bit 63 b
      in bindR (neg_if a s_a) (\<lambda>a1. bindR (neg_if b s_b) (\<lambda>b1.
           let s = s_a XOR s_b
           in bindR (udivmoddi4 a1 b1 False) (\<lambda>(q, _). Inr ((q XOR s) - s)))))"

definition moddi3 :: "u64 \<Rightarrow> u64 \<Rightarrow> u64 res" where
  "moddi3 a b =
     (let s_b = signed_drop_bit 63 b
      in bindR (neg_if b s_b) (\<lambda>b1.
           let s = signed_drop_bit 63 a
           in bindR (neg_if a s) (\<lambda>a1.
                bindR (udivmoddi4 a1 b1 True) (\<lambda>(_, r). neg_if (the r) s))))"

text \<open>\<open>d*b\<close> and \<open>a - d*b\<close> are signed too.\<close>

definition divmoddi4 :: "u64 \<Rightarrow> u64 \<Rightarrow> (u64 \<times> u64) res" where
  "divmoddi4 a b =
     bindR (divdi3 a b) (\<lambda>d.
       guardR (- (2 ^ 63) \<le> sint d * sint b \<and> sint d * sint b < 2 ^ 63 \<and>
               - (2 ^ 63) \<le> sint a - sint d * sint b \<and> sint a - sint d * sint b < 2 ^ 63)
         (Undef ''signed overflow'') (Inr (d, a - d * b)))"

end
