(* ===== verification/Int64Props.thy ===== *)
theory Int64Props
  imports Int64
begin

text \<open>
  The 64 bit division of \<open>Int64\<close> is division. Words are read as natural numbers; a double word is
  \<open>high * 2^32 + low\<close>. The division keeps, between rounds, \<open>r + d * quotient = n div 2^k\<close> with
  \<open>r < d\<close>, the rest of \<open>n\<close> in the top bits of \<open>q\<close> and the quotient so far in its low bits (\<open>udiv_inv\<close>).
\<close>

section \<open>Words as numbers\<close>


lemma s_low_udwords [simp]: "s_low (udwords h l) = l"
  unfolding s_low_def udwords_def by (rule bit_word_eqI) (auto simp: bit_simps)

lemma s_high_udwords [simp]: "s_high (udwords h l) = h"
  unfolding s_high_def udwords_def by (rule bit_word_eqI) (auto simp: bit_simps dest: bit_imp_le_length)

lemma udwords_halves [simp]: "udwords (s_high x) (s_low x) = x"
  unfolding s_high_def s_low_def udwords_def
  by (rule bit_word_eqI) (auto simp: bit_simps dest: bit_imp_le_length)

lemma unat_or_disjoint:
  fixes a b :: "'a::len word"
  assumes "a AND b = 0" shows "unat (a OR b) = unat a + unat b"
proof -
  have "unat a AND unat b = 0" using assms by (metis unsigned_0 unsigned_and_eq)
  then show ?thesis by (simp add: unsigned_or_eq disjunctive_add_eq_or)
qed

lemma unat_push_bit_mod: "unat (push_bit k (x :: 'a::len word)) = unat x * 2 ^ k mod 2 ^ LENGTH('a)"
  by (simp only: unsigned_push_bit_eq) (simp only: push_bit_eq_mult take_bit_eq_mod)

lemma unat_drop_bit_div: "unat (drop_bit k (x :: 'a::len word)) = unat x div 2 ^ k"
  by (simp only: unat_drop_bit_eq) (simp only: drop_bit_eq_div)

lemma low_high_and_0:
  fixes h l :: "'a::len word" assumes "k \<le> LENGTH('a)"
  shows "push_bit (LENGTH('a) - k) h AND drop_bit k l = 0"
  by (rule bit_word_eqI) (use assms in \<open>auto simp: bit_simps dest: bit_imp_le_length\<close>)

lemma unat_double_shift:
  fixes h l :: "'a::len word" assumes "k \<le> LENGTH('a)"
  shows "unat (push_bit (LENGTH('a) - k) h OR drop_bit k l) = unat h * 2 ^ (LENGTH('a) - k) mod 2 ^ LENGTH('a) + unat l div 2 ^ k"
  using unat_or_disjoint[OF low_high_and_0[OF assms]] by (simp only: unat_push_bit_mod unat_drop_bit_div)

lemma half_lt [simp]: "unat (w :: u32) < 2 ^ 32" "unat (w :: u32) < 4294967296"
  using unsigned_less[of w] by simp_all

lemma dword_lt [simp]: "unat (w :: u64) < 2 ^ 64" "unat (w :: u64) < 18446744073709551616"
  using unsigned_less[of w] by simp_all

lemma unat_udwords: "unat (udwords h l) = unat h * 2 ^ 32 + unat l"
proof -
  have d: "push_bit 32 (ucast h :: u64) AND ucast l = 0"
    by (rule bit_word_eqI) (auto simp: bit_simps dest: bit_imp_le_length)
  have "unat h * 2 ^ 32 < 2 ^ 64" using half_lt(1)[of h] by simp
  moreover have "unat h < 2 ^ 64" by (rule order_less_trans[OF half_lt(1)]) simp
  moreover have "unat l < 2 ^ 64" by (rule order_less_trans[OF half_lt(1)]) simp
  ultimately show ?thesis
    unfolding udwords_def unat_or_disjoint[OF d] unat_push_bit_mod by (simp add: unsigned_ucast_eq take_bit_eq_mod)
qed

lemma unat_halves: "unat x = unat (s_high x) * 2 ^ 32 + unat (s_low x)"
  using unat_udwords[of "s_high x" "s_low x"] by simp

lemma double_word_div:
  fixes H L :: nat
  assumes "k \<le> 32" "L < 2 ^ 32"
  shows "(H * 2 ^ 32 + L) div 2 ^ k = (H div 2 ^ k) * 2 ^ 32 + (H * 2 ^ (32 - k) mod 2 ^ 32 + L div 2 ^ k)"
proof -
  define p where "p = (2::nat) ^ k" define q where "q = (2::nat) ^ (32 - k)"
  have pq: "(2::nat) ^ 32 = q * p" using assms by (simp add: p_def q_def flip: power_add)
  have p: "0 < p" "0 < q" by (simp_all add: p_def q_def)
  have "(H * (q * p) + L) div p = H * q + L div p"
    using p by (metis div_mult_self3 mult.assoc add.commute less_irrefl)
  moreover have "H * q = (H div p) * (q * p) + H * q mod (q * p)"
    using p by (metis mult.assoc mult.commute div_mult_mod_eq mult_mod_right distrib_left)
  ultimately show ?thesis unfolding pq p_def[symmetric] q_def[symmetric] by simp
qed

lemma double_word_mul:
  fixes H L :: nat
  assumes "k \<le> 32" "L < 2 ^ 32" "0 < k"
  shows "(H * 2 ^ 32 + L) * 2 ^ (32 - k) mod 2 ^ 64
    = ((H * 2 ^ (32 - k)) mod 2 ^ 32 + L div 2 ^ k) * 2 ^ 32 + (L * 2 ^ (32 - k)) mod 2 ^ 32"
proof -
  define p where "p = (2::nat) ^ k" define q where "q = (2::nat) ^ (32 - k)"
  have pq: "(2::nat) ^ 32 = q * p" using assms by (simp add: p_def q_def flip: power_add)
  have p: "0 < p" "0 < q" by (simp_all add: p_def q_def)
  have L: "L div p < q" using assms p unfolding pq by (simp add: div_less_iff_less_mult mult.commute)
  have "L * q = (L div p) * (q * p) + (L * q) mod (q * p)"
    by (metis mult.assoc mult.commute div_mult_mod_eq mult_mod_right distrib_left)
  then obtain R where R: "R = (L * q) mod (q * p)" and Lq: "L * q = (L div p) * (q * p) + R" by blast
  have "(H * (q * p) + L) * q = (H * q) * (q * p) + L * q" by (simp only: algebra_simps)
  also have "\<dots> = (H * q + L div p) * (q * p) + R" unfolding Lq by (simp only: algebra_simps)
  finally have e: "(H * (q * p) + L) * q = (H * q + L div p) * (q * p) + (L * q) mod (q * p)" unfolding R .
  have hi: "(H * q + L div p) mod (q * p) = (H * q) mod (q * p) + L div p"
  proof -
    have "(H * q) mod (q * p) = q * (H mod p)" by (metis mult.commute mult_mod_right)
    moreover have "q * (H mod p) + L div p < q * (H mod p) + q" using L by simp
    moreover have "q * (H mod p) + q \<le> q * p"
      by (metis Suc_leI mod_less_divisor mult.commute mult_Suc_right mult_le_mono2 p(1) add.commute)
    ultimately show ?thesis by (metis L mod_add_left_eq mod_less order_less_le_trans)
  qed
  have "(X * P + Y) mod (P * P) = (X mod P) * P + Y" if "Y < P" for X Y P :: nat
    using that by (simp add: mod_mult2_eq mult.commute)
  note m = this
  have sq: "(2::nat) ^ 64 = (q * p) * (q * p)" by (simp flip: pq)
  have lt: "(L * q) mod (q * p) < q * p" using p by simp
  show ?thesis unfolding sq unfolding pq p_def[symmetric] q_def[symmetric] e
    using m[OF lt, of "H * q + L div p"] by (simp only: hi)
qed

section \<open>Counting zeros\<close>


lemma and_high_half: "x AND push_bit w (mask w) = push_bit w (take_bit w (drop_bit w x))" for x :: "'a::len word"
  by (rule bit_word_eqI) (auto simp: bit_simps)

lemma high_half_zero:
  fixes x :: u32 assumes "unat x < 2 ^ (2 * w)" "2 * w \<le> 32"
  shows "x AND push_bit w (mask w) = 0 \<longleftrightarrow> unat x < 2 ^ w"
proof -
  have lt: "unat x div 2 ^ w < 2 ^ w"
    using assms(1) by (simp add: div_less_iff_less_mult power_add mult_2)
  have "2 ^ w * (unat x div 2 ^ w) \<le> unat x" by simp
  then have lt2: "2 ^ w * (unat x div 2 ^ w) < 2 ^ 32" using half_lt(1)[of x] by linarith
  have lt3: "unat x div 2 ^ w < 2 ^ 32" by (rule order_le_less_trans[OF div_le_dividend]) simp
  have "unat (take_bit w (drop_bit w x)) = unat x div 2 ^ w mod 2 ^ w"
    by (simp only: unsigned_take_bit_eq unat_drop_bit_div) (simp only: take_bit_eq_mod)
  then have "unat (push_bit w (take_bit w (drop_bit w x))) = (unat x div 2 ^ w) * 2 ^ w"
    using lt lt2 lt3 unfolding unat_push_bit_mod by (simp add: mult.commute)
  then have "x AND push_bit w (mask w) = 0 \<longleftrightarrow> unat x div 2 ^ w = 0"
    unfolding and_high_half by (metis mult_is_0 power_not_zero unat_eq_zero zero_neq_numeral)
  then show ?thesis by (simp add: div_eq_0_iff)
qed

lemma clz_stage:
  fixes x r :: u32
  assumes y: "unat x = X div 2 ^ (32 - 2 * w - unat r)" "unat x < 2 ^ (2 * w)" "0 < unat x" "unat r + 2 * w \<le> 32"
    and M: "M = push_bit w (mask w)" and w: "0 < w" "w \<le> 16"
    and t: "t = (if x AND M = 0 then of_nat w else 0)"
    and x': "x' = drop_bit (unat (of_nat w - t)) x" and r': "r' = r + t"
  shows "unat x' = X div 2 ^ (32 - w - unat r') \<and> unat x' < 2 ^ w \<and> 0 < unat x' \<and> unat r' + w \<le> 32"
proof (cases "unat x < 2 ^ w")
  case True
  then have tw: "t = of_nat w" using high_half_zero[OF y(2)] w by (simp add: t M)
  have r: "unat r' = unat r + w" using y(4) w by (simp add: r' tw unat_word_ariths unat_of_nat)
  have x: "unat x' = unat x" by (simp add: x' tw)
  have "32 - w - unat r' = 32 - 2 * w - unat r" using r by simp
  then have "unat x' = X div 2 ^ (32 - w - unat r')" using x y(1) by (simp only:)
  then show ?thesis using True y(3,4) r x by linarith
next
  case False
  then have tw: "t = 0" using high_half_zero[OF y(2)] w by (simp add: t M)
  have "unat x' = unat x div 2 ^ w" using w by (simp add: x' tw unat_drop_bit_div unat_of_nat)
  moreover have "unat x div 2 ^ w = X div 2 ^ (32 - w - unat r)"
  proof -
    have "32 - w - unat r = (32 - 2 * w - unat r) + w" using y(4) by simp
    then show ?thesis unfolding y(1) by (simp only: power_add div_mult2_eq)
  qed
  moreover have "unat x div 2 ^ w < 2 ^ w" using y(2) by (simp add: div_less_iff_less_mult power_add mult_2)
  moreover have "0 < unat x div 2 ^ w" using False by (simp add: div_greater_zero_iff)
  ultimately show ?thesis using y(4) by (simp add: r' tw)
qed

lemma ctz_stage:
  fixes x r :: u32
  assumes y': "unat x = X div 2 ^ unat r \<and> 2 ^ unat r dvd X \<and> unat x mod 2 ^ W \<noteq> 0 \<and> unat r + W \<le> 32"
    and w: "0 < w" "w \<le> 16" and W: "W = 2 * w"
    and t: "t = (if x AND mask w = 0 then of_nat w else 0)"
    and x': "x' = drop_bit (unat t) x" and r': "r' = r + t"
  shows "unat x' = X div 2 ^ unat r' \<and> 2 ^ unat r' dvd X \<and> unat x' mod 2 ^ w \<noteq> 0 \<and> unat r' + w \<le> 32"
proof -
  have y: "unat x = X div 2 ^ unat r" "2 ^ unat r dvd X" "unat x mod 2 ^ (2 * w) \<noteq> 0" "unat r + 2 * w \<le> 32"
    using y' unfolding W by blast+
  have iff: "x AND mask w = 0 \<longleftrightarrow> unat x mod 2 ^ w = 0"
    by (metis take_bit_eq_mask take_bit_eq_mod unat_eq_zero unsigned_take_bit_eq)
  show ?thesis
  proof (cases "unat x mod 2 ^ w = 0")
    case True
    then have tw: "t = of_nat w" using iff by (simp add: t)
    have r: "unat r' = unat r + w" using y(4) w by (simp add: r' tw unat_word_ariths unat_of_nat)
    have x: "unat x' = unat x div 2 ^ w" using w by (simp add: x' tw unat_drop_bit_div unat_of_nat)
    have "unat x mod 2 ^ (2 * w) = 2 ^ w * (unat x div 2 ^ w mod 2 ^ w)"
      using True by (simp add: mod_mult2_eq power_add mult_2)
    then have "unat x' mod 2 ^ w \<noteq> 0" using y(3) x by auto
    moreover have "X = 2 ^ unat r * unat x" using y(1,2) by simp
    then have "2 ^ unat r' dvd X" using True by (simp add: r power_add mod_eq_0_iff_dvd)
    moreover have "unat x' = X div 2 ^ unat r'" by (simp add: x r y(1) div_mult2_eq power_add)
    ultimately show ?thesis using y(4) r by simp
  next
    case False
    then have "t = 0" using iff by (simp add: t)
    then show ?thesis using False y by (simp add: x' r')
  qed
qed


lemma bool_shift: "push_bit 4 (bool_u32 b) = (if b then of_nat 16 else 0)"
  "push_bit 3 (bool_u32 b) = (if b then of_nat 8 else 0)"
  "push_bit 2 (bool_u32 b) = (if b then of_nat 4 else 0)"
  "push_bit 1 (bool_u32 b) = (if b then of_nat 2 else 0)"
  by (simp_all add: bool_u32_def push_bit_eq_mult)

lemma clz_masks:
  "(0xFFFF0000 :: u32) = push_bit 16 (mask 16)" "(0xFF00 :: u32) = push_bit 8 (mask 8)"
  "(0xF0 :: u32) = push_bit 4 (mask 4)" "(0xC :: u32) = push_bit 2 (mask 2)"
  by (simp_all add: mask_eq_exp_minus_1 push_bit_eq_mult)

lemma ctz_masks:
  "(0x0000FFFF :: u32) = mask 16" "(0x00FF :: u32) = mask 8" "(0x0F :: u32) = mask 4" "(0x3 :: u32) = mask 2"
  by (simp_all add: mask_eq_exp_minus_1)

lemma clz_last:
  assumes "unat x < 2 ^ 2" "0 < unat x"
  shows "(2 - x) AND - bool_u32 (x AND 2 = 0) = (if unat x = 1 then 1 else 0)"
proof -
  have "unat x \<in> {1, 2, 3}" using assms by auto
  then have "x = 1 \<or> x = 2 \<or> x = 3" by (auto simp: word_unat_eq_iff)
  then show ?thesis by (auto simp: bool_u32_def)
qed

lemma clzsi2_bound:
  assumes "x \<noteq> 0"
  shows "unat (clzsi2 x) \<le> 31 \<and> 2 ^ (31 - unat (clzsi2 x)) \<le> unat x \<and> unat x < 2 ^ (32 - unat (clzsi2 x))"
proof -
  have pos: "0 < unat x" using assms by (simp add: unat_gt_0)
  define t1 :: u32 where "t1 = (if x AND push_bit 16 (mask 16) = 0 then of_nat 16 else 0)"
  define x1 where "x1 = drop_bit (unat (of_nat 16 - t1)) x"
  define r1 where "r1 = 0 + t1"
  define t2 :: u32 where "t2 = (if x1 AND push_bit 8 (mask 8) = 0 then of_nat 8 else 0)"
  define x2 where "x2 = drop_bit (unat (of_nat 8 - t2)) x1"
  define r2 where "r2 = r1 + t2"
  define t3 :: u32 where "t3 = (if x2 AND push_bit 4 (mask 4) = 0 then of_nat 4 else 0)"
  define x3 where "x3 = drop_bit (unat (of_nat 4 - t3)) x2"
  define r3 where "r3 = r2 + t3"
  define t4 :: u32 where "t4 = (if x3 AND push_bit 2 (mask 2) = 0 then of_nat 2 else 0)"
  define x4 where "x4 = drop_bit (unat (of_nat 2 - t4)) x3"
  define r4 where "r4 = r3 + t4"
  have s1: "unat x1 = unat x div 2 ^ (32 - 16 - unat r1) \<and> unat x1 < 2 ^ 16 \<and> 0 < unat x1 \<and> unat r1 + 16 \<le> 32"
    by (rule clz_stage[where x = x and r = 0 and w = 16, OF _ _ _ _ refl _ _ t1_def x1_def r1_def]) (use pos half_lt(1)[of x] in simp_all)
  have s2: "unat x2 = unat x div 2 ^ (32 - 8 - unat r2) \<and> unat x2 < 2 ^ 8 \<and> 0 < unat x2 \<and> unat r2 + 8 \<le> 32"
    by (rule clz_stage[where w = 8, OF _ _ _ _ refl _ _ t2_def x2_def r2_def]) (use s1 in simp_all)
  have s3: "unat x3 = unat x div 2 ^ (32 - 4 - unat r3) \<and> unat x3 < 2 ^ 4 \<and> 0 < unat x3 \<and> unat r3 + 4 \<le> 32"
    by (rule clz_stage[where w = 4, OF _ _ _ _ refl _ _ t3_def x3_def r3_def]) (use s2 in simp_all)
  have s4: "unat x4 = unat x div 2 ^ (32 - 2 - unat r4) \<and> unat x4 < 2 ^ 2 \<and> 0 < unat x4 \<and> unat r4 + 2 \<le> 32"
    by (rule clz_stage[where w = 2, OF _ _ _ _ refl _ _ t4_def x4_def r4_def]) (use s3 in simp_all)
  have eq: "clzsi2 x = r4 + (if unat x4 = 1 then 1 else 0)"
  proof -
    have "clzsi2 x = r4 + ((2 - x4) AND - bool_u32 (x4 AND 2 = 0))"
      unfolding clzsi2_def Let_def bool_shift clz_masks r4_def r3_def r2_def r1_def
        x4_def t4_def x3_def t3_def x2_def t2_def x1_def t1_def by simp
    then show ?thesis using clz_last[of x4] s4 by simp
  qed
  have "unat r4 \<le> 30" using s4 by simp
  define p where "p = 30 - unat r4"
  then have p: "30 - unat r4 = p" "unat r4 = 30 - p" "p \<le> 30" using \<open>unat r4 \<le> 30\<close> by simp_all
  have X: "unat x div 2 ^ p = unat x4" using s4 p by simp
  have lo: "unat x4 * 2 ^ p \<le> unat x" unfolding X[symmetric] by simp
  have "unat x < 2 ^ p + 2 ^ p * (unat x div 2 ^ p)" by (rule dividend_less_times_div) simp
  then have hi: "unat x < (unat x4 + 1) * 2 ^ p" unfolding X by (simp add: algebra_simps)
  show ?thesis
  proof (cases "unat x4 = 1")
    case True
    then have c: "unat (clzsi2 x) = 31 - p" using eq p by (simp add: unat_word_ariths)
    show ?thesis using lo hi True p unfolding c by (simp add: Suc_diff_le)
  next
    case False
    then have c: "unat (clzsi2 x) = 30 - p" using eq p by simp
    have y: "2 \<le> unat x4" "unat x4 + 1 \<le> 4" using s4 False by auto
    have "2 * 2 ^ p \<le> unat x" "unat x < 4 * 2 ^ p"
      using lo hi mult_le_mono1[OF y(1), of "2 ^ p"] mult_le_mono1[OF y(2), of "2 ^ p"] by linarith+
    then show ?thesis using p unfolding c by (simp add: Suc_diff_le)
  qed
qed


lemma unat_and_3: "unat (x AND 3) = unat (x :: u32) mod 4"
proof -
  have "unat (take_bit 2 x) = unat x mod 2 ^ 2"
    by (simp only: unsigned_take_bit_eq) (simp only: take_bit_eq_mod)
  then show ?thesis by (simp only: take_bit_eq_mask ctz_masks) simp
qed

lemma ctz_last:
  assumes "unat (x AND 3) \<noteq> 0"
  shows "(2 - drop_bit 1 (x AND 3)) AND - bool_u32 ((x AND 3) AND 1 = 0) = (if unat (x AND 3 :: u32) = 2 then 1 else 0)"
proof -
  have "unat (x AND 3) \<in> {1, 2, 3}" using assms unfolding unat_and_3 by auto
  then have "x AND 3 = 1 \<or> x AND 3 = 2 \<or> x AND 3 = 3" by (auto simp: word_unat_eq_iff)
  then show ?thesis by (elim disjE) (simp_all only:, simp_all add: bool_u32_def)
qed

lemma ctzsi2_bound:
  assumes "x \<noteq> 0"
  shows "unat (ctzsi2 x) \<le> 31 \<and> 2 ^ unat (ctzsi2 x) dvd unat x \<and> \<not> 2 ^ Suc (unat (ctzsi2 x)) dvd unat x"
proof -
  define t1 :: u32 where "t1 = (if x AND mask 16 = 0 then of_nat 16 else 0)"
  define x1 where "x1 = drop_bit (unat t1) x"
  define r1 where "r1 = 0 + t1"
  define t2 :: u32 where "t2 = (if x1 AND mask 8 = 0 then of_nat 8 else 0)"
  define x2 where "x2 = drop_bit (unat t2) x1"
  define r2 where "r2 = r1 + t2"
  define t3 :: u32 where "t3 = (if x2 AND mask 4 = 0 then of_nat 4 else 0)"
  define x3 where "x3 = drop_bit (unat t3) x2"
  define r3 where "r3 = r2 + t3"
  define t4 :: u32 where "t4 = (if x3 AND mask 2 = 0 then of_nat 2 else 0)"
  define x4 where "x4 = drop_bit (unat t4) x3"
  define r4 where "r4 = r3 + t4"
  have "unat x mod 2 ^ 32 \<noteq> 0" using assms half_lt(1)[of x] by (simp add: unat_eq_zero)
  then have s0: "unat x = unat x div 2 ^ unat (0 :: u32) \<and> 2 ^ unat (0 :: u32) dvd unat x \<and> unat x mod 2 ^ 32 \<noteq> 0 \<and> unat (0 :: u32) + 32 \<le> 32"
    by simp
  have s1: "unat x1 = unat x div 2 ^ unat r1 \<and> 2 ^ unat r1 dvd unat x \<and> unat x1 mod 2 ^ 16 \<noteq> 0 \<and> unat r1 + 16 \<le> 32"
    by (rule ctz_stage[OF s0 _ _ _ t1_def x1_def r1_def]) simp_all
  have s2: "unat x2 = unat x div 2 ^ unat r2 \<and> 2 ^ unat r2 dvd unat x \<and> unat x2 mod 2 ^ 8 \<noteq> 0 \<and> unat r2 + 8 \<le> 32"
    by (rule ctz_stage[OF s1 _ _ _ t2_def x2_def r2_def]) simp_all
  have s3: "unat x3 = unat x div 2 ^ unat r3 \<and> 2 ^ unat r3 dvd unat x \<and> unat x3 mod 2 ^ 4 \<noteq> 0 \<and> unat r3 + 4 \<le> 32"
    by (rule ctz_stage[OF s2 _ _ _ t3_def x3_def r3_def]) simp_all
  have s4: "unat x4 = unat x div 2 ^ unat r4 \<and> 2 ^ unat r4 dvd unat x \<and> unat x4 mod 2 ^ 2 \<noteq> 0 \<and> unat r4 + 2 \<le> 32"
    by (rule ctz_stage[OF s3 _ _ _ t4_def x4_def r4_def]) simp_all
  have "unat x4 mod 2 ^ 2 \<noteq> 0" using s4 by blast
  then have m4: "unat x4 mod 4 \<noteq> 0" by simp
  have low: "unat (x4 AND 3) = unat x4 mod 4" by (rule unat_and_3)
  have eq: "ctzsi2 x = r4 + (if unat x4 mod 4 = 2 then 1 else 0)"
  proof -
    have "ctzsi2 x = r4 + ((2 - drop_bit 1 (x4 AND 3)) AND - bool_u32 ((x4 AND 3) AND 1 = 0))"
      unfolding ctzsi2_def Let_def bool_shift ctz_masks r4_def r3_def r2_def r1_def
        x4_def t4_def x3_def t3_def x2_def t2_def x1_def t1_def by (simp only: add_0)
    moreover have "unat (x4 AND 3) \<noteq> 0" using m4 unfolding low .
    ultimately show ?thesis using ctz_last[of x4] unfolding low by (simp only: not_False_eq_True)
  qed
  have X: "unat x = 2 ^ unat r4 * unat x4" using s4 by simp
  show ?thesis
  proof (cases "unat x4 mod 4 = 2")
    case True
    then have c: "unat (ctzsi2 x) = Suc (unat r4)" using eq s4 by (simp add: unat_word_ariths)
    obtain k where k: "unat x4 = 4 * k + 2" using True by (metis div_mult_mod_eq mult.commute)
    have "unat x = 2 ^ Suc (unat r4) * (2 * k + 1)" using X k by simp
    moreover have "\<not> 2 ^ Suc (Suc (unat r4)) dvd 2 ^ Suc (unat r4) * (2 * k + 1)"
      by (metis dvd_mult_cancel1 dvd_triv_left even_mult_iff even_plus_one_iff nat_mult_dvd_cancel_disj power_Suc2 power_not_zero zero_neq_numeral)
    ultimately show ?thesis using s4 unfolding c by simp
  next
    case False
    then have c: "unat (ctzsi2 x) = unat r4" using eq by simp
    have "odd (unat x4)" using False m4 by presburger
    then have "\<not> 2 ^ Suc (unat r4) dvd 2 ^ unat r4 * unat x4"
      by (metis nat_mult_dvd_cancel_disj power_Suc2 power_not_zero zero_neq_numeral)
    then have "\<not> 2 ^ Suc (unat r4) dvd unat x" unfolding X .
    moreover have "2 ^ unat r4 dvd unat x" "unat r4 \<le> 31" using s4 by simp_all
    ultimately show ?thesis unfolding c by blast
  qed
qed

section \<open>One round of the division\<close>


lemma shift_step: "unat (push_bit 1 (h :: u32) OR drop_bit 31 l) = unat h * 2 mod 2 ^ 32 + unat l div 2 ^ 31"
  using unat_double_shift[of 31 h l] by simp

lemma shift_carry:
  assumes "unat c \<le> 1" shows "unat (push_bit 1 (l :: 'a::len word) OR c) = unat l * 2 mod 2 ^ LENGTH('a) + unat c"
proof -
  have c: "\<not> bit c n" if "0 < n" for n
  proof -
    have "unat c = 0 \<or> unat c = 1" using assms by linarith
    then have "c = 0 \<or> c = 1" by (auto simp: word_unat_eq_iff)
    then show ?thesis using that by (auto simp: bit_1_iff)
  qed
  have "push_bit 1 l AND c = 0"
    by (rule bit_word_eqI) (use c in \<open>simp only: bit_and_iff bit_push_bit_iff bit_0_eq bot_apply, auto\<close>)
  from unat_or_disjoint[OF this] show ?thesis by (simp only: unat_push_bit_mod power_one_right)
qed

lemma dword_shift_in:
  "unat (udwords (push_bit 1 (s_high r) OR drop_bit 31 (s_low r)) (push_bit 1 (s_low r) OR drop_bit 31 (s_high q)))
   = unat r * 2 mod 2 ^ 64 + unat q div 2 ^ 63"
proof -
  have "unat q div 2 ^ 63 = unat q div 2 ^ 32 div 2 ^ 31" by (simp add: div_mult2_eq[symmetric])
  also have "unat q div 2 ^ 32 = unat (s_high q)" using half_lt(1)[of "s_low q"] by (simp add: unat_halves[of q])
  finally have q: "unat q div 2 ^ 63 = unat (s_high q) div 2 ^ 31" .
  have "unat r * 2 mod 2 ^ 64 = (unat (s_high r) * 2 mod 2 ^ 32 + unat (s_low r) div 2 ^ 31) * 2 ^ 32 + unat (s_low r) * 2 mod 2 ^ 32"
    using double_word_mul[of 31 "unat (s_low r)" "unat (s_high r)"] unat_halves[of r] by simp
  then show ?thesis unfolding unat_udwords shift_step q by linarith
qed

lemma dword_shift_carry:
  assumes "unat c \<le> 1"
  shows "unat (udwords (push_bit 1 (s_high q) OR drop_bit 31 (s_low q)) (push_bit 1 (s_low q) OR c))
   = unat q * 2 mod 2 ^ 64 + unat c"
proof -
  have "unat q * 2 mod 2 ^ 64 = (unat (s_high q) * 2 mod 2 ^ 32 + unat (s_low q) div 2 ^ 31) * 2 ^ 32 + unat (s_low q) * 2 mod 2 ^ 32"
    using double_word_mul[of 31 "unat (s_low q)" "unat (s_high q)"] unat_halves[of q] by simp
  then show ?thesis unfolding unat_udwords shift_step shift_carry[OF assms] by simp
qed

lemma sign_mask: "signed_drop_bit 63 (w :: u64) = (if unat w \<ge> 2 ^ 63 then - 1 else 0)"
proof -
  have b: "bit w 63 \<longleftrightarrow> unat w \<ge> 2 ^ 63"
  proof -
    have "bit w 63 \<longleftrightarrow> odd (unat w div 2 ^ 63)" by (simp only: bit_iff_odd[of "unat w", symmetric] bit_unsigned_iff) (simp add: possible_bit_def)
    moreover have "unat w div 2 ^ 63 < 2" by (rule div_less_iff_less_mult[THEN iffD2]) simp_all
    then have "unat w div 2 ^ 63 = 0 \<or> unat w div 2 ^ 63 = 1" by linarith
    moreover have "unat w div 2 ^ 63 = 0 \<longleftrightarrow> unat w < 2 ^ 63" by (simp add: div_eq_0_iff)
    ultimately show ?thesis by auto
  qed
  have "bit (signed_drop_bit 63 w) n \<longleftrightarrow> bit w 63" if "n < 64" for n
    using that by (cases "n = 0") (simp_all add: bit_signed_drop_bit_iff)
  then have "signed_drop_bit 63 w = (if bit w 63 then - 1 else 0)"
    by (intro bit_word_eqI) simp
  then show ?thesis by (simp only: b)
qed

lemma sign_trick:
  fixes d r :: u64
  assumes "unat d \<le> 2 ^ 63 \<and> unat r < 2 * unat d \<or> 2 ^ 63 \<le> unat r \<and> 2 ^ 63 \<le> unat d"
  shows "unat (d - r - 1) \<ge> 2 ^ 63 \<longleftrightarrow> unat d \<le> unat r"
proof (cases "unat d \<le> unat r")
  case True
  have "unat r < 2 ^ 63 + 2 ^ 63" using dword_lt(2)[of r] by simp
  then have lt: "unat r - unat d + 1 \<le> 2 ^ 63" using assms True by linarith
  have "unat (d - r - 1) = 2 ^ 64 - (unat r - unat d + 1)"
  proof (cases "unat r = unat d")
    case True
    then have "d = r" by (simp add: word_unat_eq_iff)
    then show ?thesis by (simp add: unsigned_minus_1_eq_mask mask_eq_exp_minus_1)
  next
    case False
    then have "unat (d - r) = unat d + 2 ^ 64 - unat r"
      using True by (simp add: unat_sub_if_size word_size)
    moreover have "0 < unat d + 2 ^ 64 - unat r" using dword_lt(1)[of r] by linarith
    ultimately show ?thesis using True False by (simp add: unat_sub_if_size word_size)
  qed
  then show ?thesis using lt True by simp
next
  case False
  have rd: "unat (d - r) = unat d - unat r" using False by (simp add: unat_sub word_le_nat_alt)
  then have "unat (d - r - 1) = unat d - unat r - 1" using False by (subst unat_sub) (simp_all add: word_le_nat_alt)
  moreover have "unat d < 2 ^ 63 + 2 ^ 63" using dword_lt(2)[of d] by simp
  ultimately show ?thesis using assms False by linarith
qed


lemma udiv_round_nat:
  fixes d q r :: u64
  assumes c: "unat carry \<le> 1" and r1: "r1 = unat r * 2 + unat q div 2 ^ 63" "r1 < 2 ^ 64"
    and trick: "unat d \<le> 2 ^ 63 \<and> r1 < 2 * unat d \<or> 2 ^ 63 \<le> r1 \<and> 2 ^ 63 \<le> unat d"
    and step: "udiv_round d (q, r, carry) = (q', r', carry')"
  shows "unat q' = unat q * 2 mod 2 ^ 64 + unat carry \<and>
     unat r' = (if unat d \<le> r1 then r1 - unat d else r1) \<and> unat carry' = (if unat d \<le> r1 then 1 else 0)"
proof -
  define rr where "rr = udwords (push_bit 1 (s_high r) OR drop_bit 31 (s_low r)) (push_bit 1 (s_low r) OR drop_bit 31 (s_high q))"
  define qq where "qq = udwords (push_bit 1 (s_high q) OR drop_bit 31 (s_low q)) (push_bit 1 (s_low q) OR carry)"
  define s where "s = signed_drop_bit 63 (d - rr - 1)"
  have rr: "unat rr = r1" using r1 unfolding rr_def dword_shift_in by simp
  have qq: "unat qq = unat q * 2 mod 2 ^ 64 + unat carry" unfolding qq_def by (rule dword_shift_carry[OF c])
  have s: "s = (if unat d \<le> r1 then - 1 else 0)"
    unfolding s_def sign_mask using sign_trick[of d rr] trick rr by simp
  have "udiv_round d (q, r, carry) = (qq, rr - (d AND s), ucast (s AND 1))"
    unfolding udiv_round_def Let_def split rr_def qq_def s_def s_high_udwords s_low_udwords ..
  then have eqs: "q' = qq" "r' = rr - (d AND s)" "carry' = ucast (s AND 1)" using step by simp_all
  show ?thesis
  proof (cases "unat d \<le> r1")
    case True
    then show ?thesis unfolding eqs using qq rr s by (simp add: unat_sub word_le_nat_alt)
  next
    case False
    then show ?thesis unfolding eqs using qq rr s by simp
  qed
qed

lemma nat_split_bit: "N div 2 ^ k = 2 * (N div 2 ^ Suc k) + N mod 2 ^ Suc k div 2 ^ k" for N :: nat
proof -
  have "N div 2 ^ k = (N div 2 ^ k div 2) * 2 + N div 2 ^ k mod 2" by simp
  moreover have "N div 2 ^ k div 2 = N div 2 ^ Suc k" by (simp add: div_mult2_eq[symmetric] mult.commute)
  moreover have "N mod 2 ^ Suc k div 2 ^ k = N div 2 ^ k mod 2"
    by (simp add: mod_mult2_eq mult.commute[of 2])
  ultimately show ?thesis by linarith
qed

text \<open>The registers after a round, as numbers.\<close>

definition udiv_inv :: "nat \<Rightarrow> nat \<Rightarrow> nat \<Rightarrow> nat \<Rightarrow> u64 \<times> u64 \<times> u32 \<Rightarrow> bool" where
  "udiv_inv N D k Qh qrc \<longleftrightarrow>
     (case qrc of (q, r, carry) \<Rightarrow>
       unat carry \<le> 1 \<and> unat r < D \<and> unat r + D * (2 * Qh + unat carry) = N div 2 ^ k \<and>
       unat q = N mod 2 ^ k * 2 ^ (64 - k) + Qh \<and> 2 * Qh + unat carry < 2 ^ (64 - k))"

lemma udiv_round_inv:
  assumes inv: "udiv_inv N D (Suc k) Qh (q, r, carry)" and N: "N < 2 ^ 64" and D: "D = unat d" and k: "k < 63"
    and small: "D \<le> 2 ^ 63 \<or> 2 ^ 63 \<le> N \<and> k = 0 \<and> Qh = 0 \<and> carry = 0"
  shows "udiv_inv N D k (2 * Qh + unat carry) (udiv_round d (q, r, carry))"
proof -
  obtain q' r' carry' where step: "udiv_round d (q, r, carry) = (q', r', carry')" by (metis prod_cases3)
  define Qt where "Qt = 2 * Qh + unat carry"
  define b where "b = N mod 2 ^ Suc k div 2 ^ k"
  define r1 where "r1 = unat r * 2 + unat q div 2 ^ 63"
  have c: "unat carry \<le> 1" and rD: "unat r < D" and quo: "unat r + D * Qt = N div 2 ^ Suc k"
    and q: "unat q = N mod 2 ^ Suc k * 2 ^ (63 - k) + Qh" and Qt: "Qt < 2 ^ (63 - k)"
    using inv by (simp_all add: udiv_inv_def Qt_def)
  have top: "unat q div 2 ^ 63 = b"
  proof -
    have "(2::nat) ^ 63 = 2 ^ (63 - k) * 2 ^ k" using k by (simp flip: power_add)
    moreover have "Qh < 2 ^ (63 - k)" using Qt by (simp add: Qt_def)
    then have "unat q div 2 ^ (63 - k) = N mod 2 ^ Suc k" unfolding q by simp
    ultimately show ?thesis by (simp only: div_mult2_eq b_def)
  qed
  have b1: "b \<le> 1"
  proof -
    have "N mod 2 ^ Suc k < 2 * 2 ^ k" by (simp add: mult.commute)
    then have "b < 2" unfolding b_def by (simp add: div_less_iff_less_mult)
    then show ?thesis by simp
  qed
  have Nk: "N div 2 ^ k = 2 * (N div 2 ^ Suc k) + b" unfolding b_def by (rule nat_split_bit)
  have r1N: "r1 + D * (2 * Qt) = N div 2 ^ k"
    unfolding r1_def top Nk quo[symmetric] by (simp add: algebra_simps)
  have r1lt: "r1 < 2 ^ 64" by (rule order_le_less_trans[OF _ N]) (use r1N div_le_dividend[of N "2 ^ k"] in linarith)
  have r1D: "r1 < 2 * D" unfolding r1_def top using rD b1 by linarith
  have trick: "unat d \<le> 2 ^ 63 \<and> r1 < 2 * unat d \<or> 2 ^ 63 \<le> r1 \<and> 2 ^ 63 \<le> unat d"
  proof (cases "D \<le> 2 ^ 63")
    case True
    then show ?thesis using r1D D by simp
  next
    case False
    then have "2 ^ 63 \<le> N" "k = 0" "Qt = 0" using small by (auto simp: Qt_def)
    then show ?thesis using False r1N D by simp
  qed
  note st = udiv_round_nat[OF c r1_def r1lt trick step]
  have q': "unat q' = N mod 2 ^ k * 2 ^ (64 - k) + Qt"
  proof -
    have nsplit: "N mod 2 ^ Suc k = b * 2 ^ k + N mod 2 ^ k"
    proof -
      have "N mod 2 ^ Suc k mod 2 ^ k = N mod 2 ^ k" by (rule mod_mod_cancel) simp
      then show ?thesis unfolding b_def by (metis div_mult_mod_eq)
    qed
    have p: "(2::nat) ^ (64 - k) = 2 * 2 ^ (63 - k)" using k by (simp flip: power_Suc add: Suc_diff_le)
    have p2: "(2::nat) ^ 64 = 2 ^ k * 2 ^ (64 - k)" using k by (simp flip: power_add)
    have "unat q * 2 = b * 2 ^ 64 + (N mod 2 ^ k * 2 ^ (64 - k) + 2 * Qh)"
      unfolding q nsplit p2 p by (simp only: algebra_simps)
    moreover have "N mod 2 ^ k * 2 ^ (64 - k) + 2 * Qh < 2 ^ 64"
    proof -
      have "2 * Qh < 2 ^ (64 - k)" using Qt unfolding p by (simp add: Qt_def)
      moreover have "(N mod 2 ^ k + 1) * 2 ^ (64 - k) \<le> 2 ^ k * 2 ^ (64 - k)"
        by (rule mult_le_mono1) (simp add: Suc_leI)
      ultimately show ?thesis unfolding p2 by (simp add: algebra_simps)
    qed
    ultimately have "unat q * 2 mod 2 ^ 64 = N mod 2 ^ k * 2 ^ (64 - k) + 2 * Qh" by simp
    then show ?thesis using st by (simp add: Qt_def)
  qed
  have "(2::nat) ^ (64 - k) = 2 * 2 ^ (63 - k)" using k by (simp flip: power_Suc add: Suc_diff_le)
  then have bound: "2 * Qt + 1 < 2 ^ (64 - k)" using Qt by linarith
  show ?thesis
  proof (cases "D \<le> r1")
    case True
    then have "unat r' + D * (2 * Qt + 1) = N div 2 ^ k" using st r1N D by (simp add: algebra_simps)
    then show ?thesis unfolding step udiv_inv_def split Qt_def[symmetric] using True st q' bound r1D D by simp
  next
    case False
    then show ?thesis unfolding step udiv_inv_def split Qt_def[symmetric] using st q' bound r1N D by simp
  qed
qed

lemma udiv_loop_inv:
  assumes "udiv_inv N D k Qh qrc" "N < 2 ^ 64" "D = unat d" "k \<le> 63"
    and "D \<le> 2 ^ 63 \<or> 2 ^ 63 \<le> N \<and> k = 1 \<and> Qh = 0 \<and> snd (snd qrc) = 0"
  shows "\<exists>Qh'. udiv_inv N D 0 Qh' (udiv_loop d k qrc)"
  using assms
proof (induction k arbitrary: Qh qrc)
  case (Suc k)
  obtain q r carry where qrc: "qrc = (q, r, carry)" by (metis prod_cases3)
  have "udiv_inv N D k (2 * Qh + unat carry) (udiv_round d qrc)"
    unfolding qrc by (rule udiv_round_inv) (use Suc.prems qrc in auto)
  moreover have "k = 0 \<or> D \<le> 2 ^ 63" using Suc.prems(5) by auto
  ultimately show ?case using Suc.IH[of "2 * Qh + unat carry" "udiv_round d qrc"] Suc.prems(2-4) by (cases "k = 0") auto
qed auto

section \<open>The special cases and the entry of the loop\<close>


lemma shift_small_ok:
  assumes "1 \<le> sr" "sr \<le> 31"
  shows "\<exists>q r. shift_small n sr = Inr (q, r) \<and> unat q = unat n * 2 ^ (64 - unat sr) mod 2 ^ 64 \<and> unat r = unat n div 2 ^ unat sr"
proof -
  define k where "k = unat sr"
  have k: "1 \<le> k" "k \<le> 31" using assms by (simp_all add: k_def word_le_nat_alt)
  have k32: "unat (32 - sr) = 32 - k" using k by (simp add: unat_sub word_le_nat_alt k_def)
  define H where "H = unat (s_high n)" define L where "L = unat (s_low n)"
  have n: "unat n = H * 2 ^ 32 + L" by (simp add: H_def L_def unat_halves[of n])
  have "(H * 2 ^ 32 + L) * 2 ^ (64 - k) = H * 2 ^ (32 - k) * 2 ^ 64 + L * 2 ^ (32 - k) * 2 ^ 32"
  proof -
    have "64 - k = (32 - k) + 32" using k by simp
    then have "(2::nat) ^ (64 - k) = 2 ^ (32 - k) * 2 ^ 32" by (simp only: power_add)
    then show ?thesis by (simp add: algebra_simps)
  qed
  then have "(H * 2 ^ 32 + L) * 2 ^ (64 - k) mod 2 ^ 64 = L * 2 ^ (32 - k) * 2 ^ 32 mod (2 ^ 32 * 2 ^ 32)"
    by (simp add: mod_mult_self3)
  also have "\<dots> = (L * 2 ^ (32 - k) mod 2 ^ 32) * 2 ^ 32" by (rule mod_mult_mult2)
  finally have q: "unat (udwords (push_bit (unat (32 - sr)) (s_low n)) 0) = unat n * 2 ^ (64 - k) mod 2 ^ 64"
    unfolding n unat_udwords unat_push_bit_mod k32 L_def[symmetric] by simp
  have "unat (push_bit (32 - k) (s_high n) OR drop_bit k (s_low n)) = H * 2 ^ (32 - k) mod 2 ^ 32 + L div 2 ^ k"
    using unat_double_shift[of k "s_high n" "s_low n"] k by (simp add: H_def L_def)
  then have r: "unat (udwords (drop_bit (unat sr) (s_high n)) (push_bit (unat (32 - sr)) (s_high n) OR drop_bit (unat sr) (s_low n))) = unat n div 2 ^ k"
    unfolding n unat_udwords k32 k_def[symmetric] unat_drop_bit_div
    using double_word_div[of k L H] k half_lt(1)[of "s_low n"] by (simp add: H_def L_def)
  show ?thesis unfolding shift_small_def using assms q r unfolding k_def by simp
qed

lemma shift_32_ok:
  "unat (udwords (s_low n) 0) = unat n * 2 ^ 32 mod 2 ^ 64 \<and> unat (udwords 0 (s_high n)) = unat n div 2 ^ 32"
proof -
  define H where "H = unat (s_high n)" define L where "L = unat (s_low n)"
  have n: "unat n = H * 2 ^ 32 + L" by (simp add: H_def L_def unat_halves[of n])
  have L: "L < 2 ^ 32" by (simp add: L_def)
  have "(H * 2 ^ 32 + L) * 2 ^ 32 = L * 2 ^ 32 + H * 2 ^ 64" by simp
  then have "(H * 2 ^ 32 + L) * 2 ^ 32 mod 2 ^ 64 = L * 2 ^ 32" using L by simp
  then show ?thesis unfolding unat_udwords n using L by (simp add: H_def[symmetric] L_def[symmetric])
qed

lemma shift_big_ok:
  assumes "33 \<le> sr" "sr \<le> 63"
  shows "\<exists>q r. shift_big n sr = Inr (q, r) \<and> unat q = unat n * 2 ^ (64 - unat sr) mod 2 ^ 64 \<and> unat r = unat n div 2 ^ unat sr"
proof -
  define k where "k = unat sr - 32"
  have sr: "unat sr = 32 + k" "1 \<le> k" "k \<le> 31" using assms by (simp_all add: k_def word_le_nat_alt)
  have k32: "unat (64 - sr) = 32 - k" "unat (sr - 32) = k" using sr by (simp_all add: unat_sub word_le_nat_alt)
  define H where "H = unat (s_high n)" define L where "L = unat (s_low n)"
  have n: "unat n = H * 2 ^ 32 + L" by (simp add: H_def L_def unat_halves[of n])
  have L: "L < 2 ^ 32" by (simp add: L_def)
  have "unat (push_bit (32 - k) (s_high n) OR drop_bit k (s_low n)) = H * 2 ^ (32 - k) mod 2 ^ 32 + L div 2 ^ k"
    using unat_double_shift[of k "s_high n" "s_low n"] sr by (simp add: H_def L_def)
  moreover have "unat (push_bit (32 - k) (s_low n)) = L * 2 ^ (32 - k) mod 2 ^ 32" by (simp add: unat_push_bit_mod L_def del: push_bit_eq_mult)
  ultimately have q: "unat (udwords (push_bit (unat (64 - sr)) (s_high n) OR drop_bit (unat (sr - 32)) (s_low n)) (push_bit (unat (64 - sr)) (s_low n)))
      = unat n * 2 ^ (64 - unat sr) mod 2 ^ 64"
    unfolding unat_udwords k32 n sr(1) using double_word_mul[of k L H] sr L by simp
  have r: "unat (udwords 0 (drop_bit (unat (sr - 32)) (s_high n))) = unat n div 2 ^ unat sr"
    unfolding unat_udwords k32 unat_drop_bit_div n sr(1) power_add div_mult2_eq using L by (simp add: H_def)
  show ?thesis unfolding shift_big_def using assms q r by simp
qed

lemma pow2_ctz:
  assumes "x AND (x - 1) = 0" "x \<noteq> (0 :: u32)"
  shows "unat x = 2 ^ unat (ctzsi2 x) \<and> unat (ctzsi2 x) \<le> 31"
proof -
  have pos: "0 < unat x" using assms by (simp add: unat_gt_0)
  have m1: "unat (x - 1) = unat x - 1" using pos by (simp add: unat_minus_one assms(2))
  define k where "k = 31 - unat (clzsi2 x)"
  have "Suc k = 32 - unat (clzsi2 x)" using clzsi2_bound[OF assms(2), THEN conjunct1] unfolding k_def by linarith
  then have lo: "2 ^ k \<le> unat x" and hi: "unat x < 2 ^ Suc k" and k: "k \<le> 31"
    using clzsi2_bound[OF assms(2)] by (simp_all only: k_def)
  have "unat x = 2 ^ k"
  proof (rule ccontr)
    assume "unat x \<noteq> 2 ^ k"
    then have "unat x div 2 ^ k = 1" "(unat x - 1) div 2 ^ k = 1" using lo hi
      by (auto simp: div_nat_eqI)
    then have "bit (unat x) k" "bit (unat (x - 1)) k" by (simp_all add: bit_iff_odd m1)
    then have "bit x k" "bit (x - 1) k" by (simp_all add: bit_unsigned_iff)
    then have "bit (x AND (x - 1)) k" by (simp only: bit_and_iff)
    then show False using assms(1) by simp
  qed
  moreover have "unat (ctzsi2 x) = k"
    using ctzsi2_bound[OF assms(2)] unfolding \<open>unat x = 2 ^ k\<close>
    by (metis dvd_power_iff_le le_antisym not_less_eq_eq numeral_2_eq_2 order_refl)
  ultimately show ?thesis using k by simp
qed

lemma and_pow2_minus_1:
  assumes "unat (d :: u32) = 2 ^ c" "c \<le> 31"
  shows "unat (x AND (d - 1)) = unat x mod 2 ^ c"
proof -
  have "of_nat (unat d) = (2 :: u32) ^ c" unfolding assms(1) by simp
  then have "d = 2 ^ c" by simp
  then have "d - 1 = mask c" by (simp add: mask_eq_exp_minus_1)
  then have "x AND (d - 1) = take_bit c x" by (simp add: take_bit_eq_mask)
  then show ?thesis by (simp only: unsigned_take_bit_eq) (simp only: take_bit_eq_mod)
qed


definition init_ok :: "nat \<Rightarrow> nat \<Rightarrow> bool \<Rightarrow> (divres + u32 \<times> u64 \<times> u64) res \<Rightarrow> bool" where
  "init_ok N D rem st \<longleftrightarrow>
     (case st of
        Inl _ \<Rightarrow> False
      | Inr (Inl (q, out)) \<Rightarrow> (\<exists>r. out = div_out rem r \<and> unat q = N div D \<and> unat r = N mod D)
      | Inr (Inr (sr, q, r)) \<Rightarrow> unat sr \<le> 63 \<and> udiv_inv N D (unat sr) 0 (q, r, 0) \<and>
          (D \<le> 2 ^ 63 \<or> 2 ^ 63 \<le> N \<and> unat sr = 1))"

lemma init_ok_out: "unat q = N div D \<Longrightarrow> unat r = N mod D \<Longrightarrow> init_ok N D rem (Inr (Inl (q, div_out rem r)))"
  by (auto simp: init_ok_def)

text \<open>The loop is entered with the top bits of dividend and divisor aligned.\<close>

lemma init_ok_enter:
  assumes N: "2 ^ (bn - 1) \<le> N" "N < 2 ^ bn" and D: "2 ^ (bd - 1) \<le> D" "D < 2 ^ bd"
    and b: "1 \<le> bd" "bd \<le> bn" "bn \<le> 64" and sr: "unat sr = bn - bd + 1" "unat sr \<le> 63"
    and q: "unat q = N * 2 ^ (64 - unat sr) mod 2 ^ 64" and r: "unat r = N div 2 ^ unat sr"
  shows "init_ok N D rem (Inr (Inr (sr, q, r)))"
proof -
  have "N div 2 ^ unat sr < 2 ^ (bd - 1)"
  proof -
    have "bn = (bd - 1) + unat sr" using b sr by simp
    then have "N < 2 ^ (bd - 1) * 2 ^ unat sr" using N(2) by (metis power_add)
    then show ?thesis by (simp add: div_less_iff_less_mult)
  qed
  then have "unat r < D" using D r by simp
  moreover have "N * 2 ^ (64 - unat sr) mod 2 ^ 64 = N mod 2 ^ unat sr * 2 ^ (64 - unat sr)"
  proof -
    have "(2::nat) ^ 64 = 2 ^ unat sr * 2 ^ (64 - unat sr)" using sr(2) by (simp flip: power_add)
    then show ?thesis by (simp only: mod_mult_mult2)
  qed
  moreover have "D \<le> 2 ^ 63 \<or> 2 ^ 63 \<le> N \<and> unat sr = 1"
  proof (cases "bd = 64")
    case True
    then show ?thesis using b sr N by simp
  next
    case False
    then have "(2::nat) ^ bd \<le> 2 ^ 63" using b by (intro power_increasing) simp_all
    then have "D \<le> 2 ^ 63" using D(2) by linarith
    then show ?thesis ..
  qed
  ultimately show ?thesis using sr q r by (simp add: init_ok_def udiv_inv_def)
qed

lemma init_ok_run:
  assumes "init_ok (unat a) (unat b) rem (udiv_init a b rem)"
  shows "\<exists>q r. udivmoddi4 a b rem = Inr (q, div_out rem r) \<and> unat q = unat a div unat b \<and> unat r = unat a mod unat b"
proof -
  obtain st where st: "udiv_init a b rem = Inr st" using assms by (cases "udiv_init a b rem") (auto simp: init_ok_def)
  show ?thesis
  proof (cases st)
    case (Inl out)
    then show ?thesis using assms by (cases out) (auto simp: udivmoddi4_def st init_ok_def)
  next
    case (Inr srqr)
    obtain sr q r where eq: "srqr = (sr, q, r)" by (metis prod_cases3)
    have ok: "unat sr \<le> 63" "udiv_inv (unat a) (unat b) (unat sr) 0 (q, r, 0)"
      "unat b \<le> 2 ^ 63 \<or> 2 ^ 63 \<le> unat a \<and> unat sr = 1"
      using assms unfolding st Inr eq init_ok_def by simp_all
    obtain Qh where Qh: "udiv_inv (unat a) (unat b) 0 Qh (udiv_loop b (unat sr) (q, r, 0))"
      using udiv_loop_inv[OF ok(2) dword_lt(1) refl ok(1)] ok(3) by auto
    obtain q' r' c where run: "udiv_loop b (unat sr) (q, r, 0) = (q', r', c)" by (metis prod_cases3)
    have c: "unat c \<le> 1" and r': "unat r' < unat b" and sum: "unat r' + unat b * (2 * Qh + unat c) = unat a"
      and q': "unat q' = Qh" and lt: "2 * Qh + unat c < 2 ^ 64"
      using Qh unfolding run udiv_inv_def by (simp_all add: mod_by_1)
    have "unat (ucast c :: u64) = unat c" using c by (simp add: unsigned_ucast_eq take_bit_eq_mod)
    then have "unat (push_bit 1 q' OR ucast c) = 2 * Qh + unat c"
      using shift_carry[of "ucast c :: u64" q'] c q' lt by simp
    moreover have "2 * Qh + unat c = unat a div unat b" "unat r' = unat a mod unat b"
      using sum[symmetric] r' by simp_all
    moreover have "udivmoddi4 a b rem = Inr (push_bit 1 q' OR ucast c, div_out rem r')"
      unfolding udivmoddi4_def st Inr eq bindR_Inr sum.case prod.case run ..
    ultimately show ?thesis by metis
  qed
qed


lemma nat_double_cmp:
  fixes H L :: nat
  assumes "H < 2 ^ 32" "L < 2 ^ 32" shows "(H * 2 ^ 32 + L) div 2 ^ 32 = H" "(H * 2 ^ 32 + L) mod 2 ^ 32 = L"
  using assms by simp_all

lemma div_mod_high:
  fixes H L K :: nat
  assumes "L < 2 ^ 32"
  shows "(H * 2 ^ 32 + L) div (K * 2 ^ 32) = H div K" "(H * 2 ^ 32 + L) mod (K * 2 ^ 32) = (H mod K) * 2 ^ 32 + L"
  using assms by (simp_all add: mult.commute[of K] div_mult2_eq mod_mult2_eq)

lemma bits_high:
  assumes "s_high n \<noteq> 0"
  shows "2 ^ (64 - unat (clzsi2 (s_high n)) - 1) \<le> unat n \<and> unat n < 2 ^ (64 - unat (clzsi2 (s_high n)))"
proof -
  define c where "c = unat (clzsi2 (s_high n))"
  have c: "c \<le> 31" "2 ^ (31 - c) \<le> unat (s_high n)" "unat (s_high n) < 2 ^ (32 - c)"
    using clzsi2_bound[OF assms] by (simp_all add: c_def)
  have "64 - c - 1 = (31 - c) + 32" "64 - c = (32 - c) + 32" using c by simp_all
  then have p: "(2::nat) ^ (64 - c - 1) = 2 ^ (31 - c) * 2 ^ 32" "(2::nat) ^ (64 - c) = 2 ^ (32 - c) * 2 ^ 32" by (simp_all only: power_add)
  have "unat (s_high n) + 1 \<le> 2 ^ (32 - c)" using c by simp
  then have "(unat (s_high n) + 1) * 2 ^ 32 \<le> 2 ^ (32 - c) * 2 ^ 32" by (rule mult_le_mono1)
  moreover have "2 ^ (31 - c) * 2 ^ 32 \<le> unat (s_high n) * 2 ^ 32" using c(2) by (rule mult_le_mono1)
  moreover define L where "L = unat (s_low n)"
  then have "L < 2 ^ 32" by simp
  ultimately show ?thesis unfolding c_def[symmetric] p unat_halves[of n] L_def[symmetric] by (auto simp: algebra_simps)
qed

text \<open>Both divisors with a high half: the shift count, or a divisor longer than the dividend.\<close>

lemma clz_difference:
  assumes n: "s_high n \<noteq> 0" and d: "s_high d \<noteq> 0"
  defines "sr \<equiv> clzsi2 (s_high d) - clzsi2 (s_high n)"
  shows "unat sr \<le> 31 \<and> unat (sr + 1) = (64 - unat (clzsi2 (s_high n))) - (64 - unat (clzsi2 (s_high d))) + 1
      \<and> unat (clzsi2 (s_high n)) \<le> unat (clzsi2 (s_high d))
    \<or> 31 < unat sr \<and> unat n < unat d"
proof -
  define cn where "cn = unat (clzsi2 (s_high n))" define cd where "cd = unat (clzsi2 (s_high d))"
  have c: "cn \<le> 31" "cd \<le> 31" using clzsi2_bound[OF n] clzsi2_bound[OF d] by (simp_all add: cn_def cd_def)
  show ?thesis
  proof (cases "cn \<le> cd")
    case True
    then have "unat sr = cd - cn" by (simp add: sr_def unat_sub word_le_nat_alt cn_def cd_def)
    moreover from this have "unat (sr + 1) = cd - cn + 1" using c by (simp add: unat_word_ariths)
    ultimately have "unat sr \<le> 31 \<and> unat (sr + 1) = (64 - cn) - (64 - cd) + 1 \<and> cn \<le> cd" using c True by simp
    then show ?thesis unfolding cn_def cd_def ..
  next
    case False
    then have "unat sr = cd + 2 ^ 32 - cn" by (simp add: sr_def unat_sub_if_size word_size cn_def cd_def)
    then have "31 < unat sr" using c by simp
    moreover have "unat n < unat d"
    proof -
      have "(2::nat) ^ (64 - cn) \<le> 2 ^ (64 - cd - 1)" using False by (intro power_increasing) simp_all
      moreover have "unat n < 2 ^ (64 - cn)" "2 ^ (64 - cd - 1) \<le> unat d"
        using bits_high[OF n] bits_high[OF d] by (simp_all only: cn_def cd_def)
      ultimately show ?thesis by linarith
    qed
    ultimately show ?thesis by blast
  qed
qed

lemma init_ok_longer:
  "unat n < unat d \<Longrightarrow> init_ok (unat n) (unat d) rem (Inr (Inl (0, div_out rem n)))"
  by (rule init_ok_out) simp_all

lemma init_ok_aligned:
  assumes n: "s_high n \<noteq> 0" and d: "s_high d \<noteq> 0" and sr: "sr = clzsi2 (s_high d) - clzsi2 (s_high n)" "unat sr \<le> 31"
    and q: "unat q = unat n * 2 ^ (64 - unat (sr + 1)) mod 2 ^ 64" and r: "unat r = unat n div 2 ^ unat (sr + 1)"
  shows "init_ok (unat n) (unat d) rem (Inr (Inr (sr + 1, q, r)))"
proof -
  have u: "unat (sr + 1) = (64 - unat (clzsi2 (s_high n))) - (64 - unat (clzsi2 (s_high d))) + 1"
    and le: "unat (clzsi2 (s_high n)) \<le> unat (clzsi2 (s_high d))"
    using clz_difference[OF n d] sr by auto
  have cd: "unat (clzsi2 (s_high d)) \<le> 31" using clzsi2_bound[OF d] by simp
  show ?thesis
    by (rule init_ok_enter[OF conjunct1[OF bits_high[OF n]] conjunct2[OF bits_high[OF n]]
          conjunct1[OF bits_high[OF d]] conjunct2[OF bits_high[OF d]] _ _ _ u _ q r]) (use u le cd in simp_all)
qed


lemma unat_ucast64: "unat (ucast (w :: u32) :: u64) = unat w"
proof -
  have "unat w < 2 ^ 64" by (rule order_less_trans[OF half_lt(1)]) simp
  then show ?thesis by (simp add: unsigned_ucast_eq take_bit_eq_mod)
qed

lemma init_no_high:
  assumes n: "s_high n = 0" and d: "d \<noteq> 0" shows "init_ok (unat n) (unat d) rem (udiv_init n d rem)"
proof (cases "s_high d = 0")
  case True
  then have "s_low d \<noteq> 0" using d udwords_halves[of d] by (auto simp: udwords_def)
  moreover have "unat d = unat (s_low d)" "unat n = unat (s_low n)" using n True by (simp_all add: unat_halves[of d] unat_halves[of n])
  ultimately show ?thesis using n True
    by (simp add: udiv_init_def init_ok_out unat_ucast64 unat_div_distrib unat_mod_distrib)
next
  case False
  define H where "H = unat (s_high d)"
  have "0 < H" using False by (simp add: H_def unat_gt_0)
  then have "2 ^ 32 \<le> unat d" unfolding unat_halves[of d] H_def[symmetric] by (cases H) simp_all
  moreover have nl: "unat n = unat (s_low n)" using n by (simp add: unat_halves[of n])
  ultimately have "unat n < unat d" using half_lt(1)[of "s_low n"] by linarith
  then have "init_ok (unat n) (unat d) rem (Inr (Inl (0, div_out rem (ucast (s_low n)))))"
    by (intro init_ok_out) (simp_all add: unat_ucast64 nl)
  then show ?thesis using n False by (simp add: udiv_init_def)
qed

lemma init_low_zero:
  assumes n: "s_high n \<noteq> 0" and d: "s_low d = 0" "s_high d \<noteq> 0" shows "init_ok (unat n) (unat d) rem (udiv_init n d rem)"
proof -
  define H where "H = unat (s_high n)" define L where "L = unat (s_low n)" define K where "K = unat (s_high d)"
  have L: "L < 2 ^ 32" by (simp add: L_def)
  have un: "unat n = H * 2 ^ 32 + L" and ud: "unat d = K * 2 ^ 32"
    using d by (simp_all add: unat_halves[of n] unat_halves[of d] H_def L_def K_def)
  note dm = div_mod_high[OF L, of H K]
  consider (zero) "s_low n = 0" | (pow2) "s_low n \<noteq> 0" "s_high d AND (s_high d - 1) = 0"
    | (gen) "s_low n \<noteq> 0" "s_high d AND (s_high d - 1) \<noteq> 0" by blast
  then show ?thesis
  proof cases
    case zero
    have "init_ok (unat n) (unat d) rem (Inr (Inl (ucast (s_high n div s_high d), div_out rem (udwords (s_high n mod s_high d) 0))))"
    proof (rule init_ok_out)
      have L0: "L = 0" using zero by (simp add: L_def)
      show "unat (ucast (s_high n div s_high d) :: u64) = unat n div unat d"
        unfolding un ud dm unat_ucast64 by (simp add: unat_div_distrib H_def K_def)
      show "unat (udwords (s_high n mod s_high d) 0) = unat n mod unat d"
        unfolding un ud dm unat_udwords by (simp add: unat_mod_distrib H_def K_def L0)
    qed
    then show ?thesis using n d zero by (simp add: udiv_init_def)
  next
    case pow2
    define c where "c = unat (ctzsi2 (s_high d))"
    have c: "K = 2 ^ c" "c \<le> 31" using pow2_ctz[OF pow2(2) d(2)] by (simp_all add: c_def K_def)
    have "init_ok (unat n) (unat d) rem (Inr (Inl (ucast (drop_bit c (s_high n)), div_out rem (udwords (s_high n AND (s_high d - 1)) (s_low n)))))"
    proof (rule init_ok_out)
      show "unat (ucast (drop_bit c (s_high n)) :: u64) = unat n div unat d"
        unfolding un ud dm unat_ucast64 unat_drop_bit_div by (simp add: H_def c)
      show "unat (udwords (s_high n AND (s_high d - 1)) (s_low n)) = unat n mod unat d"
        unfolding un ud dm unat_udwords and_pow2_minus_1[OF c(1)[unfolded K_def] c(2)] by (simp add: H_def L_def c)
    qed
    then show ?thesis using n d pow2 by (simp add: udiv_init_def c_def)
  next
    case gen
    define sr where "sr = clzsi2 (s_high d) - clzsi2 (s_high n)"
    have st: "udiv_init n d rem = (if sr > 30 then Inr (Inl (0, div_out rem n))
        else bindR (shift_small n (sr + 1)) (\<lambda>(q, r). Inr (Inr (sr + 1, q, r))))"
      using n d gen by (simp add: udiv_init_def sr_def Let_def)
    show ?thesis
    proof (cases "sr > 30")
      case False
      then have "unat sr \<le> 31" by (simp add: word_less_nat_alt)
      moreover have "1 \<le> sr + 1" "sr + 1 \<le> 31" using False by (simp_all add: word_le_nat_alt word_less_nat_alt unat_word_ariths)
      then obtain q r where "shift_small n (sr + 1) = Inr (q, r)"
        "unat q = unat n * 2 ^ (64 - unat (sr + 1)) mod 2 ^ 64" "unat r = unat n div 2 ^ unat (sr + 1)"
        using shift_small_ok by blast
      ultimately show ?thesis using init_ok_aligned[OF n d(2) sr_def] False by (simp add: st)
    next
      case True
      have "unat n < unat d"
      proof (rule ccontr)
        assume "\<not> unat n < unat d"
        then have "unat sr \<le> 31" using clz_difference[OF n d(2)] by (auto simp: sr_def)
        moreover have "30 < unat sr" using True by (simp add: word_less_nat_alt)
        ultimately have "unat sr = 31" by linarith
        then have "unat (clzsi2 (s_high d)) = 31"
          using clz_difference[OF n d(2)] clzsi2_bound[OF n] clzsi2_bound[OF d(2)]
          by (auto simp: sr_def[symmetric] unat_word_ariths)
        then have "unat (s_high d) = 1" using clzsi2_bound[OF d(2)] by simp
        then have "s_high d = 1" by (simp add: word_unat_eq_iff)
        then show False using gen by simp
      qed
      then show ?thesis using True by (simp add: st init_ok_longer)
    qed
  qed
qed

lemma init_both_high:
  assumes n: "s_high n \<noteq> 0" and d: "s_low d \<noteq> 0" "s_high d \<noteq> 0" shows "init_ok (unat n) (unat d) rem (udiv_init n d rem)"
proof -
  define sr where "sr = clzsi2 (s_high d) - clzsi2 (s_high n)"
  have st: "udiv_init n d rem = (if sr > 31 then Inr (Inl (0, div_out rem n))
      else if sr + 1 = 32 then Inr (Inr (sr + 1, udwords (s_low n) 0, udwords 0 (s_high n)))
      else bindR (shift_small n (sr + 1)) (\<lambda>(q, r). Inr (Inr (sr + 1, q, r))))"
    using n d by (simp add: udiv_init_def sr_def Let_def)
  show ?thesis
  proof (cases "sr > 31")
    case True
    then have "31 < unat sr" by (simp add: word_less_nat_alt)
    then have "unat n < unat d" using clz_difference[OF n d(2)] by (auto simp: sr_def)
    then show ?thesis using True by (simp add: st init_ok_longer)
  next
    case False
    then have le: "unat sr \<le> 31" by (simp add: word_less_nat_alt)
    note al = init_ok_aligned[OF n d(2) sr_def le]
    show ?thesis
    proof (cases "sr + 1 = 32")
      case True
      then show ?thesis using al[of "udwords (s_low n) 0" "udwords 0 (s_high n)"] shift_32_ok[of n] False by (simp add: st)
    next
      case False
      have "unat (sr + 1) = unat sr + 1" using le by (simp add: unat_word_ariths)
      moreover have "unat (sr + 1) \<noteq> 32" using False by (metis of_nat_numeral of_nat_unat ucast_id)
      ultimately have "1 \<le> sr + 1" "sr + 1 \<le> 31" using le by (simp_all add: word_le_nat_alt)
      then obtain q r where "shift_small n (sr + 1) = Inr (q, r)"
        "unat q = unat n * 2 ^ (64 - unat (sr + 1)) mod 2 ^ 64" "unat r = unat n div 2 ^ unat (sr + 1)"
        using shift_small_ok by blast
      then show ?thesis using al False \<open>\<not> sr > 31\<close> by (simp add: st)
    qed
  qed
qed


lemma bits_low:
  assumes "s_high d = 0" "s_low d \<noteq> 0"
  shows "2 ^ (32 - unat (clzsi2 (s_low d)) - 1) \<le> unat d \<and> unat d < 2 ^ (32 - unat (clzsi2 (s_low d)))"
proof -
  have "unat d = unat (s_low d)" using assms by (simp add: unat_halves[of d])
  moreover have "32 - unat (clzsi2 (s_low d)) - 1 = 31 - unat (clzsi2 (s_low d))" by simp
  ultimately show ?thesis using clzsi2_bound[OF assms(2)] by (simp only: simp_thms)
qed

lemma pow2_of_top:
  assumes "unat (clzsi2 x) = 31" "x \<noteq> 0" shows "x AND (x - 1) = 0"
proof -
  have "unat x = 1" using clzsi2_bound[OF assms(2)] assms(1) by simp
  then have "x = 1" by (simp add: word_unat_eq_iff)
  then show ?thesis by simp
qed

lemma init_one_word:
  assumes n: "s_high n \<noteq> 0" and d: "s_low d \<noteq> 0" "s_high d = 0" shows "init_ok (unat n) (unat d) rem (udiv_init n d rem)"
proof (cases "s_low d AND (s_low d - 1) = 0")
  case True
  define c where "c = unat (ctzsi2 (s_low d))"
  have c: "unat (s_low d) = 2 ^ c" "c \<le> 31" using pow2_ctz[OF True d(1)] by (simp_all add: c_def)
  have ud: "unat d = 2 ^ c" using d c by (simp add: unat_halves[of d])
  have rem: "unat (ucast (s_low n AND (s_low d - 1)) :: u64) = unat n mod unat d"
  proof -
    have p: "(2::nat) ^ 32 = 2 ^ (32 - c) * 2 ^ c" using c(2) by (simp flip: power_add)
    have "unat n mod 2 ^ c = (unat (s_low n) + unat (s_high n) * 2 ^ (32 - c) * 2 ^ c) mod 2 ^ c"
      unfolding unat_halves[of n] p by (simp only: ac_simps)
    then have "unat n mod 2 ^ c = unat (s_low n) mod 2 ^ c" by (simp only: mod_mult_self1)
    then show ?thesis unfolding unat_ucast64 and_pow2_minus_1[OF c] ud ..
  qed
  show ?thesis
  proof (cases "s_low d = 1")
    case True
    then have "unat d = 1" using d by (simp add: unat_halves[of d])
    then show ?thesis using n d True rem by (simp add: udiv_init_def init_ok_out)
  next
    case False
    then have "c \<noteq> 0" using c by (auto simp: word_unat_eq_iff)
    then have "1 \<le> ctzsi2 (s_low d)" "ctzsi2 (s_low d) \<le> 31" using c(2) by (simp_all add: word_le_nat_alt c_def)
    moreover have k32: "unat (32 - ctzsi2 (s_low d)) = 32 - c" using c(2) by (simp add: unat_sub word_le_nat_alt c_def)
    moreover have "unat (udwords (drop_bit c (s_high n)) (push_bit (32 - c) (s_high n) OR drop_bit c (s_low n))) = unat n div unat d"
    proof -
      have "unat (push_bit (32 - c) (s_high n) OR drop_bit c (s_low n)) = unat (s_high n) * 2 ^ (32 - c) mod 2 ^ 32 + unat (s_low n) div 2 ^ c"
        using unat_double_shift[of c "s_high n" "s_low n"] c by simp
      then show ?thesis unfolding unat_udwords ud unat_halves[of n] unat_drop_bit_div
        using double_word_div[of c "unat (s_low n)" "unat (s_high n)"] c by simp
    qed
    ultimately show ?thesis using n d True False rem init_ok_out[of _ "unat n" "unat d" _ rem]
      by (simp add: udiv_init_def Let_def c_def)
  qed
next
  case False
  define cn where "cn = unat (clzsi2 (s_high n))" define cd where "cd = unat (clzsi2 (s_low d))"
  define sr where "sr = 1 + 32 + clzsi2 (s_low d) - clzsi2 (s_high n)"
  have cn: "cn \<le> 31" using clzsi2_bound[OF n] by (simp add: cn_def)
  have "cd \<noteq> 31" using pow2_of_top[OF _ d(1)] False by (auto simp: cd_def)
  moreover have "cd \<le> 31" using clzsi2_bound[OF d(1)] by (simp add: cd_def)
  ultimately have cd: "cd \<le> 30" by simp
  have "unat (1 + 32 + clzsi2 (s_low d)) = 33 + cd" using cd by (simp add: unat_word_ariths cd_def[symmetric])
  then have usr: "unat sr = 33 + cd - cn"
    unfolding sr_def using cn by (subst unat_sub) (simp_all add: word_le_nat_alt cn_def)
  have enter: "init_ok (unat n) (unat d) rem (Inr (Inr (sr, q, r)))"
    if "unat q = unat n * 2 ^ (64 - unat sr) mod 2 ^ 64" "unat r = unat n div 2 ^ unat sr" for q r
    by (rule init_ok_enter[OF conjunct1[OF bits_high[OF n]] conjunct2[OF bits_high[OF n]]
        conjunct1[OF bits_low[OF d(2,1)]] conjunct2[OF bits_low[OF d(2,1)]] _ _ _ _ _ that])
      (use usr cn cd in \<open>simp_all flip: cn_def cd_def\<close>)
  have st: "udiv_init n d rem = (if sr = 32 then Inr (Inr (sr, udwords (s_low n) 0, udwords 0 (s_high n)))
      else if sr < 32 then bindR (shift_small n sr) (\<lambda>(q, r). Inr (Inr (sr, q, r)))
      else bindR (shift_big n sr) (\<lambda>(q, r). Inr (Inr (sr, q, r))))"
    using n d False by (simp add: udiv_init_def sr_def Let_def)
  have b: "2 \<le> unat sr" "unat sr \<le> 63" using usr cn cd by simp_all
  consider "sr = 32" | "unat sr < 32" | "32 < unat sr" by (metis linorder_neqE_nat of_nat_numeral of_nat_unat ucast_id)
  then show ?thesis
  proof cases
    case 1
    then show ?thesis using enter[of "udwords (s_low n) 0" "udwords 0 (s_high n)"] shift_32_ok[of n] by (simp add: st)
  next
    case 2
    then have "1 \<le> sr" "sr \<le> 31" "sr < 32" "sr \<noteq> 32" using b by (auto simp: word_le_nat_alt word_less_nat_alt)
    with shift_small_ok[of sr n] obtain q r where "shift_small n sr = Inr (q, r)"
      "unat q = unat n * 2 ^ (64 - unat sr) mod 2 ^ 64" "unat r = unat n div 2 ^ unat sr" by blast
    then show ?thesis using enter \<open>sr < 32\<close> \<open>sr \<noteq> 32\<close> by (simp add: st)
  next
    case 3
    then have "33 \<le> sr" "sr \<le> 63" "\<not> sr < 32" "sr \<noteq> 32" using b by (auto simp: word_le_nat_alt word_less_nat_alt)
    with shift_big_ok[of sr n] obtain q r where "shift_big n sr = Inr (q, r)"
      "unat q = unat n * 2 ^ (64 - unat sr) mod 2 ^ 64" "unat r = unat n div 2 ^ unat sr" by blast
    then show ?thesis using enter \<open>\<not> sr < 32\<close> \<open>sr \<noteq> 32\<close> by (simp add: st)
  qed
qed

lemma udivmoddi4_eq:
  "udivmoddi4 a b rem = (if b = 0 then Inl (Undef ''division'') else Inr (a div b, div_out rem (a mod b)))"
proof (cases "b = 0")
  case True
  then have "s_low b = 0" "s_high b = 0" by (simp_all add: s_low_def s_high_def)
  then show ?thesis using True by (simp add: udivmoddi4_def udiv_init_def)
next
  case False
  have "s_low b \<noteq> 0 \<or> s_high b \<noteq> 0" using False udwords_halves[of b] by (auto simp: udwords_def)
  then have "init_ok (unat a) (unat b) rem (udiv_init a b rem)"
    using init_no_high[OF _ False, of a] init_low_zero[of a b] init_both_high[of a b] init_one_word[of a b] by blast
  from init_ok_run[OF this] obtain q r where "udivmoddi4 a b rem = Inr (q, div_out rem r)"
    "unat q = unat a div unat b" "unat r = unat a mod unat b" by blast
  moreover from this have "q = a div b" "r = a mod b" by (simp_all add: word_unat_eq_iff unat_div_distrib unat_mod_distrib)
  ultimately show ?thesis using False by simp
qed

section \<open>Signed division\<close>


lemma sint_split: "sint (w :: u64) = (if 2 ^ 63 \<le> unat w then int (unat w) - 2 ^ 64 else int (unat w))"
proof -
  have b: "bit w 63 \<longleftrightarrow> 2 ^ 63 \<le> unat w"
  proof (cases "2 ^ 63 \<le> unat w")
    case True
    then have "signed_drop_bit 63 w = - 1" by (simp only: sign_mask if_True)
    then have "bit (signed_drop_bit 63 w) 0" by simp
    then show ?thesis using True by (simp add: bit_signed_drop_bit_iff)
  next
    case False
    then have "signed_drop_bit 63 w = 0" by (simp only: sign_mask if_False)
    then have "\<not> bit (signed_drop_bit 63 w) 0" by simp
    then show ?thesis using False by (simp add: bit_signed_drop_bit_iff)
  qed
  have "sint w = uint w - 2 ^ 64 * of_bool (bit w 63)"
    using take_bit_int_eq_self[of "uint w" 64] unsigned_less[of w]
    by (simp add: sint_uint signed_take_bit_eq_take_bit_minus bit_uint_iff)
  then show ?thesis using b by (simp add: uint_nat of_bool_def del: of_nat_unat)
qed

definition sign_of :: "u64 \<Rightarrow> u64" where
  "sign_of w = (if sint w < 0 then - 1 else 0)"

lemma int_unat_lt: "int (unat (w :: u64)) < 2 ^ 64"
  by (metis dword_lt(1) of_nat_less_iff of_nat_power of_nat_numeral)

lemma sint_neg_iff: "sint (w :: u64) < 0 \<longleftrightarrow> 2 ^ 63 \<le> unat w"
  using int_unat_lt[of w] unfolding sint_split by (simp del: of_nat_unat)

lemma sign_of_mask: "signed_drop_bit 63 w = sign_of w"
  unfolding sign_mask sign_of_def sint_neg_iff ..

lemma sint_range: "- (2 ^ 63) \<le> sint (w :: u64)" "sint (w :: u64) < 2 ^ 63"
  using sint_ge[of w] sint_lt[of w] by simp_all

lemma word_of_sint: "word_of_int (sint w) = (w :: u64)"
  by simp

lemma sint_of_int: "- (2 ^ 63) \<le> k \<Longrightarrow> k < 2 ^ 63 \<Longrightarrow> sint (word_of_int k :: u64) = k"
  by (simp only: signed_of_int) (simp add: signed_take_bit_int_eq_self)

lemma xor_minus:
  fixes w s :: u64
  shows "s = 0 \<Longrightarrow> (w XOR s) - s = w" "s = - 1 \<Longrightarrow> (w XOR s) - s = - w"
  using minus_eq_not_plus_1[of w] by simp_all

lemma neg_if_sign:
  "neg_if w (sign_of v) =
    (if sint v < 0 \<and> sint w = - (2 ^ 63) then Inl (Undef ''signed overflow'')
     else Inr (if sint v < 0 then - w else w))"
proof (cases "sint v < 0")
  case True
  have "sint (NOT w) = - sint w - 1"
  proof -
    have "NOT w = word_of_int (- sint w - 1)" by (simp add: not_eq_complement)
    then show ?thesis using sint_of_int[of "- sint w - 1"] sint_range[of w] by simp
  qed
  then have x: "sint (w XOR - 1) - sint (- 1 :: u64) = - sint w" by simp
  have y: "(w XOR - 1) - - 1 = - w" using minus_eq_not_plus_1[of w] by simp
  have "neg_if w (- 1) = guardR (sint w \<noteq> - (2 ^ 63)) (Undef ''signed overflow'') (Inr (- w))"
    unfolding neg_if_def x y using sint_range[of w] by (auto simp: guardR_def)
  then show ?thesis using True by (simp add: sign_of_def guardR_def)
next
  case False
  then show ?thesis using sint_range[of w] by (simp add: neg_if_def sign_of_def)
qed

lemma unat_abs:
  fixes w :: u64
  assumes "sint w \<noteq> - (2 ^ 63)"
  shows "int (unat (if sint w < 0 then - w else w)) = \<bar>sint w\<bar>"
proof (cases "sint w < 0")
  case True
  then have n1: "2 ^ 63 \<le> unat w" by (simp only: sint_neg_iff)
  then have "sint w = int (unat w) - 2 ^ 64" by (simp only: sint_split if_True)
  note n = n1 this
  then have "unat (0 - w) = 2 ^ 64 - unat w" by (subst unat_sub_if_size) (simp add: word_size)
  then have "unat (- w) = 2 ^ 64 - unat w" by simp
  then have "int (unat (- w)) = 2 ^ 64 - int (unat w)" 
    by (simp only: of_nat_diff[OF order_less_imp_le[OF dword_lt(1)[of w]]] of_nat_power of_nat_numeral)
  moreover have "\<bar>sint w\<bar> = 2 ^ 64 - int (unat w)" using n(2) True by linarith
  ultimately show ?thesis using True by (simp only: if_True)
next
  case False
  then have "\<not> 2 ^ 63 \<le> unat w" unfolding sint_neg_iff .
  then have "sint w = int (unat w)" unfolding sint_split by (rule if_not_P)
  then show ?thesis using False by simp
qed

lemma divdi3_eq:
  "divdi3 a b =
    (if sint a = - (2 ^ 63) \<or> sint b = - (2 ^ 63) then Inl (Undef ''signed overflow'')
     else if b = 0 then Inl (Undef ''division'') else Inr (word_of_int (sint a sdiv sint b)))"
proof (cases "sint a = - (2 ^ 63) \<or> sint b = - (2 ^ 63)")
  case True
  then show ?thesis by (auto simp: divdi3_def Let_def sign_of_mask neg_if_sign)
next
  case ok: False
  define a1 where "a1 = (if sint a < 0 then - a else a)"
  define b1 where "b1 = (if sint b < 0 then - b else b)"
  have a1: "int (unat a1) = \<bar>sint a\<bar>" unfolding a1_def by (rule unat_abs) (use ok in blast)
  have b1: "int (unat b1) = \<bar>sint b\<bar>" unfolding b1_def by (rule unat_abs) (use ok in blast)
  have b0: "b1 = 0 \<longleftrightarrow> b = 0" by (simp add: b1_def)
  have run: "divdi3 a b = bindR (udivmoddi4 a1 b1 False) (\<lambda>(q, _). Inr ((q XOR (sign_of a XOR sign_of b)) - (sign_of a XOR sign_of b)))"
    using ok by (auto simp: divdi3_def Let_def sign_of_mask neg_if_sign a1_def b1_def)
  show ?thesis
  proof (cases "b = 0")
    case True
    then have "b1 = 0" by (simp add: b0)
    then have "divdi3 a b = Inl (Undef ''division'')" unfolding run udivmoddi4_eq by simp
    then show ?thesis using ok True by simp
  next
    case False
    define q where "q = a1 div b1"
    have "int (unat q) = \<bar>sint a\<bar> div \<bar>sint b\<bar>" by (simp only: q_def unat_div_distrib zdiv_int a1 b1)
    then have q: "q = word_of_int (\<bar>sint a\<bar> div \<bar>sint b\<bar>)" by (metis of_int_of_nat_eq of_nat_unat ucast_id)
    have "(q XOR (sign_of a XOR sign_of b)) - (sign_of a XOR sign_of b) = (if (sint a < 0) = (sint b < 0) then q else - q)"
      by (simp add: sign_of_def xor_minus)
    also have "\<dots> = word_of_int (sint a sdiv sint b)"
    proof -
      have "sint b \<noteq> 0" using False by (metis word_of_sint of_int_0)
      then show ?thesis by (auto simp: q signed_divide_int_def sgn_if)
    qed
    finally show ?thesis using ok False b0 by (simp add: run udivmoddi4_eq q_def)
  qed
qed

lemma moddi3_eq:
  "moddi3 a b =
    (if sint a = - (2 ^ 63) \<or> sint b = - (2 ^ 63) then Inl (Undef ''signed overflow'')
     else if b = 0 then Inl (Undef ''division'') else Inr (word_of_int (sint a smod sint b)))"
proof (cases "sint a = - (2 ^ 63) \<or> sint b = - (2 ^ 63)")
  case True
  then show ?thesis by (auto simp: moddi3_def Let_def sign_of_mask neg_if_sign)
next
  case ok: False
  define a1 where "a1 = (if sint a < 0 then - a else a)"
  define b1 where "b1 = (if sint b < 0 then - b else b)"
  have a1: "int (unat a1) = \<bar>sint a\<bar>" unfolding a1_def by (rule unat_abs) (use ok in blast)
  have b1: "int (unat b1) = \<bar>sint b\<bar>" unfolding b1_def by (rule unat_abs) (use ok in blast)
  have b0: "b1 = 0 \<longleftrightarrow> b = 0" by (simp add: b1_def)
  have run: "moddi3 a b = bindR (udivmoddi4 a1 b1 True) (\<lambda>(_, r). neg_if (the r) (sign_of a))"
    using ok by (auto simp: moddi3_def Let_def sign_of_mask neg_if_sign a1_def b1_def)
  show ?thesis
  proof (cases "b = 0")
    case True
    then have "b1 = 0" by (simp add: b0)
    then have "moddi3 a b = Inl (Undef ''division'')" unfolding run udivmoddi4_eq by simp
    then show ?thesis using ok True by simp
  next
    case False
    define r where "r = a1 mod b1"
    have sb: "sint b \<noteq> 0" using False by (metis word_of_sint of_int_0)
    have ir: "int (unat r) = \<bar>sint a\<bar> mod \<bar>sint b\<bar>" by (simp only: r_def unat_mod_distrib zmod_int a1 b1)
    then have r: "r = word_of_int (\<bar>sint a\<bar> mod \<bar>sint b\<bar>)" by (metis of_int_of_nat_eq of_nat_unat ucast_id)
    have "\<bar>sint a\<bar> mod \<bar>sint b\<bar> < \<bar>sint b\<bar>" using sb by simp
    then have small: "\<bar>sint a\<bar> mod \<bar>sint b\<bar> < 2 ^ 63" using sint_range[of b] by linarith
    have "0 \<le> \<bar>sint a\<bar> mod \<bar>sint b\<bar>" using sb by simp
    then have "sint r = \<bar>sint a\<bar> mod \<bar>sint b\<bar>" unfolding r using small by (intro sint_of_int) linarith+
    with \<open>0 \<le> _\<close> have "0 \<le> sint r" by (simp only:)
    then have "sint r \<noteq> - (2 ^ 63)" by auto
    then have "neg_if r (sign_of a) = Inr (if sint a < 0 then - r else r)" by (simp add: neg_if_sign)
    also have "\<dots> = Inr (word_of_int (sint a smod sint b))" by (simp add: r signed_modulo_int_def sgn_if)
    finally show ?thesis using ok False b0 by (simp add: run udivmoddi4_eq r_def div_out_def)
  qed
qed

section \<open>Properties\<close>


lemma mask_select:
  fixes x y :: u32
  shows "(x AND - bool_u32 True) OR (y AND NOT (- bool_u32 True)) = x" "(x AND - bool_u32 False) OR (y AND NOT (- bool_u32 False)) = y"
    "(x AND NOT (- bool_u32 True)) OR (y AND - bool_u32 True) = y" "(x AND NOT (- bool_u32 False)) OR (y AND - bool_u32 False) = x"
  by simp_all

lemma clzdi2_bound:
  assumes "a \<noteq> 0"
  shows "2 ^ (63 - unat (clzdi2 a)) \<le> unat a \<and> unat a < 2 ^ (64 - unat (clzdi2 a))"
proof (cases "s_high a = 0")
  case True
  then have l: "s_low a \<noteq> 0" using assms udwords_halves[of a] by (auto simp: udwords_def)
  have "clzdi2 a = clzsi2 (s_low a) + 32" unfolding clzdi2_def Let_def using True by simp
  then have c: "unat (clzdi2 a) = unat (clzsi2 (s_low a)) + 32" using clzsi2_bound[OF l] by (simp add: unat_word_ariths)
  have e: "63 - (n + 32) = 32 - n - 1" "64 - (n + 32) = 32 - n" for n :: nat by simp_all
  show ?thesis using bits_low[OF True l] unfolding c e .
next
  case False
  have "clzdi2 a = clzsi2 (s_high a)" unfolding clzdi2_def Let_def using False by simp
  moreover have "63 - n = 64 - n - 1" for n :: nat by simp
  ultimately show ?thesis using bits_high[OF False] by (simp only:)
qed

lemma ctzdi2_bound:
  assumes "a \<noteq> 0"
  shows "2 ^ unat (ctzdi2 a) dvd unat a \<and> \<not> 2 ^ Suc (unat (ctzdi2 a)) dvd unat a"
proof (cases "s_low a = 0")
  case True
  then have h: "s_high a \<noteq> 0" using assms udwords_halves[of a] by (auto simp: udwords_def)
  have "ctzdi2 a = ctzsi2 (s_high a) + 32" unfolding ctzdi2_def Let_def using True by simp
  then have c: "unat (ctzdi2 a) = unat (ctzsi2 (s_high a)) + 32" using ctzsi2_bound[OF h] by (simp add: unat_word_ariths)
  have u: "unat a = unat (s_high a) * 2 ^ 32" using True by (simp add: unat_halves[of a])
  have e: "(2::nat) ^ (n + 32) = 2 ^ n * 2 ^ 32" "(2::nat) ^ Suc (n + 32) = 2 ^ Suc n * 2 ^ 32" for n by (simp_all add: power_add)
  show ?thesis using ctzsi2_bound[OF h] unfolding c u e by simp
next
  case False
  have c: "ctzdi2 a = ctzsi2 (s_low a)" unfolding ctzdi2_def Let_def using False by simp
  have d: "2 ^ n dvd unat a \<longleftrightarrow> 2 ^ n dvd unat (s_low a)" if "n \<le> 32" for n
  proof -
    have "(2::nat) ^ n dvd unat (s_high a) * 2 ^ 32" using that by (intro dvd_mult le_imp_power_dvd)
    then show ?thesis unfolding unat_halves[of a] by (rule dvd_add_right_iff)
  qed
  have "Suc (unat (ctzsi2 (s_low a))) \<le> 32" "unat (ctzsi2 (s_low a)) \<le> 32" using ctzsi2_bound[OF False] by simp_all
  then show ?thesis using ctzsi2_bound[OF False] unfolding c by (simp only: d simp_thms)
qed

text \<open>
  C23. Counting zeros. For every nonzero word of 64 and of 32 bits, \<open>__clzdi2\<close> and \<open>__clzsi2\<close> are the
  number of zero bits above the highest set bit, and \<open>__ctzdi2\<close> and \<open>__ctzsi2\<close> the number of zero bits
  below the lowest one: the functions select by masks and shifts, without a branch and without a loop.
\<close>

theorem count_zeros_correct:
  assumes "a \<noteq> 0" "x \<noteq> 0"
  shows "2 ^ (63 - unat (clzdi2 a)) \<le> unat a \<and> unat a < 2 ^ (64 - unat (clzdi2 a)) \<and>
     2 ^ unat (ctzdi2 a) dvd unat a \<and> \<not> 2 ^ Suc (unat (ctzdi2 a)) dvd unat a \<and>
     2 ^ (31 - unat (clzsi2 x)) \<le> unat x \<and> unat x < 2 ^ (32 - unat (clzsi2 x)) \<and>
     2 ^ unat (ctzsi2 x) dvd unat x \<and> \<not> 2 ^ Suc (unat (ctzsi2 x)) dvd unat x"
  using clzdi2_bound[OF assms(1)] ctzdi2_bound[OF assms(1)] clzsi2_bound[OF assms(2)] ctzsi2_bound[OF assms(2)] by blast

theorem count_zeros_correct_witness:
  "clzdi2 0x0000700000000000 = 17 \<and> ctzdi2 0x0000700000000000 = 44 \<and>
   \<not> 2 ^ Suc (unat (ctzdi2 0x0000700000000000)) dvd unat (0x0000700000000000 :: u64) \<and>
   2 ^ unat (ctzsi2 40) dvd unat (40 :: u32)"
proof -
  have "clzdi2 0x0000700000000000 = 17" "ctzdi2 0x0000700000000000 = 44" by code_simp+
  moreover have "(0x0000700000000000 :: u64) \<noteq> 0" "(40 :: u32) \<noteq> 0" by simp_all
  ultimately show ?thesis using count_zeros_correct[of "0x0000700000000000" 40] by blast
qed

text \<open>
  C7. The shift and subtract division divides. For every dividend and divisor, with or without a
  place for the remainder, \<open>__udivmoddi4\<close> returns the quotient and the remainder of the two 64 bit
  numbers; only a zero divisor reaches the undefined division of the special cases. In particular
  no shift in it is ever by 32 or more.
\<close>

theorem udivmoddi4_correct:
  "udivmoddi4 a b rem =
     (if b = 0 then Inl (Undef ''division'') else Inr (a div b, if rem then Some (a mod b) else None))"
  using udivmoddi4_eq[of a b rem] by (simp add: div_out_def)

text \<open>
  C24. The signed wrappers compute C's truncated quotient and remainder, except that they negate
  their arguments as \<open>long long\<close>: for the least number, as dividend or divisor, that overflows even
  where the quotient exists.
\<close>

theorem signed_division_correct:
  "(divdi3 a b =
     (if sint a = - (2 ^ 63) \<or> sint b = - (2 ^ 63) then Inl (Undef ''signed overflow'')
      else if b = 0 then Inl (Undef ''division'') else Inr (word_of_int (sint a sdiv sint b)))) \<and>
   (moddi3 a b =
     (if sint a = - (2 ^ 63) \<or> sint b = - (2 ^ 63) then Inl (Undef ''signed overflow'')
      else if b = 0 then Inl (Undef ''division'') else Inr (word_of_int (sint a smod sint b))))"
  by (rule conjI[OF divdi3_eq moddi3_eq])

end
