(* ===== verification/Printf.thy ===== *)
theory Printf
  imports NemuPrelude
begin

text \<open>
  The formatted output of the guest, \<open>abstract-machine/klib/src/stdio.c\<close>, on riscv32 (\<open>int\<close>,
  \<open>long\<close> and \<open>size_t\<close> have 32 bits, \<open>char\<close> is unsigned) and without floating point, as the file is
  configured. A loop that calls \<open>out\<close> with \<open>idx++\<close> for a run of characters is \<open>out_all\<close> on these
  characters. Flags are kept in the word \<open>flags\<close>; the constants are the bit numbers.
\<close>

section \<open>Output functions\<close>

datatype out_fct = OutBuffer | OutNull | OutChar | OutFct

record sink =
  sk_buf :: "nat \<Rightarrow> char"
  sk_putch :: string
  sk_fct :: string

definition out :: "out_fct \<Rightarrow> char \<Rightarrow> u32 \<Rightarrow> u32 \<Rightarrow> sink \<Rightarrow> sink" where
  "out f c idx maxlen sk =
     (case f of
        OutBuffer \<Rightarrow> if idx < maxlen then sk\<lparr>sk_buf := (sk_buf sk)(unat idx := c)\<rparr> else sk
      | OutNull \<Rightarrow> sk
      | OutChar \<Rightarrow> if c \<noteq> CHR 0x00 then sk\<lparr>sk_putch := sk_putch sk @ [c]\<rparr> else sk
      | OutFct \<Rightarrow> if c \<noteq> CHR 0x00 then sk\<lparr>sk_fct := sk_fct sk @ [c]\<rparr> else sk)"

type_synonym pstate = "u32 \<times> sink"

fun out_all :: "out_fct \<Rightarrow> u32 \<Rightarrow> string \<Rightarrow> pstate \<Rightarrow> pstate" where
  "out_all f maxlen [] s = s"
| "out_all f maxlen (c # cs) (idx, sk) = out_all f maxlen cs (idx + 1, out f c idx maxlen sk)"

section \<open>Helpers\<close>

definition p_is_digit :: "char \<Rightarrow> bool" where
  "p_is_digit ch \<longleftrightarrow> CHR ''0'' \<le> ch \<and> ch \<le> CHR ''9''"

fun p_atoi :: "string \<Rightarrow> u32 \<Rightarrow> u32 \<times> string" where
  "p_atoi [] i = (i, [])"
| "p_atoi (c # cs) i =
     (if p_is_digit c then p_atoi cs (i * 10 + of_nat (of_char c - 48)) else (i, c # cs))"

fun strnlen_s :: "string \<Rightarrow> u32 \<Rightarrow> u32" where
  "strnlen_s [] maxsize = 0"
| "strnlen_s (c # s) maxsize = (if maxsize = 0 then 0 else 1 + strnlen_s s (maxsize - 1))"

abbreviation (input) FLAGS_ZEROPAD :: nat where "FLAGS_ZEROPAD \<equiv> 0"
abbreviation (input) FLAGS_LEFT :: nat where "FLAGS_LEFT \<equiv> 1"
abbreviation (input) FLAGS_PLUS :: nat where "FLAGS_PLUS \<equiv> 2"
abbreviation (input) FLAGS_SPACE :: nat where "FLAGS_SPACE \<equiv> 3"
abbreviation (input) FLAGS_HASH :: nat where "FLAGS_HASH \<equiv> 4"
abbreviation (input) FLAGS_UPPERCASE :: nat where "FLAGS_UPPERCASE \<equiv> 5"
abbreviation (input) FLAGS_CHAR :: nat where "FLAGS_CHAR \<equiv> 6"
abbreviation (input) FLAGS_SHORT :: nat where "FLAGS_SHORT \<equiv> 7"
abbreviation (input) FLAGS_LONG :: nat where "FLAGS_LONG \<equiv> 8"
abbreviation (input) FLAGS_LONG_LONG :: nat where "FLAGS_LONG_LONG \<equiv> 9"
abbreviation (input) FLAGS_PRECISION :: nat where "FLAGS_PRECISION \<equiv> 10"
abbreviation (input) PRINTF_NTOA_BUFFER_SIZE :: nat where "PRINTF_NTOA_BUFFER_SIZE \<equiv> 32"

section \<open>Numbers\<close>

text \<open>\<open>buf\<close> holds the cells below \<open>len\<close>, in reverse order.\<close>

definition out_rev :: "out_fct \<Rightarrow> u32 \<Rightarrow> string \<Rightarrow> u32 \<Rightarrow> u32 \<Rightarrow> pstate \<Rightarrow> pstate" where
  "out_rev f maxlen buf width flags s =
     (let start_idx = fst s;
          s1 = (if \<not> bit flags FLAGS_LEFT \<and> \<not> bit flags FLAGS_ZEROPAD
                then out_all f maxlen (replicate (unat width - length buf) CHR '' '') s else s);
          s2 = out_all f maxlen (rev buf) s1
      in if bit flags FLAGS_LEFT
         then out_all f maxlen (replicate (unat width - unat (fst s2 - start_idx)) CHR '' '') s2 else s2)"

text \<open>\<open>if (len < 32) buf[len++] = c\<close>, and the loop up to a length.\<close>

definition push :: "char \<Rightarrow> string \<Rightarrow> string" where
  "push c buf = (if length buf < PRINTF_NTOA_BUFFER_SIZE then buf @ [c] else buf)"

definition zero_pad :: "u32 \<Rightarrow> string \<Rightarrow> string" where
  "zero_pad n buf = buf @ replicate (min (unat n) PRINTF_NTOA_BUFFER_SIZE - length buf) CHR ''0''"

definition ntoa_hash :: "string \<Rightarrow> u32 \<Rightarrow> u32 \<Rightarrow> u32 \<Rightarrow> u32 \<Rightarrow> string" where
  "ntoa_hash buf base prec width flags =
     (let buf1 = (if \<not> bit flags FLAGS_PRECISION \<and> buf \<noteq> [] \<and> (length buf = unat prec \<or> length buf = unat width)
                  then (if butlast buf \<noteq> [] \<and> base = 16 then butlast (butlast buf) else butlast buf) else buf);
          buf2 = (if base = 16 \<and> \<not> bit flags FLAGS_UPPERCASE \<and> length buf1 < PRINTF_NTOA_BUFFER_SIZE then buf1 @ ''x''
                  else if base = 16 \<and> bit flags FLAGS_UPPERCASE \<and> length buf1 < PRINTF_NTOA_BUFFER_SIZE then buf1 @ ''X''
                  else if base = 2 \<and> length buf1 < PRINTF_NTOA_BUFFER_SIZE then buf1 @ ''b'' else buf1)
      in push CHR ''0'' buf2)"

definition ntoa_format :: "out_fct \<Rightarrow> u32 \<Rightarrow> string \<Rightarrow> bool \<Rightarrow> u32 \<Rightarrow> u32 \<Rightarrow> u32 \<Rightarrow> u32 \<Rightarrow> pstate \<Rightarrow> pstate" where
  "ntoa_format f maxlen buf negative base prec width flags s =
     (let (width, buf) =
            (if \<not> bit flags FLAGS_LEFT then
               (let width = (if width \<noteq> 0 \<and> bit flags FLAGS_ZEROPAD \<and> (negative \<or> bit flags FLAGS_PLUS \<or> bit flags FLAGS_SPACE)
                             then width - 1 else width);
                    buf = zero_pad prec buf
                in (width, if bit flags FLAGS_ZEROPAD then zero_pad width buf else buf))
             else (width, buf));
          buf = (if bit flags FLAGS_HASH then ntoa_hash buf base prec width flags else buf);
          buf = (if negative then push CHR ''-'' buf
                 else if bit flags FLAGS_PLUS then push CHR ''+'' buf
                 else if bit flags FLAGS_SPACE then push CHR '' '' buf else buf)
      in out_rev f maxlen buf width flags s)"

definition digit_char :: "u32 \<Rightarrow> nat \<Rightarrow> char" where
  "digit_char flags d =
     char_of (if d < 10 then 48 + d else (if bit flags FLAGS_UPPERCASE then 65 else 97) + d - 10)"

text \<open>The do-while loop with \<open>k + 1\<close> free cells.\<close>

fun digits_loop :: "nat \<Rightarrow> u32 \<Rightarrow> 'a::len word \<Rightarrow> 'a word \<Rightarrow> string" where
  "digits_loop k flags base value =
     digit_char flags (unat (value mod base)) #
     (case k of 0 \<Rightarrow> [] | Suc k' \<Rightarrow> if value div base \<noteq> 0 then digits_loop k' flags base (value div base) else [])"

declare digits_loop.simps [simp del]

definition ntoa_long :: "out_fct \<Rightarrow> u32 \<Rightarrow> u32 \<Rightarrow> bool \<Rightarrow> u32 \<Rightarrow> u32 \<Rightarrow> u32 \<Rightarrow> u32 \<Rightarrow> pstate \<Rightarrow> pstate" where
  "ntoa_long f maxlen value negative base prec width flags0 s =
     (let flags = (if value = 0 then unset_bit FLAGS_HASH flags0 else flags0);
          buf = (if \<not> bit flags FLAGS_PRECISION \<or> value \<noteq> 0
                 then digits_loop (PRINTF_NTOA_BUFFER_SIZE - 1) flags base value else [])
      in ntoa_format f maxlen buf negative base prec width flags s)"

definition ntoa_long_long :: "out_fct \<Rightarrow> u32 \<Rightarrow> u64 \<Rightarrow> bool \<Rightarrow> u64 \<Rightarrow> u32 \<Rightarrow> u32 \<Rightarrow> u32 \<Rightarrow> pstate \<Rightarrow> pstate" where
  "ntoa_long_long f maxlen value negative base prec width flags0 s =
     (let flags = (if value = 0 then unset_bit FLAGS_HASH flags0 else flags0);
          buf = (if \<not> bit flags FLAGS_PRECISION \<or> value \<noteq> 0
                 then digits_loop (PRINTF_NTOA_BUFFER_SIZE - 1) flags base value else [])
      in ntoa_format f maxlen buf negative (ucast base) prec width flags s)"

section \<open>Variable arguments\<close>

datatype va = VaInt u32 | VaLong u32 | VaLongLong u64 | VaStr string | VaPtr u32

definition va_fail :: "'a res" where "va_fail = Inl (Undef ''va_arg'')"

fun va_int :: "va list \<Rightarrow> (u32 \<times> va list) res" where
  "va_int (VaInt v # vs) = Inr (v, vs)" | "va_int _ = va_fail"

fun va_long :: "va list \<Rightarrow> (u32 \<times> va list) res" where
  "va_long (VaLong v # vs) = Inr (v, vs)" | "va_long _ = va_fail"

fun va_long_long :: "va list \<Rightarrow> (u64 \<times> va list) res" where
  "va_long_long (VaLongLong v # vs) = Inr (v, vs)" | "va_long_long _ = va_fail"

fun va_str :: "va list \<Rightarrow> (string \<times> va list) res" where
  "va_str (VaStr v # vs) = Inr (v, vs)" | "va_str _ = va_fail"

fun va_ptr :: "va list \<Rightarrow> (u32 \<times> va list) res" where
  "va_ptr (VaPtr v # vs) = Inr (v, vs)" | "va_ptr _ = va_fail"

section \<open>The fields of a conversion\<close>

text \<open>\<open>*format\<close>; the terminator is a zero character.\<close>

definition cur :: "string \<Rightarrow> char" where
  "cur fmt = (case fmt of [] \<Rightarrow> CHR 0x00 | c # _ \<Rightarrow> c)"

fun parse_flags :: "string \<Rightarrow> u32 \<Rightarrow> u32 \<times> string" where
  "parse_flags [] flags = (flags, [])"
| "parse_flags (c # cs) flags =
     (if c = CHR ''0'' then parse_flags cs (set_bit FLAGS_ZEROPAD flags)
      else if c = CHR ''-'' then parse_flags cs (set_bit FLAGS_LEFT flags)
      else if c = CHR ''+'' then parse_flags cs (set_bit FLAGS_PLUS flags)
      else if c = CHR '' '' then parse_flags cs (set_bit FLAGS_SPACE flags)
      else if c = CHR ''#'' then parse_flags cs (set_bit FLAGS_HASH flags)
      else (flags, c # cs))"

definition parse_width :: "string \<Rightarrow> u32 \<Rightarrow> va list \<Rightarrow> (u32 \<times> u32 \<times> string \<times> va list) res" where
  "parse_width fmt flags vs =
     (if p_is_digit (cur fmt) then (case p_atoi fmt 0 of (w, fmt') \<Rightarrow> Inr (w, flags, fmt', vs))
      else if cur fmt = CHR ''*'' then
        bindR (va_int vs) (\<lambda>(w, vs').
          if sint w < 0 then
            guardR (sint w \<noteq> - (2 ^ 31)) (Undef ''signed overflow'') (Inr (- w, set_bit FLAGS_LEFT flags, tl fmt, vs'))
          else Inr (w, flags, tl fmt, vs'))
      else Inr (0, flags, fmt, vs))"

definition parse_precision :: "string \<Rightarrow> u32 \<Rightarrow> va list \<Rightarrow> (u32 \<times> u32 \<times> string \<times> va list) res" where
  "parse_precision fmt flags vs =
     (if cur fmt = CHR ''.'' then
        (let flags = set_bit FLAGS_PRECISION flags; fmt = tl fmt
         in if p_is_digit (cur fmt) then (case p_atoi fmt 0 of (p, fmt') \<Rightarrow> Inr (p, flags, fmt', vs))
            else if cur fmt = CHR ''*'' then
              bindR (va_int vs) (\<lambda>(prec, vs'). Inr (if sint prec > 0 then prec else 0, flags, tl fmt, vs'))
            else Inr (0, flags, fmt, vs))
      else Inr (0, flags, fmt, vs))"

text \<open>\<open>intmax_t\<close> is \<open>long long\<close>; \<open>ptrdiff_t\<close> and \<open>size_t\<close> have the size of \<open>long\<close>.\<close>

definition parse_length :: "string \<Rightarrow> u32 \<Rightarrow> u32 \<times> string" where
  "parse_length fmt flags =
     (if cur fmt = CHR ''l'' then
        (if cur (tl fmt) = CHR ''l'' then (set_bit FLAGS_LONG_LONG (set_bit FLAGS_LONG flags), tl (tl fmt))
         else (set_bit FLAGS_LONG flags, tl fmt))
      else if cur fmt = CHR ''h'' then
        (if cur (tl fmt) = CHR ''h'' then (set_bit FLAGS_CHAR (set_bit FLAGS_SHORT flags), tl (tl fmt))
         else (set_bit FLAGS_SHORT flags, tl fmt))
      else if cur fmt = CHR ''t'' then (set_bit FLAGS_LONG flags, tl fmt)
      else if cur fmt = CHR ''j'' then (set_bit FLAGS_LONG_LONG flags, tl fmt)
      else if cur fmt = CHR ''z'' then (set_bit FLAGS_LONG flags, tl fmt)
      else (flags, fmt))"

section \<open>The conversions\<close>

text \<open>\<open>value > 0 ? value : 0 - value\<close> overflows for the least value.\<close>

definition magnitude :: "'a::len word \<Rightarrow> 'a word res" where
  "magnitude v = (if sint v > 0 then Inr v
     else guardR (sint v \<noteq> - (2 ^ (LENGTH('a) - 1))) (Undef ''signed overflow'') (Inr (0 - v)))"

definition conv_signed :: "out_fct \<Rightarrow> u32 \<Rightarrow> u32 \<Rightarrow> u32 \<Rightarrow> u32 \<Rightarrow> u32 \<Rightarrow> va list \<Rightarrow> pstate \<Rightarrow> (pstate \<times> va list) res" where
  "conv_signed f maxlen base precision width flags vs s =
     (if bit flags FLAGS_LONG_LONG then
        bindR (va_long_long vs) (\<lambda>(v, vs'). bindR (magnitude v) (\<lambda>a.
          Inr (ntoa_long_long f maxlen a (sint v < 0) (ucast base) precision width flags s, vs')))
      else if bit flags FLAGS_LONG then
        bindR (va_long vs) (\<lambda>(v, vs'). bindR (magnitude v) (\<lambda>a.
          Inr (ntoa_long f maxlen a (sint v < 0) base precision width flags s, vs')))
      else
        bindR (va_int vs) (\<lambda>(v0, vs').
          let v = (if bit flags FLAGS_CHAR then ucast (ucast v0 :: u8)
                   else if bit flags FLAGS_SHORT then scast (ucast v0 :: u16) else v0)
          in bindR (magnitude v) (\<lambda>a.
               Inr (ntoa_long f maxlen a (sint v < 0) base precision width flags s, vs'))))"

definition conv_unsigned :: "out_fct \<Rightarrow> u32 \<Rightarrow> u32 \<Rightarrow> u32 \<Rightarrow> u32 \<Rightarrow> u32 \<Rightarrow> va list \<Rightarrow> pstate \<Rightarrow> (pstate \<times> va list) res" where
  "conv_unsigned f maxlen base precision width flags vs s =
     (if bit flags FLAGS_LONG_LONG then
        bindR (va_long_long vs) (\<lambda>(v, vs'). Inr (ntoa_long_long f maxlen v False (ucast base) precision width flags s, vs'))
      else if bit flags FLAGS_LONG then
        bindR (va_long vs) (\<lambda>(v, vs'). Inr (ntoa_long f maxlen v False base precision width flags s, vs'))
      else
        bindR (va_int vs) (\<lambda>(v0, vs').
          let v = (if bit flags FLAGS_CHAR then ucast (ucast v0 :: u8)
                   else if bit flags FLAGS_SHORT then ucast (ucast v0 :: u16) else v0)
          in Inr (ntoa_long f maxlen v False base precision width flags s, vs')))"

definition conv_int :: "out_fct \<Rightarrow> u32 \<Rightarrow> char \<Rightarrow> u32 \<Rightarrow> u32 \<Rightarrow> u32 \<Rightarrow> va list \<Rightarrow> pstate \<Rightarrow> (pstate \<times> va list) res" where
  "conv_int f maxlen c precision width flags vs s =
     (let base = (if c = CHR ''x'' \<or> c = CHR ''X'' then 16 else if c = CHR ''o'' then 8 else if c = CHR ''b'' then 2 else 10);
          flags = (if c \<in> {CHR ''x'', CHR ''X'', CHR ''o'', CHR ''b''} then flags else unset_bit FLAGS_HASH flags);
          flags = (if c = CHR ''X'' then set_bit FLAGS_UPPERCASE flags else flags);
          flags = (if c \<noteq> CHR ''i'' \<and> c \<noteq> CHR ''d'' then unset_bit FLAGS_SPACE (unset_bit FLAGS_PLUS flags) else flags);
          flags = (if bit flags FLAGS_PRECISION then unset_bit FLAGS_ZEROPAD flags else flags)
      in if c = CHR ''i'' \<or> c = CHR ''d'' then conv_signed f maxlen base precision width flags vs s
         else conv_unsigned f maxlen base precision width flags vs s)"

text \<open>\<open>l++ < width\<close> from \<open>l\<close> on; \<open>l\<close> is one more than the characters of the item.\<close>

definition pad_spaces :: "u32 \<Rightarrow> nat \<Rightarrow> string" where
  "pad_spaces width l = replicate (unat width - l) CHR '' ''"

definition conv_char :: "out_fct \<Rightarrow> u32 \<Rightarrow> u32 \<Rightarrow> u32 \<Rightarrow> va list \<Rightarrow> pstate \<Rightarrow> (pstate \<times> va list) res" where
  "conv_char f maxlen width flags vs s =
     bindR (va_int vs) (\<lambda>(v, vs').
       let s1 = (if bit flags FLAGS_LEFT then s else out_all f maxlen (pad_spaces width 1) s);
           s2 = out_all f maxlen [char_of (unat v)] s1
       in Inr (if bit flags FLAGS_LEFT then out_all f maxlen (pad_spaces width 1) s2 else s2, vs'))"

text \<open>
  In the second half the loop variable \<open>l\<close> has not been moved: only one of the two paddings runs.
\<close>

definition conv_string :: "out_fct \<Rightarrow> u32 \<Rightarrow> u32 \<Rightarrow> u32 \<Rightarrow> u32 \<Rightarrow> va list \<Rightarrow> pstate \<Rightarrow> (pstate \<times> va list) res" where
  "conv_string f maxlen precision width flags vs s =
     bindR (va_str vs) (\<lambda>(p, vs').
       let l0 = strnlen_s p (if precision \<noteq> 0 then precision else - 1);
           l = (if bit flags FLAGS_PRECISION then (if l0 < precision then l0 else precision) else l0);
           s1 = (if bit flags FLAGS_LEFT then s else out_all f maxlen (pad_spaces width (unat l)) s);
           s2 = out_all f maxlen (if bit flags FLAGS_PRECISION then take (unat precision) p else p) s1
       in Inr (if bit flags FLAGS_LEFT then out_all f maxlen (pad_spaces width (unat l)) s2 else s2, vs'))"

definition conv_pointer :: "out_fct \<Rightarrow> u32 \<Rightarrow> u32 \<Rightarrow> u32 \<Rightarrow> va list \<Rightarrow> pstate \<Rightarrow> (pstate \<times> va list) res" where
  "conv_pointer f maxlen precision flags vs s =
     bindR (va_ptr vs) (\<lambda>(v, vs').
       Inr (ntoa_long f maxlen v False 16 precision 8 (set_bit FLAGS_UPPERCASE (set_bit FLAGS_ZEROPAD flags)) s, vs'))"

text \<open>A conversion after its \<open>%\<close>; at the end of the format \<open>format++\<close> leaves the string.\<close>

definition conversion :: "out_fct \<Rightarrow> u32 \<Rightarrow> string \<Rightarrow> va list \<Rightarrow> pstate \<Rightarrow> (string \<times> va list \<times> pstate) res" where
  "conversion f maxlen fmt0 vs0 s =
     (case parse_flags fmt0 0 of (flags0, fmt1) \<Rightarrow>
      bindR (parse_width fmt1 flags0 vs0) (\<lambda>(width, flags1, fmt2, vs1).
      bindR (parse_precision fmt2 flags1 vs1) (\<lambda>(precision, flags2, fmt3, vs2).
      (case parse_length fmt3 flags2 of (flags, fmt) \<Rightarrow>
        (case fmt of
           [] \<Rightarrow> Inl (Undef ''format read past its end'')
         | c # rest \<Rightarrow>
             let done = (\<lambda>r. bindR r (\<lambda>(s', vs'). Inr (rest, vs', s')))
             in if c \<in> set ''diuxXob'' then done (conv_int f maxlen c precision width flags vs2 s)
                else if c = CHR ''c'' then done (conv_char f maxlen width flags vs2 s)
                else if c = CHR ''s'' then done (conv_string f maxlen precision width flags vs2 s)
                else if c = CHR ''p'' then done (conv_pointer f maxlen precision flags vs2 s)
                else Inr (rest, vs2, out_all f maxlen [c] s))))))"

lemma p_atoi_shorter: "p_atoi cs i = (j, cs') \<Longrightarrow> length cs' \<le> length cs"
proof (induction cs i arbitrary: j rule: p_atoi.induct)
  case (2 c cs i)
  then show ?case by (cases "p_is_digit c") fastforce+
qed simp

lemma parse_flags_shorter: "parse_flags cs flags = (flags', cs') \<Longrightarrow> length cs' \<le> length cs"
  by (induction cs flags arbitrary: flags' rule: parse_flags.induct) (force split: if_splits)+

lemma parse_width_shorter: "parse_width cs flags vs = Inr (w, flags', cs', vs') \<Longrightarrow> length cs' \<le> length cs"
  by (auto simp: parse_width_def res_elims dest: p_atoi_shorter split: if_splits prod.splits)

lemma parse_precision_shorter: "parse_precision cs flags vs = Inr (p, flags', cs', vs') \<Longrightarrow> length cs' \<le> length cs"
  by (auto simp: parse_precision_def Let_def res_elims dest!: p_atoi_shorter split: if_splits prod.splits)

lemma parse_length_shorter: "parse_length cs flags = (flags', cs') \<Longrightarrow> length cs' \<le> length cs"
  by (auto simp: parse_length_def split: if_splits)

lemma conversion_shorter:
  assumes "conversion f maxlen fmt vs s = Inr (rest, vs', s')" shows "length rest < length fmt"
proof -
  obtain flags0 fmt1 where 1: "parse_flags fmt 0 = (flags0, fmt1)" by force
  obtain width flags1 fmt2 vs1 where 2: "parse_width fmt1 flags0 vs = Inr (width, flags1, fmt2, vs1)"
    using assms 1 by (auto simp: conversion_def bindR_eq_Inr)
  obtain precision flags2 fmt3 vs2 where 3: "parse_precision fmt2 flags1 vs1 = Inr (precision, flags2, fmt3, vs2)"
    using assms 1 2 by (auto simp: conversion_def bindR_eq_Inr)
  obtain flags fmt4 where 4: "parse_length fmt3 flags2 = (flags, fmt4)" by force
  have "\<exists>c. fmt4 = c # rest"
    using assms 1 2 3 4 by (auto simp: conversion_def Let_def bindR_eq_Inr split: list.splits if_splits)
  then show ?thesis
    using parse_flags_shorter[OF 1] parse_width_shorter[OF 2] parse_precision_shorter[OF 3] parse_length_shorter[OF 4] by auto
qed

section \<open>The format loop\<close>

function vsnprintf_loop :: "out_fct \<Rightarrow> u32 \<Rightarrow> string \<Rightarrow> va list \<Rightarrow> pstate \<Rightarrow> pstate res" where
  "vsnprintf_loop f maxlen [] vs s = Inr s"
| "vsnprintf_loop f maxlen (c # cs) vs s =
     (if c \<noteq> CHR ''%'' then vsnprintf_loop f maxlen cs vs (out_all f maxlen [c] s)
      else case conversion f maxlen cs vs s of
             Inl e \<Rightarrow> Inl e
           | Inr (rest, vs', s') \<Rightarrow> vsnprintf_loop f maxlen rest vs' s')"
  by pat_completeness auto

termination
  by (relation "measure (\<lambda>(f, maxlen, fmt, vs, s). length fmt)") (auto dest: conversion_shorter)

definition vsnprintf_core :: "out_fct \<Rightarrow> bool \<Rightarrow> u32 \<Rightarrow> string \<Rightarrow> va list \<Rightarrow> sink \<Rightarrow> (u32 \<times> sink) res" where
  "vsnprintf_core f0 null_buffer maxlen fmt vs sk =
     (let f = (if null_buffer then OutNull else f0)
      in bindR (vsnprintf_loop f maxlen fmt vs (0, sk)) (\<lambda>(idx, sk1).
           Inr (idx, out f CHR 0x00 (if idx < maxlen then idx else maxlen - 1) maxlen sk1)))"

definition klib_printf :: "string \<Rightarrow> va list \<Rightarrow> sink \<Rightarrow> (u32 \<times> sink) res" where
  "klib_printf fmt vs sk = vsnprintf_core OutChar False (- 1) fmt vs sk"

definition klib_sprintf :: "bool \<Rightarrow> string \<Rightarrow> va list \<Rightarrow> sink \<Rightarrow> (u32 \<times> sink) res" where
  "klib_sprintf null_buffer fmt vs sk = vsnprintf_core OutBuffer null_buffer (- 1) fmt vs sk"

definition klib_snprintf :: "bool \<Rightarrow> u32 \<Rightarrow> string \<Rightarrow> va list \<Rightarrow> sink \<Rightarrow> (u32 \<times> sink) res" where
  "klib_snprintf null_buffer count fmt vs sk = vsnprintf_core OutBuffer null_buffer count fmt vs sk"

definition klib_vprintf :: "string \<Rightarrow> va list \<Rightarrow> sink \<Rightarrow> (u32 \<times> sink) res" where
  "klib_vprintf fmt vs sk = vsnprintf_core OutChar False (- 1) fmt vs sk"

definition klib_vsnprintf :: "bool \<Rightarrow> u32 \<Rightarrow> string \<Rightarrow> va list \<Rightarrow> sink \<Rightarrow> (u32 \<times> sink) res" where
  "klib_vsnprintf null_buffer count fmt vs sk = vsnprintf_core OutBuffer null_buffer count fmt vs sk"

definition klib_fctprintf :: "string \<Rightarrow> va list \<Rightarrow> sink \<Rightarrow> (u32 \<times> sink) res" where
  "klib_fctprintf fmt vs sk = vsnprintf_core OutFct False (- 1) fmt vs sk"

end
