(* ===== verification/KString.thy ===== *)
theory KString
  imports NemuPrelude
begin

text \<open>
  Strings and the small C library of the guest, \<open>abstract-machine/klib/src/string.c\<close> and
  \<open>stdlib.c\<close>, on the riscv32 target: pointers and \<open>size_t\<close> have 32 bits, \<open>char\<close> is unsigned. The
  functions work on the byte memory of the guest. A loop that searches the end of a string may not
  end, so these are partial functions with the value \<open>None\<close> for a run that does not return.
\<close>

type_synonym gmem = "u32 \<Rightarrow> u8"

section \<open>string.c\<close>

partial_function (option) strlen_loop :: "gmem \<Rightarrow> u32 \<Rightarrow> u32 \<Rightarrow> u32 option" where
  "strlen_loop m s len = (if m s = 0 then Some len else strlen_loop m (s + 1) (len + 1))"

definition strlen :: "gmem \<Rightarrow> u32 \<Rightarrow> u32 option" where
  "strlen m s = strlen_loop m s 0"

text \<open>\<open>while ( *src ) *dst++ = *src++; *dst = 0\<close>, shared by strcpy and strcat.\<close>

partial_function (option) copy_loop :: "gmem \<Rightarrow> u32 \<Rightarrow> u32 \<Rightarrow> gmem option" where
  "copy_loop m dst src =
     (if m src = 0 then Some (m(dst := 0)) else copy_loop (m(dst := m src)) (dst + 1) (src + 1))"

text \<open>Every result is the memory and the returned pointer.\<close>

definition strcpy :: "gmem \<Rightarrow> u32 \<Rightarrow> u32 \<Rightarrow> (gmem \<times> u32) res option" where
  "strcpy m dst src =
     (if dst = 0 then Some (Inl (AssertFail ''strcpy''))
      else map_option (\<lambda>m'. Inr (m', dst)) (copy_loop m dst src))"

fun strncpy_loop :: "gmem \<Rightarrow> u32 \<Rightarrow> u32 \<Rightarrow> nat \<Rightarrow> gmem" where
  "strncpy_loop m dst src n =
     (if m src = 0 then m(dst := 0)
      else case n of 0 \<Rightarrow> m(dst := 0)
        | Suc n' \<Rightarrow> strncpy_loop (m(dst := m src)) (dst + 1) (src + 1) n')"

declare strncpy_loop.simps [simp del]

definition strncpy :: "gmem \<Rightarrow> u32 \<Rightarrow> u32 \<Rightarrow> u32 \<Rightarrow> (gmem \<times> u32) res" where
  "strncpy m dst src n =
     guardR (dst \<noteq> 0) (AssertFail ''strncpy'') (Inr (strncpy_loop m dst src (unat n), dst))"

definition strcat :: "gmem \<Rightarrow> u32 \<Rightarrow> u32 \<Rightarrow> (gmem \<times> u32) res option" where
  "strcat m dst src =
     (if dst = 0 then Some (Inl (AssertFail ''strcat''))
      else Option.bind (strlen m dst) (\<lambda>len.
        map_option (\<lambda>m'. Inr (m', dst)) (copy_loop m (dst + len) src)))"

definition byte_diff :: "u8 \<Rightarrow> u8 \<Rightarrow> int" where
  "byte_diff a b = uint a - uint b"

partial_function (option) strcmp :: "gmem \<Rightarrow> u32 \<Rightarrow> u32 \<Rightarrow> int option" where
  "strcmp m s1 s2 =
     (if m s1 = 0 then Some (byte_diff (m s1) (m s2))
      else if m s1 \<noteq> m s2 then Some (byte_diff (m s1) (m s2))
      else strcmp m (s1 + 1) (s2 + 1))"

text \<open>
  \<open>while ( *s1 && --n )\<close>: \<open>k\<close> is the value \<open>--n\<close> has when it is evaluated next; \<open>n = 0\<close> wraps around.
\<close>

fun strncmp_loop :: "gmem \<Rightarrow> u32 \<Rightarrow> u32 \<Rightarrow> nat \<Rightarrow> int" where
  "strncmp_loop m s1 s2 k =
     (if m s1 = 0 then byte_diff (m s1) (m s2)
      else case k of 0 \<Rightarrow> byte_diff (m s1) (m s2)
        | Suc k' \<Rightarrow>
            if m s1 \<noteq> m s2 then byte_diff (m s1) (m s2) else strncmp_loop m (s1 + 1) (s2 + 1) k')"

declare strncmp_loop.simps [simp del]

definition strncmp :: "gmem \<Rightarrow> u32 \<Rightarrow> u32 \<Rightarrow> u32 \<Rightarrow> int" where
  "strncmp m s1 s2 n = strncmp_loop m s1 s2 (unat (n - 1))"

fun memset_loop :: "gmem \<Rightarrow> u32 \<Rightarrow> u8 \<Rightarrow> nat \<Rightarrow> gmem" where
  "memset_loop m s c 0 = m"
| "memset_loop m s c (Suc n) = memset_loop (m(s := c)) (s + 1) c n"

definition memset :: "gmem \<Rightarrow> u32 \<Rightarrow> u32 \<Rightarrow> u32 \<Rightarrow> gmem \<times> u32" where
  "memset m s c n = (memset_loop m s (ucast c) (unat n), s)"

text \<open>
  \<open>for (int i = n - 1; i >= 0; i--)\<close>: a size above \<open>INT_MAX\<close> starts with a negative \<open>i\<close> and
  copies nothing. \<open>memmove_loop m dst src k\<close> is the rest of the loop at \<open>i = k - 1\<close>.
\<close>

fun memmove_loop :: "gmem \<Rightarrow> u32 \<Rightarrow> u32 \<Rightarrow> nat \<Rightarrow> gmem" where
  "memmove_loop m dst src 0 = m"
| "memmove_loop m dst src (Suc i) = memmove_loop (m(dst + of_nat i := m (src + of_nat i))) dst src i"

definition memmove :: "gmem \<Rightarrow> u32 \<Rightarrow> u32 \<Rightarrow> u32 \<Rightarrow> (gmem \<times> u32) res" where
  "memmove m dst src n =
     guardR (dst \<noteq> 0) (AssertFail ''memmove'')
       (Inr (if sint (n - 1) < 0 then m else memmove_loop m dst src (nat (sint (n - 1) + 1)), dst))"

text \<open>
  \<open>for (int i = 0; i < n; i++)\<close>: the comparison is unsigned, and \<open>i\<close> overflows when \<open>n\<close> is above
  \<open>INT_MAX\<close>.
\<close>

definition memcpy :: "gmem \<Rightarrow> u32 \<Rightarrow> u32 \<Rightarrow> u32 \<Rightarrow> (gmem \<times> u32) res" where
  "memcpy m out src n =
     guardR (out \<noteq> 0) (AssertFail ''memcpy'')
       (guardR (n \<le> 0x7fffffff) (Undef ''memcpy: i overflows'')
         (Inr (fold (\<lambda>i m. m(out + of_nat i := m (src + of_nat i))) [0..<unat n] m, out)))"

text \<open>The loop of memcmp is that of strncmp.\<close>

definition memcmp :: "gmem \<Rightarrow> u32 \<Rightarrow> u32 \<Rightarrow> u32 \<Rightarrow> int" where
  "memcmp m s1 s2 n = strncmp_loop m s1 s2 (unat (n - 1))"

section \<open>stdlib.c\<close>

text \<open>\<open>unsigned long\<close> has 32 bits.\<close>

definition klib_rand :: "u32 \<Rightarrow> u32 \<times> u32" where
  "klib_rand nxt =
     (let nxt' = nxt * 1103515245 + 12345 in ((nxt' div 65536) mod 32768, nxt'))"

definition klib_srand :: "u32 \<Rightarrow> u32" where
  "klib_srand seed = seed"

definition klib_abs :: "u32 \<Rightarrow> u32 res" where
  "klib_abs x =
     (if sint x < 0 then guardR (sint x \<noteq> - (2 ^ 31)) (Undef ''abs: signed overflow'') (Inr (- x)) else Inr x)"

partial_function (option) skip_spaces :: "gmem \<Rightarrow> u32 \<Rightarrow> u32 option" where
  "skip_spaces m p = (if m p = 0x20 then skip_spaces m (p + 1) else Some p)"

text \<open>\<open>x * 10 + *nptr - '0'\<close> on \<open>int\<close>.\<close>

partial_function (option) atoi_loop :: "gmem \<Rightarrow> u32 \<Rightarrow> int \<Rightarrow> int res option" where
  "atoi_loop m p x =
     (if 0x30 \<le> m p \<and> m p \<le> 0x39 then
        (if x * 10 + uint (m p) < 2 ^ 31
         then atoi_loop m (p + 1) (x * 10 + uint (m p) - 0x30)
         else Some (Inl (Undef ''atoi: signed overflow'')))
      else Some (Inr x))"

definition atoi :: "gmem \<Rightarrow> u32 \<Rightarrow> int res option" where
  "atoi m nptr = Option.bind (skip_spaces m nptr) (\<lambda>p. atoi_loop m p 0)"

text \<open>The static \<open>addr\<close> is 0 before the first call; \<open>heap.start\<close> is given by the platform.\<close>

definition malloc :: "u32 \<Rightarrow> u32 \<Rightarrow> u32 \<Rightarrow> u32 \<times> u32" where
  "malloc heap_start addr n =
     (let addr1 = (if addr = 0 then heap_start else addr) in (addr1, addr1 + n))"

definition klib_free :: "u32 \<Rightarrow> u32 \<Rightarrow> u32" where
  "klib_free ptr addr = addr"

end
