(* ===== verification/KStringProps.thy ===== *)
theory KStringProps
  imports KString
begin

text \<open>
  Correctness of the string functions on terminated strings (\<open>cstr\<close>), of \<open>memmove\<close> where it moves,
  and the two ways in which \<open>memmove\<close> and \<open>memcmp\<close> are not what their names say. Areas of memory are
  sets of addresses (\<open>region\<close>), modulo 2^32.
\<close>

section \<open>Strings and areas in memory\<close>


fun cstr :: "gmem \<Rightarrow> u32 \<Rightarrow> u8 list \<Rightarrow> bool" where
  "cstr m a [] \<longleftrightarrow> m a = 0"
| "cstr m a (c # cs) \<longleftrightarrow> c \<noteq> 0 \<and> m a = c \<and> cstr m (a + 1) cs"

definition region :: "u32 \<Rightarrow> nat \<Rightarrow> u32 set" where
  "region a n = {x. unat (x - a) < n}"

lemma u32_lt: "unat (w :: u32) < 2 ^ 32"
  by (rule order_less_le_trans[OF unsigned_less]) simp

lemma region_0 [simp]: "region a 0 = {}"
  by (simp add: region_def)

lemma region_Suc: assumes "n < 2 ^ 32" shows "region a (Suc n) = insert a (region (a + 1) n)"
proof -
  have "unat (x - a) < Suc n \<longleftrightarrow> x = a \<or> unat (x - (a + 1)) < n" for x
  proof (cases "x = a")
    case True then show ?thesis by simp
  next
    case False
    then have "x - a \<noteq> 0" by simp
    then have "unat (x - a - 1) = unat (x - a) - 1" and "0 < unat (x - a)" by (simp_all add: unat_minus_one unat_gt_0)
    then show ?thesis using False by (auto simp: diff_diff_eq)
  qed
  then show ?thesis by (auto simp: region_def)
qed

lemma region_self: "n < 2 ^ 32 \<Longrightarrow> a \<notin> region (a + 1) n"
  by (simp add: region_def unsigned_minus_1_eq_mask mask_eq_exp_minus_1)

lemma region_nth: "i < n \<Longrightarrow> n \<le> 2 ^ 32 \<Longrightarrow> a + of_nat i \<in> region a n"
  by (simp add: region_def unat_of_nat)

lemma strlen_loop_cstr: "cstr m a s \<Longrightarrow> strlen_loop m a len = Some (len + of_nat (length s))"
proof (induction s arbitrary: a len)
  case Nil
  then show ?case by (subst strlen_loop.simps) simp
next
  case (Cons c s)
  then show ?case by (subst strlen_loop.simps) (simp add: add.assoc)
qed

lemma strlen_cstr: "cstr m a s \<Longrightarrow> strlen m a = Some (of_nat (length s))"
  by (simp add: strlen_def strlen_loop_cstr)

lemma cstr_frame: "cstr m a s \<Longrightarrow> length s < 2 ^ 32 \<Longrightarrow> (\<And>x. x \<in> region a (Suc (length s)) \<Longrightarrow> m' x = m x) \<Longrightarrow> cstr m' a s"
proof (induction s arbitrary: a)
  case Nil
  then show ?case by (simp add: region_def)
next
  case (Cons c s)
  have "region a (Suc (length (c # s))) = insert a (region (a + 1) (Suc (length s)))"
    using Cons.prems(2) by (simp add: region_Suc)
  then show ?case using Cons by auto
qed

lemma copy_loop_cstr:
  assumes "cstr m src s" "length s < 2 ^ 32 - 1"
    and "region dst (Suc (length s)) \<inter> region src (Suc (length s)) = {}"
  shows "\<exists>m'. copy_loop m dst src = Some m' \<and> cstr m' dst s \<and> (\<forall>x. x \<notin> region dst (Suc (length s)) \<longrightarrow> m' x = m x)"
  using assms
proof (induction s arbitrary: m dst src)
  case Nil
  then show ?case by (subst copy_loop.simps) (auto simp: region_def)
next
  case (Cons c s)
  let ?n = "length s"
  let ?m = "m(dst := c)"
  have len: "?n < 2 ^ 32 - 1" "Suc ?n < 2 ^ 32" using Cons.prems(2) by simp_all
  have rd: "region dst (Suc (Suc ?n)) = insert dst (region (dst + 1) (Suc ?n))"
    and rs: "region src (Suc (Suc ?n)) = insert src (region (src + 1) (Suc ?n))"
    using len by (simp_all add: region_Suc)
  have dj: "region (dst + 1) (Suc ?n) \<inter> region (src + 1) (Suc ?n) = {}" "dst \<notin> region (src + 1) (Suc ?n)"
    using Cons.prems(3) rd rs by auto
  have "cstr ?m (src + 1) s"
    by (rule cstr_frame[of m]) (use Cons.prems(1) len dj(2) in auto)
  from Cons.IH[OF this len(1) dj(1)] obtain m' where m': "copy_loop ?m (dst + 1) (src + 1) = Some m'"
    "cstr m' (dst + 1) s" "\<And>x. x \<notin> region (dst + 1) (Suc ?n) \<Longrightarrow> m' x = ?m x" by blast
  have "m' dst = c" using m'(3)[of dst] region_self[OF len(2)] by simp
  then show ?case using Cons.prems(1) m' rd by (subst copy_loop.simps) auto
qed

lemma byte_diff_0 [simp]: "byte_diff a b = 0 \<longleftrightarrow> a = b"
  by (simp add: byte_diff_def word_uint_eq_iff)

lemma byte_diff_neg [simp]: "byte_diff a b < 0 \<longleftrightarrow> a < b"
  by (simp add: byte_diff_def word_less_def)

lemma strcmp_cstr:
  assumes "cstr m a s" "cstr m b t"
  shows "\<exists>d. strcmp m a b = Some d \<and> (d = 0 \<longleftrightarrow> s = t) \<and> (d < 0 \<longleftrightarrow> (s, t) \<in> lexord {(x, y). x < y})"
  using assms
proof (induction s arbitrary: a b t)
  case Nil
  then show ?case by (subst strcmp.simps) (cases t; auto simp: word_neq_0_conv)
next
  case (Cons c s)
  show ?case
  proof (cases t)
    case Nil
    then show ?thesis using Cons.prems by (subst strcmp.simps) (auto simp: word_neq_0_conv)
  next
    case (Cons c' t')
    show ?thesis
    proof (cases "c = c'")
      case True
      then show ?thesis using Cons.prems \<open>t = _\<close> Cons.IH[of "a + 1" "b + 1" t'] by (subst strcmp.simps) auto
    next
      case False
      then show ?thesis using Cons.prems \<open>t = _\<close> by (subst strcmp.simps) (auto simp: word_neq_0_conv)
    qed
  qed
qed

lemma memmove_loop_spec:
  assumes "k \<le> n" "n < 2 ^ 32" and safe: "dst = src \<or> n \<le> unat (src - dst)"
  shows "memmove_loop m dst src k x = (if unat (x - dst) < k then m (src + (x - dst)) else m x)"
  using assms(1)
proof (induction k arbitrary: m)
  case (Suc k)
  let ?m = "m(dst + of_nat k := m (src + of_nat k))"
  have k: "unat (of_nat k :: u32) = k" using Suc.prems assms(2) by (simp add: unat_of_nat)
  have IH: "memmove_loop ?m dst src k x = (if unat (x - dst) < k then ?m (src + (x - dst)) else ?m x)"
    using Suc by simp
  show ?case
  proof (cases "unat (x - dst) < k")
    case True
    have "src + (x - dst) \<noteq> dst + of_nat k"
    proof
      assume eq: "src + (x - dst) = dst + of_nat k"
      then have "src - dst = of_nat k - (x - dst)" by (simp add: algebra_simps)
      moreover have "unat (of_nat k - (x - dst)) = k - unat (x - dst)"
        using True k by (subst unat_sub) (simp_all add: word_le_nat_alt)
      ultimately have "unat (src - dst) = k - unat (x - dst)" by (simp only:)
      then have "0 < unat (src - dst)" "unat (src - dst) < n" using True Suc.prems by simp_all
      then show False using safe by auto
    qed
    then show ?thesis using True IH by simp
  next
    case False
    show ?thesis
    proof (cases "unat (x - dst) = k")
      case True
      then have "x - dst = of_nat k" using k by (simp add: word_unat_eq_iff)
      then have "x = dst + of_nat k" by (simp add: algebra_simps)
      then show ?thesis using IH k by simp
    next
      case False
      then have "x \<noteq> dst + of_nat k" using k by auto
      then show ?thesis using IH False \<open>\<not> unat (x - dst) < k\<close> by simp
    qed
  qed
qed simp

lemma memmove_loop_smear:
  assumes "k < 2 ^ 32"
  shows "memmove_loop m a (a + 1) k x = (if unat (x - a) < k then m (a + of_nat k) else m x)"
  using assms
proof (induction k arbitrary: m)
  case (Suc k)
  let ?m = "m(a + of_nat k := m (a + 1 + of_nat k))"
  have k: "unat (of_nat k :: u32) = k" using Suc.prems by (simp add: unat_of_nat)
  have IH: "memmove_loop ?m a (a + 1) k x = (if unat (x - a) < k then ?m (a + of_nat k) else ?m x)" using Suc by simp
  have s: "a + 1 + of_nat k = a + of_nat (Suc k)" by (simp add: algebra_simps)
  show ?case
  proof (cases "unat (x - a) = k")
    case True
    then have "x - a = of_nat k" using k by (simp add: word_unat_eq_iff)
    then have "x = a + of_nat k" by (simp add: algebra_simps)
    then show ?thesis unfolding memmove_loop.simps IH using True s by (simp add: ac_simps)
  next
    case False
    then have "x \<noteq> a + of_nat k" using k by auto
    then show ?thesis unfolding memmove_loop.simps IH using False s by (auto simp: less_Suc_eq ac_simps)
  qed
qed simp

lemma memmove_count:
  assumes "n \<le> 0x80000000" shows "(if sint (n - 1) < 0 then m else memmove_loop m dst src (nat (sint (n - 1) + 1))) = memmove_loop m dst src (unat (n :: u32))"
proof (cases "n = 0")
  case False
  then have u: "unat (n - 1) = unat n - 1" "0 < unat n" by (simp_all add: unat_minus_one unat_gt_0)
  moreover have "unat n \<le> 0x80000000" using assms by (simp add: word_le_nat_alt)
  ultimately have lt: "unat (n - 1) < 2 ^ 31" by simp
  then have "sint (n - 1) = int (unat (n - 1))"
    by (simp add: sint_uint signed_take_bit_int_eq_self uint_nat del: of_nat_unat)
  then show ?thesis using u by (simp del: of_nat_unat)
qed simp

lemma unat_of_nat_lt: "k < 2 ^ 32 \<Longrightarrow> unat (of_nat k :: u32) = k"
  by (simp add: unat_of_nat)

lemma unat_minus_offset:
  assumes "k < 2 ^ 32"
  shows "unat (x - (a + of_nat k :: u32)) = (if k \<le> unat (x - a) then unat (x - a) - k else unat (x - a) + 2 ^ 32 - k)"
proof -
  define d where "d = x - a"
  have e: "x - (a + of_nat k) = d - of_nat k" by (simp add: algebra_simps d_def)
  show ?thesis unfolding e d_def[symmetric] using unat_of_nat_lt[OF assms] by (simp add: unat_sub_if_size word_size)
qed

lemma region_tail: "k + n < 2 ^ 32 \<Longrightarrow> region (a + of_nat k) n \<subseteq> region a (k + n)"
  unfolding region_def by (auto simp: unat_minus_offset split: if_splits)

lemma region_tail_disjoint: "k + n < 2 ^ 32 \<Longrightarrow> region a k \<inter> region (a + of_nat k) n = {}"
  unfolding region_def by (auto simp: unat_minus_offset split: if_splits)

lemma cstr_append:
  assumes "cstr m a t" "length t + length s < 2 ^ 32" "\<And>x. x \<in> region a (length t) \<Longrightarrow> m' x = m x" "cstr m' (a + of_nat (length t)) s"
  shows "cstr m' a (t @ s)"
  using assms
proof (induction t arbitrary: a)
  case (Cons c t)
  have r: "region a (length (c # t)) = insert a (region (a + 1) (length t))"
    using Cons.prems(2) by (simp add: region_Suc)
  have "cstr m' (a + 1) (t @ s)"
    by (rule Cons.IH) (use Cons.prems r in \<open>auto simp: add.assoc\<close>)
  then show ?case using Cons.prems(1) Cons.prems(3)[of a] r by auto
qed simp

lemma strcat_cstr:
  assumes "cstr m dst t" "cstr m src s" "dst \<noteq> 0" "length t + length s < 2 ^ 32 - 1"
    and "region dst (Suc (length t + length s)) \<inter> region src (Suc (length s)) = {}"
  shows "\<exists>m'. strcat m dst src = Some (Inr (m', dst)) \<and> cstr m' dst (t @ s) \<and>
     (\<forall>x. x \<notin> region dst (Suc (length t + length s)) \<longrightarrow> m' x = m x)"
proof -
  let ?d = "dst + of_nat (length t)"
  have lt: "length t + Suc (length s) < 2 ^ 32" using assms(4) by simp
  have sub: "region ?d (Suc (length s)) \<subseteq> region dst (Suc (length t + length s))"
    using region_tail[OF lt, of dst] by simp
  have len: "length s < 2 ^ 32 - 1" using assms(4) by simp
  obtain m' where m': "copy_loop m ?d src = Some m'" "cstr m' ?d s"
    "\<And>x. x \<notin> region ?d (Suc (length s)) \<Longrightarrow> m' x = m x"
    using copy_loop_cstr[OF assms(2) len, of ?d] sub assms(5) by blast
  have "cstr m' dst (t @ s)"
  proof (rule cstr_append[OF assms(1) _ _ m'(2)])
    show "length t + length s < 2 ^ 32" using assms(4) by simp
    show "m' x = m x" if "x \<in> region dst (length t)" for x
      using m'(3)[of x] region_tail_disjoint[OF lt, of dst] that by blast
  qed
  then show ?thesis using assms(3) m' sub by (auto simp: strcat_def strlen_cstr[OF assms(1)])
qed

section \<open>Properties\<close>

text \<open>
  C25. The string functions. On two terminated strings that do not overlap (with room for the
  result), \<open>strlen\<close> returns and gives the length, \<open>strcmp\<close> returns a number whose sign is the
  lexicographic order of the strings as unsigned bytes, \<open>strcpy\<close> and \<open>strcat\<close> return the destination
  holding the copy and the concatenation, and no other byte of memory changes.
\<close>

theorem string_functions_correct:
  assumes "cstr m dst t" "cstr m src s" "dst \<noteq> 0" "length t + length s < 2 ^ 32 - 1"
    and "region dst (Suc (length t + length s)) \<inter> region src (Suc (length s)) = {}"
  shows "strlen m src = Some (of_nat (length s)) \<and>
    (\<exists>d. strcmp m dst src = Some d \<and> (d = 0 \<longleftrightarrow> t = s) \<and> (d < 0 \<longleftrightarrow> (t, s) \<in> lexord {(x, y). x < y})) \<and>
    (\<exists>m'. strcpy m dst src = Some (Inr (m', dst)) \<and> cstr m' dst s \<and>
       (\<forall>x. x \<notin> region dst (Suc (length s)) \<longrightarrow> m' x = m x)) \<and>
    (\<exists>m'. strcat m dst src = Some (Inr (m', dst)) \<and> cstr m' dst (t @ s) \<and>
       (\<forall>x. x \<notin> region dst (Suc (length t + length s)) \<longrightarrow> m' x = m x))"
proof -
  have "region dst (Suc (length s)) \<subseteq> region dst (Suc (length t + length s))" by (auto simp: region_def)
  with assms(5) have "region dst (Suc (length s)) \<inter> region src (Suc (length s)) = {}" by blast
  from copy_loop_cstr[OF assms(2) _ this] assms(3,4)
  have "\<exists>m'. strcpy m dst src = Some (Inr (m', dst)) \<and> cstr m' dst s \<and>
       (\<forall>x. x \<notin> region dst (Suc (length s)) \<longrightarrow> m' x = m x)" by (auto simp: strcpy_def)
  then show ?thesis using strlen_cstr[OF assms(2)] strcmp_cstr[OF assms(1,2)] strcat_cstr[OF assms] by simp
qed

text \<open>
  \<open>memmove\<close> moves whenever the source does not lie inside the destination ahead of its start:
  for equal areas, disjoint areas and a destination ahead of the source. Every byte of the
  destination is then the old byte of the source and no other byte changes.
\<close>

theorem memmove_correct:
  assumes "dst \<noteq> 0" "n \<le> 0x80000000" "dst = src \<or> n \<le> src - dst"
  shows "\<exists>m'. memmove m dst src n = Inr (m', dst) \<and>
     (\<forall>x. m' x = (if x - dst < n then m (src + (x - dst)) else m x))"
proof -
  have "dst = src \<or> unat n \<le> unat (src - dst)" using assms(3) by (simp add: word_le_nat_alt)
  from memmove_loop_spec[OF order_refl u32_lt this, of m]
  have "memmove_loop m dst src (unat n) x = (if unat (x - dst) < unat n then m (src + (x - dst)) else m x)" for x
    by simp
  then show ?thesis using assms(1) memmove_count[OF assms(2), of m dst src]
    by (auto simp: memmove_def word_less_nat_alt)
qed

text \<open>
  \<open>memmove\<close> copies from the top even when the destination is below the source. Moving an area
  down by one byte fills it with its last byte instead.
\<close>

theorem memmove_smears:
  assumes "a \<noteq> 0" "n \<le> 0x80000000"
  shows "\<exists>m'. memmove m a (a + 1) n = Inr (m', a) \<and> (\<forall>x. m' x = (if x - a < n then m (a + n) else m x))"
proof -
  from memmove_loop_smear[OF u32_lt[of n], of m a]
  have "memmove_loop m a (a + 1) (unat n) x = (if unat (x - a) < unat n then m (a + n) else m x)" for x by simp
  then show ?thesis using assms(1) memmove_count[OF assms(2), of m a "a + 1"]
    by (auto simp: memmove_def word_less_nat_alt)
qed

text \<open>
  \<open>memcmp\<close> is a string comparison: two areas that start with a zero byte compare equal whatever
  follows and whatever the size, and a size of zero compares the first bytes.
\<close>

theorem memcmp_stops_at_nul:
  assumes "m s1 = 0"
  shows "memcmp m s1 s2 n = - uint (m s2)"
  unfolding memcmp_def by (subst strncmp_loop.simps) (simp add: assms byte_diff_def)

section \<open>Concrete instances\<close>

lemma region_list: "n \<le> 2 ^ 32 \<Longrightarrow> region a n = set (map (\<lambda>i. a + of_nat i) [0..<n])"
proof (induction n arbitrary: a)
  case (Suc n)
  have "[0..<Suc n] = 0 # map Suc [0..<n]" by (simp add: map_Suc_upt upt_conv_Cons del: upt_Suc)
  then show ?case using Suc by (simp add: region_Suc comp_def ac_simps del: upt_Suc)
qed simp

definition demo_mem :: gmem where
  "demo_mem x = (if x = 0x1000 then 0x61 else if x = 0x1001 then 0x62 else if x = 0x2000 then 0x61
     else if x = 0x2001 then 0x63 else 0)"

theorem string_functions_correct_witness:
  "strlen demo_mem 0x2000 = Some 2 \<and> (\<exists>d. strcmp demo_mem 0x1000 0x2000 = Some d \<and> d < 0) \<and>
   (\<exists>m'. strcat demo_mem 0x1000 0x2000 = Some (Inr (m', 0x1000)) \<and> cstr m' 0x1000 ([0x61, 0x62] @ [0x61, 0x63]))"
proof -
  have c: "cstr demo_mem 0x1000 [0x61, 0x62]" "cstr demo_mem 0x2000 [0x61, 0x63]" by (simp_all add: demo_mem_def)
  have "region 0x1000 (Suc (length [0x61 :: u8, 0x62] + length [0x61 :: u8, 0x63])) \<inter> region 0x2000 (Suc (length [0x61 :: u8, 0x63])) = {}"
    by (simp add: region_list upt_conv_Cons del: set_map)
  note all = string_functions_correct[OF c _ _ this]
  have "strlen demo_mem 0x2000 = Some 2" using all[THEN conjunct1] by simp
  moreover have "\<exists>d. strcmp demo_mem 0x1000 0x2000 = Some d \<and> d < 0"
    using all[THEN conjunct2, THEN conjunct1] by (simp, blast)
  moreover have "\<exists>m'. strcat demo_mem 0x1000 0x2000 = Some (Inr (m', 0x1000)) \<and> cstr m' 0x1000 ([0x61, 0x62] @ [0x61, 0x63])"
    using all[THEN conjunct2, THEN conjunct2, THEN conjunct2] by (auto simp del: cstr.simps append.simps)
  ultimately show ?thesis by blast
qed

theorem memmove_correct_witness:
  "\<exists>m'. memmove demo_mem 0x1001 0x1000 2 = Inr (m', 0x1001) \<and> m' 0x1000 = 0x61 \<and> m' 0x1001 = 0x61 \<and> m' 0x1002 = 0x62"
proof -
  have "(2 :: u32) \<le> 0x1000 - 0x1001" by simp
  with memmove_correct[of "0x1001" 2 "0x1000" demo_mem] obtain m' where
    "memmove demo_mem 0x1001 0x1000 2 = Inr (m', 0x1001)"
    "\<And>x. m' x = (if x - 0x1001 < 2 then demo_mem (0x1000 + (x - 0x1001)) else demo_mem x)" by auto
  then show ?thesis by (simp add: demo_mem_def)
qed

theorem memmove_smears_witness:
  "\<exists>m'. memmove demo_mem 0x0fff 0x1000 2 = Inr (m', 0x0fff) \<and> m' 0x0fff = 0x62 \<and> m' 0x1000 = 0x62"
proof -
  from memmove_smears[of "0x0fff" 2 demo_mem] obtain m' where
    "memmove demo_mem 0x0fff 0x1000 2 = Inr (m', 0x0fff)"
    "\<And>x. m' x = (if x - 0x0fff < 2 then demo_mem 0x1001 else demo_mem x)" by auto
  then show ?thesis by (simp add: demo_mem_def)
qed

theorem memcmp_stops_at_nul_witness: "memcmp (demo_mem(0x3001 := 7)) 0x3000 0x4000 2 = 0"
  using memcmp_stops_at_nul[of "demo_mem(0x3001 := 7)" "0x3000" "0x4000" 2] by (simp add: demo_mem_def)

end
