(* ===== verification/PrintfProps.thy ===== *)
theory PrintfProps
  imports Printf KStringProps
begin

text \<open>
  The printf family of klib. First: what a format prints does not depend on where it goes (every
  piece of the formatter \<open>emits\<close> a fixed list of characters), which gives the behaviour of all six
  entry points at once. Then the integer conversions against the field of the C standard
  (\<open>num_str\<close>, \<open>int_field\<close>), the round trip through \<open>atoi\<close>, and the formats on which klib
  differs from the standard.
\<close>

section \<open>What is written does not depend on where it goes\<close>

lemma out_all_append: "out_all f maxlen (as @ bs) s = out_all f maxlen bs (out_all f maxlen as s)"
  by (induction f maxlen as s rule: out_all.induct) auto

lemma fst_out_all: "fst (out_all f maxlen cs s) = fst s + of_nat (length cs)"
  by (induction f maxlen cs s rule: out_all.induct) auto

definition emits :: "(out_fct \<Rightarrow> u32 \<Rightarrow> pstate \<Rightarrow> pstate) \<Rightarrow> string \<Rightarrow> bool" where
  "emits F cs \<longleftrightarrow> (\<forall>f maxlen s. F f maxlen s = out_all f maxlen cs s)"

definition emitsR :: "(out_fct \<Rightarrow> u32 \<Rightarrow> pstate \<Rightarrow> (pstate \<times> va list) res) \<Rightarrow> bool" where
  "emitsR F \<longleftrightarrow> (\<exists>r. \<forall>f maxlen s. F f maxlen s = bindR r (\<lambda>(cs, vs). Inr (out_all f maxlen cs s, vs)))"

lemma emitsR_ret: "\<exists>cs. emits F cs \<Longrightarrow> emitsR (\<lambda>f m s. Inr (F f m s, vs))"
proof -
  assume "\<exists>cs. emits F cs"
  then obtain cs where "\<And>f m s. F f m s = out_all f m cs s" by (auto simp: emits_def)
  then show ?thesis unfolding emitsR_def by (intro exI[of _ "Inr (cs, vs)"]) simp
qed

lemma emitsR_bind: "(\<And>x. emitsR (G x)) \<Longrightarrow> emitsR (\<lambda>f m s. bindR R (\<lambda>x. G x f m s))"
proof (cases R)
  case (Inl e)
  then show ?thesis unfolding emitsR_def by (intro exI[of _ "Inl e"]) simp
next
  case (Inr x)
  assume "\<And>x. emitsR (G x)"
  then show ?thesis using Inr by simp
qed

lemma emitsR_if: "emitsR F \<Longrightarrow> emitsR G \<Longrightarrow> emitsR (\<lambda>f m s. if c then F f m s else G f m s)"
  by (cases c) simp_all

definition rev_chars :: "string \<Rightarrow> u32 \<Rightarrow> u32 \<Rightarrow> string" where
  "rev_chars buf width flags =
     (if \<not> bit flags FLAGS_LEFT \<and> \<not> bit flags FLAGS_ZEROPAD then replicate (unat width - length buf) CHR '' '' else []) @
     rev buf @ (if bit flags FLAGS_LEFT then replicate (unat width - length buf) CHR '' '' else [])"

lemma out_rev_emits:
  assumes "length buf \<le> 32"
  shows "out_rev f maxlen buf width flags s = out_all f maxlen (rev_chars buf width flags) s"
proof -
  have "unat (of_nat (length buf) :: u32) = length buf" by (rule unat_of_nat_lt) (use assms in simp)
  then show ?thesis by (simp add: out_rev_def rev_chars_def Let_def out_all_append fst_out_all)
qed

definition push_sign :: "bool \<Rightarrow> u32 \<Rightarrow> string \<Rightarrow> string" where
  "push_sign negative flags buf =
     (if negative then push CHR ''-'' buf
      else if bit flags FLAGS_PLUS then push CHR ''+'' buf
      else if bit flags FLAGS_SPACE then push CHR '' '' buf else buf)"

definition format_buf :: "string \<Rightarrow> bool \<Rightarrow> u32 \<Rightarrow> u32 \<Rightarrow> u32 \<Rightarrow> u32 \<Rightarrow> u32 \<times> string" where
  "format_buf buf negative base prec width flags =
     (let (width, buf) =
            (if \<not> bit flags FLAGS_LEFT then
               (let width = (if width \<noteq> 0 \<and> bit flags FLAGS_ZEROPAD \<and> (negative \<or> bit flags FLAGS_PLUS \<or> bit flags FLAGS_SPACE)
                             then width - 1 else width);
                    buf = zero_pad prec buf
                in (width, if bit flags FLAGS_ZEROPAD then zero_pad width buf else buf))
             else (width, buf));
          buf = (if bit flags FLAGS_HASH then ntoa_hash buf base prec width flags else buf)
      in (width, push_sign negative flags buf))"

lemma ntoa_format_buf:
  "ntoa_format f maxlen buf negative base prec width flags s =
     (case format_buf buf negative base prec width flags of (w, b) \<Rightarrow> out_rev f maxlen b w flags s)"
  by (simp add: ntoa_format_def format_buf_def push_sign_def Let_def split: prod.splits)

lemma push_le: "length buf \<le> 32 \<Longrightarrow> length (push c buf) \<le> 32"
  by (simp add: push_def)

lemma zero_pad_le: "length buf \<le> 32 \<Longrightarrow> length (zero_pad n buf) \<le> 32"
  by (simp add: zero_pad_def)

lemma ntoa_hash_le: "length buf \<le> 32 \<Longrightarrow> length (ntoa_hash buf base prec width flags) \<le> 32"
  unfolding ntoa_hash_def Let_def by (rule push_le) (auto simp: push_def)

lemma format_buf_le: "length buf \<le> 32 \<Longrightarrow> length (snd (format_buf buf negative base prec width flags)) \<le> 32"
  by (auto simp: format_buf_def push_sign_def Let_def push_le zero_pad_le ntoa_hash_le)

lemma digits_loop_le: "length (digits_loop k flags base v) \<le> Suc k"
proof (induction k arbitrary: v)
  case 0
  show ?case by (subst digits_loop.simps) simp
next
  case (Suc k)
  then show ?case by (subst digits_loop.simps) auto
qed

lemma ntoa_format_emits:
  "length buf \<le> 32 \<Longrightarrow> emits (\<lambda>f m s. ntoa_format f m buf negative base prec width flags s)
     (case format_buf buf negative base prec width flags of (w, b) \<Rightarrow> rev_chars b w flags)"
  using format_buf_le[of buf negative base prec width flags]
  by (auto simp: emits_def ntoa_format_buf out_rev_emits split: prod.splits)

lemma ntoa_long_emits: "\<exists>cs. emits (\<lambda>f m s. ntoa_long f m v neg base p w flags s) cs"
  unfolding ntoa_long_def Let_def
  by (rule exI, rule ntoa_format_emits) (use digits_loop_le[of 31 _ base v] in simp)

lemma ntoa_long_long_emits: "\<exists>cs. emits (\<lambda>f m s. ntoa_long_long f m v neg base p w flags s) cs"
  unfolding ntoa_long_long_def Let_def
  by (rule exI, rule ntoa_format_emits) (use digits_loop_le[of 31 _ base v] in simp)

lemma conv_int_emits: "emitsR (\<lambda>f m s. conv_int f m c p w flags vs s)"
  unfolding conv_int_def conv_signed_def conv_unsigned_def Let_def split_def
  by (intro emitsR_if emitsR_bind emitsR_ret ntoa_long_emits ntoa_long_long_emits)

lemma emits_out_all: "emits (\<lambda>f m s. out_all f m cs s) cs"
  by (simp add: emits_def)

lemma emits_comp: "emits F as \<Longrightarrow> emits G bs \<Longrightarrow> emits (\<lambda>f m s. G f m (F f m s)) (as @ bs)"
  by (simp add: emits_def out_all_append del: split_paired_All)

lemma emits_if: "emits F as \<Longrightarrow> emits G bs \<Longrightarrow> emits (\<lambda>f m s. if c then F f m s else G f m s) (if c then as else bs)"
  by (simp add: emits_def)

text \<open>The two paddings around an item, of which one is empty.\<close>

lemma padded_emits:
  "\<exists>cs. emits (\<lambda>f m s. if left then out_all f m pad (out_all f m item (if left then s else out_all f m pad s))
      else out_all f m item (if left then s else out_all f m pad s)) cs"
  by (cases left) (auto simp: emits_def out_all_append[symmetric] simp del: out_all.simps)

lemma conv_char_emits: "emitsR (\<lambda>f m s. conv_char f m w flags vs s)"
  unfolding conv_char_def Let_def split_def by (intro emitsR_bind emitsR_ret padded_emits)

lemma conv_string_emits: "emitsR (\<lambda>f m s. conv_string f m p w flags vs s)"
  unfolding conv_string_def Let_def split_def by (intro emitsR_bind emitsR_ret padded_emits)

lemma conv_pointer_emits: "emitsR (\<lambda>f m s. conv_pointer f m p flags vs s)"
  unfolding conv_pointer_def split_def by (intro emitsR_bind emitsR_ret ntoa_long_emits)

definition emits3 :: "(out_fct \<Rightarrow> u32 \<Rightarrow> pstate \<Rightarrow> (string \<times> va list \<times> pstate) res) \<Rightarrow> bool" where
  "emits3 F \<longleftrightarrow> (\<exists>r. \<forall>f maxlen s. F f maxlen s = bindR r (\<lambda>(rest, vs, cs). Inr (rest, vs, out_all f maxlen cs s)))"

lemma emits3_done:
  assumes "emitsR F" shows "emits3 (\<lambda>f m s. bindR (F f m s) (\<lambda>(s', vs'). Inr (rest, vs', s')))"
proof -
  obtain r where "\<And>f m s. F f m s = bindR r (\<lambda>(cs, vs). Inr (out_all f m cs s, vs))"
    using assms unfolding emitsR_def by blast
  then show ?thesis unfolding emits3_def
    by (intro exI[of _ "bindR r (\<lambda>(cs, vs). Inr (rest, vs, cs))"]) (simp add: bindR_assoc split_def)
qed

lemma emits3_if: "emits3 F \<Longrightarrow> emits3 G \<Longrightarrow> emits3 (\<lambda>f m s. if c then F f m s else G f m s)"
  by (cases c) simp_all

lemma emits3_bind: "(\<And>x. emits3 (G x)) \<Longrightarrow> emits3 (\<lambda>f m s. bindR R (\<lambda>x. G x f m s))"
proof (cases R)
  case (Inl e)
  then show ?thesis unfolding emits3_def by (intro exI[of _ "Inl e"]) simp
next
  case (Inr x)
  assume "\<And>x. emits3 (G x)"
  then show ?thesis using Inr by simp
qed

lemma emits3_Inl: "emits3 (\<lambda>f m s. Inl e)"
  unfolding emits3_def by (intro exI[of _ "Inl e"]) simp

lemma emits3_chars: "emits3 (\<lambda>f m s. Inr (rest, vs, out_all f m cs s))"
  unfolding emits3_def by (intro exI[of _ "Inr (rest, vs, cs)"]) simp

lemma emits3_list_case: "emits3 F \<Longrightarrow> (\<And>c cs. emits3 (G c cs)) \<Longrightarrow>
    emits3 (\<lambda>f m s. case xs of [] \<Rightarrow> F f m s | c # cs \<Rightarrow> G c cs f m s)"
  by (cases xs) simp_all

lemma conversion_emits: "emits3 (\<lambda>f m s. conversion f m fmt vs s)"
  unfolding conversion_def Let_def
  by (simp only: split_def, intro emits3_bind emits3_list_case emits3_if emits3_Inl emits3_chars emits3_done[unfolded split_def]
      conv_int_emits conv_char_emits conv_string_emits conv_pointer_emits)

lemma vsnprintf_loop_emits:
  "\<exists>r. \<forall>f maxlen s. vsnprintf_loop f maxlen fmt vs s = bindR r (\<lambda>cs. Inr (out_all f maxlen cs s))"
proof (induction "length fmt" arbitrary: fmt vs rule: less_induct)
  case less
  show ?case
  proof (cases fmt)
    case Nil
    then show ?thesis by (intro exI[of _ "Inr []"]) simp
  next
    case (Cons c cs)
    show ?thesis
    proof (cases "c = CHR ''%''")
      case False
      obtain r where r: "\<And>f m s. vsnprintf_loop f m cs vs s = bindR r (\<lambda>cs. Inr (out_all f m cs s))"
        using less[of cs vs] Cons by auto
      have e: "out_all f m ds (out_all f m [c] s) = out_all f m (c # ds) s" for f m ds s by (cases s) simp
      show ?thesis
        by (intro exI[of _ "bindR r (\<lambda>cs. Inr (c # cs))"]) (simp add: Cons False r bindR_assoc e del: out_all.simps)
    next
      case True
      obtain q where q: "\<And>f m s. conversion f m cs vs s = bindR q (\<lambda>(rest, vs, cs). Inr (rest, vs, out_all f m cs s))"
        using conversion_emits[of cs vs] unfolding emits3_def by blast
      show ?thesis
      proof (cases q)
        case (Inl e)
        then show ?thesis by (intro exI[of _ "Inl e"]) (simp add: Cons True q)
      next
        case (Inr x)
        obtain rest vs' ds where x: "x = (rest, vs', ds)" by (metis prod_cases3)
        have "length rest < length cs"
          using conversion_shorter[of OutNull 0 cs vs undefined rest vs'] q Inr x by simp
        then obtain r where r: "\<And>f m s. vsnprintf_loop f m rest vs' s = bindR r (\<lambda>cs. Inr (out_all f m cs s))"
          using less[of rest vs'] Cons by auto
        show ?thesis
          by (intro exI[of _ "bindR r (\<lambda>cs. Inr (ds @ cs))"]) (simp add: Cons True q Inr x r bindR_assoc out_all_append)
      qed
    qed
  qed
qed

section \<open>The sinks\<close>

lemma out_all_OutChar:
  "out_all OutChar maxlen cs (idx, sk) = (idx + of_nat (length cs), sk\<lparr>sk_putch := sk_putch sk @ filter (\<lambda>c. c \<noteq> CHR 0x00) cs\<rparr>)"
  by (induction cs arbitrary: idx sk) (auto simp: out_def)

lemma out_all_OutFct:
  "out_all OutFct maxlen cs (idx, sk) = (idx + of_nat (length cs), sk\<lparr>sk_fct := sk_fct sk @ filter (\<lambda>c. c \<noteq> CHR 0x00) cs\<rparr>)"
  by (induction cs arbitrary: idx sk) (auto simp: out_def)

lemma out_all_OutNull: "out_all OutNull maxlen cs (idx, sk) = (idx + of_nat (length cs), sk)"
  by (induction cs arbitrary: idx sk) (auto simp: out_def)

lemma out_all_OutBuffer:
  assumes "unat idx + length cs < 2 ^ 32"
  shows "out_all OutBuffer maxlen cs (idx, sk) = (idx + of_nat (length cs),
     sk\<lparr>sk_buf := (\<lambda>i. if unat idx \<le> i \<and> i < unat idx + length cs \<and> i < unat maxlen then cs ! (i - unat idx) else sk_buf sk i)\<rparr>)"
  using assms
proof (induction cs arbitrary: idx sk)
  case Nil
  have "(\<lambda>i. if unat idx \<le> i \<and> i < unat idx + length [] \<and> i < unat maxlen then [] ! (i - unat idx) else sk_buf sk i) = sk_buf sk"
    by (rule ext) auto
  then show ?case by simp
next
  case (Cons c cs)
  have i: "unat (idx + 1) = unat idx + 1" using Cons.prems by (simp add: unat_word_ariths)
  have lt: "idx < maxlen \<longleftrightarrow> unat idx < unat maxlen" by (simp add: word_less_nat_alt)
  define sk1 where "sk1 = out OutBuffer c idx maxlen sk"
  have sk1: "sk1 = sk\<lparr>sk_buf := sk_buf sk1\<rparr>" "sk_buf sk1 i = (if i = unat idx \<and> i < unat maxlen then c else sk_buf sk i)" for i
    by (simp_all add: sk1_def out_def lt)
  have "unat (idx + 1) + length cs < 2 ^ 32" using Cons.prems i by simp
  note IH = Cons.IH[OF this, of sk1]
  have "(\<lambda>j. if unat (idx + 1) \<le> j \<and> j < unat (idx + 1) + length cs \<and> j < unat maxlen then cs ! (j - unat (idx + 1)) else sk_buf sk1 j)
      = (\<lambda>j. if unat idx \<le> j \<and> j < unat idx + length (c # cs) \<and> j < unat maxlen then (c # cs) ! (j - unat idx) else sk_buf sk j)"
    by (rule ext) (auto simp: i sk1(2) nth_Cons')
  moreover have "out_all OutBuffer maxlen (c # cs) (idx, sk) = out_all OutBuffer maxlen cs (idx + 1, sk1)"
    by (simp add: sk1_def)
  moreover have "sk1\<lparr>sk_buf := g\<rparr> = sk\<lparr>sk_buf := g\<rparr>" for g by (subst sk1(1)) simp
  ultimately show ?case unfolding IH by (simp add: ac_simps)
qed

definition printed :: "string \<Rightarrow> u32 \<times> sink \<Rightarrow> sink \<Rightarrow> bool" where
  "printed cs p sk \<longleftrightarrow> fst p = of_nat (length cs) \<and> snd p = sk\<lparr>sk_putch := sk_putch sk @ filter (\<lambda>c. c \<noteq> CHR 0x00) cs\<rparr>"

definition called :: "string \<Rightarrow> u32 \<times> sink \<Rightarrow> sink \<Rightarrow> bool" where
  "called cs p sk \<longleftrightarrow> fst p = of_nat (length cs) \<and> snd p = sk\<lparr>sk_fct := sk_fct sk @ filter (\<lambda>c. c \<noteq> CHR 0x00) cs\<rparr>"

text \<open>The buffer of \<open>count\<close> bytes: as much as fits, a terminator, nothing else.\<close>

definition stored :: "string \<Rightarrow> u32 \<Rightarrow> u32 \<times> sink \<Rightarrow> sink \<Rightarrow> bool" where
  "stored cs count p sk \<longleftrightarrow> fst p = of_nat (length cs) \<and> (length cs < 2 ^ 32 \<longrightarrow>
     (let n = min (length cs) (unat count - 1)
      in snd p = sk\<lparr>sk_buf := (\<lambda>i. if count = 0 then sk_buf sk i else if i < n then cs ! i else if i = n then CHR 0x00 else sk_buf sk i)\<rparr>))"

lemma core_OutChar: "printed cs (of_nat (length cs), out OutChar CHR 0x00 j m (snd (out_all OutChar m cs (0, sk)))) sk"
  by (simp add: printed_def out_all_OutChar out_def)

lemma core_OutFct: "called cs (of_nat (length cs), out OutFct CHR 0x00 j m (snd (out_all OutFct m cs (0, sk)))) sk"
  by (simp add: called_def out_all_OutFct out_def)

lemma stored_fun:
  "0 < M \<Longrightarrow> (\<lambda>i. if i < L \<and> i < M then cs ! i else g i)(min L (M - 1) := c)
    = (\<lambda>i. if i < min L (M - 1) then cs ! i else if i = min L (M - 1) then c else g i)" for L M :: nat
  by (rule ext) auto

lemma core_OutBuffer:
  shows "stored cs m (of_nat (length cs), out OutBuffer CHR 0x00 (if of_nat (length cs) < m then of_nat (length cs) else m - 1) m
     (snd (out_all OutBuffer m cs (0, sk)))) sk"
proof (cases "length cs < 2 ^ 32")
  case assms: True
  have u: "unat (of_nat (length cs) :: u32) = length cs" by (rule unat_of_nat_lt[OF assms])
  have o: "snd (out_all OutBuffer m cs (0, sk)) = sk\<lparr>sk_buf := (\<lambda>i. if i < length cs \<and> i < unat m then cs ! i else sk_buf sk i)\<rparr>"
    using out_all_OutBuffer[of 0 cs m sk] assms by (simp cong: if_cong)
  show ?thesis
  proof (cases "m = 0")
    case True
    then have e: "(\<lambda>i. if i < length cs \<and> i < unat m then cs ! i else sk_buf sk i) = sk_buf sk" by auto
    show ?thesis unfolding stored_def Let_def o e using True by (simp add: out_def)
  next
    case False
    then have m1: "unat (m - 1) = unat m - 1" "0 < unat m" by (simp_all add: unat_minus_one unat_gt_0)
    define j where "j = (if of_nat (length cs) < m then of_nat (length cs) else m - 1)"
    have j: "j < m" "unat j = min (length cs) (unat m - 1)" using m1 by (auto simp: j_def word_less_nat_alt u)
    have e: "out OutBuffer CHR 0x00 j m (sk\<lparr>sk_buf := g\<rparr>) = sk\<lparr>sk_buf := g(min (length cs) (unat m - 1) := CHR 0x00)\<rparr>" for g
      using j by (simp add: out_def)
    show ?thesis unfolding stored_def Let_def o j_def[symmetric] fst_conv snd_conv e stored_fun[OF m1(2)]
      by (simp only: False if_False simp_thms)
  qed
qed (simp add: stored_def)

text \<open>
  C21. All members of the printf family write the same characters. For every format and arguments
  there is one outcome \<open>r\<close>: an abort, or the characters of the output. \<open>printf\<close> and \<open>vprintf\<close> hand
  them (except zero characters) to \<open>putch\<close>, \<open>fctprintf\<close> to the given function, \<open>snprintf\<close> and
  \<open>vsnprintf\<close> store as many of them as fit in \<open>count\<close> bytes with a terminator and touch no byte
  outside of these (for an output of less than 4 GiB), and all return the length of the whole output.
\<close>

theorem printf_family_agrees:
  "\<exists>r. case r of
     Inl e \<Rightarrow> \<forall>sk n. klib_printf fmt vs sk = Inl e \<and> klib_vprintf fmt vs sk = Inl e \<and> klib_fctprintf fmt vs sk = Inl e \<and>
       klib_snprintf False n fmt vs sk = Inl e \<and> klib_vsnprintf False n fmt vs sk = Inl e \<and> klib_sprintf False fmt vs sk = Inl e
   | Inr cs \<Rightarrow> \<forall>sk n. (\<exists>p. klib_printf fmt vs sk = Inr p \<and> klib_vprintf fmt vs sk = Inr p \<and> printed cs p sk) \<and>
       (\<exists>p. klib_fctprintf fmt vs sk = Inr p \<and> called cs p sk) \<and>
       (\<exists>p. klib_snprintf False n fmt vs sk = Inr p \<and> klib_vsnprintf False n fmt vs sk = Inr p \<and> stored cs n p sk) \<and>
       (\<exists>p. klib_sprintf False fmt vs sk = Inr p \<and> stored cs (- 1) p sk)"
proof -
  obtain r where r: "\<And>f m s. vsnprintf_loop f m fmt vs s = bindR r (\<lambda>cs. Inr (out_all f m cs s))"
    using vsnprintf_loop_emits by blast
  have core: "vsnprintf_core f False m fmt vs sk = bindR r (\<lambda>cs. Inr (of_nat (length cs),
      out f CHR 0x00 (if of_nat (length cs) < m then of_nat (length cs) else m - 1) m (snd (out_all f m cs (0, sk)))))" for f m sk
    using fst_out_all[of f m _ "(0, sk)"] by (simp add: vsnprintf_core_def r bindR_assoc split_def cong: if_cong)
  note defs = klib_printf_def klib_vprintf_def klib_fctprintf_def klib_snprintf_def klib_vsnprintf_def klib_sprintf_def
  show ?thesis
  proof (cases r)
    case (Inl e)
    then show ?thesis by (intro exI[of _ "Inl e"]) (simp add: defs core)
  next
    case (Inr cs)
    show ?thesis
      by (intro exI[of _ "Inr cs"]) (simp only: sum.case defs core Inr bindR_Inr, simp add: core_OutChar core_OutFct core_OutBuffer)
  qed
qed

section \<open>Numbers as text\<close>

function num_str :: "bool \<Rightarrow> nat \<Rightarrow> nat \<Rightarrow> string" where
  "num_str upper base n =
     (let d = (\<lambda>k. char_of (if k < 10 then 48 + k else (if upper then 65 else 97) + k - 10))
      in if base < 2 \<or> n < base then [d n] else num_str upper base (n div base) @ [d (n mod base)])"
  by pat_completeness auto
termination by (relation "measure (\<lambda>(_, _, n). n)") auto

declare num_str.simps [simp del]

lemma digit_char_num: "digit_char flags d = char_of (if d < 10 then 48 + d else (if bit flags FLAGS_UPPERCASE then 65 else 97) + d - 10)"
  by (simp add: digit_char_def)

lemma digits_loop_num:
  fixes v base :: "'a::len word"
  assumes "2 \<le> unat base" "unat v < unat base ^ Suc k"
  shows "digits_loop k flags base v = rev (num_str (bit flags FLAGS_UPPERCASE) (unat base) (unat v))"
  using assms(2)
proof (induction k arbitrary: v)
  case 0
  then have "v div base = 0" "v mod base = v"
    by (simp_all add: word_unat_eq_iff unat_div_distrib unat_mod_distrib)
  then show ?case using 0 by (subst digits_loop.simps, subst num_str.simps) (simp add: Let_def digit_char_num)
next
  case (Suc k)
  have u: "unat (v div base) = unat v div unat base" "unat (v mod base) = unat v mod unat base"
    by (simp_all add: unat_div_distrib unat_mod_distrib)
  have z: "v div base = 0 \<longleftrightarrow> unat v < unat base" using assms(1) by (simp add: word_unat_eq_iff u div_eq_0_iff)
  show ?case
  proof (cases "unat v < unat base")
    case True
    then show ?thesis using z assms(1) by (subst digits_loop.simps, subst num_str.simps) (simp add: Let_def digit_char_num u)
  next
    case False
    have "unat v < unat base * unat base ^ Suc k" using Suc.prems by simp
    then have "unat (v div base) < unat base ^ Suc k"
      using assms(1) unfolding u by (simp add: div_less_iff_less_mult mult.commute)
    from Suc.IH[OF this] show ?thesis
      using False z assms(1) by (subst digits_loop.simps, subst num_str.simps) (simp add: Let_def digit_char_num u)
  qed
qed

lemma num_str_length: "2 \<le> base \<Longrightarrow> n < base ^ Suc k \<Longrightarrow> length (num_str upper base n) \<le> Suc k"
proof (induction k arbitrary: n)
  case 0
  then show ?case by (subst num_str.simps) (simp add: Let_def)
next
  case (Suc k)
  then have "n div base < base ^ Suc k" by (simp add: div_less_iff_less_mult mult.commute)
  then show ?case using Suc by (subst num_str.simps) (auto simp: Let_def)
qed

section \<open>Integer fields\<close>

text \<open>
  A field as the C standard describes it: the digits, extended with zeros to the precision, after
  the sign, in a field of the given width, on the left, with zeros, or on the right.
\<close>

definition int_field :: "bool \<Rightarrow> nat \<Rightarrow> bool \<Rightarrow> bool \<Rightarrow> nat option \<Rightarrow> nat \<Rightarrow> string \<Rightarrow> nat \<Rightarrow> string" where
  "int_field upper base left zero prec width sign n =
     (let digits = (if prec \<noteq> None \<and> n = 0 then [] else num_str upper base n);
          body = replicate ((case prec of None \<Rightarrow> 0 | Some p \<Rightarrow> p) - length digits) CHR ''0'' @ digits;
          fill = width - length (sign @ body)
      in if left then sign @ body @ replicate fill CHR '' ''
         else if zero \<and> prec = None then sign @ replicate fill CHR ''0'' @ body
         else replicate fill CHR '' '' @ sign @ body)"

definition sign_str :: "bool \<Rightarrow> u32 \<Rightarrow> string" where
  "sign_str negative flags =
     (if negative then ''-'' else if bit flags FLAGS_PLUS then ''+'' else if bit flags FLAGS_SPACE then '' '' else [])"

text \<open>What the 32 cells of the buffer hold.\<close>

definition field_fits :: "bool \<Rightarrow> bool \<Rightarrow> nat option \<Rightarrow> nat \<Rightarrow> nat \<Rightarrow> nat \<Rightarrow> bool" where
  "field_fits left zero prec width nsign ndigits \<longleftrightarrow>
     nsign + ndigits \<le> 32 \<and>
     (case prec of None \<Rightarrow> zero \<and> \<not> left \<longrightarrow> width \<le> 32
      | Some p \<Rightarrow> if left then p \<le> ndigits else nsign + p \<le> 32)"

lemma zero_pad_rev: "unat n \<le> 32 \<Longrightarrow> rev (zero_pad n buf) = replicate (unat n - length buf) CHR ''0'' @ rev buf"
  by (simp add: zero_pad_def)

lemma push_sign_append:
  assumes "length (sign_str negative flags) + length buf \<le> 32"
  shows "push_sign negative flags buf = buf @ sign_str negative flags"
  using assms by (auto simp: push_sign_def sign_str_def push_def split: if_splits)

lemma sign_str_length: "length (sign_str negative flags) = (if negative \<or> bit flags FLAGS_PLUS \<or> bit flags FLAGS_SPACE then 1 else 0)"
  by (simp add: sign_str_def)

lemma rev_sign_str: "rev (sign_str negative flags) = sign_str negative flags"
  by (simp add: sign_str_def)

lemma field_chars:
  assumes hash: "\<not> bit flags FLAGS_HASH"
    and prec: "bit flags FLAGS_PRECISION \<Longrightarrow> \<not> bit flags FLAGS_ZEROPAD" "\<not> bit flags FLAGS_PRECISION \<Longrightarrow> prec = 0"
    and ds: "ds = (if bit flags FLAGS_PRECISION \<and> n = 0 then [] else num_str upper b n)"
    and fits: "field_fits (bit flags FLAGS_LEFT) (bit flags FLAGS_ZEROPAD)
        (if bit flags FLAGS_PRECISION then Some (unat prec) else None) (unat width) (length (sign_str negative flags)) (length ds)"
  shows "(case format_buf (rev ds) negative base prec width flags of (w, buf) \<Rightarrow> rev_chars buf w flags) =
     int_field upper b (bit flags FLAGS_LEFT) (bit flags FLAGS_ZEROPAD)
       (if bit flags FLAGS_PRECISION then Some (unat prec) else None) (unat width) (sign_str negative flags) n"
proof (cases "bit flags FLAGS_LEFT")
  case left: True
  have p: "unat prec - length ds = 0" using fits left prec(2) by (cases "bit flags FLAGS_PRECISION") (auto simp: field_fits_def)
  have len: "length (sign_str negative flags) + length (rev ds) \<le> 32" using fits by (simp add: field_fits_def)
  have "format_buf (rev ds) negative base prec width flags = (width, rev ds @ sign_str negative flags)"
    unfolding format_buf_def Let_def using left hash push_sign_append[OF len] by simp
  then show ?thesis
    using left p ds by (auto simp: rev_chars_def int_field_def Let_def rev_sign_str add.commute)
next
  case left: False
  have p32: "unat prec \<le> 32" using fits left prec(2) by (cases "bit flags FLAGS_PRECISION") (auto simp: field_fits_def)
  define body where "body = replicate (unat prec - length ds) CHR ''0'' @ ds"
  have zp: "zero_pad prec (rev ds) = rev body"
    unfolding body_def by (metis zero_pad_rev[OF p32] length_rev rev_rev_ident)
  have lbody: "length body = max (unat prec) (length ds)" by (simp add: body_def)
  have sb: "length (sign_str negative flags) + length body \<le> 32"
    using fits left prec(2) lbody by (cases "bit flags FLAGS_PRECISION") (auto simp: field_fits_def)
  show ?thesis
  proof (cases "bit flags FLAGS_ZEROPAD")
    case zero: False
    have "length (sign_str negative flags) + length (rev body) \<le> 32" using sb by simp
    note ps = push_sign_append[OF this]
    have "format_buf (rev ds) negative base prec width flags = (width, rev body @ sign_str negative flags)"
      unfolding format_buf_def Let_def using left zero hash ps zp by simp
    then show ?thesis
      using left zero ds prec(2) by (auto simp: rev_chars_def int_field_def Let_def rev_sign_str add.commute body_def)
  next
    case zero: True
    then have np: "\<not> bit flags FLAGS_PRECISION" using prec(1) by blast
    have w32: "unat width \<le> 32" using fits left zero np by (simp add: field_fits_def)
    define w where "w = (if width \<noteq> 0 \<and> (negative \<or> bit flags FLAGS_PLUS \<or> bit flags FLAGS_SPACE) then width - 1 else width)"
    have uw: "unat w - length body = unat width - (length (sign_str negative flags) + length body)"
      using sign_str_length[of negative flags] by (auto simp: w_def unat_minus_one)
    have w: "unat w \<le> 32" using w32 by (auto simp: w_def unat_minus_one)
    define buf where "buf = replicate (unat w - length body) CHR ''0'' @ body"
    have zw: "zero_pad w (rev body) = rev buf"
      unfolding buf_def by (metis zero_pad_rev[OF w] length_rev rev_rev_ident)
    have "length (sign_str negative flags) + length (rev buf) \<le> 32" using sb w32 uw by (auto simp: buf_def)
    note ps = push_sign_append[OF this]
    have "format_buf (rev ds) negative base prec width flags = (w, rev buf @ sign_str negative flags)"
      unfolding format_buf_def Let_def using left zero hash ps zp zw by (simp add: w_def[symmetric])
    then show ?thesis
      using left zero np ds prec(2) uw by (auto simp: rev_chars_def int_field_def Let_def rev_sign_str buf_def body_def)
  qed
qed

lemma unset_clear: "\<not> bit (w :: 'a::len word) n \<Longrightarrow> unset_bit n w = w"
  by (rule bit_word_eqI) (auto simp: bit_simps)

lemma bit_flag_simps [simp]:
  "m < 32 \<Longrightarrow> bit (set_bit m (w :: u32)) n \<longleftrightarrow> m = n \<or> bit w n"
  "bit (unset_bit m (w :: u32)) n \<longleftrightarrow> m \<noteq> n \<and> bit w n"
  by (auto simp: bit_simps)

lemma ntoa_long_field:
  fixes flags base v prec width :: u32
  defines "p \<equiv> (if bit flags FLAGS_PRECISION then Some (unat prec) else None)"
  assumes hash: "\<not> bit flags FLAGS_HASH" and base: "2 \<le> unat base"
    and prec: "bit flags FLAGS_PRECISION \<Longrightarrow> \<not> bit flags FLAGS_ZEROPAD" "\<not> bit flags FLAGS_PRECISION \<Longrightarrow> prec = 0"
    and fits: "field_fits (bit flags FLAGS_LEFT) (bit flags FLAGS_ZEROPAD) p (unat width) (length (sign_str negative flags))
       (length (if p \<noteq> None \<and> v = 0 then [] else num_str (bit flags FLAGS_UPPERCASE) (unat base) (unat v)))"
  shows "ntoa_long f m v negative base prec width flags s =
     out_all f m (int_field (bit flags FLAGS_UPPERCASE) (unat base) (bit flags FLAGS_LEFT) (bit flags FLAGS_ZEROPAD) p (unat width)
        (sign_str negative flags) (unat v)) s"
proof -
  define ds where "ds = (if p \<noteq> None \<and> v = 0 then [] else num_str (bit flags FLAGS_UPPERCASE) (unat base) (unat v))"
  have "(2::nat) ^ 32 \<le> unat base ^ Suc 31" using base by (intro order_trans[OF _ power_mono[of 2 "unat base" "Suc 31"]]) simp_all
  then have "unat v < unat base ^ Suc 31" using u32_lt[of v] by linarith
  note dl = digits_loop_num[OF base this, of flags]
  have "length ds \<le> 32" using fits by (auto simp: field_fits_def ds_def)
  then have len: "length (rev ds) \<le> 32" by simp
  have buf: "(if \<not> bit flags FLAGS_PRECISION \<or> v \<noteq> 0 then digits_loop (PRINTF_NTOA_BUFFER_SIZE - 1) flags base v else []) = rev ds"
    using dl by (simp add: ds_def p_def)
  have "ntoa_long f m v negative base prec width flags s = ntoa_format f m (rev ds) negative base prec width flags s"
    unfolding ntoa_long_def Let_def unset_clear[OF hash] if_cancel buf ..
  also have "\<dots> = out_all f m (case format_buf (rev ds) negative base prec width flags of (w, b) \<Rightarrow> rev_chars b w flags) s"
    using ntoa_format_emits[OF len, of negative base prec width flags] unfolding emits_def by blast
  also have "(case format_buf (rev ds) negative base prec width flags of (w, b) \<Rightarrow> rev_chars b w flags) =
     int_field (bit flags FLAGS_UPPERCASE) (unat base) (bit flags FLAGS_LEFT) (bit flags FLAGS_ZEROPAD) p (unat width) (sign_str negative flags) (unat v)"
  proof -
    have ds': "ds = (if bit flags FLAGS_PRECISION \<and> unat v = 0 then [] else num_str (bit flags FLAGS_UPPERCASE) (unat base) (unat v))"
      by (simp add: ds_def p_def unat_eq_zero)
    have fits': "field_fits (bit flags FLAGS_LEFT) (bit flags FLAGS_ZEROPAD) (if bit flags FLAGS_PRECISION then Some (unat prec) else None)
      (unat width) (length (sign_str negative flags)) (length ds)" using fits unfolding ds_def p_def .
    show ?thesis unfolding p_def by (rule field_chars[OF hash _ _ ds' fits']) (use prec in blast)+
  qed
  finally show ?thesis .
qed

lemma int_field_zero: "int_field u b l z (Some p) w sg n = int_field u b l z' (Some p) w sg n"
  by (simp add: int_field_def Let_def)

lemma unat_u32_of_int: "0 \<le> k \<Longrightarrow> k < 2 ^ 32 \<Longrightarrow> unat (word_of_int k :: u32) = nat k"
  by (simp add: unsigned_of_int take_bit_int_eq_self)

lemma magnitude_ok:
  fixes v :: u32
  assumes "sint v \<noteq> - (2 ^ 31)" shows "\<exists>a. magnitude v = Inr a \<and> unat a = nat \<bar>sint v\<bar>"
proof -
  have r: "- (2 ^ 31) \<le> sint v" "sint v < 2 ^ 31" using sint_ge[of v] sint_lt[of v] by simp_all
  have v: "word_of_int (sint v) = v" by simp
  show ?thesis
  proof (cases "sint v > 0")
    case True
    then have "unat v = nat \<bar>sint v\<bar>" using unat_u32_of_int[of "sint v"] r unfolding v by simp
    then show ?thesis using True by (intro exI[of _ v]) (simp add: magnitude_def)
  next
    case False
    have "0 - v = word_of_int (- sint v)" using v by simp
    then have "unat (0 - v) = nat \<bar>sint v\<bar>" using unat_u32_of_int[of "- sint v"] r False by (simp only:, simp)
    then show ?thesis using False assms by (intro exI[of _ "0 - v"]) (simp add: magnitude_def)
  qed
qed

lemma field_fits_zero: "field_fits l z (Some p) w a b = field_fits l z' (Some p) w a b"
  by (simp add: field_fits_def)

lemma ntoa_long_run:
  assumes g: "\<not> bit g FLAGS_HASH" "bit g FLAGS_UPPERCASE = up" "bit g FLAGS_LEFT = left" "bit g FLAGS_PRECISION = pr"
      "bit g FLAGS_ZEROPAD = (zero \<and> \<not> pr)"
    and prec: "\<not> pr \<Longrightarrow> prec = 0" and b: "unat basew = base" "2 \<le> base" and n: "unat a = n" and sg: "sg = sign_str neg g"
    and p: "p = (if pr then Some (unat prec) else None)"
    and fits: "field_fits left zero p (unat width) (length sg) (length (if p \<noteq> None \<and> n = 0 then [] else num_str up base n))"
  shows "ntoa_long f m a neg basew prec width g s = out_all f m (int_field up base left zero p (unat width) sg n) s"
proof -
  have a0: "a = 0 \<longleftrightarrow> n = 0" unfolding n[symmetric] by (simp add: unat_eq_zero)
  have p': "(if bit g FLAGS_PRECISION then Some (unat prec) else None) = p" using p g(4) by simp
  have f': "field_fits (bit g FLAGS_LEFT) (bit g FLAGS_ZEROPAD) p w x y = field_fits left zero p w x y" for w x y
    using g(3,5) p by (cases pr) (simp_all add: field_fits_zero[of left False _ _ _ _ zero])
  have i': "int_field up base (bit g FLAGS_LEFT) (bit g FLAGS_ZEROPAD) p w sg n = int_field up base left zero p w sg n" for w
    using g(3,5) p by (cases pr) (simp_all add: int_field_zero[of _ _ left False _ _ _ _ zero])
  have "ntoa_long f m a neg basew prec width g s =
    out_all f m (int_field (bit g FLAGS_UPPERCASE) (unat basew) (bit g FLAGS_LEFT) (bit g FLAGS_ZEROPAD)
      (if bit g FLAGS_PRECISION then Some (unat prec) else None) (unat width) (sign_str neg g) (unat a)) s"
  proof (rule ntoa_long_field)
    show "field_fits (bit g FLAGS_LEFT) (bit g FLAGS_ZEROPAD) (if bit g FLAGS_PRECISION then Some (unat prec) else None) (unat width)
      (length (sign_str neg g)) (length (if (if bit g FLAGS_PRECISION then Some (unat prec) else None) \<noteq> None \<and> a = 0 then []
        else num_str (bit g FLAGS_UPPERCASE) (unat basew) (unat a)))"
      unfolding p' f' a0 b(1) n g(2) sg[symmetric] by (rule fits)
  qed (use g b prec in auto)
  then show ?thesis unfolding p' b(1) n g(2) sg[symmetric] i' .
qed

lemma conv_int_field:
  assumes c: "c \<in> set ''diuxXo''"
    and flags: "\<not> bit flags FLAGS_HASH" "\<not> bit flags FLAGS_UPPERCASE" "\<not> bit flags FLAGS_CHAR" "\<not> bit flags FLAGS_SHORT"
      "\<not> bit flags FLAGS_LONG" "\<not> bit flags FLAGS_LONG_LONG"
    and prec: "\<not> bit flags FLAGS_PRECISION \<Longrightarrow> prec = 0"
    and base: "base = (if c \<in> set ''xX'' then 16 else if c = CHR ''o'' then 8 else 10)"
    and signed: "c \<in> set ''di'' \<Longrightarrow> sint v \<noteq> - (2 ^ 31) \<and> n = nat \<bar>sint v\<bar> \<and> sg = sign_str (sint v < 0) flags"
    and unsigned: "c \<notin> set ''di'' \<Longrightarrow> n = unat v \<and> sg = []"
    and p: "p = (if bit flags FLAGS_PRECISION then Some (unat prec) else None)"
    and fits: "field_fits (bit flags FLAGS_LEFT) (bit flags FLAGS_ZEROPAD) p (unat width) (length sg)
       (length (if p \<noteq> None \<and> n = 0 then [] else num_str (c = CHR ''X'') base n))"
  shows "conv_int f maxlen c prec width flags (VaInt v # vs) s =
     Inr (out_all f maxlen (int_field (c = CHR ''X'') base (bit flags FLAGS_LEFT) (bit flags FLAGS_ZEROPAD) p (unat width) sg n) s, vs)"
proof -
  have zf: "unset_bit FLAGS_HASH flags = flags" using flags(1) by (rule unset_clear)
  have b: "2 \<le> base" using base by simp
  show ?thesis
  proof (cases "c \<in> set ''di''")
    case True
    then obtain a where a: "magnitude v = Inr a" "unat a = n" using signed magnitude_ok by blast
    have cs: "c = CHR ''d'' \<or> c = CHR ''i''" using True by simp
    define g where "g = (if bit flags FLAGS_PRECISION then unset_bit FLAGS_ZEROPAD flags else flags)"
    have g: "bit g k \<longleftrightarrow> bit flags k \<and> \<not> (k = FLAGS_ZEROPAD \<and> bit flags FLAGS_PRECISION)" for k by (auto simp: g_def)
    have run: "conv_int f maxlen c prec width flags (VaInt v # vs) s = Inr (ntoa_long f maxlen a (sint v < 0) 10 prec width g s, vs)"
      using cs flags a zf by (auto simp: conv_int_def conv_signed_def Let_def g_def)
    have "sg = sign_str (sint v < 0) g" using signed True by (simp add: sign_str_def g)
    then show ?thesis unfolding run
      by (subst ntoa_long_run[where g = g and up = "c = CHR ''X''" and left = "bit flags FLAGS_LEFT" and pr = "bit flags FLAGS_PRECISION"
            and zero = "bit flags FLAGS_ZEROPAD" and base = base and n = n and sg = sg and p = p])
        (use flags prec base b a(2) p fits cs in \<open>auto simp: g\<close>)
  next
    case False
    have cs: "c = CHR ''u'' \<or> c = CHR ''x'' \<or> c = CHR ''X'' \<or> c = CHR ''o''" using c False by auto
    define g0 where "g0 = unset_bit FLAGS_SPACE (unset_bit FLAGS_PLUS (if c = CHR ''X'' then set_bit FLAGS_UPPERCASE flags else flags))"
    define g where "g = (if bit g0 FLAGS_PRECISION then unset_bit FLAGS_ZEROPAD g0 else g0)"
    have g: "bit g k \<longleftrightarrow> (k = FLAGS_UPPERCASE \<and> c = CHR ''X'' \<or> bit flags k) \<and> k \<noteq> FLAGS_PLUS \<and> k \<noteq> FLAGS_SPACE \<and>
       \<not> (k = FLAGS_ZEROPAD \<and> bit flags FLAGS_PRECISION)" for k by (auto simp: g_def g0_def)
    define bw where "bw = (if c = CHR ''x'' \<or> c = CHR ''X'' then 16 else if c = CHR ''o'' then 8 else 10 :: u32)"
    have run: "conv_int f maxlen c prec width flags (VaInt v # vs) s = Inr (ntoa_long f maxlen v False bw prec width g s, vs)"
      using cs flags zf by (auto simp: conv_int_def conv_unsigned_def Let_def g_def g0_def bw_def)
    have "sg = sign_str False g" using unsigned False by (simp add: sign_str_def g)
    then show ?thesis unfolding run
      by (subst ntoa_long_run[where g = g and up = "c = CHR ''X''" and left = "bit flags FLAGS_LEFT" and pr = "bit flags FLAGS_PRECISION"
            and zero = "bit flags FLAGS_ZEROPAD" and base = base and n = n and sg = sg and p = p])
        (use flags prec base b p fits cs unsigned False in \<open>auto simp: g bw_def\<close>)
  qed
qed

definition sk0 :: sink where "sk0 = \<lparr>sk_buf = (\<lambda>_. CHR 0x00), sk_putch = [], sk_fct = []\<rparr>"

text \<open>
  C13. Integer conversions print what the C standard says: for \<open>%d %i %u %x %X %o\<close> without \<open>#\<close> and
  without length modifiers, with every combination of the other flags and every argument (INT_MIN
  excepted for \<open>%d\<close> and \<open>%i\<close>), the characters written are the field of the standard, whenever
  \<open>field_fits\<close>: sign and digits, and what zero padding or the precision add to them, take at most the 32
  cells of the buffer, and the precision of a left-justified field is not above the number of its digits
  (it is ignored there, see \<open>printf_deviations\<close>).
\<close>

theorem integer_conversions:
  assumes c: "c \<in> set ''diuxXo''"
    and flags: "\<not> bit flags FLAGS_HASH" "\<not> bit flags FLAGS_UPPERCASE" "\<not> bit flags FLAGS_CHAR" "\<not> bit flags FLAGS_SHORT"
      "\<not> bit flags FLAGS_LONG" "\<not> bit flags FLAGS_LONG_LONG"
    and prec: "\<not> bit flags FLAGS_PRECISION \<Longrightarrow> prec = 0"
    and base: "base = (if c \<in> set ''xX'' then 16 else if c = CHR ''o'' then 8 else 10)"
    and signed: "c \<in> set ''di'' \<Longrightarrow> sint v \<noteq> - (2 ^ 31) \<and> n = nat \<bar>sint v\<bar> \<and> sg = sign_str (sint v < 0) flags"
    and unsigned: "c \<notin> set ''di'' \<Longrightarrow> n = unat v \<and> sg = []"
    and p: "p = (if bit flags FLAGS_PRECISION then Some (unat prec) else None)"
    and fits: "field_fits (bit flags FLAGS_LEFT) (bit flags FLAGS_ZEROPAD) p (unat width) (length sg)
       (length (if p \<noteq> None \<and> n = 0 then [] else num_str (c = CHR ''X'') base n))"
  shows "conv_int f maxlen c prec width flags (VaInt v # vs) s =
     Inr (out_all f maxlen (int_field (c = CHR ''X'') base (bit flags FLAGS_LEFT) (bit flags FLAGS_ZEROPAD) p (unat width) sg n) s, vs)"
  by (rule conv_int_field[OF c flags prec base signed unsigned p fits])

lemma char_codes: "char_of (52::nat) = CHR ''4''" "char_of (50::nat) = CHR ''2''" "char_of (66::nat) = CHR ''B''"
  "char_of (69::nat) = CHR ''E''" "char_of (70::nat) = CHR ''F''"
  by (simp_all add: char_of_def bit_Suc_0_iff)

lemma num_str_step:
  "base < 2 \<or> n < base \<Longrightarrow> num_str u base n = [char_of (if n < 10 then 48 + n else (if u then 65 else 97) + n - 10)]"
  "\<not> (base < 2 \<or> n < base) \<Longrightarrow> num_str u base n = num_str u base (n div base) @ [char_of (if n mod base < 10 then 48 + n mod base else (if u then 65 else 97) + n mod base - 10)]"
  by (subst num_str.simps, simp add: Let_def)+

lemma num_str_42: "num_str u 10 42 = ''42''"
  by (simp add: num_str_step char_codes)

lemma num_str_beef: "num_str True 16 48879 = ''BEEF''"
  by (simp add: num_str_step char_codes)

text \<open>\<open>%-+8d\<close> of 42, \<open>%08X\<close> of 0xBEEF.\<close>

theorem integer_conversions_witness:
  "conv_int OutChar (- 1) CHR ''d'' 0 8 6 [VaInt 42] (0, sk0) =
     Inr (out_all OutChar (- 1) (int_field False 10 True False None 8 ''+'' 42) (0, sk0), []) \<and>
   conv_int OutChar (- 1) CHR ''X'' 0 8 1 [VaInt 48879] (0, sk0) =
     Inr (out_all OutChar (- 1) (int_field True 16 False True None 8 [] 48879) (0, sk0), [])"
proof -
  have "conv_int OutChar (- 1) CHR ''d'' 0 8 6 [VaInt 42] (0, sk0) =
     Inr (out_all OutChar (- 1) (int_field (CHR ''d'' = CHR ''X'') 10 (bit (6::u32) FLAGS_LEFT) (bit (6::u32) FLAGS_ZEROPAD)
       None (unat (8::u32)) ''+'' 42) (0, sk0), [])"
    by (rule integer_conversions) (simp_all, simp_all add: sign_str_def field_fits_def num_str_42)
  moreover have "conv_int OutChar (- 1) CHR ''X'' 0 8 1 [VaInt 48879] (0, sk0) =
     Inr (out_all OutChar (- 1) (int_field (CHR ''X'' = CHR ''X'') 16 (bit (1::u32) FLAGS_LEFT) (bit (1::u32) FLAGS_ZEROPAD)
       None (unat (8::u32)) [] 48879) (0, sk0), [])"
    by (rule integer_conversions) (simp_all, simp_all add: field_fits_def num_str_beef)
  ultimately show ?thesis by simp
qed

section \<open>Reading a number back\<close>

lemma cstr_nth:
  "(\<And>i. i < length s \<Longrightarrow> m (a + of_nat i) = s ! i \<and> s ! i \<noteq> 0) \<Longrightarrow> m (a + of_nat (length s)) = 0 \<Longrightarrow> cstr m a s"
proof (induction s arbitrary: a)
  case (Cons c s)
  have "cstr m (a + 1) s"
  proof (rule Cons.IH)
    fix i assume "i < length s"
    then show "m (a + 1 + of_nat i) = s ! i \<and> s ! i \<noteq> 0" using Cons.prems(1)[of "Suc i"] by (simp add: ac_simps)
  next
    show "m (a + 1 + of_nat (length s)) = 0" using Cons.prems(2) by (simp add: ac_simps)
  qed
  then show ?case using Cons.prems(1)[of 0] by simp
qed simp

definition decimal :: "int \<Rightarrow> string \<Rightarrow> int" where
  "decimal = foldl (\<lambda>x c. x * 10 + (int (of_char c) - 48))"

lemma decimal_Cons: "decimal x (c # cs) = decimal (x * 10 + (int (of_char c) - 48)) cs"
  by (simp add: decimal_def)

definition digit_string :: "string \<Rightarrow> bool" where
  "digit_string cs \<longleftrightarrow> (\<forall>c \<in> set cs. 48 \<le> (of_char c :: nat) \<and> of_char c \<le> (57 :: nat))"

lemma decimal_mono: "digit_string cs \<Longrightarrow> 0 \<le> x \<Longrightarrow> x \<le> decimal x cs"
proof (induction cs arbitrary: x)
  case (Cons c cs)
  have "48 \<le> int (of_char c)" using Cons.prems(1) by (auto simp: digit_string_def)
  then have "x \<le> x * 10 + (int (of_char c) - 48)" using Cons.prems(2) by linarith
  moreover have "\<dots> \<le> decimal (x * 10 + (int (of_char c) - 48)) cs"
    by (rule Cons.IH) (use Cons.prems \<open>48 \<le> _\<close> in \<open>auto simp: digit_string_def\<close>)
  ultimately show ?case unfolding decimal_Cons by linarith
qed (simp add: decimal_def)

definition byte_of :: "char \<Rightarrow> u8" where
  "byte_of c = of_nat (of_char c)"

lemma uint_byte_of: "uint (byte_of c) = int (of_char c)"
proof -
  have "(of_char c :: nat) < 256" using nat_of_char_less_256[of c] by simp
  then show ?thesis by (simp add: byte_of_def unsigned_of_nat take_bit_nat_eq_self)
qed

lemma byte_of_eq_0: "byte_of c = 0 \<longleftrightarrow> (of_char c :: nat) = 0"
  unfolding word_uint_eq_iff uint_byte_of by simp

lemma atoi_loop_digits:
  assumes "cstr m p (map byte_of ds)" "digit_string ds" "0 \<le> x" "decimal x ds + 48 < 2 ^ 31"
  shows "atoi_loop m p x = Some (Inr (decimal x ds))"
  using assms
proof (induction ds arbitrary: p x)
  case Nil
  then show ?case by (subst atoi_loop.simps) (simp add: decimal_def)
next
  case (Cons c ds)
  have d: "48 \<le> int (of_char c)" "int (of_char c) \<le> 57" using Cons.prems(2) by (auto simp: digit_string_def)
  have mp: "m p = byte_of c" "cstr m (p + 1) (map byte_of ds)" using Cons.prems(1) by simp_all
  have dig: "0x30 \<le> m p \<and> m p \<le> 0x39" using d unfolding mp by (simp add: word_le_def uint_byte_of)
  let ?x = "x * 10 + (int (of_char c) - 48)"
  have ds: "digit_string ds" "0 \<le> ?x" using Cons.prems(2,3) d by (auto simp: digit_string_def)
  have "?x \<le> decimal ?x ds" by (rule decimal_mono[OF ds])
  then have lt: "x * 10 + uint (m p) < 2 ^ 31" using Cons.prems(4) unfolding mp uint_byte_of decimal_Cons by linarith
  have "atoi_loop m (p + 1) ?x = Some (Inr (decimal ?x ds))"
    by (rule Cons.IH[OF mp(2) ds]) (use Cons.prems(4) in \<open>simp add: decimal_Cons\<close>)
  moreover have "x * 10 + uint (m p) - 0x30 = ?x" unfolding mp uint_byte_of by simp
  ultimately have "atoi_loop m (p + 1) (x * 10 + uint (m p) - 0x30) = Some (Inr (decimal ?x ds))" by (simp only:)
  moreover have "atoi_loop m p x = atoi_loop m (p + 1) (x * 10 + uint (m p) - 0x30)"
    using dig lt by (subst atoi_loop.simps) simp
  ultimately show ?case by (simp only: decimal_Cons)
qed

lemma num_str_digits: "digit_string (num_str up 10 n) \<and> decimal 0 (num_str up 10 n) = int n \<and> num_str up 10 n \<noteq> []"
proof (induction n rule: less_induct)
  case (less n)
  have code: "of_char (char_of (48 + k) :: char) = (48 + k :: nat)" if "k < 10" for k :: nat
    using that by simp
  show ?case
  proof (cases "n < 10")
    case True
    then have "num_str up 10 n = [char_of (48 + n)]" by (subst num_str.simps) (simp add: Let_def)
    then show ?thesis using True code[OF True] by (simp add: digit_string_def decimal_def)
  next
    case False
    then have eq: "num_str up 10 n = num_str up 10 (n div 10) @ [char_of (48 + n mod 10)]" by (subst num_str.simps) (simp add: Let_def)
    have "n div 10 < n" using False by simp
    note IH = less[OF this]
    have c: "of_char (char_of (48 + n mod 10) :: char) = (48 + n mod 10 :: nat)" by (rule code) simp
    have "decimal 0 (num_str up 10 n) = int (n div 10) * 10 + int (n mod 10)"
      unfolding eq using IH c by (simp add: decimal_def)
    also have "\<dots> = int n" by (metis div_mult_mod_eq of_nat_add of_nat_mult of_nat_numeral)
    finally show ?thesis using IH c eq by (auto simp: digit_string_def)
  qed
qed

lemma atoi_loop_overflow:
  assumes "cstr m p (map byte_of ds)" "digit_string ds" "0 \<le> x" "2 ^ 31 \<le> decimal x ds + 48" "ds \<noteq> []"
  shows "atoi_loop m p x = Some (Inl (Undef ''atoi: signed overflow''))"
  using assms
proof (induction ds arbitrary: p x)
  case (Cons c ds)
  have d: "48 \<le> int (of_char c)" "int (of_char c) \<le> 57" using Cons.prems(2) by (auto simp: digit_string_def)
  have mp: "m p = byte_of c" "cstr m (p + 1) (map byte_of ds)" using Cons.prems(1) by simp_all
  have dig: "0x30 \<le> m p \<and> m p \<le> 0x39" using d unfolding mp by (simp add: word_le_def uint_byte_of)
  let ?x = "x * 10 + (int (of_char c) - 48)"
  have x: "x * 10 + uint (m p) - 0x30 = ?x" unfolding mp uint_byte_of by simp
  show ?case
  proof (cases "x * 10 + uint (m p) < 2 ^ 31")
    case True
    have "ds \<noteq> []" using True Cons.prems(4) x by (auto simp: decimal_def)
    moreover have "digit_string ds" "0 \<le> ?x" using Cons.prems(2,3) d by (auto simp: digit_string_def)
    ultimately have "atoi_loop m (p + 1) ?x = Some (Inl (Undef ''atoi: signed overflow''))"
      using Cons.IH[OF mp(2)] Cons.prems(4) by (simp add: decimal_Cons)
    then have "atoi_loop m (p + 1) (x * 10 + uint (m p) - 0x30) = Some (Inl (Undef ''atoi: signed overflow''))" by (simp only: x)
    then show ?thesis using dig True by (subst atoi_loop.simps) simp
  next
    case False
    then show ?thesis using dig by (subst atoi_loop.simps) simp
  qed
qed simp

text \<open>\<open>atoi\<close> on a text that does not begin with a blank.\<close>

lemma atoi_no_space: "cstr m p (map byte_of (c # cs)) \<Longrightarrow> (of_char c :: nat) \<noteq> 32 \<Longrightarrow> atoi m p = atoi_loop m p 0"
proof -
  assume "cstr m p (map byte_of (c # cs))" and c: "(of_char c :: nat) \<noteq> 32"
  then have "uint (m p) = int (of_char c)" by (simp add: uint_byte_of)
  then have "uint (m p) \<noteq> 32" using c by linarith
  then have "m p \<noteq> 0x20" by auto
  then have "skip_spaces m p = Some p" by (subst skip_spaces.simps) simp
  then show ?thesis by (simp add: atoi_def)
qed

text \<open>What \<open>%d\<close> prints.\<close>

definition signed_str :: "int \<Rightarrow> string" where
  "signed_str v = (if v < 0 then ''-'' else []) @ num_str False 10 (nat \<bar>v\<bar>)"

lemma signed_str_length: "length (signed_str (sint (v :: u32))) \<le> 11"
proof -
  have "nat \<bar>sint v\<bar> < 10 ^ Suc 9" using sint_lt[of v] sint_ge[of v] by simp
  from num_str_length[of 10 _ 9 False, OF _ this] have "length (num_str False 10 (nat \<bar>sint v\<bar>)) \<le> 10" by simp
  moreover have "length (if sint v < 0 then ''-'' else []) \<le> 1" by simp
  ultimately show ?thesis unfolding signed_str_def length_append by linarith
qed

lemma signed_str_ne: "c \<in> set (signed_str v) \<Longrightarrow> (of_char c :: nat) \<noteq> 0 \<and> (of_char c :: nat) \<noteq> 32"
proof -
  assume "c \<in> set (signed_str v)"
  then have "c = CHR ''-'' \<or> c \<in> set (num_str False 10 (nat \<bar>v\<bar>))" by (auto simp: signed_str_def split: if_splits)
  moreover have "(of_char c :: nat) \<ge> 48" if "c \<in> set (num_str False 10 (nat \<bar>v\<bar>))"
    using num_str_digits[of False "nat \<bar>v\<bar>"] that by (auto simp: digit_string_def)
  moreover have "(of_char CHR ''-'' :: nat) = 45" by simp
  ultimately show ?thesis by fastforce
qed

lemma sprintf_d:
  assumes "- (2 ^ 31) < sint v"
  shows "\<exists>p. klib_sprintf False ''%d'' [VaInt v] sk = Inr p \<and> stored (signed_str (sint v)) (- 1) p sk"
proof -
  define cs where "cs = signed_str (sint v)"
  define sg where "sg = (if sint v < 0 then ''-'' else [])"
  have field: "int_field False 10 False False None 0 sg (nat \<bar>sint v\<bar>) = cs"
    by (simp add: int_field_def Let_def cs_def signed_str_def sg_def)
  have len: "length sg + length (num_str False 10 (nat \<bar>sint v\<bar>)) \<le> 32"
    using signed_str_length[of v] by (simp add: signed_str_def sg_def)
  have conv: "conv_int OutBuffer (- 1) CHR ''d'' 0 0 0 [VaInt v] s = Inr (out_all OutBuffer (- 1) cs s, [])" for s
  proof -
    have "conv_int OutBuffer (- 1) CHR ''d'' 0 0 0 [VaInt v] s = Inr (out_all OutBuffer (- 1)
        (int_field (CHR ''d'' = CHR ''X'') 10 (bit (0::u32) FLAGS_LEFT) (bit (0::u32) FLAGS_ZEROPAD) None (unat (0::u32)) sg (nat \<bar>sint v\<bar>)) s, [])"
      by (rule conv_int_field) (use assms len in \<open>auto simp: sign_str_def sg_def field_fits_def\<close>)
    then show ?thesis using field by simp
  qed
  have "conversion OutBuffer (- 1) ''d'' [VaInt v] s = Inr ([], [], out_all OutBuffer (- 1) cs s)" for s
    by (simp add: conversion_def parse_width_def parse_precision_def parse_length_def cur_def p_is_digit_def Let_def conv)
  then have "vsnprintf_loop OutBuffer (- 1) ''%d'' [VaInt v] s = Inr (out_all OutBuffer (- 1) cs s)" for s by simp
  then have "klib_sprintf False ''%d'' [VaInt v] sk = Inr (of_nat (length cs),
      out OutBuffer CHR 0x00 (if of_nat (length cs) < (- 1 :: u32) then of_nat (length cs) else - 1 - 1) (- 1) (snd (out_all OutBuffer (- 1) cs (0, sk))))"
    using fst_out_all[of OutBuffer "- 1" cs "(0, sk)"]
    by (simp add: klib_sprintf_def vsnprintf_core_def split_def cong: if_cong)
  then show ?thesis using core_OutBuffer[of cs "- 1" sk] unfolding cs_def by blast
qed

lemma sprintf_cstr:
  assumes "- (2 ^ 31) < sint v"
  shows "\<exists>n sk'. klib_sprintf False ''%d'' [VaInt v] sk = Inr (n, sk') \<and>
     cstr (\<lambda>a. byte_of (sk_buf sk' (unat a))) 0 (map byte_of (signed_str (sint v)))"
proof -
  define cs where "cs = signed_str (sint v)"
  obtain n sk' where run: "klib_sprintf False ''%d'' [VaInt v] sk = Inr (n, sk')" "stored cs (- 1) (n, sk') sk"
    using sprintf_d[OF assms(1), of sk] unfolding cs_def by auto
  have len: "length cs \<le> 11" unfolding cs_def by (rule signed_str_length)
  have m1: "unat (- 1 :: u32) = 2 ^ 32 - 1" by (simp add: unsigned_minus_1_eq_mask mask_eq_exp_minus_1)
  have mn: "min (length cs) (unat (- 1 :: u32) - 1) = length cs" using len unfolding m1 by simp
  have buf: "sk_buf sk' = (\<lambda>i. if i < length cs then cs ! i else if i = length cs then CHR 0x00 else sk_buf sk i)"
    using run(2) len unfolding stored_def Let_def mn by simp
  have "cstr (\<lambda>a. byte_of (sk_buf sk' (unat a))) 0 (map byte_of cs)"
  proof (rule cstr_nth)
    fix i assume i: "i < length (map byte_of cs)"
    then have "unat (0 + of_nat i :: u32) = i" using len unat_of_nat_lt[of i] by simp
    moreover have "byte_of (cs ! i) \<noteq> 0" using signed_str_ne[of "cs ! i" "sint v"] i unfolding byte_of_eq_0 cs_def by simp
    ultimately show "byte_of (sk_buf sk' (unat (0 + of_nat i :: u32))) = map byte_of cs ! i \<and> map byte_of cs ! i \<noteq> 0"
      using i by (simp add: buf)
  next
    have "unat (0 + of_nat (length (map byte_of cs)) :: u32) = length cs" using len unat_of_nat_lt[of "length cs"] by simp
    then show "byte_of (sk_buf sk' (unat (0 + of_nat (length (map byte_of cs)) :: u32))) = 0" by (simp add: buf byte_of_def)
  qed
  then show ?thesis using run(1) unfolding cs_def by blast
qed

lemma atoi_signed_str:
  assumes "cstr m p (map byte_of (signed_str v))"
  shows "atoi m p = Some (if v < 0 then Inr 0 else if v + 48 < 2 ^ 31 then Inr v else Inl (Undef ''atoi: signed overflow''))"
proof -
  obtain c cs where cs: "signed_str v = c # cs"
    using num_str_digits[of False "nat \<bar>v\<bar>"] by (cases "signed_str v") (auto simp: signed_str_def split: if_splits)
  have loop: "atoi m p = atoi_loop m p 0"
    by (rule atoi_no_space[of m p c cs]) (use assms cs signed_str_ne[of c v] in auto)
  show ?thesis
  proof (cases "v < 0")
    case True
    then have "signed_str v = CHR ''-'' # num_str False 10 (nat \<bar>v\<bar>)" by (simp add: signed_str_def)
    then have "m p = byte_of CHR ''-''" using assms by simp
    then have "uint (m p) = 45" by (simp add: uint_byte_of)
    then have "\<not> 0x30 \<le> m p" by (simp add: word_le_def)
    then show ?thesis unfolding loop using True by (subst atoi_loop.simps) simp
  next
    case False
    then have "digit_string (signed_str v)" "decimal 0 (signed_str v) = v" "signed_str v \<noteq> []"
      using num_str_digits[of False "nat \<bar>v\<bar>"] by (simp_all add: signed_str_def)
    then show ?thesis
      unfolding loop using False atoi_loop_digits[OF assms] atoi_loop_overflow[OF assms] by simp
  qed
qed

definition printed_text :: "string \<Rightarrow> va list \<Rightarrow> string" where
  "printed_text fmt vs = (case klib_printf fmt vs sk0 of Inr (n, sk) \<Rightarrow> sk_putch sk | Inl e \<Rightarrow> [])"

text \<open>
  C26. Reading back with \<open>atoi\<close> what \<open>sprintf(buf, "%d", v)\<close> stores, for every int but INT_MIN: a nonnegative
  \<open>v\<close> comes back, up to 48 below INT_MAX; for the values above that the last digit overflows a signed int
  (\<open>atoi\<close> adds the character before it subtracts '0'); and every negative \<open>v\<close> reads as 0, because \<open>atoi\<close>
  does not read a sign.
\<close>

theorem sprintf_atoi_roundtrip:
  assumes "- (2 ^ 31) < sint v"
  shows "\<exists>n sk'. klib_sprintf False ''%d'' [VaInt v] sk = Inr (n, sk') \<and>
     atoi (\<lambda>a. byte_of (sk_buf sk' (unat a))) 0 =
       Some (if sint v < 0 then Inr 0 else if sint v + 48 < 2 ^ 31 then Inr (sint v) else Inl (Undef ''atoi: signed overflow''))"
  using sprintf_cstr[OF assms, of sk] atoi_signed_str by blast

theorem sprintf_atoi_roundtrip_witness:
  "(\<exists>n sk'. klib_sprintf False ''%d'' [VaInt 20260] sk0 = Inr (n, sk') \<and>
     atoi (\<lambda>a. byte_of (sk_buf sk' (unat a))) 0 = Some (Inr 20260)) \<and>
   (\<exists>n sk'. klib_sprintf False ''%d'' [VaInt (- 7)] sk0 = Inr (n, sk') \<and>
     atoi (\<lambda>a. byte_of (sk_buf sk' (unat a))) 0 = Some (Inr 0))"
  using sprintf_atoi_roundtrip [of 20260 sk0] sprintf_atoi_roundtrip [of "- 7" sk0] by simp

text \<open>
  Formats on which klib differs from the C standard: with \<open>-\<close> the precision is lost (\<open>%-8.5d\<close>
  should print three zeros), zero padding stops at the 32 cells of the buffer (\<open>%040d\<close> prints 32
  characters), and \<open>%hhd\<close> reads its argument as a \<open>char\<close> that is unsigned on the target (so -1
  prints as 255), while \<open>%hd\<close> and the fields that fit are as the standard has them.
\<close>

theorem printf_deviations:
  "printed_text ''%.5d'' [VaInt 42] = ''00042'' \<and>
   printed_text ''%-8.5d|'' [VaInt 42] = ''42      |'' \<and>
   printed_text ''%032d'' [VaInt 7] = replicate 31 CHR ''0'' @ ''7'' \<and>
   length (printed_text ''%040d'' [VaInt 7]) = 32 \<and>
   printed_text ''%hhd'' [VaInt (- 1)] = ''255'' \<and> printed_text ''%hd'' [VaInt (- 1)] = ''-1''"
  by code_simp

end
