(* ===== verification/Nes.thy ===== *)
theory Nes
  imports NemuPrelude
begin

text \<open>
  The LiteNES emulator that comes with the kernels (\<open>am-kernels/kernels/litenes/src\<close>), first part:
  its state, the bit helpers of \<open>common.c\<close>, the registers of the picture unit (\<open>ppu.c\<close>), the joystick
  (\<open>psg.c\<close>), the cartridge (\<open>mmc.c\<close>) and the memory map that routes an access to them
  (\<open>memory.c\<close>). Arrays whose index type cannot leave them are functions on that type; an access that
  can leave its array is guarded. A C \<open>int\<close> that stays small is an \<open>int\<close>.
\<close>

section \<open>State\<close>

record nes_cpu =
  cpu_PC :: u16
  cpu_SP :: u8
  cpu_A :: u8
  cpu_X :: u8
  cpu_Y :: u8
  cpu_P :: u8

record ppu_state =
  PPUCTRL :: u8
  PPUMASK :: u8
  PPUSTATUS :: u8
  OAMADDR :: u8
  PPUSCROLL :: u16
  PPUSCROLL_X :: u8
  PPUSCROLL_Y :: u8
  PPUADDR :: u16
  PPUDATA :: u16
  scroll_received_x :: bool
  addr_received_high_byte :: bool
  ppu_ready :: bool
  mirroring :: u8
  mirroring_xor :: u16
  ppu_scanline :: int
  ppu_2007_first_read :: bool
  ppu_addr_latch :: u8
  ppu_latch :: u8
  PPU_SPRRAM :: "u8 \<Rightarrow> u8"
  PPU_RAM :: "u16 \<Rightarrow> u8"
  ppu_sprite_hit_occured :: bool
  ppu_screen_background :: "int \<times> int \<Rightarrow> u8"

record psg_state =
  psg_p :: int
  key_state :: "nat \<Rightarrow> u8"
  prev_write :: u8

record mmc_state =
  mmc_id :: u8
  mmc_chr_pages :: "u16 \<Rightarrow> u8"
  mmc_chr_pages_number :: nat
  mmc_memory :: "u16 \<Rightarrow> u8"

record fce_state =
  frame_cnt :: int
  canvas :: "int \<Rightarrow> u32"
  screens :: "(int \<Rightarrow> u32) list"

record nes =
  cpu_regs :: nes_cpu
  CPU_RAM :: "u16 \<Rightarrow> u8"
  op_value :: int
  op_address :: int
  op_cycles :: int
  cpu_cycles :: u64
  ppu :: ppu_state
  psg :: psg_state
  mmc :: mmc_state
  fce :: fce_state

definition upd_cpu :: "(nes_cpu \<Rightarrow> nes_cpu) \<Rightarrow> nes \<Rightarrow> nes" where
  "upd_cpu f s = s\<lparr>cpu_regs := f (cpu_regs s)\<rparr>"

definition upd_ppu :: "(ppu_state \<Rightarrow> ppu_state) \<Rightarrow> nes \<Rightarrow> nes" where
  "upd_ppu f s = s\<lparr>ppu := f (ppu s)\<rparr>"

section \<open>Bits\<close>

definition common_bit_set :: "'a::len word \<Rightarrow> nat \<Rightarrow> bool" where
  "common_bit_set value position \<longleftrightarrow> value AND push_bit position 1 \<noteq> 0"

definition common_set_bit :: "'a::len word \<Rightarrow> nat \<Rightarrow> 'a word" where
  "common_set_bit v position = v OR push_bit position 1"

definition common_unset_bit :: "'a::len word \<Rightarrow> nat \<Rightarrow> 'a word" where
  "common_unset_bit v position = v AND NOT (push_bit position 1)"

definition common_toggle_bit :: "'a::len word \<Rightarrow> nat \<Rightarrow> 'a word" where
  "common_toggle_bit v position = v XOR push_bit position 1"

definition common_modify_bit :: "'a::len word \<Rightarrow> nat \<Rightarrow> bool \<Rightarrow> 'a word" where
  "common_modify_bit v position b = (if b then common_set_bit v position else common_unset_bit v position)"

section \<open>Registers of the picture unit\<close>

definition ppu_base_nametable_address :: "ppu_state \<Rightarrow> u16" where
  "ppu_base_nametable_address q = [0x2000, 0x2400, 0x2800, 0x2C00] ! unat (PPUCTRL q AND 3)"

definition ppu_vram_address_increment :: "ppu_state \<Rightarrow> u16" where
  "ppu_vram_address_increment q = (if common_bit_set (PPUCTRL q) 2 then 32 else 1)"

definition ppu_sprite_pattern_table_address :: "ppu_state \<Rightarrow> u16" where
  "ppu_sprite_pattern_table_address q = (if common_bit_set (PPUCTRL q) 3 then 0x1000 else 0)"

definition ppu_background_pattern_table_address :: "ppu_state \<Rightarrow> u16" where
  "ppu_background_pattern_table_address q = (if common_bit_set (PPUCTRL q) 4 then 0x1000 else 0)"

definition ppu_sprite_height :: "ppu_state \<Rightarrow> int" where
  "ppu_sprite_height q = (if common_bit_set (PPUCTRL q) 5 then 16 else 8)"

definition ppu_generates_nmi :: "ppu_state \<Rightarrow> bool" where
  "ppu_generates_nmi q = common_bit_set (PPUCTRL q) 7"

definition ppu_shows_background_in_leftmost_8px :: "ppu_state \<Rightarrow> bool" where
  "ppu_shows_background_in_leftmost_8px q = common_bit_set (PPUMASK q) 1"

definition ppu_shows_background :: "ppu_state \<Rightarrow> bool" where
  "ppu_shows_background q = common_bit_set (PPUMASK q) 3"

definition ppu_shows_sprites :: "ppu_state \<Rightarrow> bool" where
  "ppu_shows_sprites q = common_bit_set (PPUMASK q) 4"

definition ppu_set_sprite_overflow :: "bool \<Rightarrow> ppu_state \<Rightarrow> ppu_state" where
  "ppu_set_sprite_overflow yesno q = q\<lparr>PPUSTATUS := common_modify_bit (PPUSTATUS q) 5 yesno\<rparr>"

definition ppu_set_sprite_0_hit :: "bool \<Rightarrow> ppu_state \<Rightarrow> ppu_state" where
  "ppu_set_sprite_0_hit yesno q = q\<lparr>PPUSTATUS := common_modify_bit (PPUSTATUS q) 6 yesno\<rparr>"

definition ppu_set_in_vblank :: "bool \<Rightarrow> ppu_state \<Rightarrow> ppu_state" where
  "ppu_set_in_vblank yesno q = q\<lparr>PPUSTATUS := common_modify_bit (PPUSTATUS q) 7 yesno\<rparr>"

text \<open>The palette is mirrored; addresses past the 16 KiB give 0xFFFF, which is outside \<open>PPU_RAM\<close>.\<close>

definition ppu_get_real_ram_address :: "u16 \<Rightarrow> u16" where
  "ppu_get_real_ram_address address =
     (if address < 0x3F00 then address
      else if address < 0x4000 then
        (let a = 0x3F00 OR (address AND 0x1F)
         in if a \<in> {0x3F10, 0x3F14, 0x3F18, 0x3F1C} then a - 0x10 else a)
      else 0xFFFF)"

definition ppu_ram_read :: "u16 \<Rightarrow> ppu_state \<Rightarrow> u8 res" where
  "ppu_ram_read address q =
     (let a = ppu_get_real_ram_address address
      in guardR (a < 0x4000) (Undef ''PPU_RAM'') (Inr (PPU_RAM q a)))"

definition ppu_ram_write :: "u16 \<Rightarrow> u8 \<Rightarrow> ppu_state \<Rightarrow> ppu_state res" where
  "ppu_ram_write address data q =
     (let a = ppu_get_real_ram_address address
      in guardR (a < 0x4000) (Undef ''PPU_RAM'') (Inr (q\<lparr>PPU_RAM := (PPU_RAM q)(a := data)\<rparr>)))"

text \<open>The whole 8 KiB pattern area is copied from address 0.\<close>

definition ppu_copy :: "(u16 \<Rightarrow> u8) \<Rightarrow> ppu_state \<Rightarrow> ppu_state" where
  "ppu_copy source q = q\<lparr>PPU_RAM := (\<lambda>a. if a < 0x2000 then source a else PPU_RAM q a)\<rparr>"

definition ppuio_read :: "u16 \<Rightarrow> ppu_state \<Rightarrow> (u8 \<times> ppu_state) res" where
  "ppuio_read address q0 =
     (let q = q0\<lparr>PPUADDR := PPUADDR q0 AND 0x3FFF\<rparr>
      in if address AND 7 = 2 then
           (let value = PPUSTATUS q;
                q1 = ppu_set_sprite_0_hit False (ppu_set_in_vblank False q)
            in Inr (value, q1\<lparr>scroll_received_x := False, PPUSCROLL := 0, addr_received_high_byte := False,
                 ppu_latch := value, ppu_addr_latch := 0, ppu_2007_first_read := True\<rparr>))
         else if address AND 7 = 4 then
           Inr (PPU_SPRRAM q (OAMADDR q), q\<lparr>ppu_latch := PPU_SPRRAM q (OAMADDR q)\<rparr>)
         else if address AND 7 = 7 then
           bindR (ppu_ram_read (PPUADDR q) q) (\<lambda>data.
             let q1 = q\<lparr>ppu_latch := (if PPUADDR q < 0x3F00 then data else 0)\<rparr>
             in Inr (data, if ppu_2007_first_read q1 then q1\<lparr>ppu_2007_first_read := False\<rparr>
                           else q1\<lparr>PPUADDR := PPUADDR q1 + ppu_vram_address_increment q1\<rparr>))
         else Inr (0xFF, q))"

definition ppuio_write :: "u16 \<Rightarrow> u8 \<Rightarrow> ppu_state \<Rightarrow> ppu_state res" where
  "ppuio_write address0 data q0 =
     (let address = address0 AND 7;
          q = q0\<lparr>ppu_latch := data, PPUADDR := PPUADDR q0 AND 0x3FFF\<rparr>
      in if address = 0 then Inr (if ppu_ready q then q\<lparr>PPUCTRL := data\<rparr> else q)
         else if address = 1 then Inr (if ppu_ready q then q\<lparr>PPUMASK := data\<rparr> else q)
         else if address = 3 then Inr (q\<lparr>OAMADDR := data\<rparr>)
         else if address = 4 then Inr (q\<lparr>PPU_SPRRAM := (PPU_SPRRAM q)(OAMADDR q := data), OAMADDR := OAMADDR q + 1\<rparr>)
         else if address = 5 then
           Inr ((if scroll_received_x q then q\<lparr>PPUSCROLL_Y := data\<rparr> else q\<lparr>PPUSCROLL_X := data\<rparr>)
                \<lparr>scroll_received_x := \<not> scroll_received_x q\<rparr>)
         else if address = 6 then
           Inr (if \<not> ppu_ready q then q
                else (if addr_received_high_byte q
                      then q\<lparr>PPUADDR := push_bit 8 (ucast (ppu_addr_latch q)) + ucast data\<rparr>
                      else q\<lparr>ppu_addr_latch := data\<rparr>)
                     \<lparr>addr_received_high_byte := \<not> addr_received_high_byte q, ppu_2007_first_read := True\<rparr>)
         else if address = 7 then
           (if PPUADDR q > 0x1FFF \<or> PPUADDR q < 0x4000
            then bindR (ppu_ram_write (PPUADDR q XOR mirroring_xor q) data q) (ppu_ram_write (PPUADDR q) data)
            else ppu_ram_write (PPUADDR q) data q)
         else Inr q)"

definition ppu_init :: "ppu_state \<Rightarrow> ppu_state" where
  "ppu_init q = q\<lparr>PPUCTRL := 0, PPUMASK := 0, PPUSTATUS := 0xA0, OAMADDR := 0, PPUSCROLL_X := 0, PPUSCROLL_Y := 0,
     PPUADDR := 0, PPUDATA := 0, ppu_2007_first_read := True\<rparr>"

definition ppu_sprram_write :: "u8 \<Rightarrow> ppu_state \<Rightarrow> ppu_state" where
  "ppu_sprram_write data q = q\<lparr>PPU_SPRRAM := (PPU_SPRRAM q)(OAMADDR q := data), OAMADDR := OAMADDR q + 1\<rparr>"

definition ppu_set_mirroring :: "u8 \<Rightarrow> ppu_state \<Rightarrow> ppu_state" where
  "ppu_set_mirroring m q = q\<lparr>mirroring := m, mirroring_xor := push_bit (unat m) 0x400\<rparr>"

section \<open>Joystick\<close>

text \<open>\<open>MAP\<close>: the AM key codes of J, K, U, I, W, S, A and D between the two ends.\<close>

definition MAP :: "nat list" where
  "MAP = [0, 49, 50, 35, 36, 30, 44, 43, 45, 255]"

definition psgio_read :: "u16 \<Rightarrow> psg_state \<Rightarrow> (u8 \<times> psg_state) res" where
  "psgio_read address g =
     (if address = 0x4016 then
        guardR (psg_p g < 2 ^ 31 - 1) (Undef ''psgio_read: p++'')
          (let p = psg_p g + 1; g1 = g\<lparr>psg_p := p\<rparr>
           in Inr (if psg_p g < 9 then key_state g (MAP ! nat p) else 0, g1))
      else Inr (0, g))"

definition psgio_write :: "u16 \<Rightarrow> u8 \<Rightarrow> psg_state \<Rightarrow> psg_state" where
  "psgio_write address data g =
     (let g1 = (if address = 0x4016 \<and> data AND 1 = 0 \<and> prev_write g = 1 then g\<lparr>psg_p := 0\<rparr> else g)
      in g1\<lparr>prev_write := data AND 1\<rparr>)"

text \<open>The events read until AM_KEY_NONE.\<close>

definition psg_detect_key :: "(nat \<times> bool) list \<Rightarrow> psg_state \<Rightarrow> psg_state" where
  "psg_detect_key evs g =
     foldl (\<lambda>g (keycode, keydown). g\<lparr>key_state := (key_state g)(keycode := of_bool keydown)\<rparr>) g
       (takeWhile (\<lambda>(keycode, keydown). keycode \<noteq> 0) evs)"

definition psg_init :: "psg_state \<Rightarrow> psg_state" where
  "psg_init g = g\<lparr>key_state := (key_state g)(0 := 1)\<rparr>"

section \<open>Cartridge\<close>

definition mmc_read :: "u16 \<Rightarrow> mmc_state \<Rightarrow> u8" where
  "mmc_read address c = mmc_memory c address"

text \<open>There is one page; mapper 3 selects one of four.\<close>

definition mmc_write :: "u16 \<Rightarrow> u8 \<Rightarrow> nes \<Rightarrow> nes res" where
  "mmc_write address data s =
     bindR (if mmc_id (mmc s) = 3
            then guardR (data AND 3 < 1) (Undef ''mmc_chr_pages'') (Inr (upd_ppu (ppu_copy (mmc_chr_pages (mmc s))) s))
            else Inr s)
       (\<lambda>s1. Inr (s1\<lparr>mmc := (mmc s1)\<lparr>mmc_memory := (mmc_memory (mmc s1))(address := data)\<rparr>\<rparr>))"

definition mmc_copy :: "u16 \<Rightarrow> u8 list \<Rightarrow> mmc_state \<Rightarrow> mmc_state res" where
  "mmc_copy address source c =
     guardR (unat address + length source \<le> 0x10000) (Undef ''mmc_copy'')
       (Inr (c\<lparr>mmc_memory := (\<lambda>a. if address \<le> a \<and> unat (a - address) < length source
          then source ! unat (a - address) else mmc_memory c a)\<rparr>))"

definition mmc_append_chr_rom_page :: "(u16 \<Rightarrow> u8) \<Rightarrow> mmc_state \<Rightarrow> mmc_state res" where
  "mmc_append_chr_rom_page source c =
     guardR (mmc_chr_pages_number c < 1) (AssertFail ''mmc_append_chr_rom_page'')
       (Inr (c\<lparr>mmc_chr_pages := source, mmc_chr_pages_number := mmc_chr_pages_number c + 1\<rparr>))"

section \<open>The memory map\<close>

definition cpu_ram_read :: "u16 \<Rightarrow> nes \<Rightarrow> u8" where
  "cpu_ram_read address s = CPU_RAM s (address AND 0x7FF)"

definition cpu_ram_write :: "u16 \<Rightarrow> u8 \<Rightarrow> nes \<Rightarrow> nes" where
  "cpu_ram_write address data s = s\<lparr>CPU_RAM := (CPU_RAM s)(address AND 0x7FF := data)\<rparr>"

definition memory_readb :: "u16 \<Rightarrow> nes \<Rightarrow> (u8 \<times> nes) res" where
  "memory_readb address s =
     (let k = drop_bit 13 address
      in if k = 0 then Inr (cpu_ram_read (address AND 0x7FF) s, s)
         else if k = 1 then bindR (ppuio_read address (ppu s)) (\<lambda>(v, q). Inr (v, s\<lparr>ppu := q\<rparr>))
         else if k = 2 then bindR (psgio_read address (psg s)) (\<lambda>(v, g). Inr (v, s\<lparr>psg := g\<rparr>))
         else if k = 3 then Inr (cpu_ram_read (address AND 0x1FFF) s, s)
         else Inr (mmc_read address (mmc s), s))"

definition dma_transfer :: "u8 \<Rightarrow> nes \<Rightarrow> nes" where
  "dma_transfer data s =
     upd_ppu (\<lambda>q. foldl (\<lambda>q i. ppu_sprram_write (cpu_ram_read (0x100 * ucast data + i) s) q) q (map of_nat [0..<256])) s"

definition memory_writeb :: "u16 \<Rightarrow> u8 \<Rightarrow> nes \<Rightarrow> nes res" where
  "memory_writeb address data s =
     (if address = 0x4014 then Inr (dma_transfer data s)
      else let k = drop_bit 13 address
        in if k = 0 then Inr (cpu_ram_write (address AND 0x7FF) data s)
           else if k = 1 then bindR (ppuio_write address data (ppu s)) (\<lambda>q. Inr (s\<lparr>ppu := q\<rparr>))
           else if k = 2 then Inr (s\<lparr>psg := psgio_write address data (psg s)\<rparr>)
           else if k = 3 then Inr (cpu_ram_write (address AND 0x1FFF) data s)
           else mmc_write address data s)"

text \<open>C leaves the order of the two reads open; here the low byte comes first.\<close>

definition memory_readw :: "u16 \<Rightarrow> nes \<Rightarrow> (u16 \<times> nes) res" where
  "memory_readw address s =
     bindR (memory_readb address s) (\<lambda>(l, s1).
     bindR (memory_readb (address + 1) s1) (\<lambda>(h, s2). Inr (ucast l + push_bit 8 (ucast h), s2)))"

definition memory_writew :: "u16 \<Rightarrow> u16 \<Rightarrow> nes \<Rightarrow> nes res" where
  "memory_writew address data s =
     bindR (memory_writeb address (ucast (data AND 0xFF)) s) (memory_writeb (address + 1) (ucast (drop_bit 8 data)))"

end
