(* ===== verification/NesCpu.thy ===== *)
theory NesCpu
  imports Nes "HOL-Library.Signed_Division"
begin

text \<open>
  The 6502 of LiteNES (\<open>litenes/src/cpu.c\<close> and \<open>cpu-addressing.c\<close>): addressing modes, the handler of
  every instruction, the table \<open>cpu_init\<close> fills, and the loop. \<open>op_value\<close> and \<open>op_address\<close> are the C
  globals through which an addressing mode passes its operand to the handler. The loop ends only
  by counting cycles; an opcode without a table entry counts none, so it is a partial function.
\<close>

section \<open>Flags and the stack\<close>

abbreviation (input) carry_bp :: nat where "carry_bp \<equiv> 0"
abbreviation (input) zero_bp :: nat where "zero_bp \<equiv> 1"
abbreviation (input) interrupt_bp :: nat where "interrupt_bp \<equiv> 2"
abbreviation (input) decimal_bp :: nat where "decimal_bp \<equiv> 3"
abbreviation (input) unused_bp :: nat where "unused_bp \<equiv> 5"
abbreviation (input) overflow_bp :: nat where "overflow_bp \<equiv> 6"
abbreviation (input) negative_bp :: nat where "negative_bp \<equiv> 7"

abbreviation (input) zero_flag :: u8 where "zero_flag \<equiv> 0x02"
abbreviation (input) interrupt_flag :: u8 where "interrupt_flag \<equiv> 0x04"
abbreviation (input) break_flag :: u8 where "break_flag \<equiv> 0x10"
abbreviation (input) unused_flag :: u8 where "unused_flag \<equiv> 0x20"
abbreviation (input) negative_flag :: u8 where "negative_flag \<equiv> 0x80"

definition cpu_zn_flag_table :: "u8 list" where
  "cpu_zn_flag_table = zero_flag # replicate 127 0 @ replicate 128 negative_flag"

abbreviation (input) rPC where "rPC s \<equiv> cpu_PC (cpu_regs s)"
abbreviation (input) rSP where "rSP s \<equiv> cpu_SP (cpu_regs s)"
abbreviation (input) rA where "rA s \<equiv> cpu_A (cpu_regs s)"
abbreviation (input) rX where "rX s \<equiv> cpu_X (cpu_regs s)"
abbreviation (input) rY where "rY s \<equiv> cpu_Y (cpu_regs s)"
abbreviation (input) rP where "rP s \<equiv> cpu_P (cpu_regs s)"

definition set_PC :: "u16 \<Rightarrow> nes \<Rightarrow> nes" where "set_PC v = upd_cpu (\<lambda>r. r\<lparr>cpu_PC := v\<rparr>)"
definition set_SP :: "u8 \<Rightarrow> nes \<Rightarrow> nes" where "set_SP v = upd_cpu (\<lambda>r. r\<lparr>cpu_SP := v\<rparr>)"
definition set_A :: "u8 \<Rightarrow> nes \<Rightarrow> nes" where "set_A v = upd_cpu (\<lambda>r. r\<lparr>cpu_A := v\<rparr>)"
definition set_X :: "u8 \<Rightarrow> nes \<Rightarrow> nes" where "set_X v = upd_cpu (\<lambda>r. r\<lparr>cpu_X := v\<rparr>)"
definition set_Y :: "u8 \<Rightarrow> nes \<Rightarrow> nes" where "set_Y v = upd_cpu (\<lambda>r. r\<lparr>cpu_Y := v\<rparr>)"
definition set_P :: "u8 \<Rightarrow> nes \<Rightarrow> nes" where "set_P v = upd_cpu (\<lambda>r. r\<lparr>cpu_P := v\<rparr>)"

definition cpu_flag_set :: "nat \<Rightarrow> nes \<Rightarrow> bool" where
  "cpu_flag_set flag s = common_bit_set (rP s) flag"

definition cpu_modify_flag :: "nat \<Rightarrow> bool \<Rightarrow> nes \<Rightarrow> nes" where
  "cpu_modify_flag flag v s = set_P (common_modify_bit (rP s) flag v) s"

definition cpu_set_flag :: "nat \<Rightarrow> nes \<Rightarrow> nes" where
  "cpu_set_flag flag s = set_P (common_set_bit (rP s) flag) s"

definition cpu_unset_flag :: "nat \<Rightarrow> nes \<Rightarrow> nes" where
  "cpu_unset_flag flag s = set_P (common_unset_bit (rP s) flag) s"

definition cpu_update_zn_flags :: "u8 \<Rightarrow> nes \<Rightarrow> nes" where
  "cpu_update_zn_flags v s =
     set_P ((rP s AND NOT (zero_flag OR negative_flag)) OR cpu_zn_flag_table ! unat v) s"

definition cpu_stack_pushb :: "u8 \<Rightarrow> nes \<Rightarrow> nes res" where
  "cpu_stack_pushb data s = memory_writeb (0x100 + ucast (rSP s)) data (set_SP (rSP s - 1) s)"

definition cpu_stack_pushw :: "u16 \<Rightarrow> nes \<Rightarrow> nes res" where
  "cpu_stack_pushw data s =
     bindR (memory_writew (0xFF + ucast (rSP s)) data s) (\<lambda>s1. Inr (set_SP (rSP s1 - 2) s1))"

definition cpu_stack_popb :: "nes \<Rightarrow> (u8 \<times> nes) res" where
  "cpu_stack_popb s = (let s1 = set_SP (rSP s + 1) s in memory_readb (0x100 + ucast (rSP s1)) s1)"

definition cpu_stack_popw :: "nes \<Rightarrow> (u16 \<times> nes) res" where
  "cpu_stack_popw s = (let s1 = set_SP (rSP s + 2) s in memory_readw (0xFF + ucast (rSP s1)) s1)"

definition cpu_nmi_interrupt_address :: "nes \<Rightarrow> (u16 \<times> nes) res" where
  "cpu_nmi_interrupt_address s = memory_readw 0xFFFA s"

definition cpu_reset_interrupt_address :: "nes \<Rightarrow> (u16 \<times> nes) res" where
  "cpu_reset_interrupt_address s = memory_readw 0xFFFC s"

section \<open>Addressing modes\<close>

definition cpu_address_implied :: "nes \<Rightarrow> nes res" where
  "cpu_address_implied s = Inr s"

definition word_arg :: "int \<Rightarrow> u16" where
  "word_arg i = word_of_int i"

text \<open>\<open>op_value\<close> is the byte at \<open>op_address\<close>.\<close>

definition fetch_value :: "int \<Rightarrow> nes \<Rightarrow> nes res" where
  "fetch_value addr s =
     bindR (memory_readb (word_arg addr) s) (\<lambda>(v, s1). Inr (s1\<lparr>op_address := addr, op_value := uint v\<rparr>))"

definition zero_page_value :: "int \<Rightarrow> nes \<Rightarrow> nes" where
  "zero_page_value addr s =
     (let s1 = s\<lparr>op_address := addr, op_value := uint (CPU_RAM s (word_arg addr))\<rparr> in set_PC (rPC s1 + 1) s1)"

definition add_page_cycle :: "nes \<Rightarrow> nes" where
  "add_page_cycle s =
     (if drop_bit 8 (op_address s) \<noteq> drop_bit 8 (uint (rPC s)) then s\<lparr>op_cycles := op_cycles s + 1\<rparr> else s)"

definition cpu_address_immediate :: "nes \<Rightarrow> nes res" where
  "cpu_address_immediate s =
     bindR (memory_readb (rPC s) s) (\<lambda>(v, s1). Inr (set_PC (rPC s1 + 1) (s1\<lparr>op_value := uint v\<rparr>)))"

definition cpu_address_zero_page :: "nes \<Rightarrow> nes res" where
  "cpu_address_zero_page s = bindR (memory_readb (rPC s) s) (\<lambda>(v, s1). Inr (zero_page_value (uint v) s1))"

definition cpu_address_zero_page_x :: "nes \<Rightarrow> nes res" where
  "cpu_address_zero_page_x s =
     bindR (memory_readb (rPC s) s) (\<lambda>(v, s1). Inr (zero_page_value ((uint v + uint (rX s1)) AND 0xFF) s1))"

definition cpu_address_zero_page_y :: "nes \<Rightarrow> nes res" where
  "cpu_address_zero_page_y s =
     bindR (memory_readb (rPC s) s) (\<lambda>(v, s1). Inr (zero_page_value ((uint v + uint (rY s1)) AND 0xFF) s1))"

definition cpu_address_absolute :: "nes \<Rightarrow> nes res" where
  "cpu_address_absolute s =
     bindR (memory_readw (rPC s) s) (\<lambda>(w, s1).
     bindR (fetch_value (uint w) s1) (\<lambda>s2. Inr (set_PC (rPC s2 + 2) s2)))"

definition cpu_address_absolute_x :: "nes \<Rightarrow> nes res" where
  "cpu_address_absolute_x s =
     bindR (memory_readw (rPC s) s) (\<lambda>(w, s1).
     bindR (fetch_value (uint w + uint (rX s1)) s1) (\<lambda>s2. Inr (add_page_cycle (set_PC (rPC s2 + 2) s2))))"

definition cpu_address_absolute_y :: "nes \<Rightarrow> nes res" where
  "cpu_address_absolute_y s =
     bindR (memory_readw (rPC s) s) (\<lambda>(w, s1).
     bindR (fetch_value ((uint w + uint (rY s1)) AND 0xFFFF) s1) (\<lambda>s2. Inr (add_page_cycle (set_PC (rPC s2 + 2) s2))))"

definition cpu_address_relative :: "nes \<Rightarrow> nes res" where
  "cpu_address_relative s =
     bindR (memory_readb (rPC s) s) (\<lambda>(v, s1).
       let s2 = set_PC (rPC s1 + 1) s1;
           off = (if uint v AND 0x80 \<noteq> 0 then uint v - 0x100 else uint v)
       in Inr (add_page_cycle (s2\<lparr>op_address := off + uint (rPC s2)\<rparr>)))"

definition cpu_address_indirect :: "nes \<Rightarrow> nes res" where
  "cpu_address_indirect s =
     bindR (memory_readw (rPC s) s) (\<lambda>(arg_addr, s1).
     bindR (if arg_addr AND 0xFF = 0xFF
            then bindR (memory_readb (arg_addr AND 0xFF00) s1) (\<lambda>(h, s2).
                 bindR (memory_readb arg_addr s2) (\<lambda>(l, s3). Inr (push_bit 8 (uint h) + uint l, s3)))
            else bindR (memory_readw arg_addr s1) (\<lambda>(w, s2). Inr (uint w, s2)))
       (\<lambda>(a, s4). Inr (set_PC (rPC s4 + 2) (s4\<lparr>op_address := a\<rparr>))))"

definition cpu_address_indirect_x :: "nes \<Rightarrow> nes res" where
  "cpu_address_indirect_x s =
     bindR (memory_readb (rPC s) s) (\<lambda>(arg_addr, s1).
     bindR (memory_readb (word_arg ((uint arg_addr + uint (rX s1) + 1) AND 0xFF)) s1) (\<lambda>(h, s2).
     bindR (memory_readb (word_arg ((uint arg_addr + uint (rX s2)) AND 0xFF)) s2) (\<lambda>(l, s3).
     bindR (fetch_value (push_bit 8 (uint h) OR uint l) s3) (\<lambda>s4. Inr (set_PC (rPC s4 + 1) s4)))))"

definition cpu_address_indirect_y :: "nes \<Rightarrow> nes res" where
  "cpu_address_indirect_y s =
     bindR (memory_readb (rPC s) s) (\<lambda>(arg_addr, s1).
     bindR (memory_readb (word_arg ((uint arg_addr + 1) AND 0xFF)) s1) (\<lambda>(h, s2).
     bindR (memory_readb (ucast arg_addr) s2) (\<lambda>(l, s3).
     bindR (fetch_value (((push_bit 8 (uint h) OR uint l) + uint (rY s3)) AND 0xFFFF) s3) (\<lambda>s4.
       Inr (add_page_cycle (set_PC (rPC s4 + 1) s4))))))"

section \<open>Arithmetic and bits\<close>

definition cpu_op_adc :: "nes \<Rightarrow> nes" where
  "cpu_op_adc s =
     (let result = uint (rA s) + op_value s + (if cpu_flag_set carry_bp s then 1 else 0);
          s1 = cpu_modify_flag carry_bp (result AND 0x100 \<noteq> 0) s;
          s2 = cpu_modify_flag overflow_bp
                 (NOT (uint (rA s1) XOR op_value s1) AND (uint (rA s1) XOR result) AND 0x80 \<noteq> 0) s1;
          s3 = set_A (word_of_int (result AND 0xFF)) s2
      in cpu_update_zn_flags (rA s3) s3)"

definition cpu_op_sbc :: "nes \<Rightarrow> nes" where
  "cpu_op_sbc s =
     (let result = uint (rA s) - op_value s - (if cpu_flag_set carry_bp s then 0 else 1);
          s1 = cpu_modify_flag carry_bp (result AND 0x100 = 0) s;
          s2 = cpu_modify_flag overflow_bp
                 ((uint (rA s1) XOR op_value s1) AND (uint (rA s1) XOR result) AND 0x80 \<noteq> 0) s1;
          s3 = set_A (word_of_int (result AND 0xFF)) s2
      in cpu_update_zn_flags (rA s3) s3)"

text \<open>\<open>cpu.A = v\<close> with the flags of the byte assigned.\<close>

definition load_A :: "u8 \<Rightarrow> nes \<Rightarrow> nes" where
  "load_A v s = cpu_update_zn_flags v (set_A v s)"

definition cpu_op_and :: "nes \<Rightarrow> nes" where
  "cpu_op_and s = load_A (rA s AND word_of_int (op_value s)) s"

definition cpu_op_bit :: "nes \<Rightarrow> nes" where
  "cpu_op_bit s =
     (let s1 = cpu_modify_flag zero_bp (uint (rA s) AND op_value s = 0) s
      in set_P ((rP s1 AND 0x3F) OR (0xC0 AND word_of_int (op_value s1))) s1)"

definition cpu_op_eor :: "nes \<Rightarrow> nes" where
  "cpu_op_eor s = load_A (rA s XOR word_of_int (op_value s)) s"

definition cpu_op_ora :: "nes \<Rightarrow> nes" where
  "cpu_op_ora s = load_A (rA s OR word_of_int (op_value s)) s"

definition cpu_op_asla :: "nes \<Rightarrow> nes" where
  "cpu_op_asla s =
     (let s1 = cpu_modify_flag carry_bp (rA s AND 0x80 \<noteq> 0) s in load_A (push_bit 1 (rA s1)) s1)"

text \<open>\<open>memory_writeb(op_address, op_value)\<close>\<close>

definition write_back :: "nes \<Rightarrow> nes res" where
  "write_back s = memory_writeb (word_arg (op_address s)) (word_of_int (op_value s)) s"

definition zn_op_value :: "nes \<Rightarrow> nes" where
  "zn_op_value s = cpu_update_zn_flags (word_of_int (op_value s)) s"

definition cpu_op_asl :: "nes \<Rightarrow> nes res" where
  "cpu_op_asl s =
     (let s1 = cpu_modify_flag carry_bp (op_value s AND 0x80 \<noteq> 0) s
      in write_back (zn_op_value (s1\<lparr>op_value := push_bit 1 (op_value s1) AND 0xFF\<rparr>)))"

definition cpu_op_lsra :: "nes \<Rightarrow> nes" where
  "cpu_op_lsra s =
     (let v = drop_bit 1 (rA s) in load_A v (cpu_modify_flag carry_bp (rA s AND 1 \<noteq> 0) s))"

definition cpu_op_lsr :: "nes \<Rightarrow> nes res" where
  "cpu_op_lsr s =
     (let s1 = cpu_modify_flag carry_bp (op_value s AND 1 \<noteq> 0) s
      in bindR (write_back (s1\<lparr>op_value := drop_bit 1 (op_value s1) AND 0xFF\<rparr>)) (\<lambda>s2. Inr (zn_op_value s2)))"

definition cpu_op_rola :: "nes \<Rightarrow> nes" where
  "cpu_op_rola s =
     (let v = push_bit 1 (uint (rA s)) OR (if cpu_flag_set carry_bp s then 1 else 0);
          s1 = cpu_modify_flag carry_bp (v > 0xFF) s
      in load_A (word_of_int (v AND 0xFF)) s1)"

definition cpu_op_rol :: "nes \<Rightarrow> nes res" where
  "cpu_op_rol s =
     (let v = push_bit 1 (op_value s) OR (if cpu_flag_set carry_bp s then 1 else 0);
          s1 = cpu_modify_flag carry_bp (v > 0xFF) s
      in bindR (write_back (s1\<lparr>op_value := v AND 0xFF\<rparr>)) (\<lambda>s2. Inr (zn_op_value s2)))"

definition cpu_op_rora :: "nes \<Rightarrow> nes" where
  "cpu_op_rora s =
     (let carry = cpu_flag_set carry_bp s;
          s1 = cpu_modify_flag carry_bp (rA s AND 1 \<noteq> 0) s;
          s2 = set_A (drop_bit 1 (rA s1) OR (if carry then 0x80 else 0)) s1;
          s3 = cpu_modify_flag zero_bp (rA s2 = 0) s2
      in cpu_modify_flag negative_bp carry s3)"

definition cpu_op_ror :: "nes \<Rightarrow> nes res" where
  "cpu_op_ror s =
     (let carry = cpu_flag_set carry_bp s;
          s1 = cpu_modify_flag carry_bp (op_value s AND 1 \<noteq> 0) s;
          s2 = s1\<lparr>op_value := (drop_bit 1 (op_value s1) OR (if carry then 0x80 else 0)) AND 0xFF\<rparr>;
          s3 = cpu_modify_flag zero_bp (op_value s2 = 0) s2
      in write_back (cpu_modify_flag negative_bp carry s3))"

section \<open>Loads, stores and transfers\<close>

definition load_X :: "u8 \<Rightarrow> nes \<Rightarrow> nes" where
  "load_X v s = cpu_update_zn_flags v (set_X v s)"

definition load_Y :: "u8 \<Rightarrow> nes \<Rightarrow> nes" where
  "load_Y v s = cpu_update_zn_flags v (set_Y v s)"

definition cpu_op_lda :: "nes \<Rightarrow> nes" where "cpu_op_lda s = load_A (word_of_int (op_value s)) s"
definition cpu_op_ldx :: "nes \<Rightarrow> nes" where "cpu_op_ldx s = load_X (word_of_int (op_value s)) s"
definition cpu_op_ldy :: "nes \<Rightarrow> nes" where "cpu_op_ldy s = load_Y (word_of_int (op_value s)) s"

definition store_reg :: "u8 \<Rightarrow> nes \<Rightarrow> nes res" where
  "store_reg v s = memory_writeb (word_arg (op_address s)) v s"

definition cpu_op_sta :: "nes \<Rightarrow> nes res" where "cpu_op_sta s = store_reg (rA s) s"
definition cpu_op_stx :: "nes \<Rightarrow> nes res" where "cpu_op_stx s = store_reg (rX s) s"
definition cpu_op_sty :: "nes \<Rightarrow> nes res" where "cpu_op_sty s = store_reg (rY s) s"

definition cpu_op_tax :: "nes \<Rightarrow> nes" where "cpu_op_tax s = load_X (rA s) s"
definition cpu_op_txa :: "nes \<Rightarrow> nes" where "cpu_op_txa s = load_A (rX s) s"
definition cpu_op_tay :: "nes \<Rightarrow> nes" where "cpu_op_tay s = load_Y (rA s) s"
definition cpu_op_tya :: "nes \<Rightarrow> nes" where "cpu_op_tya s = load_A (rY s) s"
definition cpu_op_tsx :: "nes \<Rightarrow> nes" where "cpu_op_tsx s = load_X (rSP s) s"
definition cpu_op_txs :: "nes \<Rightarrow> nes" where "cpu_op_txs s = set_SP (rX s) s"

section \<open>Branches, jumps and interrupts\<close>

definition cpu_branch :: "bool \<Rightarrow> nes \<Rightarrow> nes" where
  "cpu_branch flag s = (if flag then set_PC (word_arg (op_address s)) s else s)"

definition cpu_op_bcs :: "nes \<Rightarrow> nes" where "cpu_op_bcs s = cpu_branch (cpu_flag_set carry_bp s) s"
definition cpu_op_beq :: "nes \<Rightarrow> nes" where "cpu_op_beq s = cpu_branch (cpu_flag_set zero_bp s) s"
definition cpu_op_bmi :: "nes \<Rightarrow> nes" where "cpu_op_bmi s = cpu_branch (cpu_flag_set negative_bp s) s"
definition cpu_op_bvs :: "nes \<Rightarrow> nes" where "cpu_op_bvs s = cpu_branch (cpu_flag_set overflow_bp s) s"
definition cpu_op_bne :: "nes \<Rightarrow> nes" where "cpu_op_bne s = cpu_branch (\<not> cpu_flag_set zero_bp s) s"
definition cpu_op_bcc :: "nes \<Rightarrow> nes" where "cpu_op_bcc s = cpu_branch (\<not> cpu_flag_set carry_bp s) s"
definition cpu_op_bpl :: "nes \<Rightarrow> nes" where "cpu_op_bpl s = cpu_branch (\<not> cpu_flag_set negative_bp s) s"
definition cpu_op_bvc :: "nes \<Rightarrow> nes" where "cpu_op_bvc s = cpu_branch (\<not> cpu_flag_set overflow_bp s) s"

definition cpu_op_jmp :: "nes \<Rightarrow> nes" where
  "cpu_op_jmp s = set_PC (word_arg (op_address s)) s"

definition cpu_op_jsr :: "nes \<Rightarrow> nes res" where
  "cpu_op_jsr s = bindR (cpu_stack_pushw (rPC s - 1) s) (\<lambda>s1. Inr (set_PC (word_arg (op_address s1)) s1))"

definition cpu_op_rts :: "nes \<Rightarrow> nes res" where
  "cpu_op_rts s = bindR (cpu_stack_popw s) (\<lambda>(w, s1). Inr (set_PC (w + 1) s1))"

definition cpu_op_brk :: "nes \<Rightarrow> nes res" where
  "cpu_op_brk s =
     bindR (cpu_stack_pushw (rPC s - 1) s) (\<lambda>s1.
     bindR (cpu_stack_pushb (rP s1) s1) (\<lambda>s2.
     bindR (cpu_nmi_interrupt_address (set_P (rP s2 OR (unused_flag OR break_flag)) s2)) (\<lambda>(w, s3).
       Inr (set_PC w s3))))"

definition cpu_op_rti :: "nes \<Rightarrow> nes res" where
  "cpu_op_rti s =
     bindR (cpu_stack_popb s) (\<lambda>(v, s1).
     bindR (cpu_stack_popw (set_P (v OR unused_flag) s1)) (\<lambda>(w, s2). Inr (set_PC w s2)))"

section \<open>Flag instructions\<close>

definition cpu_op_clc :: "nes \<Rightarrow> nes" where "cpu_op_clc s = cpu_unset_flag carry_bp s"
definition cpu_op_cld :: "nes \<Rightarrow> nes" where "cpu_op_cld s = cpu_unset_flag decimal_bp s"
definition cpu_op_cli :: "nes \<Rightarrow> nes" where "cpu_op_cli s = cpu_unset_flag interrupt_bp s"
definition cpu_op_clv :: "nes \<Rightarrow> nes" where "cpu_op_clv s = cpu_unset_flag overflow_bp s"
definition cpu_op_sec :: "nes \<Rightarrow> nes" where "cpu_op_sec s = cpu_set_flag carry_bp s"
definition cpu_op_sed :: "nes \<Rightarrow> nes" where "cpu_op_sed s = cpu_set_flag decimal_bp s"
definition cpu_op_sei :: "nes \<Rightarrow> nes" where "cpu_op_sei s = cpu_set_flag interrupt_bp s"

section \<open>Comparison, counting, the stack\<close>

definition cpu_compare :: "u8 \<Rightarrow> nes \<Rightarrow> nes" where
  "cpu_compare reg s =
     (let result = uint reg - op_value s
      in cpu_modify_flag negative_bp (drop_bit 7 result AND 1 \<noteq> 0)
           (cpu_modify_flag zero_bp (result = 0) (cpu_modify_flag carry_bp (result \<ge> 0) s)))"

definition cpu_op_cmp :: "nes \<Rightarrow> nes" where "cpu_op_cmp s = cpu_compare (rA s) s"
definition cpu_op_cpx :: "nes \<Rightarrow> nes" where "cpu_op_cpx s = cpu_compare (rX s) s"
definition cpu_op_cpy :: "nes \<Rightarrow> nes" where "cpu_op_cpy s = cpu_compare (rY s) s"

definition write_result :: "u8 \<Rightarrow> nes \<Rightarrow> nes res" where
  "write_result result s = bindR (store_reg result s) (\<lambda>s1. Inr (cpu_update_zn_flags result s1))"

definition cpu_op_inc :: "nes \<Rightarrow> nes res" where "cpu_op_inc s = write_result (word_of_int (op_value s + 1)) s"
definition cpu_op_dec :: "nes \<Rightarrow> nes res" where "cpu_op_dec s = write_result (word_of_int (op_value s - 1)) s"
definition cpu_op_inx :: "nes \<Rightarrow> nes" where "cpu_op_inx s = load_X (rX s + 1) s"
definition cpu_op_iny :: "nes \<Rightarrow> nes" where "cpu_op_iny s = load_Y (rY s + 1) s"
definition cpu_op_dex :: "nes \<Rightarrow> nes" where "cpu_op_dex s = load_X (rX s - 1) s"
definition cpu_op_dey :: "nes \<Rightarrow> nes" where "cpu_op_dey s = load_Y (rY s - 1) s"

definition cpu_op_php :: "nes \<Rightarrow> nes res" where "cpu_op_php s = cpu_stack_pushb (rP s OR 0x30) s"
definition cpu_op_pha :: "nes \<Rightarrow> nes res" where "cpu_op_pha s = cpu_stack_pushb (rA s) s"

definition cpu_op_pla :: "nes \<Rightarrow> nes res" where
  "cpu_op_pla s = bindR (cpu_stack_popb s) (\<lambda>(v, s1). Inr (load_A v s1))"

definition cpu_op_plp :: "nes \<Rightarrow> nes res" where
  "cpu_op_plp s = bindR (cpu_stack_popb s) (\<lambda>(v, s1). Inr (set_P ((v AND 0xEF) OR 0x20) s1))"

section \<open>Instructions of other processors\<close>

definition cpu_op_aso :: "nes \<Rightarrow> nes res" where
  "cpu_op_aso s = bindR (cpu_op_asl s) (\<lambda>s1. Inr (cpu_op_ora s1))"

definition cpu_op_axa :: "nes \<Rightarrow> nes res" where
  "cpu_op_axa s = store_reg (rA s AND rX s AND word_of_int (drop_bit 8 (op_address s))) s"

definition cpu_op_axs :: "nes \<Rightarrow> nes res" where
  "cpu_op_axs s = store_reg (rA s AND rX s) s"

definition cpu_op_dcm :: "nes \<Rightarrow> nes res" where
  "cpu_op_dcm s = bindR (write_back (s\<lparr>op_value := (op_value s - 1) AND 0xFF\<rparr>)) (\<lambda>s1. Inr (cpu_op_cmp s1))"

definition cpu_op_ins :: "nes \<Rightarrow> nes res" where
  "cpu_op_ins s = bindR (write_back (s\<lparr>op_value := (op_value s + 1) AND 0xFF\<rparr>)) (\<lambda>s1. Inr (cpu_op_sbc s1))"

definition cpu_op_lax :: "nes \<Rightarrow> nes" where
  "cpu_op_lax s = load_A (word_of_int (op_value s)) (set_X (word_of_int (op_value s)) s)"

definition cpu_op_lse :: "nes \<Rightarrow> nes res" where
  "cpu_op_lse s = bindR (cpu_op_lsr s) (\<lambda>s1. Inr (cpu_op_eor s1))"

definition cpu_op_rla :: "nes \<Rightarrow> nes res" where
  "cpu_op_rla s = bindR (cpu_op_rol s) (\<lambda>s1. Inr (cpu_op_and s1))"

definition cpu_op_rra :: "nes \<Rightarrow> nes res" where
  "cpu_op_rra s = bindR (cpu_op_ror s) (\<lambda>s1. Inr (cpu_op_adc s1))"

section \<open>The table\<close>

type_synonym nes_fn = "nes \<Rightarrow> nes res"

definition pure_op :: "(nes \<Rightarrow> nes) \<Rightarrow> nes_fn" where
  "pure_op f s = Inr (f s)"

definition FE :: "nes \<Rightarrow> nes" where "FE s = s"
definition cpu_op_nop :: "nes \<Rightarrow> nes" where "cpu_op_nop s = s"

text \<open>
  Opcode, cycles, handler and addressing mode, in the order of \<open>cpu_init\<close>: the base instruction
  set, the instructions of other processors, and those that are not implemented. The names and the
  marks of the base instruction set are written and never read.
\<close>

definition cpu_bis_table :: "(u8 \<times> int \<times> nes_fn \<times> nes_fn) list" where
  "cpu_bis_table =
   [(0x00, 7, cpu_op_brk, cpu_address_implied), (0x01, 6, pure_op cpu_op_ora, cpu_address_indirect_x),
    (0x05, 3, pure_op cpu_op_ora, cpu_address_zero_page), (0x06, 5, cpu_op_asl, cpu_address_zero_page),
    (0x08, 3, cpu_op_php, cpu_address_implied), (0x09, 2, pure_op cpu_op_ora, cpu_address_immediate),
    (0x0A, 2, pure_op cpu_op_asla, cpu_address_implied), (0x0D, 4, pure_op cpu_op_ora, cpu_address_absolute),
    (0x0E, 6, cpu_op_asl, cpu_address_absolute), (0x10, 2, pure_op cpu_op_bpl, cpu_address_relative),
    (0x11, 5, pure_op cpu_op_ora, cpu_address_indirect_y), (0x15, 4, pure_op cpu_op_ora, cpu_address_zero_page_x),
    (0x16, 6, cpu_op_asl, cpu_address_zero_page_x), (0x18, 2, pure_op cpu_op_clc, cpu_address_implied),
    (0x19, 4, pure_op cpu_op_ora, cpu_address_absolute_y), (0x1D, 4, pure_op cpu_op_ora, cpu_address_absolute_x),
    (0x1E, 7, cpu_op_asl, cpu_address_absolute_x), (0x20, 6, cpu_op_jsr, cpu_address_absolute),
    (0x21, 6, pure_op cpu_op_and, cpu_address_indirect_x), (0x24, 3, pure_op cpu_op_bit, cpu_address_zero_page),
    (0x25, 3, pure_op cpu_op_and, cpu_address_zero_page), (0x26, 5, cpu_op_rol, cpu_address_zero_page),
    (0x28, 4, cpu_op_plp, cpu_address_implied), (0x29, 2, pure_op cpu_op_and, cpu_address_immediate),
    (0x2A, 2, pure_op cpu_op_rola, cpu_address_implied), (0x2C, 4, pure_op cpu_op_bit, cpu_address_absolute),
    (0x2D, 2, pure_op cpu_op_and, cpu_address_absolute), (0x2E, 6, cpu_op_rol, cpu_address_absolute),
    (0x30, 2, pure_op cpu_op_bmi, cpu_address_relative), (0x31, 5, pure_op cpu_op_and, cpu_address_indirect_y),
    (0x35, 4, pure_op cpu_op_and, cpu_address_zero_page_x), (0x36, 6, cpu_op_rol, cpu_address_zero_page_x),
    (0x38, 2, pure_op cpu_op_sec, cpu_address_implied), (0x39, 4, pure_op cpu_op_and, cpu_address_absolute_y),
    (0x3D, 4, pure_op cpu_op_and, cpu_address_absolute_x), (0x3E, 7, cpu_op_rol, cpu_address_absolute_x),
    (0x40, 6, cpu_op_rti, cpu_address_implied), (0x41, 6, pure_op cpu_op_eor, cpu_address_indirect_x),
    (0x45, 3, pure_op cpu_op_eor, cpu_address_zero_page), (0x46, 5, cpu_op_lsr, cpu_address_zero_page),
    (0x48, 3, cpu_op_pha, cpu_address_implied), (0x49, 2, pure_op cpu_op_eor, cpu_address_immediate),
    (0x4A, 2, pure_op cpu_op_lsra, cpu_address_implied), (0x4C, 3, pure_op cpu_op_jmp, cpu_address_absolute),
    (0x4D, 4, pure_op cpu_op_eor, cpu_address_absolute), (0x4E, 6, cpu_op_lsr, cpu_address_absolute),
    (0x50, 2, pure_op cpu_op_bvc, cpu_address_relative), (0x51, 5, pure_op cpu_op_eor, cpu_address_indirect_y),
    (0x55, 4, pure_op cpu_op_eor, cpu_address_zero_page_x), (0x56, 6, cpu_op_lsr, cpu_address_zero_page_x),
    (0x58, 2, pure_op cpu_op_cli, cpu_address_implied), (0x59, 4, pure_op cpu_op_eor, cpu_address_absolute_y),
    (0x5D, 4, pure_op cpu_op_eor, cpu_address_absolute_x), (0x5E, 7, cpu_op_lsr, cpu_address_absolute_x),
    (0x60, 6, cpu_op_rts, cpu_address_implied), (0x61, 6, pure_op cpu_op_adc, cpu_address_indirect_x),
    (0x65, 3, pure_op cpu_op_adc, cpu_address_zero_page), (0x66, 5, cpu_op_ror, cpu_address_zero_page),
    (0x68, 4, cpu_op_pla, cpu_address_implied), (0x69, 2, pure_op cpu_op_adc, cpu_address_immediate),
    (0x6A, 2, pure_op cpu_op_rora, cpu_address_implied), (0x6C, 5, pure_op cpu_op_jmp, cpu_address_indirect),
    (0x6D, 4, pure_op cpu_op_adc, cpu_address_absolute), (0x6E, 6, cpu_op_ror, cpu_address_absolute),
    (0x70, 2, pure_op cpu_op_bvs, cpu_address_relative), (0x71, 5, pure_op cpu_op_adc, cpu_address_indirect_y),
    (0x75, 4, pure_op cpu_op_adc, cpu_address_zero_page_x), (0x76, 6, cpu_op_ror, cpu_address_zero_page_x),
    (0x78, 2, pure_op cpu_op_sei, cpu_address_implied), (0x79, 4, pure_op cpu_op_adc, cpu_address_absolute_y),
    (0x7D, 4, pure_op cpu_op_adc, cpu_address_absolute_x), (0x7E, 7, cpu_op_ror, cpu_address_absolute_x),
    (0x81, 6, cpu_op_sta, cpu_address_indirect_x), (0x84, 3, cpu_op_sty, cpu_address_zero_page),
    (0x85, 3, cpu_op_sta, cpu_address_zero_page), (0x86, 3, cpu_op_stx, cpu_address_zero_page),
    (0x88, 2, pure_op cpu_op_dey, cpu_address_implied), (0x8A, 2, pure_op cpu_op_txa, cpu_address_implied),
    (0x8C, 4, cpu_op_sty, cpu_address_absolute), (0x8D, 4, cpu_op_sta, cpu_address_absolute),
    (0x8E, 4, cpu_op_stx, cpu_address_absolute), (0x90, 2, pure_op cpu_op_bcc, cpu_address_relative),
    (0x91, 6, cpu_op_sta, cpu_address_indirect_y), (0x94, 4, cpu_op_sty, cpu_address_zero_page_x),
    (0x95, 4, cpu_op_sta, cpu_address_zero_page_x), (0x96, 4, cpu_op_stx, cpu_address_zero_page_y),
    (0x98, 2, pure_op cpu_op_tya, cpu_address_implied), (0x99, 5, cpu_op_sta, cpu_address_absolute_y),
    (0x9A, 2, pure_op cpu_op_txs, cpu_address_implied), (0x9D, 5, cpu_op_sta, cpu_address_absolute_x),
    (0xA0, 2, pure_op cpu_op_ldy, cpu_address_immediate), (0xA1, 6, pure_op cpu_op_lda, cpu_address_indirect_x),
    (0xA2, 2, pure_op cpu_op_ldx, cpu_address_immediate), (0xA4, 3, pure_op cpu_op_ldy, cpu_address_zero_page),
    (0xA5, 3, pure_op cpu_op_lda, cpu_address_zero_page), (0xA6, 3, pure_op cpu_op_ldx, cpu_address_zero_page),
    (0xA8, 2, pure_op cpu_op_tay, cpu_address_implied), (0xA9, 2, pure_op cpu_op_lda, cpu_address_immediate),
    (0xAA, 2, pure_op cpu_op_tax, cpu_address_implied), (0xAC, 4, pure_op cpu_op_ldy, cpu_address_absolute),
    (0xAD, 4, pure_op cpu_op_lda, cpu_address_absolute), (0xAE, 4, pure_op cpu_op_ldx, cpu_address_absolute),
    (0xB0, 2, pure_op cpu_op_bcs, cpu_address_relative), (0xB1, 5, pure_op cpu_op_lda, cpu_address_indirect_y),
    (0xB4, 4, pure_op cpu_op_ldy, cpu_address_zero_page_x), (0xB5, 4, pure_op cpu_op_lda, cpu_address_zero_page_x),
    (0xB6, 4, pure_op cpu_op_ldx, cpu_address_zero_page_y), (0xB8, 2, pure_op cpu_op_clv, cpu_address_implied),
    (0xB9, 4, pure_op cpu_op_lda, cpu_address_absolute_y), (0xBA, 2, pure_op cpu_op_tsx, cpu_address_implied),
    (0xBC, 4, pure_op cpu_op_ldy, cpu_address_absolute_x), (0xBD, 4, pure_op cpu_op_lda, cpu_address_absolute_x),
    (0xBE, 4, pure_op cpu_op_ldx, cpu_address_absolute_y), (0xC0, 2, pure_op cpu_op_cpy, cpu_address_immediate),
    (0xC1, 6, pure_op cpu_op_cmp, cpu_address_indirect_x), (0xC4, 3, pure_op cpu_op_cpy, cpu_address_zero_page),
    (0xC5, 3, pure_op cpu_op_cmp, cpu_address_zero_page), (0xC6, 5, cpu_op_dec, cpu_address_zero_page),
    (0xC8, 2, pure_op cpu_op_iny, cpu_address_implied), (0xC9, 2, pure_op cpu_op_cmp, cpu_address_immediate),
    (0xCA, 2, pure_op cpu_op_dex, cpu_address_implied), (0xCC, 4, pure_op cpu_op_cpy, cpu_address_absolute),
    (0xCD, 4, pure_op cpu_op_cmp, cpu_address_absolute), (0xCE, 6, cpu_op_dec, cpu_address_absolute),
    (0xD0, 2, pure_op cpu_op_bne, cpu_address_relative), (0xD1, 5, pure_op cpu_op_cmp, cpu_address_indirect_y),
    (0xD5, 4, pure_op cpu_op_cmp, cpu_address_zero_page_x), (0xD6, 6, cpu_op_dec, cpu_address_zero_page_x),
    (0xD8, 2, pure_op cpu_op_cld, cpu_address_implied), (0xD9, 4, pure_op cpu_op_cmp, cpu_address_absolute_y),
    (0xDD, 4, pure_op cpu_op_cmp, cpu_address_absolute_x), (0xDE, 7, cpu_op_dec, cpu_address_absolute_x),
    (0xE0, 2, pure_op cpu_op_cpx, cpu_address_immediate), (0xE1, 6, pure_op cpu_op_sbc, cpu_address_indirect_x),
    (0xE4, 3, pure_op cpu_op_cpx, cpu_address_zero_page), (0xE5, 3, pure_op cpu_op_sbc, cpu_address_zero_page),
    (0xE6, 5, cpu_op_inc, cpu_address_zero_page), (0xE8, 2, pure_op cpu_op_inx, cpu_address_implied),
    (0xE9, 2, pure_op cpu_op_sbc, cpu_address_immediate), (0xEA, 2, pure_op cpu_op_nop, cpu_address_implied),
    (0xEC, 4, pure_op cpu_op_cpx, cpu_address_absolute), (0xED, 4, pure_op cpu_op_sbc, cpu_address_absolute),
    (0xEE, 6, cpu_op_inc, cpu_address_absolute), (0xF0, 2, pure_op cpu_op_beq, cpu_address_relative),
    (0xF1, 5, pure_op cpu_op_sbc, cpu_address_indirect_y), (0xF5, 4, pure_op cpu_op_sbc, cpu_address_zero_page_x),
    (0xF6, 6, cpu_op_inc, cpu_address_zero_page_x), (0xF8, 2, pure_op cpu_op_sed, cpu_address_implied),
    (0xF9, 4, pure_op cpu_op_sbc, cpu_address_absolute_y), (0xFD, 4, pure_op cpu_op_sbc, cpu_address_absolute_x),
    (0xFE, 7, cpu_op_inc, cpu_address_absolute_x)]"

definition cpu_eis_table :: "(u8 \<times> int \<times> nes_fn \<times> nes_fn) list" where
  "cpu_eis_table =
   [(0x03, 8, cpu_op_aso, cpu_address_indirect_x), (0x07, 5, cpu_op_aso, cpu_address_zero_page),
    (0x0F, 6, cpu_op_aso, cpu_address_absolute), (0x13, 8, cpu_op_aso, cpu_address_indirect_y),
    (0x17, 6, cpu_op_aso, cpu_address_zero_page_x), (0x1B, 7, cpu_op_aso, cpu_address_absolute_y),
    (0x1F, 7, cpu_op_aso, cpu_address_absolute_x), (0x23, 8, cpu_op_rla, cpu_address_indirect_x),
    (0x27, 5, cpu_op_rla, cpu_address_zero_page), (0x2F, 6, cpu_op_rla, cpu_address_absolute),
    (0x33, 8, cpu_op_rla, cpu_address_indirect_y), (0x37, 6, cpu_op_rla, cpu_address_zero_page_x),
    (0x3B, 7, cpu_op_rla, cpu_address_absolute_y), (0x3F, 7, cpu_op_rla, cpu_address_absolute_x),
    (0x43, 8, cpu_op_lse, cpu_address_indirect_x), (0x47, 5, cpu_op_lse, cpu_address_zero_page),
    (0x4F, 6, cpu_op_lse, cpu_address_absolute), (0x53, 8, cpu_op_lse, cpu_address_indirect_y),
    (0x57, 6, cpu_op_lse, cpu_address_zero_page_x), (0x5B, 7, cpu_op_lse, cpu_address_absolute_y),
    (0x5F, 7, cpu_op_lse, cpu_address_absolute_x), (0x63, 8, cpu_op_rra, cpu_address_indirect_x),
    (0x67, 5, cpu_op_rra, cpu_address_zero_page), (0x6F, 6, cpu_op_rra, cpu_address_absolute),
    (0x73, 8, cpu_op_rra, cpu_address_indirect_y), (0x77, 6, cpu_op_rra, cpu_address_zero_page_x),
    (0x7B, 7, cpu_op_rra, cpu_address_absolute_y), (0x7F, 7, cpu_op_rra, cpu_address_absolute_x),
    (0x83, 6, cpu_op_axs, cpu_address_indirect_x), (0x87, 3, cpu_op_axs, cpu_address_zero_page),
    (0x8F, 4, cpu_op_axs, cpu_address_absolute), (0x93, 6, cpu_op_axa, cpu_address_indirect_y),
    (0x97, 4, cpu_op_axs, cpu_address_zero_page_y), (0x9F, 5, cpu_op_axa, cpu_address_absolute_y),
    (0xA3, 6, pure_op cpu_op_lax, cpu_address_indirect_x), (0xA7, 3, pure_op cpu_op_lax, cpu_address_zero_page),
    (0xAF, 4, pure_op cpu_op_lax, cpu_address_absolute), (0xB3, 5, pure_op cpu_op_lax, cpu_address_indirect_y),
    (0xB7, 4, pure_op cpu_op_lax, cpu_address_zero_page_y), (0xBF, 4, pure_op cpu_op_lax, cpu_address_absolute_y),
    (0xC3, 8, cpu_op_dcm, cpu_address_indirect_x), (0xC7, 5, cpu_op_dcm, cpu_address_zero_page),
    (0xCF, 6, cpu_op_dcm, cpu_address_absolute), (0xD3, 8, cpu_op_dcm, cpu_address_indirect_y),
    (0xD7, 6, cpu_op_dcm, cpu_address_zero_page_x), (0xDB, 7, cpu_op_dcm, cpu_address_absolute_y),
    (0xDF, 7, cpu_op_dcm, cpu_address_absolute_x), (0xE3, 8, cpu_op_ins, cpu_address_indirect_x),
    (0xE7, 5, cpu_op_ins, cpu_address_zero_page), (0xEB, 2, pure_op cpu_op_sbc, cpu_address_immediate),
    (0xEF, 6, cpu_op_ins, cpu_address_absolute), (0xF3, 8, cpu_op_ins, cpu_address_indirect_y),
    (0xF7, 6, cpu_op_ins, cpu_address_zero_page_x), (0xFB, 7, cpu_op_ins, cpu_address_absolute_y),
    (0xFF, 7, cpu_op_ins, cpu_address_absolute_x)]"

definition cpu_nii_table :: "(u8 \<times> int \<times> nes_fn \<times> nes_fn) list" where
  "cpu_nii_table =
   [(0x04, 1, pure_op FE, cpu_address_zero_page), (0x0C, 1, pure_op FE, cpu_address_absolute),
    (0x14, 1, pure_op FE, cpu_address_zero_page_x), (0x1A, 1, pure_op FE, cpu_address_implied),
    (0x1C, 1, pure_op FE, cpu_address_absolute_x), (0x34, 1, pure_op FE, cpu_address_zero_page_x),
    (0x3A, 1, pure_op FE, cpu_address_implied), (0x3C, 1, pure_op FE, cpu_address_absolute_x),
    (0x44, 1, pure_op FE, cpu_address_zero_page), (0x54, 1, pure_op FE, cpu_address_zero_page_x),
    (0x5A, 1, pure_op FE, cpu_address_implied), (0x5C, 1, pure_op FE, cpu_address_absolute_x),
    (0x64, 1, pure_op FE, cpu_address_zero_page), (0x74, 1, pure_op FE, cpu_address_zero_page_x),
    (0x7A, 1, pure_op FE, cpu_address_implied), (0x7C, 1, pure_op FE, cpu_address_absolute_x),
    (0x80, 1, pure_op FE, cpu_address_immediate), (0xD4, 1, pure_op FE, cpu_address_zero_page_x),
    (0xDA, 1, pure_op FE, cpu_address_implied), (0xDC, 1, pure_op FE, cpu_address_absolute_x),
    (0xF4, 1, pure_op FE, cpu_address_zero_page_x), (0xFA, 1, pure_op FE, cpu_address_implied),
    (0xFC, 1, pure_op FE, cpu_address_absolute_x)]"

definition cpu_op_table :: "(u8 \<times> int \<times> nes_fn \<times> nes_fn) list" where
  "cpu_op_table = cpu_bis_table @ cpu_eis_table @ cpu_nii_table"

definition cpu_op_entry :: "u8 \<Rightarrow> (int \<times> nes_fn \<times> nes_fn) option" where
  "cpu_op_entry op_code = map_of (rev cpu_op_table) op_code"

section \<open>Life cycle\<close>

definition cpu_init :: "nes \<Rightarrow> nes" where
  "cpu_init s = set_P 0x24 (set_SP 0 (set_A 0 (set_X 0 (set_Y 0 s))))"

definition cpu_reset :: "nes \<Rightarrow> nes res" where
  "cpu_reset s =
     bindR (cpu_reset_interrupt_address s) (\<lambda>(w, s1).
       let s2 = set_PC w s1; s3 = set_SP (rSP s2 - 3) s2 in Inr (set_P (rP s3 OR interrupt_flag) s3))"

definition cpu_interrupt :: "nes \<Rightarrow> nes res" where
  "cpu_interrupt s =
     (if ppu_generates_nmi (ppu s) then
        (let s1 = cpu_unset_flag unused_bp (set_P (rP s OR interrupt_flag) s)
         in bindR (cpu_stack_pushw (rPC s1) s1) (\<lambda>s2.
            bindR (cpu_stack_pushb (rP s2) s2) (\<lambda>s3.
            bindR (cpu_nmi_interrupt_address s3) (\<lambda>(w, s4). Inr (set_PC w s4)))))
      else Inr s)"

text \<open>One round of the loop; it returns the cycles counted.\<close>

definition cpu_step :: "nes \<Rightarrow> (int \<times> nes) res" where
  "cpu_step s =
     bindR (memory_readb (rPC s) (set_PC (rPC s + 1) s)) (\<lambda>(op_code, s1).
       let count = (\<lambda>c s2. let n = c + op_cycles s2
             in Inr (n, s2\<lparr>cpu_cycles := cpu_cycles s2 - word_of_int n, op_cycles := 0\<rparr>))
       in case cpu_op_entry op_code of
            None \<Rightarrow> count 0 s1
          | Some (c, handler, mode) \<Rightarrow> bindR (mode s1) (\<lambda>s2. bindR (handler s2) (count c)))"

partial_function (option) cpu_run_loop :: "int \<Rightarrow> nes \<Rightarrow> nes res option" where
  "cpu_run_loop cycles s =
     (if cycles > 0 then
        (case cpu_step s of
           Inl e \<Rightarrow> Some (Inl e)
         | Inr r \<Rightarrow> cpu_run_loop (cycles - fst r) (snd r))
      else Some (Inr s))"

definition cpu_run :: "int \<Rightarrow> nes \<Rightarrow> nes res option" where
  "cpu_run cycles s = cpu_run_loop (cycles sdiv 3) s"

end
