(* ===== verification/NesPpu.thy ===== *)
theory NesPpu
  imports NesCpu
begin

text \<open>
  LiteNES, last part: the scanlines the picture unit draws and its cycle, which runs the processor
  (\<open>ppu.c\<close>), and loading, starting and one frame of the machine (\<open>fce.c\<close>). The pictures handed to
  the AM frame buffer are kept in \<open>screens\<close>. A cycle is a value of \<open>res option\<close>: None when the
  processor loop inside does not return.
\<close>

section \<open>The canvas\<close>

abbreviation (input) SCR_W :: int where "SCR_W \<equiv> 256"
abbreviation (input) SCR_H :: int where "SCR_H \<equiv> 240"

definition palette :: "u32 list" where
  "palette =
    [0x808080, 0x0000BB, 0x3700BF, 0x8400A6, 0xBB006A, 0xB7001E, 0xB30000, 0x912600,
     0x7B2B00, 0x003E00, 0x00480D, 0x003C22, 0x002F66, 0x000000, 0x050505, 0x050505,
     0xC8C8C8, 0x0059FF, 0x443CFF, 0xB733CC, 0xFF33AA, 0xFF375E, 0xFF371A, 0xD54B00,
     0xC46200, 0x3C7B00, 0x1E8415, 0x009566, 0x0084C4, 0x111111, 0x090909, 0x090909,
     0xFFFFFF, 0x0095FF, 0x6F84FF, 0xD56FFF, 0xFF77CC, 0xFF6F99, 0xFF7B59, 0xFF915F,
     0xFFA233, 0xA6BF00, 0x51D96A, 0x4DD5AE, 0x00D9FF, 0x666666, 0x0D0D0D, 0x0D0D0D,
     0xFFFFFF, 0x84BFFF, 0xBBBBFF, 0xD0BBFF, 0xFFBFEA, 0xFFBFCC, 0xFFC4B7, 0xFFCCAE,
     0xFFD9A2, 0xCCE199, 0xAEEEB7, 0xAAF7EE, 0xB3EEFF, 0xDDDDDD, 0x111111, 0x111111]"

definition palette_color :: "u8 \<Rightarrow> u32 res" where
  "palette_color idx = guardR (unat idx < length palette) (Undef ''palette'') (Inr (palette ! unat idx))"

definition candraw :: "nes \<Rightarrow> bool" where
  "candraw s \<longleftrightarrow> frame_cnt (fce s) mod (1 + 1) = 0"

definition draw :: "int \<Rightarrow> int \<Rightarrow> u8 \<Rightarrow> nes \<Rightarrow> nes res" where
  "draw x y idx s =
     (if x \<ge> 0 \<and> x < SCR_W \<and> y \<ge> 0 \<and> y < SCR_H \<and> candraw s
      then bindR (palette_color idx) (\<lambda>c. Inr (s\<lparr>fce := (fce s)\<lparr>canvas := (canvas (fce s))(y * SCR_W + x := c)\<rparr>\<rparr>))
      else Inr s)"

section \<open>Rendering\<close>

text \<open>The entries of the two tables \<open>ppu_init\<close> fills.\<close>

definition ppu_l_h_addition_table :: "u8 \<Rightarrow> u8 \<Rightarrow> nat \<Rightarrow> u8" where
  "ppu_l_h_addition_table l h x = push_bit 1 (drop_bit (7 - x) h AND 1) OR (drop_bit (7 - x) l AND 1)"

definition ppu_l_h_addition_flip_table :: "u8 \<Rightarrow> u8 \<Rightarrow> nat \<Rightarrow> u8" where
  "ppu_l_h_addition_flip_table l h x = push_bit 1 (drop_bit x h AND 1) OR (drop_bit x l AND 1)"

definition screen_background_ok :: "int \<times> int \<Rightarrow> bool" where
  "screen_background_ok p \<longleftrightarrow> 0 \<le> fst p \<and> fst p < 264 \<and> 0 \<le> snd p \<and> snd p < 248"

definition ppu_draw_background_pixel :: "bool \<Rightarrow> int \<Rightarrow> u8 \<Rightarrow> u8 \<Rightarrow> nat \<Rightarrow> nes \<Rightarrow> nes res" where
  "ppu_draw_background_pixel mirror tile_x l h x s =
     (let q = ppu s; color = ppu_l_h_addition_table l h x; m = (if mirror then 0x400 else 0);
          attribute_address = word_arg (uint (ppu_base_nametable_address q) + m + 0x3C0 + drop_bit 2 tile_x + drop_bit 5 (ppu_scanline q) * 8);
          top = ppu_scanline q mod 32 < 16; left = tile_x mod 4 < 2
      in if color = 0 then Inr s
         else bindR (ppu_ram_read attribute_address q) (\<lambda>attr0.
           let attr1 = (if top then attr0 else drop_bit 4 attr0);
               attr2 = (if left then attr1 else drop_bit 2 attr1);
               palette_address = word_arg (0x3F00 + push_bit 2 (uint (attr2 AND 3)))
           in bindR (ppu_ram_read (palette_address + ucast color) q) (\<lambda>idx.
              guardR (screen_background_ok (push_bit 3 tile_x + int x, ppu_scanline q)) (Undef ''ppu_screen_background'')
                (draw (push_bit 3 tile_x + int x - uint (PPUSCROLL_X q) + (if mirror then 256 else 0)) (ppu_scanline q + 1) idx
                  (s\<lparr>ppu := q\<lparr>ppu_screen_background := (ppu_screen_background q)
                      ((push_bit 3 tile_x + int x, ppu_scanline q) := color)\<rparr>\<rparr>)))))"

definition ppu_draw_background_tile :: "bool \<Rightarrow> int \<Rightarrow> nes \<Rightarrow> nes res" where
  "ppu_draw_background_tile mirror tile_x s =
     (let q = ppu s
      in if push_bit 3 tile_x - uint (PPUSCROLL_X q) + (if mirror then 256 else 0) > 256 then Inr s
         else
           let tile_y = drop_bit 3 (ppu_scanline q)
           in bindR (ppu_ram_read (word_arg (uint (ppu_base_nametable_address q) + tile_x + push_bit 5 tile_y + (if mirror then 0x400 else 0))) q) (\<lambda>tile_index.
              let tile_address = ppu_background_pattern_table_address q + 16 * ucast tile_index;
                  y_in_tile = ppu_scanline q AND 7
              in bindR (ppu_ram_read (tile_address + word_arg y_in_tile) q) (\<lambda>l.
                 bindR (ppu_ram_read (tile_address + word_arg (y_in_tile + 8)) q) (\<lambda>h.
                   forR (ppu_draw_background_pixel mirror tile_x l h) [0..<8] s))))"

definition ppu_draw_background_scanline :: "bool \<Rightarrow> nes \<Rightarrow> nes res" where
  "ppu_draw_background_scanline mirror s =
     forR (ppu_draw_background_tile mirror)
       [if ppu_shows_background_in_leftmost_8px (ppu s) then 0 else 1..31] s"

definition ppu_draw_sprite_pixel :: "u8 \<Rightarrow> u8 \<Rightarrow> u8 \<Rightarrow> nat \<Rightarrow> nes \<Rightarrow> nes res" where
  "ppu_draw_sprite_pixel n l h x s =
     (let q = ppu s; hflip = PPU_SPRRAM q (n + 2) AND 0x40 \<noteq> 0;
          sprite_x = uint (PPU_SPRRAM q (n + 3)); sprite_y = uint (PPU_SPRRAM q n);
          palette_address = 0x3F10 + push_bit 2 (ucast (PPU_SPRRAM q (n + 2) AND 3));
          color = (if hflip then ppu_l_h_addition_flip_table l h x else ppu_l_h_addition_table l h x);
          y_in_tile = ppu_scanline q AND 7; screen_x = sprite_x + int x
      in if color = 0 then Inr s
         else bindR (ppu_ram_read (palette_address + ucast color) q) (\<lambda>idx.
              bindR (draw screen_x (sprite_y + y_in_tile + 1) idx s) (\<lambda>s1.
                if ppu_shows_background q \<and> \<not> ppu_sprite_hit_occured q \<and> n = 0
                then guardR (screen_background_ok (screen_x, sprite_y + y_in_tile)) (Undef ''ppu_screen_background'')
                  (Inr (if ppu_screen_background q (screen_x, sprite_y + y_in_tile) = color
                        then upd_ppu (\<lambda>q. (ppu_set_sprite_0_hit True q)\<lparr>ppu_sprite_hit_occured := True\<rparr>) s1 else s1))
                else Inr s1)))"

text \<open>The number of sprites on the line so far is part of the state of the loop.\<close>

definition ppu_draw_sprite :: "u8 \<Rightarrow> nat \<times> nes \<Rightarrow> (nat \<times> nes) res" where
  "ppu_draw_sprite n cs =
     (case cs of (scanline_sprite_count, s) \<Rightarrow>
       let q = ppu s; sprite_y = uint (PPU_SPRRAM q n)
       in if sprite_y > ppu_scanline q \<or> sprite_y + ppu_sprite_height q < ppu_scanline q then Inr cs
          else
            let count = scanline_sprite_count + 1;
                s1 = (if count > 8 then upd_ppu (ppu_set_sprite_overflow True) s else s);
                vflip = PPU_SPRRAM q (n + 2) AND 0x80 \<noteq> 0;
                tile_address = ppu_sprite_pattern_table_address q + 16 * ucast (PPU_SPRRAM q (n + 1));
                y_in_tile = ppu_scanline q AND 7; y = (if vflip then 7 - y_in_tile else y_in_tile)
            in bindR (ppu_ram_read (tile_address + word_arg y) q) (\<lambda>l.
               bindR (ppu_ram_read (tile_address + word_arg (y + 8)) q) (\<lambda>h.
               bindR (forR (ppu_draw_sprite_pixel n l h) [0..<8] s1) (\<lambda>s2. Inr (count, s2)))))"

definition ppu_draw_sprite_scanline :: "nes \<Rightarrow> nes res" where
  "ppu_draw_sprite_scanline s =
     bindR (forR ppu_draw_sprite (map (\<lambda>k. 4 * of_nat k) [0..<64]) (0, s)) (\<lambda>(count, s1). Inr s1)"

section \<open>The cycle\<close>

definition bindO :: "'a res option \<Rightarrow> ('a \<Rightarrow> 'b res option) \<Rightarrow> 'b res option" where
  "bindO m f = (case m of None \<Rightarrow> None | Some (Inl e) \<Rightarrow> Some (Inl e) | Some (Inr x) \<Rightarrow> f x)"

definition cpu_clock :: "nes \<Rightarrow> u64" where
  "cpu_clock s = cpu_cycles s"

text \<open>\<open>cfg\<close> is the size of the AM screen.\<close>

definition fce_update_screen :: "int \<times> int \<Rightarrow> nes \<Rightarrow> nes res" where
  "fce_update_screen cfg s0 =
     (let s = s0\<lparr>fce := (fce s0)\<lparr>frame_cnt := frame_cnt (fce s0) + 1\<rparr>\<rparr>
      in if \<not> candraw s then Inr s
         else bindR (ppu_ram_read 0x3F00 (ppu s)) (\<lambda>idx.
              bindR (palette_color idx) (\<lambda>bgc.
              guardR (0 \<le> (fst cfg - SCR_W) sdiv 2 \<and> 0 \<le> (snd cfg - SCR_H) sdiv 2) (Panic ''screen too small'')
                (Inr (s\<lparr>fce := (fce s)\<lparr>screens := screens (fce s) @ [canvas (fce s)],
                     canvas := (\<lambda>i. if 0 \<le> i \<and> i < SCR_W * SCR_H then bgc else canvas (fce s) i)\<rparr>\<rparr>)))))"

definition ppu_visible :: "(ppu_state \<Rightarrow> bool) \<Rightarrow> (nes \<Rightarrow> nes res) \<Rightarrow> nes \<Rightarrow> nes res" where
  "ppu_visible shows f s = (if ppu_scanline (ppu s) < SCR_H \<and> shows (ppu s) then f s else Inr s)"

definition ppu_line_end :: "int \<times> int \<Rightarrow> nes \<Rightarrow> nes res" where
  "ppu_line_end cfg s =
     (if ppu_scanline (ppu s) = 241 then
        cpu_interrupt (upd_ppu (\<lambda>q. ppu_set_sprite_0_hit False (ppu_set_in_vblank True q)) s)
      else if ppu_scanline (ppu s) = 262 then
        fce_update_screen cfg (upd_ppu (\<lambda>q. ppu_set_in_vblank False (q\<lparr>ppu_scanline := - 1, ppu_sprite_hit_occured := False\<rparr>)) s)
      else Inr s)"

definition ppu_cycle :: "int \<times> int \<Rightarrow> nes \<Rightarrow> nes res option" where
  "ppu_cycle cfg s0 =
     (let s = (if \<not> ppu_ready (ppu s0) \<and> cpu_clock s0 > 29658 then upd_ppu (\<lambda>q. q\<lparr>ppu_ready := True\<rparr>) s0 else s0)
      in bindO (cpu_run 256 s) (\<lambda>s1.
         let s2 = upd_ppu (\<lambda>q. q\<lparr>ppu_scanline := ppu_scanline q + 1\<rparr>) s1
         in bindO (Some (ppu_visible ppu_shows_background
                (\<lambda>t. bindR (ppu_draw_background_scanline False t) (ppu_draw_background_scanline True)) s2)) (\<lambda>s3.
            bindO (cpu_run (85 - 16) s3) (\<lambda>s4.
            bindO (Some (ppu_visible ppu_shows_sprites ppu_draw_sprite_scanline s4)) (\<lambda>s5.
            bindO (cpu_run 16 s5) (\<lambda>s6. Some (ppu_line_end cfg s6)))))))"

fun ppu_run :: "int \<times> int \<Rightarrow> nat \<Rightarrow> nes \<Rightarrow> nes res option" where
  "ppu_run cfg 0 s = Some (Inr s)"
| "ppu_run cfg (Suc cycles) s = bindO (ppu_cycle cfg s) (ppu_run cfg cycles)"

section \<open>Loading and starting\<close>

definition rom_page :: "u8 list \<Rightarrow> nat \<Rightarrow> nat \<Rightarrow> u8 list res" where
  "rom_page rom off n = guardR (off + n \<le> length rom) (Undef ''rom'') (Inr (take n (drop off rom)))"

definition page_fun :: "u8 list \<Rightarrow> u16 \<Rightarrow> u8" where
  "page_fun bs a = bs ! unat a"

fun load_chr :: "u8 list \<Rightarrow> nat \<Rightarrow> nat list \<Rightarrow> nes \<Rightarrow> nes res" where
  "load_chr rom off [] s = Inr s"
| "load_chr rom off (i # is) s =
     bindR (rom_page rom (off + i * 0x2000) 0x2000) (\<lambda>blk.
     bindR (mmc_append_chr_rom_page (page_fun blk) (mmc s)) (\<lambda>c.
       let s1 = s\<lparr>mmc := c\<rparr>
       in load_chr rom off is (if i = 0 then upd_ppu (ppu_copy (page_fun blk)) s1 else s1)))"

text \<open>The header has 16 bytes; \<open>rom_type\<close> is its bytes 6 and 7. The result is the int and the state.\<close>

definition rom_type :: "u8 list \<Rightarrow> u16" where
  "rom_type rom = ucast (rom ! 6) OR push_bit 8 (ucast (rom ! 7))"

definition fce_load_rom :: "u8 list \<Rightarrow> nes \<Rightarrow> (int \<times> nes) res" where
  "fce_load_rom rom s0 =
     bindR (rom_page rom 0 16) (\<lambda>hdr.
       if take 4 hdr \<noteq> [0x4E, 0x45, 0x53, 0x1A] then Inr (- 1, s0)
       else
         let ident = ucast (drop_bit 4 (rom_type rom AND 0xF0));
             s = s0\<lparr>mmc := (mmc s0)\<lparr>mmc_id := ident\<rparr>\<rparr>;
             prg_size = unat (hdr ! 4) * 0x4000
         in if ident \<noteq> 0 \<and> ident \<noteq> 3 then Inr (- 1, s)
            else bindR (if hdr ! 4 = 1
                        then bindR (rom_page rom 16 0x4000) (\<lambda>blk. bindR (mmc_copy 0x8000 blk (mmc s)) (mmc_copy 0xC000 blk))
                        else bindR (rom_page rom 16 0x8000) (\<lambda>blk. mmc_copy 0x8000 blk (mmc s))) (\<lambda>c.
                 bindR (load_chr rom (16 + prg_size) [0..<unat (hdr ! 5)] (s\<lparr>mmc := c\<rparr>)) (\<lambda>s1. Inr (0, s1))))"

definition fce_init :: "u8 list \<Rightarrow> nes \<Rightarrow> nes res" where
  "fce_init rom s =
     cpu_reset (upd_ppu (ppu_set_mirroring (ucast (rom_type rom AND 1))) (upd_ppu ppu_init (cpu_init s)))"

text \<open>A frame: 262 lines, each followed by the key events of that moment.\<close>

fun fce_frame :: "int \<times> int \<Rightarrow> (nat \<times> bool) list list \<Rightarrow> nes \<Rightarrow> nes res option" where
  "fce_frame cfg [] s = Some (Inr s)"
| "fce_frame cfg (evs # evss) s =
     bindO (ppu_cycle cfg s) (\<lambda>s1. fce_frame cfg evss (s1\<lparr>psg := psg_detect_key evs (psg s1)\<rparr>))"

end
