(* ===== verification/NesProps.thy ===== *)
theory NesProps
  imports NesPpu
begin

text \<open>
  LiteNES against the 6502 and the NES. Arithmetic and its flags, the decoding table against the
  regular structure of the instruction set, and the stack with the calls and interrupts that use it.
\<close>

section \<open>The status byte\<close>

definition status_byte :: "u8 \<Rightarrow> bool \<Rightarrow> bool \<Rightarrow> bool \<Rightarrow> bool \<Rightarrow> u8" where
  "status_byte p n v z c = (p AND 0x3C) OR (if n then 0x80 else 0) OR (if v then 0x40 else 0) OR
     (if z then 0x02 else 0) OR (if c then 0x01 else 0)"

lemma byte_eqI: "(\<And>n. n < 8 \<Longrightarrow> bit (a :: u8) n = bit b n) \<Longrightarrow> a = b"
  by (rule bit_word_eqI) simp

lemma less_8_cases: "n < 8 \<Longrightarrow> n = 0 \<or> n = 1 \<or> n = 2 \<or> n = 3 \<or> n = 4 \<or> n = 5 \<or> n = 6 \<or> n = (7::nat)"
  by arith

lemma bit_status_byte:
  "bit (status_byte p n v z c) i = (if i = 7 then n else if i = 6 then v else if i = 1 then z else if i = 0 then c else bit p i \<and> i < 8)"
proof (cases "i < 8")
  case True
  from less_8_cases[OF True] show ?thesis
    by (elim disjE) (simp_all add: status_byte_def bit_simps)
next
  case False
  then show ?thesis by (auto dest: bit_imp_le_length)
qed

lemma bit_modify: "k < 8 \<Longrightarrow> bit (common_modify_bit (p :: u8) k b) i = (if i = k then b else bit p i)"
  by (auto simp: common_modify_bit_def common_set_bit_def common_unset_bit_def bit_simps dest: bit_imp_le_length)

lemma bit_set: "common_bit_set (p :: u8) k = bit p k"
  by (simp add: common_bit_set_def bit_iff_and_push_bit_not_eq_0)

lemma int_bit_7: "bit (i :: int) 7 \<longleftrightarrow> odd (i div 128)"
  by (simp add: bit_iff_odd)

lemma u8_range: "0 \<le> uint (a :: u8)" "uint a < 256"
  using unsigned_less[of a, where ?'a = int] by simp_all

lemma bit_7_uint: "bit (a :: u8) 7 \<longleftrightarrow> 128 \<le> uint a"
proof -
  have "bit a 7 \<longleftrightarrow> odd (uint a div 128)" by (simp add: bit_uint_iff flip: int_bit_7)
  then show ?thesis using u8_range[of a] by presburger
qed

lemma sint_u8: "sint (a :: u8) = (if bit a 7 then uint a - 256 else uint a)"
  using u8_range[of a] by (simp add: sint_uint signed_take_bit_eq_take_bit_minus take_bit_int_eq_self bit_uint_iff)

lemma zn_table: "cpu_zn_flag_table ! unat (v :: u8) = (if v = 0 then 0x02 else if bit v 7 then 0x80 else 0)"
proof -
  have "int (unat v) < 256" using u8_range[of v] by simp
  then have lt: "unat v < 256" by linarith
  have "bit v 7 \<longleftrightarrow> 128 \<le> int (unat v)" using bit_7_uint[of v] by simp
  then have b: "bit v 7 \<longleftrightarrow> 128 \<le> unat v" by linarith
  have z: "v = 0 \<longleftrightarrow> unat v = 0" by (simp add: unat_eq_0)
  have "cpu_zn_flag_table ! k = (if k = 0 then 0x02 else if 128 \<le> k then 0x80 else 0)" if "k < 256" for k
    using that by (auto simp: cpu_zn_flag_table_def nth_Cons' nth_append)
  from this[OF lt] show ?thesis unfolding b z .
qed

lemma update_zn: "cpu_update_zn_flags v s = set_P (status_byte (rP s) (bit v 7) (bit (rP s) 6) (v = 0) (bit (rP s) 0)) s"
proof -
  have "(rP s AND NOT (0x02 OR 0x80)) OR (if v = 0 then 0x02 else if bit v 7 then 0x80 else 0) =
    status_byte (rP s) (bit v 7) (bit (rP s) 6) (v = 0) (bit (rP s) 0)"
  proof (rule byte_eqI)
    fix n :: nat assume "n < 8"
    from less_8_cases[OF this] show "bit ((rP s AND NOT (0x02 OR 0x80)) OR (if v = 0 then 0x02 else if bit v 7 then 0x80 else 0)) n =
      bit (status_byte (rP s) (bit v 7) (bit (rP s) 6) (v = 0) (bit (rP s) 0)) n"
      unfolding bit_status_byte by (elim disjE) (auto simp: bit_simps)
  qed
  then show ?thesis unfolding cpu_update_zn_flags_def zn_table by simp
qed

lemma reg_simps [simp]:
  "set_A v (set_A u s) = set_A v s" "set_P v (set_P u s) = set_P v s" "set_A v (set_P u s) = set_P u (set_A v s)"
  "rP (set_P v s) = v" "rP (set_A u s) = rP s" "rA (set_P v s) = rA s" "rA (set_A u s) = u"
  "op_value (set_P v s) = op_value s" "op_value (set_A u s) = op_value s"
  by (simp_all add: set_A_def set_P_def upd_cpu_def)

lemma modify_flag: "k < 8 \<Longrightarrow> cpu_modify_flag k b s = set_P (common_modify_bit (rP s) k b) s"
  by (simp add: cpu_modify_flag_def)

text \<open>Two flags set one after the other and then the zero and negative flags of the result.\<close>

lemma flags_nvzc:
  "status_byte (common_modify_bit (common_modify_bit p 0 c) 6 v) n
     (bit (common_modify_bit (common_modify_bit p 0 c) 6 v) 6) z (bit (common_modify_bit (common_modify_bit p 0 c) 6 v) 0) =
   status_byte p n v z c"
  by (rule byte_eqI) (simp add: bit_status_byte bit_modify)

lemma int_bits:
  fixes r :: int
  shows "r AND 0x100 \<noteq> 0 \<longleftrightarrow> odd (r div 256)" "r AND 0x80 \<noteq> 0 \<longleftrightarrow> odd (r div 128)"
proof -
  have "bit r n \<longleftrightarrow> r AND 2 ^ n \<noteq> 0" for n by (simp add: bit_iff_and_push_bit_not_eq_0 push_bit_of_1)
  from this[of 8] this[of 7] show "r AND 0x100 \<noteq> 0 \<longleftrightarrow> odd (r div 256)" "r AND 0x80 \<noteq> 0 \<longleftrightarrow> odd (r div 128)"
    by (simp_all add: bit_iff_odd)
qed

lemma and_80: "(x AND (0x80 :: int)) \<noteq> 0 \<longleftrightarrow> bit x 7"
  by (simp only: int_bits int_bit_7)

lemma int_div_eq: "0 < m \<Longrightarrow> k * m \<le> r \<Longrightarrow> r < k * m + m \<Longrightarrow> r div m = (k :: int)"
  by (rule int_div_pos_eq[where r = "r - k * m"]) auto

lemma div_128_add:
  assumes "0 \<le> (r :: int)" "r < 512" shows "odd (r div 128) \<longleftrightarrow> 128 \<le> r \<and> r < 256 \<or> 384 \<le> r"
proof -
  consider "r < 128" | "128 \<le> r" "r < 256" | "256 \<le> r" "r < 384" | "384 \<le> r" by linarith
  then show ?thesis
    by cases (use assms int_div_eq[of 128 0 r] int_div_eq[of 128 1 r] int_div_eq[of 128 2 r] int_div_eq[of 128 3 r] in auto)
qed

lemma div_128_sub:
  assumes "- 256 \<le> (r :: int)" "r < 256" shows "odd (r div 128) \<longleftrightarrow> 128 \<le> r \<or> - 128 \<le> r \<and> r < 0"
proof -
  consider "r < - 128" | "- 128 \<le> r" "r < 0" | "0 \<le> r" "r < 128" | "128 \<le> r" by linarith
  then show ?thesis
    by cases (use assms int_div_eq[of 128 "- 2" r] int_div_eq[of 128 "- 1" r] int_div_eq[of 128 0 r] int_div_eq[of 128 1 r] in auto)
qed

lemma div_256:
  assumes "- 256 \<le> (r :: int)" "r < 512" shows "odd (r div 256) \<longleftrightarrow> r < 0 \<or> 256 \<le> r"
proof -
  consider "r < 0" | "0 \<le> r" "r < 256" | "256 \<le> r" by linarith
  then show ?thesis
    by cases (use assms int_div_eq[of 256 "- 1" r] int_div_eq[of 256 0 r] int_div_eq[of 256 1 r] in auto)
qed

lemma sint_u8_range: "sint (a :: u8) = (if 128 \<le> uint a then uint a - 256 else uint a)"
  by (simp add: sint_u8 bit_7_uint)

lemma signs_add:
  fixes x y k :: int
  assumes "0 \<le> x" "x < 256" "0 \<le> y" "y < 256" "k = 0 \<or> k = 1"
  shows "(128 \<le> x) = (128 \<le> y) \<and> (128 \<le> x) \<noteq> (128 \<le> x + y + k \<and> x + y + k < 256 \<or> 384 \<le> x + y + k) \<longleftrightarrow>
    (if 128 \<le> x then x - 256 else x) + (if 128 \<le> y then y - 256 else y) + k < - 128 \<or>
    127 < (if 128 \<le> x then x - 256 else x) + (if 128 \<le> y then y - 256 else y) + k"
  using assms by (cases "128 \<le> x"; cases "128 \<le> y"; simp; linarith)

lemma signs_sub:
  fixes x y k :: int
  assumes "0 \<le> x" "x < 256" "0 \<le> y" "y < 256" "k = 0 \<or> k = 1"
  shows "(128 \<le> x) \<noteq> (128 \<le> y) \<and> (128 \<le> x) \<noteq> (128 \<le> x - y - k \<or> - 128 \<le> x - y - k \<and> x - y - k < 0) \<longleftrightarrow>
    (if 128 \<le> x then x - 256 else x) - (if 128 \<le> y then y - 256 else y) - k < - 128 \<or>
    127 < (if 128 \<le> x then x - 256 else x) - (if 128 \<le> y then y - 256 else y) - k"
  using assms by (cases "128 \<le> x"; cases "128 \<le> y"; simp; linarith)

lemma overflow_add:
  fixes a v :: u8
  assumes "k = 0 \<or> k = 1"
  shows "NOT (uint a XOR uint v) AND (uint a XOR (uint a + uint v + k)) AND 0x80 \<noteq> 0 \<longleftrightarrow>
     sint a + sint v + k < - 128 \<or> 127 < sint a + sint v + k"
proof -
  let ?r = "uint a + uint v + k"
  have "0 \<le> ?r" "?r < 512" using u8_range[of a] u8_range[of v] assms by linarith+
  then have r: "bit ?r 7 \<longleftrightarrow> 128 \<le> ?r \<and> ?r < 256 \<or> 384 \<le> ?r" unfolding int_bit_7 by (rule div_128_add)
  have "NOT (uint a XOR uint v) AND (uint a XOR ?r) AND 0x80 \<noteq> 0 \<longleftrightarrow> bit a 7 = bit v 7 \<and> bit a 7 \<noteq> bit ?r 7"
    unfolding and.assoc[symmetric] and_80 by (auto simp: bit_and_iff bit_not_iff bit_xor_iff bit_uint_iff)
  then show ?thesis
    unfolding r bit_7_uint sint_u8_range by (simp only: signs_add[OF u8_range u8_range assms])
qed

lemma overflow_sub:
  fixes a v :: u8
  assumes "k = 0 \<or> k = 1"
  shows "(uint a XOR uint v) AND (uint a XOR (uint a - uint v - k)) AND 0x80 \<noteq> 0 \<longleftrightarrow>
     sint a - sint v - k < - 128 \<or> 127 < sint a - sint v - k"
proof -
  let ?r = "uint a - uint v - k"
  have "- 256 \<le> ?r" "?r < 256" using u8_range[of a] u8_range[of v] assms by linarith+
  then have r: "bit ?r 7 \<longleftrightarrow> 128 \<le> ?r \<or> - 128 \<le> ?r \<and> ?r < 0" unfolding int_bit_7 by (rule div_128_sub)
  have "(uint a XOR uint v) AND (uint a XOR ?r) AND 0x80 \<noteq> 0 \<longleftrightarrow> bit a 7 \<noteq> bit v 7 \<and> bit a 7 \<noteq> bit ?r 7"
    unfolding and.assoc[symmetric] and_80 by (auto simp: bit_and_iff bit_xor_iff bit_uint_iff)
  then show ?thesis
    unfolding r bit_7_uint sint_u8_range by (simp only: signs_sub[OF u8_range u8_range assms])
qed

lemma carry_sub:
  fixes a v :: u8
  assumes "k = 0 \<or> k = 1"
  shows "(uint a - uint v - k) AND 0x100 = 0 \<longleftrightarrow> uint v + k \<le> uint a"
proof -
  have r: "- 256 \<le> uint a - uint v - k" "uint a - uint v - k < 512" "uint a - uint v - k < 256"
    using u8_range[of a] u8_range[of v] assms by linarith+
  have "(uint a - uint v - k) AND 0x100 = 0 \<longleftrightarrow> \<not> uint a - uint v - k < 0"
    using div_256[OF r(1,2)] int_bits(1)[of "uint a - uint v - k"] r(3) by linarith
  then show ?thesis by linarith
qed

lemma carry_add:
  fixes a v :: u8
  assumes "k = 0 \<or> k = 1"
  shows "(uint a + uint v + k) AND 0x100 \<noteq> 0 \<longleftrightarrow> 256 \<le> uint a + uint v + k"
proof -
  have "- 256 \<le> uint a + uint v + k" "uint a + uint v + k < 512" "0 \<le> uint a + uint v + k"
    using u8_range[of a] u8_range[of v] assms by linarith+
  from div_256[OF this(1,2)] this(3) show ?thesis unfolding int_bits by auto
qed

lemma low_byte: "word_of_int (r AND 0xFF) = (word_of_int r :: u8)"
  by (rule bit_word_eqI) (simp add: bit_simps less_8_cases, auto dest!: less_8_cases)

definition after_arith :: "u8 \<Rightarrow> int \<Rightarrow> bool \<Rightarrow> nes \<Rightarrow> nes" where
  "after_arith r exact carry s =
     set_P (status_byte (rP s) (bit r 7) (exact < - 128 \<or> 127 < exact) (r = 0) carry) (set_A r s)"

lemma adc_eq:
  assumes "op_value s = uint (v :: u8)" and k: "k = of_bool (bit (rP s) 0)"
  shows "cpu_op_adc s = after_arith (word_of_int (uint (rA s) + uint v + k)) (sint (rA s) + sint v + k)
     (256 \<le> uint (rA s) + uint v + k) s"
proof -
  have k01: "k = 0 \<or> k = 1" "(if cpu_flag_set 0 s then 1 else 0) = k"
    by (auto simp: k cpu_flag_set_def bit_set)
  show ?thesis
    unfolding cpu_op_adc_def Let_def k01(2) assms(1) update_zn after_arith_def
    by (simp add: modify_flag assms(1) carry_add[OF k01(1)] overflow_add[OF k01(1)] low_byte flags_nvzc)
qed

lemma sbc_eq:
  assumes "op_value s = uint (v :: u8)" and k: "k = of_bool (\<not> bit (rP s) 0)"
  shows "cpu_op_sbc s = after_arith (word_of_int (uint (rA s) - uint v - k)) (sint (rA s) - sint v - k)
     (uint v + k \<le> uint (rA s)) s"
proof -
  have k01: "k = 0 \<or> k = 1" "(if cpu_flag_set 0 s then 0 else 1) = k"
    by (auto simp: k cpu_flag_set_def bit_set)
  show ?thesis
    unfolding cpu_op_sbc_def Let_def k01(2) assms(1) update_zn after_arith_def
    by (simp add: modify_flag assms(1) carry_sub[OF k01(1)] overflow_sub[OF k01(1)] low_byte flags_nvzc)
qed

lemma status_of_compare:
  "common_modify_bit (common_modify_bit (common_modify_bit p 0 c) 1 z) 7 n = status_byte p n (bit p 6) z c"
  by (rule byte_eqI) (simp add: bit_status_byte bit_modify)

lemma compare_eq:
  assumes "op_value s = uint (v :: u8)"
  shows "cpu_compare reg s = set_P (status_byte (rP s) (bit (reg - v) 7) (bit (rP s) 6) (reg = v) (v \<le> reg)) s"
proof -
  have "(drop_bit 7 (uint reg - uint v) AND 1 \<noteq> 0) = bit (reg - v) 7"
  proof -
    have "drop_bit 7 (uint reg - uint v) AND 1 \<noteq> 0 \<longleftrightarrow> bit (uint reg - uint v) 7"
      by (simp add: bit_iff_odd_drop_bit and_one_eq odd_iff_mod_2_eq_one)
    also have "\<dots> \<longleftrightarrow> bit (word_of_int (uint reg - uint v) :: u8) 7" by (simp only: bit_word_of_int_iff) simp
    finally show ?thesis by simp
  qed
  moreover have "(uint reg - uint v = 0) = (reg = v)" by (simp add: word_uint_eq_iff)
  moreover have "(0 \<le> uint reg - uint v) = (v \<le> reg)" by (simp add: word_le_def)
  ultimately show ?thesis
    by (simp add: cpu_compare_def assms modify_flag status_of_compare[unfolded One_nat_def])
qed

text \<open>The static variables of the program before \<open>main\<close>.\<close>

definition nes_power_on :: nes where
  "nes_power_on =
     \<lparr>cpu_regs = \<lparr>cpu_PC = 0, cpu_SP = 0, cpu_A = 0, cpu_X = 0, cpu_Y = 0, cpu_P = 0\<rparr>,
      CPU_RAM = (\<lambda>_. 0), op_value = 0, op_address = 0, op_cycles = 0, cpu_cycles = 0,
      ppu = \<lparr>PPUCTRL = 0, PPUMASK = 0, PPUSTATUS = 0, OAMADDR = 0, PPUSCROLL = 0, PPUSCROLL_X = 0, PPUSCROLL_Y = 0,
        PPUADDR = 0, PPUDATA = 0, scroll_received_x = False, addr_received_high_byte = False, ppu_ready = False,
        mirroring = 0, mirroring_xor = 0, ppu_scanline = 0, ppu_2007_first_read = False, ppu_addr_latch = 0, ppu_latch = 0,
        PPU_SPRRAM = (\<lambda>_. 0), PPU_RAM = (\<lambda>_. 0), ppu_sprite_hit_occured = False, ppu_screen_background = (\<lambda>_. 0)\<rparr>,
      psg = \<lparr>psg_p = 10, key_state = (\<lambda>_. 0), prev_write = 0\<rparr>,
      mmc = \<lparr>mmc_id = 0, mmc_chr_pages = (\<lambda>_. 0), mmc_chr_pages_number = 0, mmc_memory = (\<lambda>_. 0)\<rparr>,
      fce = \<lparr>frame_cnt = 0, canvas = (\<lambda>_. 0), screens = []\<rparr>\<rparr>"

text \<open>
  C17. Addition, subtraction and comparison of the 6502 (binary mode). With an operand byte \<open>v\<close> in
  \<open>op_value\<close>, ADC leaves A + v + C in A, SBC A - v - (1 - C), and the compare instructions only set
  flags. Carry is the carry out (for SBC and comparisons: no borrow), overflow says that the exact
  signed result does not fit in eight bits, zero and negative describe the resulting byte, and the
  other four bits of the status and the rest of the machine keep their values.
\<close>

theorem nes_arithmetic_correct:
  assumes "op_value s = uint (v :: u8)"
  defines "c \<equiv> bit (rP s) 0"
  shows "cpu_op_adc s = after_arith (rA s + v + of_bool c) (sint (rA s) + sint v + of_bool c)
       (256 \<le> uint (rA s) + uint v + of_bool c) s \<and>
     cpu_op_sbc s = after_arith (rA s - v - of_bool (\<not> c)) (sint (rA s) - sint v - of_bool (\<not> c))
       (uint v + of_bool (\<not> c) \<le> uint (rA s)) s \<and>
     (\<forall>reg. cpu_compare reg s = set_P (status_byte (rP s) (bit (reg - v) 7) (bit (rP s) 6) (reg = v) (v \<le> reg)) s)"
  using adc_eq[OF assms(1) refl] sbc_eq[OF assms(1) refl] compare_eq[OF assms(1)] unfolding c_def
  by (cases "bit (rP s) 0") simp_all

theorem nes_arithmetic_correct_witness:
  "cpu_op_adc (nes_power_on\<lparr>op_value := 0x7F\<rparr>) = after_arith 0x7F 127 False (nes_power_on\<lparr>op_value := 0x7F\<rparr>) \<and>
   cpu_op_sbc (nes_power_on\<lparr>op_value := 0x7F\<rparr>) = after_arith (- 128) (- 128) False (nes_power_on\<lparr>op_value := 0x7F\<rparr>)"
proof -
  have r: "rA (nes_power_on\<lparr>op_value := 0x7F\<rparr>) = 0" "rP (nes_power_on\<lparr>op_value := 0x7F\<rparr>) = 0" by (simp_all add: nes_power_on_def)
  show ?thesis
    using nes_arithmetic_correct[of "nes_power_on\<lparr>op_value := 0x7F\<rparr>" "0x7F"] unfolding r by simp
qed

section \<open>The decoding table\<close>

definition cpu_opcodes :: "u8 list" where
  "cpu_opcodes =
   [0x00, 0x01, 0x05, 0x06, 0x08, 0x09, 0x0A, 0x0D, 0x0E, 0x10, 0x11, 0x15, 0x16, 0x18, 0x19, 0x1D, 0x1E, 0x20, 0x21, 0x24,
    0x25, 0x26, 0x28, 0x29, 0x2A, 0x2C, 0x2D, 0x2E, 0x30, 0x31, 0x35, 0x36, 0x38, 0x39, 0x3D, 0x3E, 0x40, 0x41, 0x45, 0x46,
    0x48, 0x49, 0x4A, 0x4C, 0x4D, 0x4E, 0x50, 0x51, 0x55, 0x56, 0x58, 0x59, 0x5D, 0x5E, 0x60, 0x61, 0x65, 0x66, 0x68, 0x69,
    0x6A, 0x6C, 0x6D, 0x6E, 0x70, 0x71, 0x75, 0x76, 0x78, 0x79, 0x7D, 0x7E, 0x81, 0x84, 0x85, 0x86, 0x88, 0x8A, 0x8C, 0x8D,
    0x8E, 0x90, 0x91, 0x94, 0x95, 0x96, 0x98, 0x99, 0x9A, 0x9D, 0xA0, 0xA1, 0xA2, 0xA4, 0xA5, 0xA6, 0xA8, 0xA9, 0xAA, 0xAC,
    0xAD, 0xAE, 0xB0, 0xB1, 0xB4, 0xB5, 0xB6, 0xB8, 0xB9, 0xBA, 0xBC, 0xBD, 0xBE, 0xC0, 0xC1, 0xC4, 0xC5, 0xC6, 0xC8, 0xC9,
    0xCA, 0xCC, 0xCD, 0xCE, 0xD0, 0xD1, 0xD5, 0xD6, 0xD8, 0xD9, 0xDD, 0xDE, 0xE0, 0xE1, 0xE4, 0xE5, 0xE6, 0xE8, 0xE9, 0xEA,
    0xEC, 0xED, 0xEE, 0xF0, 0xF1, 0xF5, 0xF6, 0xF8, 0xF9, 0xFD, 0xFE, 0x03, 0x07, 0x0F, 0x13, 0x17, 0x1B, 0x1F, 0x23, 0x27,
    0x2F, 0x33, 0x37, 0x3B, 0x3F, 0x43, 0x47, 0x4F, 0x53, 0x57, 0x5B, 0x5F, 0x63, 0x67, 0x6F, 0x73, 0x77, 0x7B, 0x7F, 0x83,
    0x87, 0x8F, 0x93, 0x97, 0x9F, 0xA3, 0xA7, 0xAF, 0xB3, 0xB7, 0xBF, 0xC3, 0xC7, 0xCF, 0xD3, 0xD7, 0xDB, 0xDF, 0xE3, 0xE7,
    0xEB, 0xEF, 0xF3, 0xF7, 0xFB, 0xFF, 0x04, 0x0C, 0x14, 0x1A, 0x1C, 0x34, 0x3A, 0x3C, 0x44, 0x54, 0x5A, 0x5C, 0x64, 0x74,
    0x7A, 0x7C, 0x80, 0xD4, 0xDA, 0xDC, 0xF4, 0xFA, 0xFC]"

lemmas cpu_tables = cpu_op_table_def cpu_bis_table_def cpu_eis_table_def cpu_nii_table_def

lemma cpu_op_table_opcodes: "map fst cpu_op_table = cpu_opcodes"
  by (simp add: cpu_tables cpu_opcodes_def)

lemma cpu_opcodes_distinct: "distinct cpu_opcodes"
proof -
  have "distinct (map uint cpu_opcodes)" by (simp add: cpu_opcodes_def)
  then show ?thesis by (simp add: distinct_map)
qed

lemma cpu_op_entry_iff: "cpu_op_entry op = Some x \<longleftrightarrow> (op, x) \<in> set cpu_op_table"
proof -
  have "distinct (map fst (rev cpu_op_table))"
    by (simp add: rev_map[symmetric] cpu_op_table_opcodes cpu_opcodes_distinct)
  then show ?thesis by (simp add: cpu_op_entry_def map_of_eq_Some_iff)
qed

text \<open>
  The opcode of the 6502 is \<open>aaabbbcc\<close>: for cc = 01 the operation is a and the mode b, for cc = 10
  the same with the shifts and counters, and the branches test four flags for two values. In the
  order of the opcodes:
\<close>

definition regular_entries :: "(u8 \<times> int \<times> nes_fn \<times> nes_fn) list" where
  "regular_entries = concat (map (\<lambda>(a, branch, alu, shift).
     concat (map (\<lambda>(b, mode, c, smode, sc).
       (if b = 4 then [(32 * a + 0x10, 2, pure_op branch, cpu_address_relative)] else []) @
       (if a = 4 \<and> b = 2 then []
        else [(32 * a + 4 * b + 1, if a = 4 \<and> b \<in> {4, 6, 7} then c + 1 else c, alu, mode)]) @
       (if a \<in> {4, 5} \<or> sc = 0 then [] else [(32 * a + 4 * b + 2, sc, shift, smode)]))
     [(0, cpu_address_indirect_x, 6, cpu_address_implied, 0), (1, cpu_address_zero_page, 3, cpu_address_zero_page, 5),
      (2, cpu_address_immediate, 2, cpu_address_implied, 0), (3, cpu_address_absolute, 4, cpu_address_absolute, 6),
      (4, cpu_address_indirect_y, 5, cpu_address_implied, 0), (5, cpu_address_zero_page_x, 4, cpu_address_zero_page_x, 6),
      (6, cpu_address_absolute_y, 4, cpu_address_implied, 0), (7, cpu_address_absolute_x, 4, cpu_address_absolute_x, 7)]))
     [(0, cpu_op_bpl, pure_op cpu_op_ora, cpu_op_asl), (1, cpu_op_bmi, pure_op cpu_op_and, cpu_op_rol),
      (2, cpu_op_bvc, pure_op cpu_op_eor, cpu_op_lsr), (3, cpu_op_bvs, pure_op cpu_op_adc, cpu_op_ror),
      (4, cpu_op_bcc, cpu_op_sta, pure_op FE), (5, cpu_op_bcs, pure_op cpu_op_lda, pure_op FE),
      (6, cpu_op_bne, pure_op cpu_op_cmp, cpu_op_dec), (7, cpu_op_beq, pure_op cpu_op_sbc, cpu_op_inc)])"

fun in_order :: "'a list \<Rightarrow> 'a list \<Rightarrow> bool" where
  "in_order [] ys = True"
| "in_order (x # xs) [] = False"
| "in_order (x # xs) (y # ys) = (if x = y then in_order xs ys else in_order (x # xs) ys)"

lemma in_order_set: "in_order xs ys \<Longrightarrow> set xs \<subseteq> set ys"
  by (induction xs ys rule: in_order.induct) (auto split: if_splits)

text \<open>One entry differs: AND absolute counts 2 cycles in the table, and takes 4 on the processor.\<close>

definition code_cycles :: "u8 \<times> int \<times> nes_fn \<times> nes_fn \<Rightarrow> u8 \<times> int \<times> nes_fn \<times> nes_fn" where
  "code_cycles e = (case e of (op, n, x) \<Rightarrow> (op, if op = 0x2D then 2 else n, x))"

lemma regular_in_table: "in_order (map code_cycles regular_entries) cpu_bis_table"
  by (simp add: regular_entries_def cpu_bis_table_def code_cycles_def)

text \<open>
  The decoder follows the structure of the instruction set. All opcodes of the three regular
  groups (the seven accumulator operations with eight addressing modes, the store with seven, the six
  read-modify-write operations with four, and the eight branches) have the handler and addressing mode
  of that structure, and all but 0x2D, AND absolute, its base cycles.
\<close>

lemma nes_opcode_table:
  "list_all (\<lambda>(op, n, x). cpu_op_entry op = Some (if op = 0x2D then 2 else n, x)) regular_entries"
proof -
  have "cpu_op_entry op = Some (if op = 0x2D then 2 else n, x)" if "(op, n, x) \<in> set regular_entries" for op n x
  proof -
    have "code_cycles (op, n, x) \<in> set (map code_cycles regular_entries)" using that by (metis image_eqI set_map)
    then have "(op, if op = 0x2D then 2 else n, x) \<in> set cpu_bis_table"
      using in_order_set[OF regular_in_table] by (auto simp only: code_cycles_def prod.case)
    then show ?thesis unfolding cpu_op_entry_iff cpu_op_table_def set_append by blast
  qed
  then show ?thesis unfolding list_all_iff by blast
qed

section \<open>The stack\<close>

lemma ram_and: "uint (a :: u16) < 0x800 \<Longrightarrow> a AND 0x7FF = a"
proof -
  assume "uint a < 0x800"
  then have "take_bit 11 a = a" by (simp add: word_uint_eq_iff unsigned_take_bit_eq take_bit_int_eq_self)
  then show ?thesis by (simp add: take_bit_eq_mask mask_eq_exp_minus_1)
qed

lemma ram_drop: "uint (a :: u16) < 0x800 \<Longrightarrow> drop_bit 13 a = 0"
  by (simp only: word_uint_eq_iff unsigned_drop_bit_eq) (simp add: drop_bit_eq_div take_bit_int_eq_self)

lemma ram_read: "uint a < 0x800 \<Longrightarrow> memory_readb a s = Inr (CPU_RAM s a, s)"
  by (simp add: memory_readb_def cpu_ram_read_def ram_and ram_drop)

lemma ram_write: "uint a < 0x800 \<Longrightarrow> memory_writeb a v s = Inr (s\<lparr>CPU_RAM := (CPU_RAM s)(a := v)\<rparr>)"
  by (auto simp: memory_writeb_def cpu_ram_write_def ram_and ram_drop)

definition stack_word :: "u8 \<Rightarrow> u16" where "stack_word sp = 0xFF + ucast sp"

lemma uint_stack [simp]:
  "uint (0xFF + ucast (sp :: u8) :: u16) = 0xFF + uint sp"
  "uint (0x100 + ucast (sp :: u8) :: u16) = 0x100 + uint sp"
  using unsigned_less[of sp, where ?'a = int] by (simp_all add: uint_word_ariths unsigned_ucast_eq take_bit_eq_mod)

lemma stack_range: "uint (0xFF + ucast (sp :: u8) :: u16) < 0x800" "uint (0x100 + ucast (sp :: u8) :: u16) < 0x800"
  using unsigned_less[of sp, where ?'a = int] by simp_all

lemma stack_next: "(0xFF + ucast sp :: u16) + 1 = 0x100 + ucast sp" by simp

lemma word_halves: "ucast (ucast (w AND 0xFF) :: u8) + push_bit 8 (ucast (ucast (drop_bit 8 w) :: u8)) = (w :: u16)"
proof -
  have m: "w AND 0xFF = take_bit 8 w" by (simp add: take_bit_eq_mask mask_eq_exp_minus_1)
  have l: "(ucast (ucast (w AND 0xFF) :: u8) :: u16) = take_bit 8 w"
    unfolding m by (rule bit_word_eqI) (auto simp: bit_simps)
  have h: "(ucast (ucast (drop_bit 8 w) :: u8) :: u16) = drop_bit 8 w"
    by (rule bit_word_eqI) (auto simp: bit_simps dest: bit_imp_le_length)
  show ?thesis unfolding l h using bits_ident[of 8 w] by (simp add: add.commute)
qed

lemma push_word: "cpu_stack_pushw w s = Inr (set_SP (rSP s - 2) (s\<lparr>CPU_RAM := (CPU_RAM s)
     (0xFF + ucast (rSP s) := ucast (w AND 0xFF), 0x100 + ucast (rSP s) := ucast (drop_bit 8 w))\<rparr>))"
  unfolding cpu_stack_pushw_def memory_writew_def ram_write[OF stack_range(1)] bindR_Inr stack_next ram_write[OF stack_range(2)]
  by simp

lemma pop_word: "cpu_stack_popw s = Inr (ucast (CPU_RAM s (0xFF + ucast (rSP s + 2))) +
     push_bit 8 (ucast (CPU_RAM s (0x100 + ucast (rSP s + 2)))), set_SP (rSP s + 2) s)"
proof -
  have [simp]: "rSP (set_SP v t) = v" "CPU_RAM (set_SP v t) = CPU_RAM t" for v t by (simp_all add: set_SP_def upd_cpu_def)
  show ?thesis
  unfolding cpu_stack_popw_def memory_readw_def Let_def ram_read[OF stack_range(1)] bindR_Inr prod.case stack_next ram_read[OF stack_range(2)]
  by simp
qed

lemma reg_SP [simp]:
  "rSP (set_SP v t) = v" "CPU_RAM (set_SP v t) = CPU_RAM t" "rPC (set_SP v t) = rPC t" "rP (set_SP v t) = rP t"
  "op_address (set_SP v t) = op_address t" "mmc (set_SP v t) = mmc t"
  "rSP (set_PC w t) = rSP t" "CPU_RAM (set_PC w t) = CPU_RAM t" "rPC (set_PC w t) = w" "rP (set_PC w t) = rP t"
  "rSP (set_P v t) = rSP t" "CPU_RAM (set_P v t) = CPU_RAM t" "rPC (set_P v t) = rPC t" "mmc (set_P v t) = mmc t"
  by (simp_all add: set_SP_def set_PC_def set_P_def upd_cpu_def)

text \<open>\<open>t\<close> has the stack of \<open>s\<close>: its pointer and \<open>k\<close> bytes from \<open>0x100 + sp\<close> down.\<close>

definition same_stack :: "u8 \<Rightarrow> nes \<Rightarrow> nes \<Rightarrow> bool" where
  "same_stack sp s t \<longleftrightarrow> rSP t = rSP s \<and> CPU_RAM t (0x100 + ucast sp) = CPU_RAM s (0x100 + ucast sp) \<and>
     CPU_RAM t (0xFF + ucast sp) = CPU_RAM s (0xFF + ucast sp) \<and>
     CPU_RAM t (0x100 + ucast (sp - 2)) = CPU_RAM s (0x100 + ucast (sp - 2))"

lemma stack_cells:
  "(0x100 + ucast sp :: u16) \<noteq> 0xFF + ucast (sp :: u8)" "(0x100 + ucast (sp - 2) :: u16) \<noteq> 0xFF + ucast sp"
  "(0x100 + ucast (sp - 2) :: u16) \<noteq> 0x100 + ucast sp"
proof -
  have "uint (sp - 2) = (if 2 \<le> uint sp then uint sp - 2 else uint sp + 254)"
    using unsigned_less[of sp, where ?'a = int] by (simp add: uint_sub_if')
  then show "(0x100 + ucast sp :: u16) \<noteq> 0xFF + ucast (sp :: u8)" "(0x100 + ucast (sp - 2) :: u16) \<noteq> 0xFF + ucast sp"
    "(0x100 + ucast (sp - 2) :: u16) \<noteq> 0x100 + ucast sp"
    unfolding word_uint_eq_iff uint_stack by auto
qed

lemma jsr_rts:
  "\<exists>s1. cpu_op_jsr s = Inr s1 \<and> rPC s1 = word_arg (op_address s) \<and>
     (\<forall>t. same_stack (rSP s) s1 t \<longrightarrow> cpu_op_rts t = Inr (set_PC (rPC s) (set_SP (rSP s) t)))"
  using word_halves[of "rPC s - 1"] stack_cells[of "rSP s"]
  by (auto simp: cpu_op_jsr_def cpu_op_rts_def push_word pop_word same_stack_def)

lemma nmi_vector: "cpu_nmi_interrupt_address s =
    Inr (ucast (mmc_memory (mmc s) 0xFFFA) + push_bit 8 (ucast (mmc_memory (mmc s) 0xFFFB)), s)"
  by (simp add: cpu_nmi_interrupt_address_def memory_readw_def memory_readb_def mmc_read_def)

lemma push_byte: "cpu_stack_pushb v s = Inr (set_SP (rSP s - 1) (s\<lparr>CPU_RAM := (CPU_RAM s)(0x100 + ucast (rSP s) := v)\<rparr>))"
  unfolding cpu_stack_pushb_def ram_write[OF stack_range(2)] by (simp add: set_SP_def upd_cpu_def)

lemma pop_byte: "cpu_stack_popb s = Inr (CPU_RAM s (0x100 + ucast (rSP s + 1)), set_SP (rSP s + 1) s)"
  unfolding cpu_stack_popb_def Let_def ram_read[OF stack_range(2)] by simp

lemma unused_bit: "common_unset_bit (p OR 4) 5 OR 0x20 = p OR (0x24 :: u8)"
  by (rule bit_word_eqI) (auto simp: common_unset_bit_def bit_simps less_Suc_eq numeral_eq_Suc)

lemma nmi_rti:
  assumes "ppu_generates_nmi (ppu s)"
  shows "\<exists>s1. cpu_interrupt s = Inr s1 \<and>
     rPC s1 = ucast (mmc_memory (mmc s) 0xFFFA) + push_bit 8 (ucast (mmc_memory (mmc s) 0xFFFB)) \<and>
     (\<forall>t. same_stack (rSP s) s1 t \<longrightarrow> cpu_op_rti t = Inr (set_PC (rPC s) (set_SP (rSP s) (set_P (rP s OR 0x24) t))))"
proof -
  have "\<exists>s1. cpu_interrupt s = Inr s1 \<and>
     rPC s1 = ucast (mmc_memory (mmc s) 0xFFFA) + push_bit 8 (ucast (mmc_memory (mmc s) 0xFFFB)) \<and> rSP s1 = rSP s - 3 \<and>
     CPU_RAM s1 = (CPU_RAM s)(0xFF + ucast (rSP s) := ucast (rPC s AND 0xFF), 0x100 + ucast (rSP s) := ucast (drop_bit 8 (rPC s)),
       0x100 + ucast (rSP s - 2) := common_unset_bit (rP s OR 4) 5)"
    using assms by (simp add: cpu_interrupt_def push_word push_byte nmi_vector cpu_unset_flag_def Let_def)
  then obtain s1 where s1: "cpu_interrupt s = Inr s1"
    "rPC s1 = ucast (mmc_memory (mmc s) 0xFFFA) + push_bit 8 (ucast (mmc_memory (mmc s) 0xFFFB))" "rSP s1 = rSP s - 3"
    "CPU_RAM s1 = (CPU_RAM s)(0xFF + ucast (rSP s) := ucast (rPC s AND 0xFF), 0x100 + ucast (rSP s) := ucast (drop_bit 8 (rPC s)),
       0x100 + ucast (rSP s - 2) := common_unset_bit (rP s OR 4) 5)" by blast
  have "cpu_op_rti t = Inr (set_PC (rPC s) (set_SP (rSP s) (set_P (rP s OR 0x24) t)))" if t: "same_stack (rSP s) s1 t" for t
  proof -
    have ram: "CPU_RAM t (0x100 + ucast (rSP s - 2)) = common_unset_bit (rP s OR 4) 5"
      "CPU_RAM t (0x100 + ucast (rSP s)) = ucast (drop_bit 8 (rPC s))" "CPU_RAM t (0xFF + ucast (rSP s)) = ucast (rPC s AND 0xFF)"
      using t stack_cells[of "rSP s"] by (simp_all add: same_stack_def s1(4))
    have sp: "rSP t + 1 = rSP s - 2" "rSP s - 2 + 2 = rSP s" using t by (simp_all add: same_stack_def s1(3))
    show ?thesis
      unfolding cpu_op_rti_def pop_byte bindR_Inr prod.case sp ram pop_word reg_SP unused_bit word_halves
      by (simp add: set_PC_def set_SP_def set_P_def upd_cpu_def)
  qed
  with s1 show ?thesis by blast
qed

text \<open>
  C22. Calls return. JSR goes to its address, and an RTS in any later state whose stack pointer and
  stack bytes are those JSR left continues after the call. When the picture unit asks for it, the
  interrupt goes to the vector at 0xFFFA, and an RTI on the same stack continues at the interrupted
  instruction; the status it restores has the interrupt flag set, because it is pushed after the flag
  is raised. Both hold at every stack pointer, also where the stack wraps.
\<close>

theorem nes_calls_return:
  "(\<exists>s1. cpu_op_jsr s = Inr s1 \<and> rPC s1 = word_arg (op_address s) \<and>
     (\<forall>t. same_stack (rSP s) s1 t \<longrightarrow> cpu_op_rts t = Inr (set_PC (rPC s) (set_SP (rSP s) t)))) \<and>
   (ppu_generates_nmi (ppu s) \<longrightarrow> (\<exists>s1. cpu_interrupt s = Inr s1 \<and>
     rPC s1 = ucast (mmc_memory (mmc s) 0xFFFA) + push_bit 8 (ucast (mmc_memory (mmc s) 0xFFFB)) \<and>
     (\<forall>t. same_stack (rSP s) s1 t \<longrightarrow> cpu_op_rti t = Inr (set_PC (rPC s) (set_SP (rSP s) (set_P (rP s OR 0x24) t))))))"
  using jsr_rts nmi_rti by blast

definition nes_demo :: nes where
  "nes_demo = upd_ppu (\<lambda>q. q\<lparr>PPUCTRL := 0x80\<rparr>) (set_PC 0x8123 (set_SP 0xFD (nes_power_on\<lparr>op_address := 0x9000\<rparr>)))"

theorem nes_calls_return_witness:
  "(\<exists>s1. cpu_interrupt nes_demo = Inr s1 \<and> cpu_op_rti s1 = Inr (set_PC 0x8123 (set_SP 0xFD (set_P 0x24 s1)))) \<and>
   (\<exists>s1. cpu_op_jsr nes_demo = Inr s1 \<and> rPC s1 = 0x9000 \<and> cpu_op_rts s1 = Inr (set_PC 0x8123 (set_SP 0xFD s1)))"
proof -
  have d: "ppu_generates_nmi (ppu nes_demo)" "rPC nes_demo = 0x8123" "rSP nes_demo = 0xFD" "rP nes_demo = 0" "op_address nes_demo = 0x9000"
    by (simp_all add: nes_demo_def nes_power_on_def ppu_generates_nmi_def common_bit_set_def upd_ppu_def set_PC_def set_SP_def upd_cpu_def)
  have "same_stack sp t t" for sp t by (simp add: same_stack_def)
  then show ?thesis
    using nes_calls_return[of nes_demo] d(1) unfolding d(2-) by (auto simp: word_arg_def)
qed

end
