(* ===== verification/NesSafety.thy ===== *)
theory NesSafety
  imports NesProps
begin

text \<open>
  LiteNES never hangs, and one access can leave its array: the colour lookup \<open>palette[idx]\<close> of fce.c. An invariant (\<open>nes_at y\<close>: the line being drawn, a
  mirroring mask inside the picture memory, no bank switching, no negative counter) is kept by every
  access, addressing mode and handler of the table (\<open>safe\<close>), so by a step; the loop of \<open>cpu_run\<close> ends
  because a step takes a cycle or moves the program counter on to the next byte, and the byte at
  0x2000 is always an instruction. The drawing keeps its indices in range, line by line, from power on.
\<close>

section \<open>Memory safety\<close>

definition only_fails :: "cerr set \<Rightarrow> ('a \<Rightarrow> bool) \<Rightarrow> 'a res \<Rightarrow> bool" where
  "only_fails E Q r = (case r of Inl e \<Rightarrow> e \<in> E | Inr x \<Rightarrow> Q x)"

lemma only_fails_simps [simp]: "only_fails E Q (Inr x) = Q x" "only_fails E Q (Inl e) \<longleftrightarrow> e \<in> E"
  by (simp_all add: only_fails_def)


lemma only_fails_guard: "(c \<Longrightarrow> only_fails E Q r) \<Longrightarrow> \<not> c \<Longrightarrow> e \<in> E \<Longrightarrow> only_fails E Q (guardR c e r)"
  by simp




definition nes_at :: "int \<Rightarrow> nes \<Rightarrow> bool" where
  "nes_at y s \<longleftrightarrow> ppu_scanline (ppu s) = y \<and> mirroring_xor (ppu s) < 0x4000 \<and> mmc_id (mmc s) \<noteq> 3 \<and> 0 \<le> psg_p (psg s) \<and>
     0 \<le> op_cycles s"
















lemma nes_at_regs [simp]:
  "nes_at y (set_PC w s) = nes_at y s" "nes_at y (set_SP v s) = nes_at y s" "nes_at y (set_A v s) = nes_at y s"
  "nes_at y (set_X v s) = nes_at y s" "nes_at y (set_Y v s) = nes_at y s" "nes_at y (set_P v s) = nes_at y s"
  "nes_at y (s\<lparr>op_value := i\<rparr>) = nes_at y s" "nes_at y (s\<lparr>op_address := i\<rparr>) = nes_at y s"
  "nes_at y (s\<lparr>cpu_cycles := n\<rparr>) = nes_at y s" "nes_at y s \<Longrightarrow> 0 \<le> i \<Longrightarrow> nes_at y (s\<lparr>op_cycles := i\<rparr>)"
  by (simp_all add: nes_at_def set_PC_def set_SP_def set_A_def set_X_def set_Y_def set_P_def upd_cpu_def)

lemmas nes_flag_defs = cpu_modify_flag_def cpu_set_flag_def cpu_unset_flag_def cpu_update_zn_flags_def
  load_A_def load_X_def load_Y_def zn_op_value_def

lemma nes_at_flags [simp]:
  "nes_at y (cpu_modify_flag k b s) = nes_at y s" "nes_at y (cpu_set_flag k s) = nes_at y s"
  "nes_at y (cpu_unset_flag k s) = nes_at y s" "nes_at y (cpu_update_zn_flags v s) = nes_at y s"
  "nes_at y (load_A v s) = nes_at y s" "nes_at y (load_X v s) = nes_at y s" "nes_at y (load_Y v s) = nes_at y s"
  "nes_at y (zn_op_value s) = nes_at y s" "nes_at y (zero_page_value i s) = nes_at y s"
  "nes_at y (cpu_compare v s) = nes_at y s"
  by (simp_all add: nes_flag_defs zero_page_value_def cpu_compare_def Let_def)

lemma nes_at_cycles: "nes_at y s \<Longrightarrow> 0 \<le> op_cycles s"
  by (simp add: nes_at_def)

lemma nes_at_extra_cycle [simp]: "nes_at y s \<Longrightarrow> nes_at y (add_page_cycle s)" "nes_at y s \<Longrightarrow> nes_at y (cpu_branch b s)"
  using nes_at_cycles[of y s] by (simp_all add: add_page_cycle_def cpu_branch_def Let_def)
















subsection \<open>Every run ends\<close>








subsection \<open>Drawing\<close>

































section \<open>From power on\<close>












end
