(* ===== verification/Monitor.thy ===== *)
theory Monitor
  imports Sdb
begin

text \<open>
  Starting NEMU, \<open>nemu/src/monitor/monitor.c\<close> and \<open>nemu-main.c\<close>, and NEMU as a reference for
  differential testing, \<open>cpu/difftest/ref.c\<close>. The command line comes as the results of
  \<open>getopt_long\<close>; the random numbers, the files and the lines typed are fields of the host.
\<close>

section \<open>The host\<close>

datatype mon_opt = OptBatch | OptLog string | OptDiff string | OptPort string | OptImage string | OptOther

record host =
  cfg_mem_random :: bool
  rand_word :: "nat \<Rightarrow> u32"
  pmem_static :: bool
  pmem_allocated :: bool
  log_opens :: "string \<Rightarrow> bool"
  host_file :: "string \<Rightarrow> u8 list option"
  sdl_keys :: "string \<Rightarrow> u8"
  disk_img :: "u8 list option"
  typed :: "string list"

record 'r monitor =
  dbg :: "'r sdb"
  log_file :: "string option"
  diff_so_file :: "string option"
  img_file :: "string option"
  difftest_port :: int

definition upd_mach :: "machine \<Rightarrow> 'r sdb \<Rightarrow> 'r sdb" where
  "upd_mach x s = s\<lparr>em := (em s)\<lparr>mach := x\<rparr>\<rparr>"

section \<open>Starting\<close>

text \<open>
  A port that is no number leaves \<open>difftest_port\<close> as it was. The first argument that is no option
  is the image and ends the parsing; an unknown option ends the program with \<open>exit(0)\<close>: None.
\<close>

fun parse_args :: "mon_opt list \<Rightarrow> 'r monitor \<Rightarrow> 'r monitor option res" where
  "parse_args [] m = Inr (Some m)"
| "parse_args (OptBatch # os) m = parse_args os (m\<lparr>dbg := sdb_set_batch_mode (dbg m)\<rparr>)"
| "parse_args (OptPort p # os) m =
     (case sscanf_d p of
        Inr n \<Rightarrow> parse_args os (m\<lparr>difftest_port := n\<rparr>)
      | Inl e \<Rightarrow> if e = Undef ''sscanf: nothing stored'' then parse_args os m else Inl e)"
| "parse_args (OptLog f # os) m = parse_args os (m\<lparr>log_file := Some f\<rparr>)"
| "parse_args (OptDiff f # os) m = parse_args os (m\<lparr>diff_so_file := Some f\<rparr>)"
| "parse_args (OptImage f # os) m = Inr (Some (m\<lparr>img_file := Some f\<rparr>))"
| "parse_args (OptOther # os) m = Inr None"

definition init_log :: "host \<Rightarrow> string option \<Rightarrow> 'a \<Rightarrow> 'a res" where
  "init_log h file x =
     (case file of None \<Rightarrow> Inr x | Some f \<Rightarrow> guardR (log_opens h f) (AssertFail ''Can not open the log'') (Inr x))"

definition init_mem :: "host \<Rightarrow> bus \<Rightarrow> bus res" where
  "init_mem h b =
     guardR (pmem_allocated h) (AssertFail ''pmem'')
       (Inr (if cfg_mem_random h
             then b\<lparr>pmem := (\<lambda>a. if a < CONFIG_MSIZE then le_bytes 4 (rand_word h (a div 4)) ! (a mod 4) else pmem b a)\<rparr>
             else b))"

text \<open>\<open>fread\<close> of one item of the size of the file; an empty file gives 0 items.\<close>

definition load_img :: "host \<Rightarrow> string option \<Rightarrow> machine \<Rightarrow> (int \<times> machine) res" where
  "load_img h file m =
     (case file of
        None \<Rightarrow> Inr (4096, m)
      | Some f \<Rightarrow>
          (case host_file h f of
             None \<Rightarrow> Inl (AssertFail ''Can not open the image'')
           | Some bytes \<Rightarrow>
               guardR (guest_to_host RESET_VECTOR + int (length bytes) \<le> int CONFIG_MSIZE) (Undef ''fread past pmem'')
                 (guardR (bytes \<noteq> []) (AssertFail ''ret == 1'')
                   (Inr (int (length bytes),
                      m\<lparr>mbus := (mbus m)\<lparr>pmem := store_bytes (pmem (mbus m)) (nat (guest_to_host RESET_VECTOR)) bytes\<rparr>\<rparr>)))))"

definition init_monitor :: "'r env \<Rightarrow> host \<Rightarrow> mon_opt list \<Rightarrow> 'r monitor \<Rightarrow> 'r monitor option res" where
  "init_monitor v h opts m0 =
     bindR (parse_args opts m0) (\<lambda>parsed. case parsed of
         None \<Rightarrow> Inr None
       | Some m \<Rightarrow>
           (let s = dbg m; x = mach (em s)
            in bindR (init_log h (log_file m) (mbus x)) (\<lambda>b.
               bindR (init_mem h b) (\<lambda>b1.
               bindR (if cfg_device (conf b1) then init_device (sdl_keys h) (disk_img h) b1 else Inr b1) (\<lambda>b2.
               bindR (init_isa (x\<lparr>mbus := b2\<rparr>)) (\<lambda>x1.
               bindR (load_img h (img_file m) x1) (\<lambda>(img_size, x2).
               bindR (if cfg_difftest (conf (mbus x2))
                      then guardR (diff_so_file m \<noteq> None) (AssertFail ''ref_so_file != NULL'')
                             (init_difftest (diff v) img_size (difftest_port m) x2 (ref_state (em s)))
                      else Inr (ref_state (em s))) (\<lambda>r.
                 let s1 = upd_mach x2 s
                 in Inr (Some (m\<lparr>dbg := init_sdb (s1\<lparr>em := (em s1)\<lparr>ref_state := r\<rparr>\<rparr>)\<rparr>))))))))))"

text \<open>The exit status, with the final state unless the arguments ended the program.\<close>

definition nemu_main :: "'r env \<Rightarrow> host \<Rightarrow> mon_opt list \<Rightarrow> 'r monitor \<Rightarrow> (int \<times> 'r sdb option) res" where
  "nemu_main v h opts m0 =
     bindR (init_monitor v h opts m0) (\<lambda>started. case started of
         None \<Rightarrow> Inr (0, None)
       | Some m \<Rightarrow> bindR (engine_start v (typed h) (dbg m)) (\<lambda>s.
           Inr (of_bool (is_exit_status_bad (mbus (mach (em s)))), Some s)))"

section \<open>NEMU as the reference\<close>

text \<open>
  The shared object is built with CONFIG_TARGET_SHARE: \<open>paddr.c\<close> has its own memory functions, without
  devices and without a test of the address. \<open>init_mem\<close> only fills the memories of the ysyxSoC; \<open>pmem\<close>
  is a zero array, or a NULL pointer that nothing allocates (CONFIG_PMEM_MALLOC).
\<close>

definition share_paddr_read :: "u32 \<Rightarrow> nat \<Rightarrow> bus \<Rightarrow> (u32 \<times> bus) res" where
  "share_paddr_read addr len b = bindR (pmem_read addr len b) (\<lambda>v. Inr (v, b))"

definition share_paddr_write :: "u32 \<Rightarrow> nat \<Rightarrow> u32 \<Rightarrow> bus \<Rightarrow> bus res" where
  "share_paddr_write addr len data b = pmem_write addr len data b"

text \<open>
  They do what the native functions do without devices, except that an address outside pmem is
  undefined instead of a panic: the model of the interpreter serves both.
\<close>

lemma share_paddr_native:
  assumes "\<not> cfg_device (conf b)"
  shows "paddr_read addr len b = Inr x \<longleftrightarrow> share_paddr_read addr len b = Inr x"
    and "paddr_write addr len data b = Inr b' \<longleftrightarrow> share_paddr_write addr len data b = Inr b'"
proof -
  have "in_pmem addr" if "0 \<le> guest_to_host addr" "guest_to_host addr + int len \<le> int CONFIG_MSIZE" "len = 1 \<or> len = 2 \<or> len = 4"
    using that unfolding guest_to_host_def in_pmem_def word_less_def by (auto simp: uint_sub_if')
  then show "paddr_read addr len b = Inr x \<longleftrightarrow> share_paddr_read addr len b = Inr x"
    "paddr_write addr len data b = Inr b' \<longleftrightarrow> share_paddr_write addr len data b = Inr b'"
    using assms by (auto simp: paddr_read_def paddr_write_def share_paddr_read_def share_paddr_write_def pmem_read_def
        pmem_write_def host_read_def host_write_def out_of_bound_def guardR_def bindR_def split: if_splits)
qed

text \<open>With CONFIG_YSYXSOC the address selects one of five arrays; the result is the array and the offset in it.\<close>

datatype soc_mem = SRAM | MROM | FLASH | PSRAM | SDRAM

definition soc_mem_size :: "soc_mem \<Rightarrow> nat" where
  "soc_mem_size r =
     (case r of SRAM \<Rightarrow> 8 * 1024 | MROM \<Rightarrow> 4 * 1024 | FLASH \<Rightarrow> 16 * 1024 * 1024 | PSRAM \<Rightarrow> 4 * 1024 * 1024
      | SDRAM \<Rightarrow> 64 * 1024 * 1024)"

definition soc_guest_to_host :: "u32 \<Rightarrow> (soc_mem \<times> nat) res" where
  "soc_guest_to_host paddr =
     (if paddr \<ge> 0x0f000000 \<and> paddr \<le> 0x0fffffff then Inr (SRAM, unat (paddr - 0x0f000000))
      else if paddr \<ge> 0x20000000 \<and> paddr \<le> 0x20000fff then Inr (MROM, unat (paddr - 0x20000000))
      else if paddr \<ge> 0x30000000 \<and> paddr \<le> 0x3fffffff then Inr (FLASH, unat (paddr - 0x30000000))
      else if paddr \<ge> 0x80000000 \<and> paddr \<le> 0x9fffffff then Inr (PSRAM, unat (paddr - 0x80000000))
      else if paddr \<ge> 0xa0000000 \<and> paddr \<le> 0xbfffffff then Inr (SDRAM, unat (paddr - 0xa0000000))
      else out_of_bound)"

definition soc_paddr_read :: "u32 \<Rightarrow> nat \<Rightarrow> (soc_mem \<Rightarrow> bytemem) \<Rightarrow> u32 res" where
  "soc_paddr_read addr len mems =
     bindR (soc_guest_to_host addr) (\<lambda>(r, off). host_read (soc_mem_size r) (mems r) (int off) len)"

definition soc_paddr_write :: "u32 \<Rightarrow> nat \<Rightarrow> u32 \<Rightarrow> (soc_mem \<Rightarrow> bytemem) \<Rightarrow> (soc_mem \<Rightarrow> bytemem) res" where
  "soc_paddr_write addr len data mems =
     bindR (soc_guest_to_host addr) (\<lambda>(r, off).
       bindR (host_write (soc_mem_size r) (mems r) (int off) len data) (\<lambda>x. Inr (mems(r := x))))"

text \<open>\<open>rand()\<close> fills the two read-only memories with the low byte of one number each.\<close>

definition soc_init_mem :: "host \<Rightarrow> (soc_mem \<Rightarrow> bytemem) \<Rightarrow> soc_mem \<Rightarrow> bytemem" where
  "soc_init_mem h mems =
     (if cfg_mem_random h
      then (\<lambda>r a. if soc_mem_size r \<le> a then mems r a
                else if r = MROM then ucast (rand_word h 0) else if r = FLASH then ucast (rand_word h 1) else 0)
      else mems)"

definition share_init_mem :: "host \<Rightarrow> bus \<Rightarrow> bus res" where
  "share_init_mem h b = guardR (pmem_static h) (Undef ''pmem is NULL'') (Inr b)"

definition difftest_memcpy :: "u32 \<Rightarrow> u8 list \<Rightarrow> 'r emu \<Rightarrow> 'r emu res" where
  "difftest_memcpy addr buf e =
     guardR (0 \<le> guest_to_host addr \<and> guest_to_host addr + int (length buf) \<le> int CONFIG_MSIZE) (Undef ''memcpy past pmem'')
       (Inr (e\<lparr>mach := (mach e)\<lparr>mbus := (mbus (mach e))\<lparr>pmem :=
          store_bytes (pmem (mbus (mach e))) (nat (guest_to_host addr)) buf\<rparr>\<rparr>\<rparr>))"

text \<open>Both directions of \<open>difftest_regcpy\<close> copy 32 registers, the pc and four CSRs.\<close>

definition copy_regs :: "cpu_state \<Rightarrow> cpu_state" where
  "copy_regs c = \<lparr>gpr = map (\<lambda>i. gpr c ! i) [0..<32], cpu_pc = cpu_pc c, csr = map (\<lambda>i. csr c ! i) [0..<4]\<rparr>"

definition difftest_regcpy_to_dut :: "'r emu \<Rightarrow> cpu_state" where
  "difftest_regcpy_to_dut e = copy_regs (cpu (mach e))"

definition difftest_regcpy_to_ref :: "cpu_state \<Rightarrow> 'r emu \<Rightarrow> 'r emu" where
  "difftest_regcpy_to_ref c e = e\<lparr>mach := (mach e)\<lparr>cpu := copy_regs c\<rparr>\<rparr>"

definition difftest_exec :: "'r env \<Rightarrow> u64 \<Rightarrow> 'r emu \<Rightarrow> 'r emu res" where
  "difftest_exec u n e = cpu_exec u n e"

definition difftest_raise_intr :: "u32 \<Rightarrow> 'r emu \<Rightarrow> 'r emu res" where
  "difftest_raise_intr NO e = Inl (AssertFail ''difftest_raise_intr'')"

definition difftest_init :: "host \<Rightarrow> int \<Rightarrow> 'r emu \<Rightarrow> 'r emu res" where
  "difftest_init h port e =
     bindR (share_init_mem h (mbus (mach e))) (\<lambda>b. bindR (init_isa ((mach e)\<lparr>mbus := b\<rparr>)) (\<lambda>x. Inr (e\<lparr>mach := x\<rparr>)))"

definition nemu_ref :: "'r env \<Rightarrow> host \<Rightarrow> 'r emu diff_ref" where
  "nemu_ref u h = \<lparr>ref_memcpy = difftest_memcpy, ref_get = difftest_regcpy_to_dut, ref_put = difftest_regcpy_to_ref,
     ref_exec = difftest_exec u, ref_raise_intr = difftest_raise_intr, ref_init = difftest_init h\<rparr>"

end
