(* ===== verification/MonitorProps.thy ===== *)
theory MonitorProps
  imports Monitor CpuProps
begin

text \<open>
  The whole program: what \<open>main\<close> does with the built-in image.
\<close>

section \<open>The whole program\<close>

lemma init_mem_keeps:
  "init_mem h b = Inr b1 \<Longrightarrow> \<exists>p. b1 = b\<lparr>pmem := p\<rparr>"
proof -
  assume "init_mem h b = Inr b1"
  then have "b1 = b \<or> (\<exists>p. b1 = b\<lparr>pmem := p\<rparr>)" by (auto simp: init_mem_def res_elims split: if_splits)
  moreover have "b = b\<lparr>pmem := pmem b\<rparr>" by simp
  ultimately show ?thesis by metis
qed

lemma batch_run:
  fixes m :: "'r monitor"
  defines "e \<equiv> em (dbg m)"
  assumes "cpu_sizes (mach e)" "run_state e = NEMU_STOP" "\<not> cfg_device (conf (mbus (mach e)))" "\<not> cfg_difftest (conf (mbus (mach e)))"
    and "pmem_allocated h" "img_file m = None" "log_file m = None"
    and "cfg_iringbuf v \<Longrightarrow> rb e = RbNull \<and> malloc_hdr v \<and> (\<exists>blk. malloc_blk v 32 = Some blk \<and> length blk = 32)"
  shows "\<exists>s. nemu_main v h [OptBatch] m = Inr (0, Some s) \<and>
    trap_log (em s) = trap_log e @ [(MsgGoodTrap, 0x8000000c)] \<and> g_nr_guest_inst (em s) = g_nr_guest_inst e + 4"
proof -
  obtain p where mem: "init_mem h (mbus (mach e)) = Inr ((mbus (mach e))\<lparr>pmem := p\<rparr>)"
    using init_mem_keeps[of h "mbus (mach e)"] assms(6) by (fastforce simp: init_mem_def)
  let ?e = "e\<lparr>mach := (mach e)\<lparr>mbus := (mbus (mach e))\<lparr>pmem := p\<rparr>\<rparr>, em_wps := init_wp_pool\<rparr>"
  have "cpu_sizes (mach ?e)" "run_state ?e = NEMU_STOP" "plain_env v ?e"
    using assms(2-5) by (simp_all add: cpu_sizes_def run_state_def plain_env_def no_watch_def init_wp_pool_def)
  from builtin_run[OF this] assms(9) obtain m1 e' where r: "init_isa (mach ?e) = Inr m1" "cpu_exec v (- 1) (?e\<lparr>mach := m1\<rparr>) = Inr e'"
    "trap_log e' = trap_log e @ [(MsgGoodTrap, 0x8000000c)]" "g_nr_guest_inst e' = g_nr_guest_inst e + 4"
    "\<not> is_exit_status_bad (mbus (mach e'))" by auto
  have conf: "\<not> cfg_device (conf (mbus (mach e)))" "\<not> cfg_difftest (conf (mbus (mach e)))" "conf (mbus m1) = conf (mbus (mach e))"
    using assms(4,5) r(1) by (auto simp: init_isa_def restart_def set_csr_def Let_def res_elims)
  have "?e\<lparr>mach := m1\<rparr> = e\<lparr>mach := m1, em_wps := init_wp_pool\<rparr>" by simp
  note run = r(2)[unfolded this]
  show ?thesis
    using r(1,3-) run mem conf assms(7,8)
    by (simp add: nemu_main_def init_monitor_def init_log_def load_img_def Let_def e_def[symmetric] sdb_set_batch_mode_def
        upd_mach_def init_sdb_def engine_start_def sdb_mainloop_def cmd_c_def run_cpu_def)
qed

text \<open>
  C8. \<open>nemu -b\<close> without an image, in a build without devices and differential testing (the defaults of
  \<open>CONFIG_DEVICE\<close> and \<open>CONFIG_DIFFTEST\<close>) and with or without the trace and watchpoints. From the static
  state of the program, whatever memory and registers hold and whatever the random generator gives,
  provided the memory for pmem and for the trace can be allocated: the start-up succeeds, the batch run executes the four instructions of the built-in
  image, HIT GOOD TRAP at 0x8000000c is the only message and the program exits with status 0.
\<close>

theorem nemu_batch_good_trap:
  fixes m :: "'r monitor"
  defines "e \<equiv> em (dbg m)"
  assumes "cpu_sizes (mach e)" "run_state e = NEMU_STOP" "\<not> cfg_device (conf (mbus (mach e)))" "\<not> cfg_difftest (conf (mbus (mach e)))"
    and "pmem_allocated h" "img_file m = None" "log_file m = None"
    and "cfg_iringbuf v \<Longrightarrow> rb e = RbNull \<and> malloc_hdr v \<and> (\<exists>blk. malloc_blk v 32 = Some blk \<and> length blk = 32)"
  shows "\<exists>s. nemu_main v h [OptBatch] m = Inr (0, Some s) \<and>
    trap_log (em s) = trap_log e @ [(MsgGoodTrap, 0x8000000c)] \<and> g_nr_guest_inst (em s) = g_nr_guest_inst e + 4"
  using batch_run[where m = m and v = v and h = h] assms by blast

definition demo_host :: host where
  "demo_host = \<lparr>cfg_mem_random = True, rand_word = (\<lambda>i. of_nat (1103515245 * i + 12345)), pmem_static = True, pmem_allocated = True,
     log_opens = (\<lambda>_. False), host_file = (\<lambda>_. None), sdl_keys = (\<lambda>_. 0), disk_img = None, typed = []\<rparr>"

definition demo_monitor :: "unit monitor" where
  "demo_monitor = \<lparr>dbg = \<lparr>em = demo_emu (\<lambda>_. 0) 0, is_batch_mode = False, outp = []\<rparr>,
     log_file = None, diff_so_file = None, img_file = None, difftest_port = 1234\<rparr>"

theorem nemu_batch_good_trap_witness:
  "\<exists>s. nemu_main demo_env demo_host [OptBatch] demo_monitor = Inr (0, Some s) \<and>
    trap_log (em s) = [(MsgGoodTrap, 0x8000000c)] \<and> g_nr_guest_inst (em s) = 4"
  using nemu_batch_good_trap[where m = demo_monitor and v = demo_env and h = demo_host] demo_emu_facts(1,3,8)[of "\<lambda>_. 0" 0] demo_emu_facts(6,7)
  by (simp add: demo_monitor_def demo_host_def) (simp add: demo_emu_def static_bus_def)

end
