(* ===== verification/RefProps.thy ===== *)
theory RefProps
  imports MonitorProps
begin

text \<open>
  Differential testing of NEMU against itself. An instruction that succeeds either marks itself to be
  skipped (a device access, a trap) and leaves the memory alone, or does the same on any machine with
  the same registers and memory (\<open>mirrored\<close>); so a reference in lock step stays in lock step.
\<close>

section \<open>Two machines side by side\<close>

text \<open>\<open>carry m b\<close>: the registers and the memory of \<open>m\<close>, on the rest of the bus \<open>b\<close>.\<close>

definition carry :: "machine \<Rightarrow> bus \<Rightarrow> machine" where
  "carry m b = \<lparr>cpu = cpu m, mbus = b\<lparr>pmem := pmem (mbus m)\<rparr>\<rparr>"

lemma carry_simps [simp]: "cpu (carry m b) = cpu m" "mbus (carry m b) = b\<lparr>pmem := pmem (mbus m)\<rparr>"
  by (simp_all add: carry_def)

text \<open>What an instruction leaves when it has marked itself as one to skip.\<close>

definition skipped :: "bus \<Rightarrow> bus \<Rightarrow> bool" where
  "skipped b b1 \<longleftrightarrow> is_skip_ref b1 \<and> skip_dut_nr_inst b1 = 0 \<and> pmem b1 = pmem b \<and> conf b1 = conf b \<and>
     (nemu_state b1 = nemu_state b \<or> st_state (nemu_state b1) = NEMU_END \<or>
      st_state (nemu_state b1) = NEMU_ABORT \<and> halt_ret (nemu_state b1) = - 1)"

definition kept :: "bus \<Rightarrow> bus \<Rightarrow> bool" where
  "kept b b1 \<longleftrightarrow> is_skip_ref b1 = is_skip_ref b \<and> skip_dut_nr_inst b1 = skip_dut_nr_inst b \<and> pmem b1 = pmem b \<and> conf b1 = conf b \<and>
     nemu_state b1 = nemu_state b"

lemma kept_refl [simp]: "kept b b" by (simp add: kept_def)
lemma kept_trans: "kept a b \<Longrightarrow> kept b c \<Longrightarrow> kept a c" by (simp add: kept_def)

lemma kept_simps [simp]:
  "kept b (b1\<lparr>io_space := x\<rparr>) = kept b b1" "kept b (b1\<lparr>aud := x1\<rparr>) = kept b b1" "kept b (b1\<lparr>sd := x2\<rparr>) = kept b b1"
  "kept b (b1\<lparr>kbd := x3\<rparr>) = kept b b1" "kept b (b1\<lparr>clk := x4\<rparr>) = kept b b1" "kept b (b1\<lparr>serial_out := x5\<rparr>) = kept b b1"
  "kept b (reg_set i j v b1) = kept b b1" "kept (b\<lparr>io_space := x\<rparr>) b1 = kept b b1"
  by (simp_all add: kept_def reg_set_def)

lemma kept_get_time: "kept b (snd (get_time b1)) = kept b b1"
  using get_time_frame[of b1] by auto

lemma time_kept: "get_time b = (t, b1) \<Longrightarrow> kept b b1"
  using kept_get_time[of b b] by simp

lemma sd_kept: "kept b (sd_prepare_rw w b)" "kept b (sd_data b)" "sdcard_handle_cmd cmd b = Inr b1 \<Longrightarrow> kept b b1"
proof -
  show p: "kept b (sd_prepare_rw w b)" for w by (simp add: sd_prepare_rw_def Let_def)
  show "kept b (sd_data b)" by (auto simp: sd_data_def Let_def split: option.splits prod.splits)
  show "sdcard_handle_cmd cmd b = Inr b1 \<Longrightarrow> kept b b1" by (auto simp: sdcard_handle_cmd_def Let_def p split: if_splits)
qed

lemma handlers_kept:
  "serial_io_handler off len w b = Inr b1 \<Longrightarrow> kept b b1" "rtc_io_handler off len w b = Inr b1 \<Longrightarrow> kept b b1"
  "i8042_data_io_handler off len w b = Inr b1 \<Longrightarrow> kept b b1" "audio_io_handler off len w b = Inr b1 \<Longrightarrow> kept b b1"
  "sdcard_io_handler off len w b = Inr b1 \<Longrightarrow> kept b b1"
  by (auto simp: serial_io_handler_def serial_putc_def rtc_io_handler_def i8042_data_io_handler_def audio_io_handler_def
      audio_work_def sdcard_io_handler_def Let_def res_elims sd_kept time_kept split: if_splits prod.splits)

lemma callback_kept: "invoke_callback cb off len w b = Inr b1 \<Longrightarrow> kept b b1"
  by (cases cb) (auto dest: handlers_kept)

text \<open>An access outside pmem goes to a device, which marks the instruction.\<close>

lemma mmio_skipped:
  assumes "cfg_difftest (conf b)"
  shows "mmio_read a len b = Inr (v, b1) \<Longrightarrow> skipped b b1" "mmio_write a len v b = Inr b1 \<Longrightarrow> skipped b b1"
proof -
  have sk: "skipped b b1" if "kept (difftest_skip_ref b) b1" for b1
    using that assms by (simp add: kept_def skipped_def difftest_skip_ref_def)
  show "skipped b b1" if "mmio_read a len b = Inr (v, b1)"
    using that by (auto simp: mmio_read_def fetch_mmio_map_def find_mapid_by_addr_def map_read_def check_bound_def Let_def res_elims
        split: option.splits intro!: sk dest: callback_kept)
  show "skipped b b1" if "mmio_write a len v b = Inr b1"
    using that by (auto simp: mmio_write_def fetch_mmio_map_def find_mapid_by_addr_def map_write_def check_bound_def Let_def res_elims
        split: option.splits intro!: sk dest!: callback_kept)
qed

section \<open>One instruction\<close>

text \<open>
  A computation on \<open>m\<close> that succeeds either marks the instruction or does the same on the registers
  and the memory of \<open>m\<close> carried over to any other bus.
\<close>

definition mirrored :: "machine \<Rightarrow> (machine \<Rightarrow> ('a \<times> machine) res) \<Rightarrow> bool" where
  "mirrored m f \<longleftrightarrow> (\<forall>x m1. f m = Inr (x, m1) \<longrightarrow>
     skipped (mbus m) (mbus m1) \<or>
     kept ((mbus m)\<lparr>pmem := pmem (mbus m1)\<rparr>) (mbus m1) \<and> (\<forall>b. f (carry m b) = Inr (x, carry m1 b)))"

lemma carry_regs: "carry (m\<lparr>cpu := c\<rparr>) b = (carry m b)\<lparr>cpu := c\<rparr>"
  by (simp add: carry_def)

lemma set_R_carry: "set_R i v m = Inr m1 \<Longrightarrow> mbus m1 = mbus m \<and> set_R i v (carry m b) = Inr (carry m1 b)"
  by (auto simp: set_R_def res_elims carry_regs)

lemma set_csr_carry: "set_csr i v m = Inr m1 \<Longrightarrow> mbus m1 = mbus m \<and> set_csr i v (carry m b) = Inr (carry m1 b)"
  by (auto simp: set_csr_def res_elims carry_regs)

lemma get_carry: "get_R i (carry m b) = get_R i m" "get_csr j (carry m b) = get_csr j m"
  by (simp_all add: get_R_def get_csr_def)

lemma operand_carry: "decode_operand ty i (carry m b) = decode_operand ty i m"
  by (simp add: decode_operand_def get_carry cong: operand_type.case_cong)

lemma read_carry:
  assumes "cfg_difftest (conf (mbus m))" "vaddr_read a len (mbus m) = Inr (v, b1)"
  shows "skipped (mbus m) b1 \<or> b1 = mbus m \<and> (\<forall>b. vaddr_read a len (mbus (carry m b)) = Inr (v, mbus (carry m b)))"
  using assms mmio_skipped(1)[OF assms(1)]
  by (auto simp: vaddr_read_def paddr_read_def pmem_read_def out_of_bound_def res_elims split: if_splits)

lemma write_carry:
  assumes "cfg_difftest (conf (mbus m))" "vaddr_write a len v (mbus m) = Inr b1"
  shows "skipped (mbus m) b1 \<or> b1 = (mbus m)\<lparr>pmem := pmem b1\<rparr> \<and>
    (\<forall>b. vaddr_write a len v (mbus (carry m b)) = Inr (b\<lparr>pmem := pmem b1\<rparr>))"
  using assms mmio_skipped(2)[OF assms(1)]
  by (auto simp: vaddr_write_def paddr_write_def pmem_write_def out_of_bound_def res_elims split: if_splits)

text \<open>The last step of an instruction: \<open>R(0) = 0\<close>.\<close>

lemma load_mirrored:
  assumes "cfg_difftest (conf (mbus m))"
  shows "mirrored m (\<lambda>m. bindR (load_R rd a len g m) (\<lambda>m'. Inr (x, m')))"
  unfolding mirrored_def
proof (intro allI impI)
  fix y m1
  assume "bindR (load_R rd a len g m) (\<lambda>m'. Inr (x, m')) = Inr (y, m1)"
  then obtain v b1 where r: "vaddr_read a len (mbus m) = Inr (v, b1)" "set_R rd (g v) (m\<lparr>mbus := b1\<rparr>) = Inr m1" "y = x"
    by (auto simp: load_R_def res_elims)
  have bus: "mbus m1 = b1" using set_R_carry[OF r(2)] by simp
  from read_carry[OF assms r(1)]
  show "skipped (mbus m) (mbus m1) \<or> kept ((mbus m)\<lparr>pmem := pmem (mbus m1)\<rparr>) (mbus m1) \<and>
      (\<forall>b. bindR (load_R rd a len g (carry m b)) (\<lambda>m'. Inr (x, m')) = Inr (y, carry m1 b))"
  proof
    assume k: "b1 = mbus m \<and> (\<forall>b. vaddr_read a len (mbus (carry m b)) = Inr (v, mbus (carry m b)))"
    then have "set_R rd (g v) m = Inr m1" using r(2) by simp
    from set_R_carry[OF this] have w: "set_R rd (g v) (carry m b) = Inr (carry m1 b)" for b by blast
    have id: "(carry m b)\<lparr>mbus := mbus (carry m b)\<rparr> = carry m b" for b by simp
    have "load_R rd a len g (carry m b) = Inr (carry m1 b)" for b
      unfolding load_R_def using k by (simp only: bindR_Inr prod.case id w)
    then show ?thesis using k bus r(3) by simp
  qed (simp add: bus)
qed

lemma store_mirrored:
  assumes "cfg_difftest (conf (mbus m))"
  shows "mirrored m (\<lambda>m. bindR (store_M a len v m) (\<lambda>m'. Inr (x, m')))"
  unfolding mirrored_def
proof (intro allI impI)
  fix y m1
  assume "bindR (store_M a len v m) (\<lambda>m'. Inr (x, m')) = Inr (y, m1)"
  then obtain b1 where r: "vaddr_write a len v (mbus m) = Inr b1" "m1 = m\<lparr>mbus := b1\<rparr>" "y = x"
    by (auto simp: store_M_def res_elims)
  from write_carry[OF assms r(1)]
  show "skipped (mbus m) (mbus m1) \<or> kept ((mbus m)\<lparr>pmem := pmem (mbus m1)\<rparr>) (mbus m1) \<and>
      (\<forall>b. bindR (store_M a len v (carry m b)) (\<lambda>m'. Inr (x, m')) = Inr (y, carry m1 b))"
  proof
    assume k: "b1 = (mbus m)\<lparr>pmem := pmem b1\<rparr> \<and> (\<forall>b. vaddr_write a len v (mbus (carry m b)) = Inr (b\<lparr>pmem := pmem b1\<rparr>))"
    have "store_M a len v (carry m b) = Inr (carry m1 b)" for b
      unfolding store_M_def using k r(2) by (simp add: carry_def)
    moreover have "kept ((mbus m)\<lparr>pmem := pmem b1\<rparr>) b1" using k by (metis kept_refl)
    ultimately show ?thesis using r(2,3) by simp
  qed (simp add: r(2))
qed

lemma plain_mirrored:
  assumes "\<And>x m1. f m = Inr (x, m1) \<Longrightarrow> mbus m1 = mbus m \<and> (\<forall>b. f (carry m b) = Inr (x, carry m1 b))"
  shows "mirrored m f"
  unfolding mirrored_def using assms by fastforce

lemma writes_carry:
  "set_R i v m = Inr m1 \<Longrightarrow> mbus m1 = mbus m \<and> (\<forall>b. set_R i v (carry m b) = Inr (carry m1 b))"
  "set_csr j v m = Inr m1 \<Longrightarrow> mbus m1 = mbus m \<and> (\<forall>b. set_csr j v (carry m b) = Inr (carry m1 b))"
  using set_R_carry set_csr_carry by blast+

lemma trap_mirrored:
  assumes "cfg_difftest (conf (mbus m))"
  shows "mirrored m (\<lambda>m. bindR (get_R 10 m) (\<lambda>code. Inr (x, nemutrap pc code m)))"
    and "mirrored m (\<lambda>m. bindR (invalid_inst pc m) (\<lambda>m'. Inr (x, m')))"
proof -
  have st: "skipped b (set_nemu_state st pc ret b1)"
    if "pmem b1 = pmem b" "conf b1 = conf b" "cfg_difftest (conf b)" "st = NEMU_END \<or> st = NEMU_ABORT \<and> ret = - 1" for b b1 st ret
    using that by (auto simp: skipped_def set_nemu_state_def difftest_skip_ref_def)
  have fetch: "pmem b1 = pmem b \<and> conf b1 = conf b" if "inst_fetch a 4 b = Inr (i, p, b1)" "cfg_difftest (conf b)" for a b i p b1
    using that mmio_skipped(1)[OF that(2)]
    by (auto simp: inst_fetch_def vaddr_ifetch_def paddr_read_def out_of_bound_def res_elims skipped_def split: if_splits)
  show "mirrored m (\<lambda>m. bindR (get_R 10 m) (\<lambda>code. Inr (x, nemutrap pc code m)))"
    using assms st by (auto simp: mirrored_def nemutrap_def res_elims)
  show "mirrored m (\<lambda>m. bindR (invalid_inst pc m) (\<lambda>m'. Inr (x, m')))"
    unfolding mirrored_def
  proof (intro allI impI disjI1)
    fix y m1
    assume "bindR (invalid_inst pc m) (\<lambda>m'. Inr (x, m')) = Inr (y, m1)"
    then obtain i1 p1 b1 i2 p2 b2 where f: "inst_fetch pc 4 (mbus m) = Inr (i1, p1, b1)" "inst_fetch p1 4 b1 = Inr (i2, p2, b2)"
      "m1 = m\<lparr>mbus := set_nemu_state NEMU_ABORT pc (- 1) b2\<rparr>"
      by (auto simp: invalid_inst_def res_elims)
    from fetch[OF f(1) assms] have 1: "pmem b1 = pmem (mbus m)" "conf b1 = conf (mbus m)" by simp_all
    then have "pmem b2 = pmem b1 \<and> conf b2 = conf b1" using fetch[OF f(2)] assms by simp
    then show "skipped (mbus m) (mbus m1)" using 1 assms f(3) by (auto intro!: st)
  qed
qed

lemma csr_mirrored:
  "mirrored m (\<lambda>m. bindR (get_csr i m) (\<lambda>t. bindR (set_csr i (g t) m) (\<lambda>m1. bindR (set_R rd t m1) (\<lambda>m'. Inr (x, m')))))"
  by (rule plain_mirrored) (auto simp: res_elims get_carry dest!: writes_carry)

lemma raise_mirrored: "mirrored m (isa_raise_intr no epc)"
  by (rule plain_mirrored) (auto simp: isa_raise_intr_def res_elims get_carry dest!: writes_carry)

lemma jump_mirrored: "mirrored m (\<lambda>m. bindR (set_R rd v m) (\<lambda>m'. Inr (x, m')))"
  by (rule plain_mirrored) (auto simp: res_elims dest!: writes_carry)

lemma result_mirrored: "mirrored m (\<lambda>m. bindR r (\<lambda>v. bindR (set_R rd v m) (\<lambda>m'. Inr (x, m'))))"
  by (rule plain_mirrored) (auto simp: res_elims dest!: writes_carry)

lemma still_mirrored: "mirrored m (\<lambda>m. Inr (x, m))" "mirrored m (\<lambda>m. bindR (get_csr i m) (\<lambda>v. Inr (v, m)))"
  by (rule plain_mirrored; auto simp: res_elims get_carry)+

lemma rv_exec_mirrored:
  assumes "cfg_difftest (conf (mbus m))"
  shows "mirrored m (rv_exec op s rd a b imm)"
  unfolding rv_exec_def Let_def
  by (cases op; simp only: rv_op.case;
      rule load_mirrored[OF assms] store_mirrored[OF assms] trap_mirrored[OF assms] csr_mirrored csr_mirrored[where g = "\<lambda>_. w" for w]
        raise_mirrored jump_mirrored result_mirrored still_mirrored)

lemma decode_exec_mirrored:
  assumes "cfg_difftest (conf (mbus m))"
  shows "mirrored m (decode_exec s)"
  unfolding mirrored_def
proof (intro allI impI)
  fix x m2
  assume "decode_exec s m = Inr (x, m2)"
  then obtain hit dnpc m1 where r: "instpat_find rv_table (s_inst s) = Inr hit"
    "(case hit of None \<Rightarrow> Inr (s_snpc s, m) | Some (op, ty) \<Rightarrow> bindR (decode_operand ty (s_inst s) m)
       (\<lambda>(rd, src1, src2, imm). rv_exec op (s\<lparr>s_dnpc := s_snpc s\<rparr>) rd src1 src2 imm m)) = Inr (dnpc, m1)"
    "set_R 0 0 m1 = Inr m2" "x = s\<lparr>s_dnpc := dnpc\<rparr>"
    by (auto simp: decode_exec_def Let_def res_elims cong: option.case_cong)
  let ?body = "\<lambda>m. case hit of None \<Rightarrow> Inr (s_snpc s, m) | Some (op, ty) \<Rightarrow> bindR (decode_operand ty (s_inst s) m)
       (\<lambda>(rd, src1, src2, imm). rv_exec op (s\<lparr>s_dnpc := s_snpc s\<rparr>) rd src1 src2 imm m)"
  have "mirrored m ?body"
  proof (cases hit)
    case (Some p)
    then show ?thesis
    proof (cases p)
      case (Pair op ty)
      show ?thesis
      proof (cases "decode_operand ty (s_inst s) m")
        case (Inr q)
        obtain rd src1 src2 imm where q: "q = (rd, src1, src2, imm)" by (cases q)
        show ?thesis
          using rv_exec_mirrored[OF assms, of op "s\<lparr>s_dnpc := s_snpc s\<rparr>" rd src1 src2 imm]
          by (simp add: mirrored_def Some Pair operand_carry Inr q)
      qed (simp add: mirrored_def Some Pair)
    qed
  qed (simp add: mirrored_def)
  then have k: "skipped (mbus m) (mbus m1) \<or>
      kept ((mbus m)\<lparr>pmem := pmem (mbus m1)\<rparr>) (mbus m1) \<and> (\<forall>b. ?body (carry m b) = Inr (dnpc, carry m1 b))"
    using r(2) unfolding mirrored_def by blast
  have w: "mbus m2 = mbus m1" "\<And>b. set_R 0 0 (carry m1 b) = Inr (carry m2 b)" using writes_carry(1)[OF r(3)] by simp_all
  show "skipped (mbus m) (mbus m2) \<or> kept ((mbus m)\<lparr>pmem := pmem (mbus m2)\<rparr>) (mbus m2) \<and>
      (\<forall>b. decode_exec s (carry m b) = Inr (x, carry m2 b))"
    using k w r(1,4) by (auto simp: decode_exec_def Let_def cong: option.case_cong)
qed

lemma isa_exec_once_mirrored:
  assumes "cfg_difftest (conf (mbus m))" "in_pmem (s_snpc s)"
  shows "mirrored m (isa_exec_once s)"
  unfolding mirrored_def
proof (intro allI impI)
  fix x m1
  assume "isa_exec_once s m = Inr (x, m1)"
  then obtain inst where f: "pmem_read (s_snpc s) 4 (mbus m) = Inr inst"
    "decode_exec (s\<lparr>s_inst := inst, s_snpc := s_snpc s + 4\<rparr>) m = Inr (x, m1)"
    using assms(2) by (auto simp: isa_exec_once_def inst_fetch_def vaddr_ifetch_def paddr_read_def res_elims)
  have c: "isa_exec_once s (carry m b) = decode_exec (s\<lparr>s_inst := inst, s_snpc := s_snpc s + 4\<rparr>) (carry m b)" for b
    using f(1) assms(2) by (simp add: isa_exec_once_def inst_fetch_def vaddr_ifetch_def paddr_read_def pmem_read_def)
      (simp add: carry_def)
  show "skipped (mbus m) (mbus m1) \<or> kept ((mbus m)\<lparr>pmem := pmem (mbus m1)\<rparr>) (mbus m1) \<and>
      (\<forall>b. isa_exec_once s (carry m b) = Inr (x, carry m1 b))"
    using decode_exec_mirrored[OF assms(1)] f(2) unfolding c mirrored_def by blast
qed

section \<open>The reference follows\<close>

definition lockstep :: "machine \<Rightarrow> 'r emu \<Rightarrow> bool" where
  "lockstep m r \<longleftrightarrow> cpu (mach r) = cpu m \<and> pmem (mbus (mach r)) = pmem (mbus m) \<and> cpu_sizes m \<and>
     cfg_difftest (conf (mbus m)) \<and> skip_dut_nr_inst (mbus m) = 0 \<and> \<not> is_skip_ref (mbus m) \<and>
     run_state r \<noteq> NEMU_END \<and> run_state r \<noteq> NEMU_ABORT \<and>
     \<not> cfg_device (conf (mbus (mach r))) \<and> \<not> cfg_difftest (conf (mbus (mach r)))"

text \<open>The shared object is built without the trace and the watchpoints.\<close>

definition ref_env :: "'r env \<Rightarrow> bool" where
  "ref_env u \<longleftrightarrow> \<not> cfg_watchpoint u \<and> \<not> cfg_iringbuf u"

abbreviation (input) start_of :: "u32 \<Rightarrow> decode" where
  "start_of pc \<equiv> \<lparr>s_pc = pc, s_snpc = pc, s_dnpc = 0, s_inst = 0\<rparr>"

definition jump_to :: "u32 \<Rightarrow> machine \<Rightarrow> machine" where
  "jump_to pc m = m\<lparr>cpu := (cpu m)\<lparr>cpu_pc := pc\<rparr>\<rparr>"

lemma jump_bus [simp]: "mbus (jump_to pc m) = mbus m"
  by (simp add: jump_to_def)

lemma ref_body:
  assumes "ref_env u" "mach r = carry m b" "\<not> cfg_difftest (conf b)" "\<not> cfg_device (conf b)" "st_state (nemu_state b) = NEMU_RUNNING"
    and "isa_exec_once (start_of (cpu_pc (cpu m))) (carry m b) = Inr (s, carry m1 b)"
  shows "\<exists>r'. execute u 1 r = Inr r' \<and> mach r' = jump_to (s_dnpc s) (carry m1 b)"
proof -
  have "\<exists>r'. loop_body u r = Inr r' \<and> mach r' = jump_to (s_dnpc s) (carry m1 b)"
    using assms by (auto simp: loop_body_def exec_once_def rb_log_def trace_and_difftest_def Let_def ref_env_def jump_to_def)
  moreover have "rb_create u r = Inr r" using assms(1) by (simp add: rb_create_def ref_env_def)
  ultimately show ?thesis
    using assms(3-5) by (auto simp: execute_def device_step_def run_state_def jump_to_def)
qed

lemma carry_self: "cpu c = cpu m \<Longrightarrow> pmem (mbus c) = pmem (mbus m) \<Longrightarrow> c = carry m (mbus c)"
  by (cases c) (simp add: carry_def)

lemma emu_time_bus: "\<exists>c. snd (emu_time r) = r\<lparr>mach := (mach r)\<lparr>mbus := (mbus (mach r))\<lparr>clk := c\<rparr>\<rparr>\<rparr>"
  using get_time_frame[of "mbus (mach r)"] by (fastforce simp: emu_time_def split: prod.splits)

lemma ref_exec_one:
  assumes "ref_env u" "lockstep m r" "\<And>b. isa_exec_once (start_of (cpu_pc (cpu m))) (carry m b) = Inr (s, carry m1 b)"
  shows "\<exists>r'. cpu_exec u 1 r = Inr r' \<and> cpu (mach r') = (cpu m1)\<lparr>cpu_pc := s_dnpc s\<rparr> \<and> pmem (mbus (mach r')) = pmem (mbus m1) \<and>
    run_state r' = NEMU_STOP \<and> conf (mbus (mach r')) = conf (mbus (mach r))"
proof -
  let ?e = "set_run_state NEMU_RUNNING (r\<lparr>g_print_step := True\<rparr>)"
  obtain t e1 where e1: "emu_time ?e = (t, e1)" by fastforce
  then obtain c where "e1 = ?e\<lparr>mach := (mach ?e)\<lparr>mbus := (mbus (mach ?e))\<lparr>clk := c\<rparr>\<rparr>\<rparr>" using emu_time_bus[of ?e] by auto
  then have k1: "mach e1 = carry m (mbus (mach e1))" "\<not> cfg_difftest (conf (mbus (mach e1)))" "\<not> cfg_device (conf (mbus (mach e1)))"
    "st_state (nemu_state (mbus (mach e1))) = NEMU_RUNNING" "conf (mbus (mach e1)) = conf (mbus (mach r))"
    using assms(2) by (auto simp: lockstep_def set_run_state_def intro: carry_self)
  from ref_body[OF assms(1) k1(1,2,3,4) assms(3)]
  obtain e2 where e2: "execute u 1 e1 = Inr e2" "mach e2 = jump_to (s_dnpc s) (carry m1 (mbus (mach e1)))" by blast
  obtain t2 e3 where e3: "emu_time e2 = (t2, e3)" by fastforce
  then obtain c2 where "e3 = e2\<lparr>mach := (mach e2)\<lparr>mbus := (mbus (mach e2))\<lparr>clk := c2\<rparr>\<rparr>\<rparr>" using emu_time_bus[of e2] by auto
  then have k3: "cpu (mach e3) = (cpu m1)\<lparr>cpu_pc := s_dnpc s\<rparr>" "pmem (mbus (mach e3)) = pmem (mbus m1)"
    "run_state e3 = NEMU_RUNNING" "conf (mbus (mach e3)) = conf (mbus (mach r))"
    using e2(2) k1(4,5) by (simp_all add: jump_to_def run_state_def)
  have "cpu_exec u 1 r = Inr (set_run_state NEMU_STOP (e3\<lparr>g_timer := g_timer e3 + (t2 - t)\<rparr>))"
    using assms(2) e1 e2(1) e3 k3(3) by (simp add: cpu_exec_def cpu_exec_end_def lockstep_def run_state_def)
  then show ?thesis using k3 by (simp add: set_run_state_def run_state_def)
qed

lemma copy_regs_id: "length (gpr c) = 32 \<Longrightarrow> length (csr c) = 4 \<Longrightarrow> copy_regs c = c"
  by (cases c) (auto simp: copy_regs_def list_eq_iff_nth_eq)

lemma registers_agree: "isa_difftest_checkregs c c"
  by (simp add: isa_difftest_checkregs_def list_all_iff)

text \<open>An abort that an invalid instruction made has -1 as its value; differential testing keeps the value.\<close>

definition only_invalid :: "nemustate \<Rightarrow> bool" where
  "only_invalid st \<longleftrightarrow> (st_state st = NEMU_ABORT \<longrightarrow> halt_ret st = - 1)"

text \<open>
  One step of differential testing: an instruction of the machine under test at a pc in pmem, and the
  reference behind it. Nothing is reported, the mark is cleared, and the two agree again.
\<close>

lemma difftest_agrees:
  assumes "ref_env u" "lockstep m r" "in_pmem (cpu_pc (cpu m))"
    and x: "isa_exec_once (start_of (cpu_pc (cpu m))) m = Inr (s, m1)"
  shows "\<exists>r' m'. difftest_step (nemu_ref u h) pc npc (jump_to (s_dnpc s) m1) r = Inr (m', r') \<and> lockstep m' r' \<and>
     (only_invalid (nemu_state (mbus m)) \<longrightarrow> only_invalid (nemu_state (mbus m'))) \<and>
     m' = (jump_to (s_dnpc s) m1)\<lparr>mbus := (mbus m1)\<lparr>is_skip_ref := False\<rparr>\<rparr>"
proof -
  let ?m1 = "jump_to (s_dnpc s) m1"
  have cfg: "cfg_difftest (conf (mbus m))" "\<not> is_skip_ref (mbus m)" "skip_dut_nr_inst (mbus m) = 0" "cpu_sizes m"
    using assms(2) by (simp_all add: lockstep_def)
  have ok: "cpu_sizes ?m1" using isa_exec_once_sizes[OF cfg(4) x] by (simp add: cpu_sizes_def cpu_ok_def jump_to_def)
  have id: "copy_regs (cpu ?m1) = cpu ?m1" using ok by (intro copy_regs_id) (simp_all add: cpu_sizes_def)
  have "mirrored m (isa_exec_once (start_of (cpu_pc (cpu m))))" by (rule isa_exec_once_mirrored) (simp_all add: cfg assms(3))
  then consider "skipped (mbus m) (mbus m1)"
    | "kept ((mbus m)\<lparr>pmem := pmem (mbus m1)\<rparr>) (mbus m1)" "\<And>b. isa_exec_once (start_of (cpu_pc (cpu m))) (carry m b) = Inr (s, carry m1 b)"
    using x unfolding mirrored_def by blast
  then show ?thesis
  proof cases
    case 1
    then have "difftest_step (nemu_ref u h) pc npc ?m1 r =
        Inr (?m1\<lparr>mbus := (mbus m1)\<lparr>is_skip_ref := False\<rparr>\<rparr>, difftest_regcpy_to_ref (cpu ?m1) r)"
      by (simp add: difftest_step_def Let_def nemu_ref_def skipped_def jump_to_def)
    moreover have "lockstep (?m1\<lparr>mbus := (mbus m1)\<lparr>is_skip_ref := False\<rparr>\<rparr>) (difftest_regcpy_to_ref (cpu ?m1) r)"
      using 1 assms(2) ok by (simp add: lockstep_def difftest_regcpy_to_ref_def id skipped_def run_state_def cpu_sizes_def)
    moreover have "only_invalid (nemu_state (mbus m)) \<longrightarrow> only_invalid (nemu_state (mbus m1))"
      using 1 by (auto simp: skipped_def only_invalid_def)
    ultimately show ?thesis by fastforce
  next
    case 2
    have bus: "\<not> is_skip_ref (mbus m1)" "skip_dut_nr_inst (mbus m1) = 0" "conf (mbus m1) = conf (mbus m)"
      using 2(1) cfg by (simp_all add: kept_def)
    from ref_exec_one[OF assms(1,2) 2(2)] obtain r' where r': "cpu_exec u 1 r = Inr r'"
      "cpu (mach r') = cpu ?m1" "pmem (mbus (mach r')) = pmem (mbus m1)" "run_state r' = NEMU_STOP"
      "conf (mbus (mach r')) = conf (mbus (mach r))" by (auto simp: jump_to_def)
    have same: "?m1 = ?m1\<lparr>mbus := (mbus m1)\<lparr>is_skip_ref := False\<rparr>\<rparr>" using bus(1) by (simp add: jump_to_def)
    have "difftest_step (nemu_ref u h) pc npc ?m1 r = Inr (?m1, r')"
      using bus r'(1,2) by (simp add: difftest_step_def Let_def nemu_ref_def difftest_exec_def difftest_regcpy_to_dut_def id
          checkregs_def registers_agree)
    moreover have "lockstep ?m1 r'"
      using r' bus assms(2) ok by (simp add: lockstep_def)
    moreover have "nemu_state (mbus m1) = nemu_state (mbus m)" using 2(1) by (simp add: kept_def)
    ultimately show ?thesis using same by (metis jump_bus)
  qed
qed

section \<open>A run against the reference\<close>

lemma device_kept:
  assumes "device_update b = Inr b1"
  shows "pmem b1 = pmem b" "conf b1 = conf b" "is_skip_ref b1 = is_skip_ref b" "skip_dut_nr_inst b1 = skip_dut_nr_inst b"
    "only_invalid (nemu_state b) \<Longrightarrow> only_invalid (nemu_state b1)"
proof -
  have ev: "pmem b2 = pmem b \<and> conf b2 = conf b \<and> is_skip_ref b2 = is_skip_ref b \<and> skip_dut_nr_inst b2 = skip_dut_nr_inst b \<and>
      (only_invalid (nemu_state b) \<longrightarrow> only_invalid (nemu_state b2))" if "forR handle_event evs b = Inr b2" for evs b b2
    using that
  proof (induction evs arbitrary: b)
    case (Cons ev evs)
    then obtain bm where bm: "handle_event ev b = Inr bm" "forR handle_event evs bm = Inr b2" by (auto simp: res_elims)
    from bm(1) have "pmem bm = pmem b \<and> conf bm = conf b \<and> is_skip_ref bm = is_skip_ref b \<and> skip_dut_nr_inst bm = skip_dut_nr_inst b \<and>
      (only_invalid (nemu_state b) \<longrightarrow> only_invalid (nemu_state bm))"
      by (auto simp: handle_event_def send_key_def Let_def res_elims only_invalid_def split: sdl_event.splits if_splits)
    with Cons.IH[OF bm(2)] show ?case by simp
  qed simp
  obtain t b0 where t: "get_time b = (t, b0)" by fastforce
  then obtain c where b0: "b0 = b\<lparr>clk := c\<rparr>" using get_time_frame[of b] by auto
  have r: "pmem b1 = pmem b \<and> conf b1 = conf b \<and> is_skip_ref b1 = is_skip_ref b \<and> skip_dut_nr_inst b1 = skip_dut_nr_inst b \<and>
      (only_invalid (nemu_state b) \<longrightarrow> only_invalid (nemu_state b1))"
    using assms t b0 ev[of _ _ b1]
    by (fastforce simp: device_update_def vga_update_screen_def update_screen_def reg_set_def Let_def split: if_splits)
  then show "pmem b1 = pmem b" "conf b1 = conf b" "is_skip_ref b1 = is_skip_ref b" "skip_dut_nr_inst b1 = skip_dut_nr_inst b"
    "only_invalid (nemu_state b) \<Longrightarrow> only_invalid (nemu_state b1)" by simp_all
qed

fun stays_in_pmem :: "'r env \<Rightarrow> nat \<Rightarrow> 'r emu \<Rightarrow> bool" where
  "stays_in_pmem v 0 e = True"
| "stays_in_pmem v (Suc n) e =
     (in_pmem (cpu_pc (cpu (mach e))) \<and>
      (case loop_body v e of Inl _ \<Rightarrow> True | Inr e1 \<Rightarrow>
         run_state e1 = NEMU_RUNNING \<longrightarrow> (case device_step e1 of Inl _ \<Rightarrow> True | Inr e2 \<Rightarrow> stays_in_pmem v n e2)))"

definition follows :: "'r emu emu \<Rightarrow> bool" where
  "follows e \<longleftrightarrow> lockstep (mach e) (ref_state e) \<and> only_invalid (nemu_state (mbus (mach e)))"

lemma ref_state_kept [simp]:
  "ref_state (e\<lparr>mach := x\<rparr>) = ref_state e" "ref_state (e\<lparr>mach := x, rb := y\<rparr>) = ref_state e"
  "mach (e\<lparr>mach := x\<rparr>) = x" "mach (e\<lparr>mach := x, rb := y\<rparr>) = x"
  "mach (e\<lparr>g_nr_guest_inst := k\<rparr>) = mach e" "ref_state (e\<lparr>g_nr_guest_inst := k\<rparr>) = ref_state e"
  by simp_all

lemma mach_ref_state [simp]: "mach (e\<lparr>ref_state := r\<rparr>) = mach e"
  by simp

lemma trace_result:
  assumes "no_watch v e" "cfg_difftest (conf (mbus (mach e)))"
    and "difftest_step (diff v) (s_pc s) npc (mach e) (ref_state e) = Inr (m, r)"
  shows "\<exists>e2. trace_and_difftest v s npc e = Inr e2 \<and> mach e2 = m \<and> ref_state e2 = r \<and> em_wps e2 = em_wps e"
  using assms by (simp add: trace_and_difftest_def Let_def no_watch_def watch_step_idle)

lemma loop_body_follows:
  assumes "ref_env u" "diff v = nemu_ref u h" "no_watch v e" "follows e" "in_pmem (cpu_pc (cpu (mach e)))"
    and x: "exec_once v (cpu_pc (cpu (mach e))) e = Inr (s, e1)"
  shows "\<exists>e2. loop_body v e = Inr e2 \<and> follows e2 \<and> no_watch v e2"
proof -
  obtain m1 rr where m1: "isa_exec_once (start_of (cpu_pc (cpu (mach e)))) (mach e) = Inr (s, m1)"
    "e1 = e\<lparr>mach := jump_to (s_dnpc s) m1, rb := rr\<rparr>"
    using x by (auto simp: exec_once_def res_elims jump_to_def dest!: rb_log_keeps)
  have ls: "lockstep (mach e) (ref_state e)" using assms(4) by (simp add: follows_def)
  from difftest_agrees[OF assms(1) ls assms(5) m1(1), of h "s_pc s" "cpu_pc (cpu (mach e1))"] obtain r' m' where
    d: "difftest_step (nemu_ref u h) (s_pc s) (cpu_pc (cpu (mach e1))) (mach e1) (ref_state e1) = Inr (m', r')" "lockstep m' r'"
    "only_invalid (nemu_state (mbus m'))"
    using assms(4) m1(2) by (auto simp: follows_def)
  have "conf (mbus m') = conf (mbus (mach e1))"
    using d(1) by (auto simp: difftest_step_def checkregs_def Let_def nemu_ref_def res_elims split: if_splits)
  then have "cfg_difftest (conf (mbus (mach e1)))" using d(2) by (simp add: lockstep_def)
  moreover have wps: "em_wps e1 = em_wps e" using m1(2) by simp
  ultimately obtain e2 where "trace_and_difftest v s (cpu_pc (cpu (mach e1))) (e1\<lparr>g_nr_guest_inst := g_nr_guest_inst e1 + 1\<rparr>) = Inr e2"
    "mach e2 = m'" "ref_state e2 = r'" "em_wps e2 = em_wps e"
    using trace_result[of v "e1\<lparr>g_nr_guest_inst := g_nr_guest_inst e1 + 1\<rparr>" s "cpu_pc (cpu (mach e1))" m' r'] d(1) assms(2,3)
    by (auto simp: ref_state_kept no_watch_def)
  then show ?thesis using x d assms(3) by (simp add: loop_body_def follows_def no_watch_def)
qed

lemma execute_loop_follows:
  assumes "ref_env u" "diff v = nemu_ref u h"
  shows "follows e \<Longrightarrow> no_watch v e \<Longrightarrow> stays_in_pmem v n e \<Longrightarrow> execute_loop v n e = Inr e' \<Longrightarrow> follows e' \<and> no_watch v e'"
proof (induction n arbitrary: e)
  case (Suc n)
  obtain e1 where e1: "loop_body v e = Inr e1" using Suc.prems(4) by (auto simp: res_elims)
  then obtain s e0 where "exec_once v (cpu_pc (cpu (mach e))) e = Inr (s, e0)" by (auto simp: loop_body_def res_elims)
  from loop_body_follows[OF assms Suc.prems(2,1) _ this] have f1: "follows e1" "no_watch v e1" using Suc.prems(3) e1 by auto
  show ?case
  proof (cases "run_state e1 = NEMU_RUNNING")
    case True
    then obtain e2 where e2: "device_step e1 = Inr e2" "execute_loop v n e2 = Inr e'"
      using Suc.prems(4) e1 by (auto simp: res_elims)
    have "follows e2" "no_watch v e2"
      using f1 e2(1) by (auto simp: device_step_def follows_def no_watch_def lockstep_def cpu_sizes_def res_elims device_kept
          split: if_splits)
    then show ?thesis using Suc.IH e2 Suc.prems(3) e1 True by simp
  next
    case False
    then show ?thesis using Suc.prems(4) e1 f1 by simp
  qed
qed simp

section \<open>From the start\<close>

definition dut_ready :: "machine \<Rightarrow> bool" where
  "dut_ready m \<longleftrightarrow> cpu_sizes m \<and> cfg_difftest (conf (mbus m)) \<and> skip_dut_nr_inst (mbus m) = 0 \<and> \<not> is_skip_ref (mbus m)"

definition ref_ready :: "'r emu \<Rightarrow> bool" where
  "ref_ready r \<longleftrightarrow> cpu_sizes (mach r) \<and> run_state r = NEMU_STOP \<and>
     \<not> cfg_device (conf (mbus (mach r))) \<and> \<not> cfg_difftest (conf (mbus (mach r)))"

text \<open>Past the image the two memories are the same: what \<open>init_isa\<close> leaves of the zero arrays.\<close>

definition same_beyond :: "int \<Rightarrow> bytemem \<Rightarrow> bytemem \<Rightarrow> bool" where
  "same_beyond n p q \<longleftrightarrow> (\<forall>a. nat n \<le> a \<longrightarrow> p a = store_bytes q 0 img_bytes a)"

lemma copied_image:
  assumes "same_beyond n p q" "0 \<le> n"
  shows "store_bytes (store_bytes q 0 img_bytes) 0 (load_bytes p 0 (nat n)) = p"
proof
  fix a show "store_bytes (store_bytes q 0 img_bytes) 0 (load_bytes p 0 (nat n)) a = p a"
    using assms(1) by (cases "a < nat n") (auto simp: store_bytes_apply[of "store_bytes q 0 img_bytes"] load_bytes_nth same_beyond_def)
qed

lemma init_lockstep:
  fixes r0 :: "'r emu"
  assumes "pmem_static h" "dut_ready m" "ref_ready r0" "0 \<le> n" "n \<le> int CONFIG_MSIZE"
    and "same_beyond n (pmem (mbus m)) (pmem (mbus (mach r0)))"
  shows "\<exists>r. init_difftest (nemu_ref u h) n port m r0 = Inr r \<and> lockstep m r"
proof -
  obtain m1 where m1: "init_isa (mach r0) = Inr m1" "cpu_ok (cpu m1)"
    "mbus m1 = (mbus (mach r0))\<lparr>pmem := store_bytes (pmem (mbus (mach r0))) 0 img_bytes\<rparr>"
    using init_isa_result[of "mach r0"] assms(3) by (auto simp: ref_ready_def)
  have g: "guest_to_host RESET_VECTOR = 0" by (simp add: guest_to_host_def RESET_VECTOR_def)
  have len: "length (load_bytes (pmem (mbus m)) 0 (nat n)) = nat n" by simp
  let ?r1 = "r0\<lparr>mach := m1\<rparr>"
  have 1: "ref_init (nemu_ref u h) port r0 = Inr ?r1"
    using m1(1) assms(1) by (simp add: nemu_ref_def difftest_init_def share_init_mem_def)
  let ?r2 = "r0\<lparr>mach := m1\<lparr>mbus := (mbus m1)\<lparr>pmem := pmem (mbus m)\<rparr>\<rparr>\<rparr>"
  have 2: "ref_memcpy (nemu_ref u h) RESET_VECTOR (load_bytes (pmem (mbus m)) 0 (nat n)) ?r1 = Inr ?r2"
    using assms(4,5) copied_image[OF assms(6,4)] m1(3)
    by (simp add: nemu_ref_def difftest_memcpy_def g del: load_bytes.simps store_bytes.simps)
  have "init_difftest (nemu_ref u h) n port m r0 = Inr (ref_put (nemu_ref u h) (cpu m) ?r2)"
    unfolding init_difftest_def 1 bindR_Inr g using assms(5) by (simp add: 2)
  moreover have "lockstep m (ref_put (nemu_ref u h) (cpu m) ?r2)"
    using assms(2,3) m1(3) copy_regs_id[of "cpu m"]
    by (simp add: nemu_ref_def difftest_regcpy_to_ref_def lockstep_def dut_ready_def ref_ready_def run_state_def cpu_sizes_def)
  ultimately show ?thesis by blast
qed

lemma self_agrees:
  assumes "ref_env u" "diff v = nemu_ref u h" "cfg_watchpoint v \<longrightarrow> wp_head (em_wps e) = None" "pmem_static h" "dut_ready (mach e)" "ref_ready r0"
    and "0 \<le> n" "n \<le> int CONFIG_MSIZE" "same_beyond n (pmem (mbus (mach e))) (pmem (mbus (mach r0)))"
    and "only_invalid (nemu_state (mbus (mach e)))"
  shows "\<exists>r. init_difftest (nemu_ref u h) n port (mach e) r0 = Inr r \<and>
    (\<forall>k e'. stays_in_pmem v k (e\<lparr>ref_state := r\<rparr>) \<longrightarrow> execute_loop v k (e\<lparr>ref_state := r\<rparr>) = Inr e' \<longrightarrow>
       lockstep (mach e') (ref_state e') \<and> only_invalid (nemu_state (mbus (mach e'))) \<and>
       (\<forall>s e1. in_pmem (cpu_pc (cpu (mach e'))) \<longrightarrow> exec_once v (cpu_pc (cpu (mach e'))) e' = Inr (s, e1) \<longrightarrow>
          (\<exists>e2. loop_body v e' = Inr e2)))"
proof -
  from init_lockstep[OF assms(4-9)] obtain r where r: "init_difftest (nemu_ref u h) n port (mach e) r0 = Inr r" "lockstep (mach e) r" by blast
  have "follows (e\<lparr>ref_state := r\<rparr>)" "no_watch v (e\<lparr>ref_state := r\<rparr>)"
    using r(2) assms(10) assms(3)[folded no_watch_def] by (simp_all add: follows_def)
  note run = execute_loop_follows[OF assms(1,2) this]
  have "lockstep (mach e') (ref_state e') \<and> only_invalid (nemu_state (mbus (mach e'))) \<and>
       (\<forall>s e1. in_pmem (cpu_pc (cpu (mach e'))) \<longrightarrow> exec_once v (cpu_pc (cpu (mach e'))) e' = Inr (s, e1) \<longrightarrow>
          (\<exists>e2. loop_body v e' = Inr e2))"
    if "stays_in_pmem v k (e\<lparr>ref_state := r\<rparr>)" "execute_loop v k (e\<lparr>ref_state := r\<rparr>) = Inr e'" for k e'
    using run[OF that] loop_body_follows[OF assms(1,2), of e'] unfolding follows_def by blast
  then show ?thesis using r(1) by blast
qed

text \<open>
  C2. NEMU agrees with NEMU while no watchpoint is set. The shared object that differential testing
  loads is NEMU itself (\<open>ref.c\<close>), without watchpoints (\<open>CONFIG_WATCHPOINT\<close> depends on
  \<open>TARGET_NATIVE_ELF\<close>, so a shared object has none), devices and the instruction trace, with pmem a static array that
  agrees with the other NEMU's past the bytes copied; and the NEMU under test has no watchpoint set. Then
  \<open>init_difftest\<close> succeeds and brings it into step with the machine under test. After any
  number of instructions whose pcs are in pmem the two still have the same registers, pc and memory,
  including after instructions that talk to devices, trap or raise exceptions, which the reference
  skips; an abort can only be an invalid instruction's, never a reported difference; and differential
  testing never makes an instruction fail that runs without it. (A watchpoint whose expression reads
  a device marks the next instruction as one to skip; then the two can drift apart.)
\<close>

theorem difftest_self_agrees:
  assumes "ref_env u" "diff v = nemu_ref u h" "cfg_watchpoint v \<longrightarrow> wp_head (em_wps e) = None" "pmem_static h" "dut_ready (mach e)" "ref_ready r0"
    and "0 \<le> n" "n \<le> int CONFIG_MSIZE" "same_beyond n (pmem (mbus (mach e))) (pmem (mbus (mach r0)))"
    and "only_invalid (nemu_state (mbus (mach e)))"
  shows "\<exists>r. init_difftest (nemu_ref u h) n port (mach e) r0 = Inr r \<and>
    (\<forall>k e'. stays_in_pmem v k (e\<lparr>ref_state := r\<rparr>) \<longrightarrow> execute_loop v k (e\<lparr>ref_state := r\<rparr>) = Inr e' \<longrightarrow>
       lockstep (mach e') (ref_state e') \<and> only_invalid (nemu_state (mbus (mach e'))) \<and>
       (\<forall>s e1. in_pmem (cpu_pc (cpu (mach e'))) \<longrightarrow> exec_once v (cpu_pc (cpu (mach e'))) e' = Inr (s, e1) \<longrightarrow>
          (\<exists>e2. loop_body v e' = Inr e2)))"
  using assms by (rule self_agrees)

definition demo_ref_env :: "unit env" where
  "demo_ref_env = demo_env\<lparr>cfg_iringbuf := False, cfg_watchpoint := False\<rparr>"

definition demo_dut_env :: "unit emu env" where
  "demo_dut_env = \<lparr>cfg_iringbuf = False, cfg_watchpoint = True, cfg_itrace = True, malloc_hdr = True,
     malloc_blk = (\<lambda>n. None), diff = nemu_ref demo_ref_env demo_host\<rparr>"

definition demo_dut :: "unit emu emu" where
  "demo_dut = \<lparr>mach = \<lparr>cpu = \<lparr>gpr = replicate 32 0, cpu_pc = 0x80000000, csr = [0x1800, 0, 0, 0]\<rparr>,
       mbus = static_bus (full_conf\<lparr>cfg_difftest := True\<rparr>) (store_bytes (\<lambda>_. 0) 0 img_bytes) of_nat\<rparr>,
     rb = RbNull, g_nr_guest_inst = 0, g_timer = 0, g_print_step = False, em_wps = init_wp_pool,
     ref_state = demo_emu (\<lambda>_. 0) 0, stepped = [], trap_log = [], stat_log = []\<rparr>"

lemma demo_dut_ready:
  "ref_env demo_ref_env" "diff demo_dut_env = nemu_ref demo_ref_env demo_host" "cfg_watchpoint demo_dut_env \<longrightarrow> wp_head (em_wps demo_dut) = None"
  "pmem_static demo_host"
  "dut_ready (mach demo_dut)" "ref_ready (demo_emu (\<lambda>_. 0) 0)" "only_invalid (nemu_state (mbus (mach demo_dut)))"
  "same_beyond 4096 (pmem (mbus (mach demo_dut))) (pmem (mbus (mach (demo_emu (\<lambda>_. 0) 0))))"
  by (simp_all add: ref_env_def demo_ref_env_def demo_env_def demo_dut_env_def demo_host_def dut_ready_def demo_dut_def static_bus_def
      cpu_sizes_def ref_ready_def demo_emu_def run_state_def only_invalid_def same_beyond_def init_wp_pool_def)

lemma demo_dut_step: "\<exists>s e1. exec_once demo_dut_env 0x80000000 (demo_dut\<lparr>ref_state := r\<rparr>) = Inr (s, e1)"
proof -
  let ?m = "mach demo_dut" and ?s = "start_of 0x80000000"
  have "load_bytes (pmem (mbus ?m)) 0 4 = take 4 (drop 0 img_bytes)"
    using load_store_inside[of 0 4 img_bytes "\<lambda>_. 0" 0] img_words(1) by (simp add: demo_dut_def static_bus_def)
  from img_fetch[OF _ this img_words(2)]
  have f: "inst_fetch (s_pc ?s) 4 (mbus ?m) = Inr (rv_encode (RLui 5 0x80000), 0x80000004, mbus ?m)" by (simp del: rv_encode.simps)
  have "cpu_ok (cpu ?m)" by (simp add: demo_dut_def cpu_ok_def)
  from isa_exec_once_spec[OF this _ f] have "\<exists>s m1. isa_exec_once ?s ?m = Inr (s, m1)"
    by (cases "isa_exec_once ?s ?m") (auto simp: host_defined_def)
  then show ?thesis by (auto simp: exec_once_def rb_log_def demo_dut_env_def)
qed

theorem difftest_self_agrees_witness:
  "\<exists>r e2. init_difftest (nemu_ref demo_ref_env demo_host) 4096 1234 (mach demo_dut) (demo_emu (\<lambda>_. 0) 0) = Inr r \<and>
     lockstep (mach demo_dut) r \<and> loop_body demo_dut_env (demo_dut\<lparr>ref_state := r\<rparr>) = Inr e2"
proof -
  have n: "(0::int) \<le> 4096" "4096 \<le> int CONFIG_MSIZE" by simp_all
  have pc: "cpu_pc (cpu (mach demo_dut)) = 0x80000000" "in_pmem 0x80000000" by (simp_all add: demo_dut_def in_pmem_def)
  from difftest_self_agrees[OF demo_dut_ready(1-6) n demo_dut_ready(8,7), of 1234] obtain r where
    r: "init_difftest (nemu_ref demo_ref_env demo_host) 4096 1234 (mach demo_dut) (demo_emu (\<lambda>_. 0) 0) = Inr r"
    "\<forall>k e'. stays_in_pmem demo_dut_env k (demo_dut\<lparr>ref_state := r\<rparr>) \<longrightarrow> execute_loop demo_dut_env k (demo_dut\<lparr>ref_state := r\<rparr>) = Inr e' \<longrightarrow>
       lockstep (mach e') (ref_state e') \<and> only_invalid (nemu_state (mbus (mach e'))) \<and>
       (\<forall>s e1. in_pmem (cpu_pc (cpu (mach e'))) \<longrightarrow> exec_once demo_dut_env (cpu_pc (cpu (mach e'))) e' = Inr (s, e1) \<longrightarrow>
          (\<exists>e2. loop_body demo_dut_env e' = Inr e2))" by blast
  have run: "stays_in_pmem demo_dut_env 0 (demo_dut\<lparr>ref_state := r\<rparr>)"
    "execute_loop demo_dut_env 0 (demo_dut\<lparr>ref_state := r\<rparr>) = Inr (demo_dut\<lparr>ref_state := r\<rparr>)" by simp_all
  have m: "mach (demo_dut\<lparr>ref_state := r\<rparr>) = mach demo_dut" "ref_state (demo_dut\<lparr>ref_state := r\<rparr>) = r"
    by (simp_all add: demo_dut_def)
  from r(2) run have "lockstep (mach (demo_dut\<lparr>ref_state := r\<rparr>)) (ref_state (demo_dut\<lparr>ref_state := r\<rparr>)) \<and>
     (\<forall>s e1. in_pmem (cpu_pc (cpu (mach (demo_dut\<lparr>ref_state := r\<rparr>)))) \<longrightarrow>
        exec_once demo_dut_env (cpu_pc (cpu (mach (demo_dut\<lparr>ref_state := r\<rparr>)))) (demo_dut\<lparr>ref_state := r\<rparr>) = Inr (s, e1) \<longrightarrow>
        (\<exists>e2. loop_body demo_dut_env (demo_dut\<lparr>ref_state := r\<rparr>) = Inr e2))" by blast
  then have "lockstep (mach demo_dut) r" "\<exists>e2. loop_body demo_dut_env (demo_dut\<lparr>ref_state := r\<rparr>) = Inr e2"
    unfolding m pc(1) using demo_dut_step[of r] pc(2) by blast+
  with r(1) show ?thesis by blast
qed

end
