(* ===== verification/Soc.thy ===== *)
theory Soc
  imports AmKeys
begin

text \<open>
  The abstract machine on the ysyxSoC, \<open>abstract-machine/am/src/riscv/ysyxsoc\<close>: start-up, UART, SPI,
  timer, PS/2 keyboard, screen and exceptions. The hardware is a function that answers the reads, in
  order; the writes are recorded. A polling loop that the hardware never ends has no result.
\<close>

section \<open>The bus of the chip\<close>

datatype soc_write = WB u32 u8 | WH u32 u16 | WW u32 u32

record soc =
  soc_answer :: "nat \<Rightarrow> u32 \<Rightarrow> u32"
  soc_reads :: nat
  soc_writes :: "soc_write list"
  soc_boot_time :: u64

definition soc_inl :: "u32 \<Rightarrow> soc \<Rightarrow> u32 \<times> soc" where
  "soc_inl a s = (soc_answer s (soc_reads s) a, s\<lparr>soc_reads := soc_reads s + 1\<rparr>)"

definition soc_inw :: "u32 \<Rightarrow> soc \<Rightarrow> u16 \<times> soc" where
  "soc_inw a s = (case soc_inl a s of (v, s') \<Rightarrow> (ucast v, s'))"

definition soc_inb :: "u32 \<Rightarrow> soc \<Rightarrow> u8 \<times> soc" where
  "soc_inb a s = (case soc_inl a s of (v, s') \<Rightarrow> (ucast v, s'))"

definition soc_out :: "soc_write \<Rightarrow> soc \<Rightarrow> soc" where
  "soc_out w s = s\<lparr>soc_writes := soc_writes s @ [w]\<rparr>"

abbreviation (input) UART16550 :: u32 where "UART16550 \<equiv> 0x10000000"
abbreviation (input) CLINT :: u32 where "CLINT \<equiv> 0x02000000"
abbreviation (input) SPI :: u32 where "SPI \<equiv> 0x10001000"
abbreviation (input) PS2_KBD_ADDR :: u32 where "PS2_KBD_ADDR \<equiv> 0x10011000"
abbreviation (input) VGA_FB_ADDR :: u32 where "VGA_FB_ADDR \<equiv> 0x21000000"
abbreviation (input) VGA_SYNC_ADDR :: u32 where "VGA_SYNC_ADDR \<equiv> 0x211FFFF4"

section \<open>UART\<close>

text \<open>\<open>while ((inb(UART_REG_LS) & 0x20) == 0)\<close>\<close>

partial_function (option) uart_wait :: "soc \<Rightarrow> soc option" where
  "uart_wait s =
     (let r = soc_inb (UART16550 + 5) s in if fst r AND 0x20 = 0 then uart_wait (snd r) else Some (snd r))"

definition soc_putch :: "u8 \<Rightarrow> soc \<Rightarrow> soc option" where
  "soc_putch ch s = map_option (soc_out (WB UART16550 ch)) (uart_wait s)"

fun soc_puts :: "u8 list \<Rightarrow> soc \<Rightarrow> soc option" where
  "soc_puts [] s = Some s"
| "soc_puts (c # cs) s = Option.bind (soc_putch c s) (soc_puts cs)"

definition init_uart :: "u32 \<Rightarrow> soc \<Rightarrow> soc res" where
  "init_uart baud_rate s =
     (case soc_inb (UART16550 + 3) s of (lc, s1) \<Rightarrow>
       let s2 = soc_out (WB (UART16550 + 3) (lc OR 0x80)) s1
       in guardR (16 * baud_rate \<noteq> 0) (Undef ''division'')
         (let divisior = ucast (50000000 div (16 * baud_rate)) :: u16;
              s3 = soc_out (WB (UART16550 + 1) (ucast (drop_bit 8 divisior))) s2;
              s4 = soc_out (WB UART16550 (ucast divisior)) s3
          in (case soc_inb (UART16550 + 3) s4 of (lc', s5) \<Rightarrow>
                Inr (soc_out (WB (UART16550 + 3) (lc' AND NOT 0x80)) s5))))"

definition soc_uart_rx :: "soc \<Rightarrow> u8 \<times> soc" where
  "soc_uart_rx s =
     (case soc_inb (UART16550 + 5) s of (ls, s1) \<Rightarrow>
        if ls AND 1 = 1 then soc_inb UART16550 s1 else (0xff, s1))"

text \<open>\<open>brandShow\<close>: the vendor as four characters, the decimal digits of the architecture, a newline.\<close>

lemma word_div_10: "0 < (number :: u32) \<Longrightarrow> unat (number div 10) < unat number"
  by (simp add: unat_div word_less_nat_alt)

function brand_digits :: "u32 \<Rightarrow> u8 list \<Rightarrow> u8 list res" where
  "brand_digits number buf =
     (if number > 0
      then guardR (length buf < 10) (Undef ''buf'') (brand_digits (number div 10) (buf @ [ucast (number mod 10) + 48]))
      else Inr buf)"
  by pat_completeness auto

termination by (relation "measure (\<lambda>(number, buf). unat number)") (auto simp: word_div_10)

declare brand_digits.simps [simp del]

definition brandShow :: "u32 \<Rightarrow> u32 \<Rightarrow> soc \<Rightarrow> soc res option" where
  "brandShow mvendorid marchid s =
     Option.bind (soc_puts (map (\<lambda>i. ucast (drop_bit (8 * i) mvendorid AND 0xFF)) [3, 2, 1, 0]) s) (\<lambda>s1.
       case brand_digits marchid [] of
         Inl e \<Rightarrow> Some (Inl e)
       | Inr buf \<Rightarrow> map_option Inr (soc_puts (rev buf @ [10]) s1))"

text \<open>\<open>_trm_init\<close> up to the call of \<open>main\<close>, as built without DIFFTEST_ON.\<close>

definition soc_trm_init :: "u32 \<Rightarrow> u32 \<Rightarrow> soc \<Rightarrow> soc res option" where
  "soc_trm_init mvendorid marchid s =
     (case init_uart 115200 s of Inl e \<Rightarrow> Some (Inl e) | Inr s1 \<Rightarrow> brandShow mvendorid marchid s1)"

section \<open>SPI\<close>

definition init_spi :: "u32 \<Rightarrow> u8 \<Rightarrow> u8 \<Rightarrow> u8 \<Rightarrow> u8 \<Rightarrow> u8 \<Rightarrow> soc \<Rightarrow> soc res" where
  "init_spi spi_clock spi_ss char_len tx_neg rx_neg lsb s =
     guardR (2 * spi_clock \<noteq> 0) (Undef ''division'')
       (let divider = ucast (50000000 div (2 * spi_clock) - 1) :: u16;
            ctrl_reg = push_bit 13 1 OR push_bit 12 0 OR push_bit 11 (ucast lsb) OR push_bit 10 (ucast tx_neg) OR
              push_bit 9 (ucast rx_neg) OR push_bit 8 0 OR ucast char_len :: u32
        in Inr (soc_out (WW (SPI + 0x10) ctrl_reg) (soc_out (WB (SPI + 0x18) spi_ss) (soc_out (WH (SPI + 0x14) divider) s))))"

text \<open>\<open>tx_data\<close> points to the bytes; a length other than 8, 16, 32 and 64 bits does nothing.\<close>

definition spi_tx :: "u8 list \<Rightarrow> u8 \<Rightarrow> soc \<Rightarrow> soc res" where
  "spi_tx tx_data len s =
     (if len = 8 then guardR (1 \<le> length tx_data) (Undef ''tx_data'') (Inr (soc_out (WB SPI (tx_data ! 0)) s))
      else if len = 16 then guardR (2 \<le> length tx_data) (Undef ''tx_data'')
        (Inr (soc_out (WH SPI (le_word (take 2 tx_data))) s))
      else if len = 32 then guardR (4 \<le> length tx_data) (Undef ''tx_data'')
        (Inr (soc_out (WW SPI (le_word (take 4 tx_data))) s))
      else if len = 64 then guardR (8 \<le> length tx_data) (Undef ''tx_data'')
        (let d = le_word (take 8 tx_data) :: u64
         in Inr (soc_out (WW (SPI + 4) (ucast (drop_bit 32 d))) (soc_out (WW SPI (ucast d)) s)))
      else Inr s)"

partial_function (option) spi_wait :: "soc \<Rightarrow> soc option" where
  "spi_wait s =
     (let r = soc_inl (SPI + 0x10) s in if fst r AND 0x100 = 0x100 then spi_wait (snd r) else Some (snd r))"

text \<open>The bytes stored to \<open>rx_data\<close>. C leaves the order of the two reads of 64 bits open; here \<open>RX1\<close> is first.\<close>

definition spi_rx :: "u8 \<Rightarrow> soc \<Rightarrow> (u8 list \<times> soc) option" where
  "spi_rx len s0 =
     Option.bind (spi_wait s0) (\<lambda>s.
       Some (if len = 8 then (case soc_inb SPI s of (v, s1) \<Rightarrow> ([v], s1))
             else if len = 16 then (case soc_inw SPI s of (v, s1) \<Rightarrow> (le_bytes 2 v, s1))
             else if len = 32 then (case soc_inl SPI s of (v, s1) \<Rightarrow> (le_bytes 4 v, s1))
             else if len = 64 then
               (case soc_inl (SPI + 4) s of (hi, s1) \<Rightarrow> case soc_inl SPI s1 of (lo, s2) \<Rightarrow>
                  (le_bytes 8 (push_bit 32 (ucast hi) OR ucast lo :: u64), s2))
             else ([], s)))"

definition spi_tx_start :: "soc \<Rightarrow> soc" where
  "spi_tx_start s = (case soc_inl (SPI + 0x10) s of (v, s1) \<Rightarrow> soc_out (WW (SPI + 0x10) (v OR 0x100)) s1)"

section \<open>Timer\<close>

definition soc_get_time :: "soc \<Rightarrow> u64 \<times> soc" where
  "soc_get_time s =
     (case soc_inl CLINT s of (lo, s1) \<Rightarrow> case soc_inl (CLINT + 4) s1 of (hi, s2) \<Rightarrow>
        (push_bit 32 (ucast hi) + ucast lo, s2))"

definition soc_timer_init :: "soc \<Rightarrow> soc" where
  "soc_timer_init s = (case soc_get_time s of (t, s1) \<Rightarrow> s1\<lparr>soc_boot_time := t\<rparr>)"

definition soc_timer_uptime :: "soc \<Rightarrow> u64 \<times> soc" where
  "soc_timer_uptime s = (case soc_get_time s of (t, s1) \<Rightarrow> (t - soc_boot_time s1, s1))"

section \<open>PS/2 keyboard\<close>

definition LOOKUP_SCANCODE_NORMAL :: "(u8 \<times> string) list" where
  "LOOKUP_SCANCODE_NORMAL =
    [(0x0E, ''GRAVE''), (0x16, ''1''), (0x1E, ''2''), (0x26, ''3''), (0x25, ''4''), (0x2E, ''5''), (0x36, ''6''),
     (0x3D, ''7''), (0x3E, ''8''), (0x46, ''9''), (0x45, ''0''), (0x4E, ''MINUS''), (0x55, ''EQUALS''),
     (0x1C, ''A''), (0x32, ''B''), (0x21, ''C''), (0x23, ''D''), (0x24, ''E''), (0x2B, ''F''), (0x34, ''G''),
     (0x33, ''H''), (0x43, ''I''), (0x3B, ''J''), (0x42, ''K''), (0x4B, ''L''), (0x3A, ''M''), (0x31, ''N''),
     (0x44, ''O''), (0x4D, ''P''), (0x15, ''Q''), (0x2D, ''R''), (0x1B, ''S''), (0x2C, ''T''), (0x3C, ''U''),
     (0x2A, ''V''), (0x1D, ''W''), (0x22, ''X''), (0x35, ''Y''), (0x1A, ''Z''), (0x54, ''LEFTBRACKET''),
     (0x5B, ''RIGHTBRACKET''), (0x5D, ''BACKSLASH''), (0x4C, ''SEMICOLON''), (0x52, ''APOSTROPHE''),
     (0x5A, ''RETURN''), (0x41, ''COMMA''), (0x49, ''PERIOD''), (0x4A, ''SLASH''), (0x66, ''BACKSPACE''),
     (0x0D, ''TAB''), (0x58, ''CAPSLOCK''), (0x12, ''LSHIFT''), (0x14, ''LCTRL''), (0x11, ''LALT''),
     (0x29, ''SPACE''), (0x59, ''RSHIFT''), (0x76, ''ESCAPE''), (0x05, ''F1''), (0x06, ''F2''), (0x04, ''F3''),
     (0x0C, ''F4''), (0x03, ''F5''), (0x0B, ''F6''), (0x83, ''F7''), (0x0A, ''F8''), (0x01, ''F9''),
     (0x09, ''F10''), (0x78, ''F11''), (0x07, ''F12'')]"

definition LOOKUP_SCANCODE_EXTEND :: "(u8 \<times> string) list" where
  "LOOKUP_SCANCODE_EXTEND =
    [(0x11, ''RALT''), (0x14, ''RCTRL''), (0x71, ''DELETE''), (0x69, ''END''), (0x6C, ''HOME''), (0x70, ''INSERT''),
     (0x7A, ''PAGEDOWN''), (0x7D, ''PAGEUP''), (0x72, ''DOWN''), (0x6B, ''LEFT''), (0x74, ''RIGHT''), (0x75, ''UP'')]"

text \<open>Elements without an initialiser are 0, AM_KEY_NONE.\<close>

definition lookup_scancode :: "bool \<Rightarrow> u8 \<Rightarrow> int" where
  "lookup_scancode ext c =
     (case map_of (if ext then LOOKUP_SCANCODE_EXTEND else LOOKUP_SCANCODE_NORMAL) c of
        None \<Rightarrow> 0 | Some name \<Rightarrow> am_keycode name)"

record ps2_state =
  is_break :: bool
  is_extend :: bool

text \<open>The result is \<open>keydown\<close> and \<open>keycode\<close>; the byte read is an argument.\<close>

definition ps2_keybrd :: "u8 \<Rightarrow> ps2_state \<Rightarrow> (bool \<times> int) \<times> ps2_state" where
  "ps2_keybrd scancode q =
     (if scancode = 0xe0 then ((False, 0), q\<lparr>is_extend := True\<rparr>)
      else if scancode = 0xf0 then ((False, 0), q\<lparr>is_break := True\<rparr>)
      else if scancode \<noteq> 0 then
        ((\<not> is_break q, lookup_scancode (is_extend q) scancode), q\<lparr>is_extend := False, is_break := False\<rparr>)
      else ((False, 0), q))"

definition soc_input_keybrd :: "soc \<Rightarrow> ps2_state \<Rightarrow> (bool \<times> int) \<times> soc \<times> ps2_state" where
  "soc_input_keybrd s q =
     (case soc_inb PS2_KBD_ADDR s of (scancode, s1) \<Rightarrow> case ps2_keybrd scancode q of (k, q1) \<Rightarrow> (k, s1, q1))"

section \<open>Screen\<close>

abbreviation (input) Width :: u32 where "Width \<equiv> 640"
abbreviation (input) Height :: u32 where "Height \<equiv> 480"

text \<open>The address of element \<open>k\<close> of the frame buffer; \<open>k\<close> is an unsigned number of 32 bits.\<close>

definition soc_fb :: "u32 \<Rightarrow> u32" where
  "soc_fb k = VGA_FB_ADDR + 4 * k"

definition soc_gpu_init :: "soc \<Rightarrow> soc" where
  "soc_gpu_init s =
     soc_out (WW VGA_SYNC_ADDR 1) (foldl (\<lambda>s i. soc_out (WW (soc_fb (of_nat i)) 0) s) s [0..<unat (Width * Height)])"

record soc_gpu_config =
  gc_present :: bool
  gc_has_accel :: bool
  gc_width :: u32
  gc_height :: u32
  gc_vmemsz :: u32

definition soc_gpu_config :: soc_gpu_config where
  "soc_gpu_config = \<lparr>gc_present = True, gc_has_accel = False, gc_width = Width, gc_height = Height,
     gc_vmemsz = Width * Height * 4\<rparr>"

definition soc_gpu_fbdraw :: "u32 \<Rightarrow> u32 \<Rightarrow> u32 \<Rightarrow> u32 \<Rightarrow> u32 list \<Rightarrow> bool \<Rightarrow> soc \<Rightarrow> soc res" where
  "soc_gpu_fbdraw x y w h pixels sync s =
     (let s1 = soc_out (WW VGA_SYNC_ADDR (of_bool sync)) s
      in if w = 0 \<or> h = 0 then Inr s1
         else guardR (unat w * unat h \<le> length pixels) (Undef ''pixels'')
           (Inr (foldl (\<lambda>s i. foldl (\<lambda>s j.
                    soc_out (WW (soc_fb ((of_nat i + y) * Width + x + of_nat j)) (pixels ! (i * unat w + j))) s) s [0..<unat w])
                  s1 [0..<unat h])))"

section \<open>The register table\<close>

text \<open>\<open>ioe_read\<close> and \<open>ioe_write\<close> call the same table; the parameter block is what the handler reads or fills in.\<close>

datatype soc_param =
  SPNone
| SPBool bool
| SPTimerConfig bool bool
| SPRtc "int list"
| SPUptime u64
| SPKey "bool \<times> int"
| SPByte u8
| SPGpuConfig soc_gpu_config
| SPFbDraw u32 u32 u32 u32 "u32 list" bool

definition soc_timer_rtc :: "int list" where
  "soc_timer_rtc = [1900, 0, 0, 0, 0, 0]"

definition soc_ioe_init :: "soc \<Rightarrow> soc" where
  "soc_ioe_init s = soc_gpu_init (soc_timer_init s)"

definition soc_ioe_call :: "nat \<Rightarrow> soc_param \<Rightarrow> soc \<times> ps2_state \<Rightarrow> (soc_param \<times> soc \<times> ps2_state) res" where
  "soc_ioe_call reg p st =
     (case st of (s, q) \<Rightarrow>
      if reg = 1 then Inr (SPBool False, s, q)
      else if reg = 3 then (case soc_uart_rx s of (v, s1) \<Rightarrow> Inr (SPByte v, s1, q))
      else if reg = 4 then Inr (SPTimerConfig True True, s, q)
      else if reg = 5 then Inr (SPRtc soc_timer_rtc, s, q)
      else if reg = 6 then (case soc_timer_uptime s of (v, s1) \<Rightarrow> Inr (SPUptime v, s1, q))
      else if reg = 7 then Inr (SPBool True, s, q)
      else if reg = 8 then (case soc_input_keybrd s q of (v, s1, q1) \<Rightarrow> Inr (SPKey v, s1, q1))
      else if reg = 9 then Inr (SPGpuConfig soc_gpu_config, s, q)
      else if reg = 10 then Inr (SPBool True, s, q)
      else if reg = 11 then
        (case p of
           SPFbDraw x y w h pixels sync \<Rightarrow> bindR (soc_gpu_fbdraw x y w h pixels sync s) (\<lambda>s1. Inr (p, s1, q))
         | _ \<Rightarrow> Inl (Undef ''parameter block''))
      else if reg < 128 then Inl (Panic ''access nonexist register'')
      else Inl (Undef ''lut: read outside the array''))"

section \<open>Exceptions\<close>

record am_context =
  c_gpr :: "u32 list"
  c_mcause :: u32
  c_mstatus :: u32
  c_mepc :: u32

datatype am_event =
  EVENT_NULL | EVENT_YIELD | EVENT_SYSCALL | EVENT_PAGEFAULT | EVENT_ERROR | EVENT_IRQ_TIMER | EVENT_IRQ_IODEV

text \<open>The handler works on a state of its own and may return another context, or NULL.\<close>

type_synonym 's am_handler = "am_event \<Rightarrow> am_context \<Rightarrow> 's \<Rightarrow> am_context option \<times> 's"

definition am_irq_handle :: "'s am_handler option \<Rightarrow> am_context \<Rightarrow> 's \<Rightarrow> (am_context \<times> 's) res" where
  "am_irq_handle user_handler c s =
     (case user_handler of
        None \<Rightarrow> Inr (c, s)
      | Some h \<Rightarrow>
          (case (if c_mcause c = 0x0b then h EVENT_YIELD (c\<lparr>c_mepc := c_mepc c + 4\<rparr>) s else h EVENT_ERROR c s) of
             (None, s') \<Rightarrow> Inl (AssertFail ''c != NULL'')
           | (Some c', s') \<Rightarrow> Inr (c', s')))"

text \<open>The memory of the stack below its end becomes the context; what it held in the other fields stays.\<close>

definition kcontext :: "u32 \<Rightarrow> u32 \<Rightarrow> am_context \<Rightarrow> am_context" where
  "kcontext entry arg c = c\<lparr>c_mepc := entry, c_mstatus := 0x1800, c_gpr := (c_gpr c)[10 := arg]\<rparr>"

end
