(* ===== verification/SocProps.thy ===== *)
theory SocProps
  imports Soc
begin

text \<open>
  The drivers of the ysyxSoC against what they are for: the keyboard driver inverts the encoding of key
  presses into PS/2 scan codes, and the start-up banner shows the two identification registers.
\<close>

section \<open>The keyboard\<close>

text \<open>
  The make codes of the PS/2 keyboard's scan code set 2, row by row of the keyboard; the codes of the
  second list are sent after the prefix 0xe0. The driver's tables have no part in it.
\<close>

definition SET2 :: "(string \<times> u8) list" where
  "SET2 =
    [(''ESCAPE'', 0x76), (''F1'', 0x05), (''F2'', 0x06), (''F3'', 0x04), (''F4'', 0x0C), (''F5'', 0x03), (''F6'', 0x0B), (''F7'', 0x83),
     (''F8'', 0x0A), (''F9'', 0x01), (''F10'', 0x09), (''F11'', 0x78), (''F12'', 0x07),
     (''GRAVE'', 0x0E), (''1'', 0x16), (''2'', 0x1E), (''3'', 0x26), (''4'', 0x25), (''5'', 0x2E), (''6'', 0x36), (''7'', 0x3D),
     (''8'', 0x3E), (''9'', 0x46), (''0'', 0x45), (''MINUS'', 0x4E), (''EQUALS'', 0x55), (''BACKSPACE'', 0x66),
     (''TAB'', 0x0D), (''Q'', 0x15), (''W'', 0x1D), (''E'', 0x24), (''R'', 0x2D), (''T'', 0x2C), (''Y'', 0x35), (''U'', 0x3C),
     (''I'', 0x43), (''O'', 0x44), (''P'', 0x4D), (''LEFTBRACKET'', 0x54), (''RIGHTBRACKET'', 0x5B), (''BACKSLASH'', 0x5D),
     (''CAPSLOCK'', 0x58), (''A'', 0x1C), (''S'', 0x1B), (''D'', 0x23), (''F'', 0x2B), (''G'', 0x34), (''H'', 0x33), (''J'', 0x3B),
     (''K'', 0x42), (''L'', 0x4B), (''SEMICOLON'', 0x4C), (''APOSTROPHE'', 0x52), (''RETURN'', 0x5A),
     (''LSHIFT'', 0x12), (''Z'', 0x1A), (''X'', 0x22), (''C'', 0x21), (''V'', 0x2A), (''B'', 0x32), (''N'', 0x31), (''M'', 0x3A),
     (''COMMA'', 0x41), (''PERIOD'', 0x49), (''SLASH'', 0x4A), (''RSHIFT'', 0x59),
     (''LCTRL'', 0x14), (''LALT'', 0x11), (''SPACE'', 0x29)]"

definition SET2_E0 :: "(string \<times> u8) list" where
  "SET2_E0 =
    [(''RALT'', 0x11), (''RCTRL'', 0x14), (''APPLICATION'', 0x2F), (''INSERT'', 0x70), (''HOME'', 0x6C), (''PAGEUP'', 0x7D),
     (''DELETE'', 0x71), (''END'', 0x69), (''PAGEDOWN'', 0x7A), (''UP'', 0x75), (''LEFT'', 0x6B), (''DOWN'', 0x72), (''RIGHT'', 0x74)]"

text \<open>The bytes the keyboard sends when a key goes down or up.\<close>

definition scancode_of :: "string \<Rightarrow> bool \<times> u8" where
  "scancode_of name =
     (case map_of SET2 name of
        Some c \<Rightarrow> (False, c)
      | None \<Rightarrow> (case map_of SET2_E0 name of Some c \<Rightarrow> (True, c) | None \<Rightarrow> (False, 0)))"

definition key_bytes :: "string \<times> bool \<Rightarrow> u8 list" where
  "key_bytes key =
     (case scancode_of (fst key) of (ext, c) \<Rightarrow>
        (if ext then [0xe0] else []) @ (if snd key then [] else [0xf0]) @ [c])"

fun ps2_run :: "u8 list \<Rightarrow> ps2_state \<Rightarrow> (bool \<times> int) list \<times> ps2_state" where
  "ps2_run [] q = ([], q)"
| "ps2_run (b # bs) q =
     (case ps2_keybrd b q of (k, q1) \<Rightarrow> case ps2_run bs q1 of (ks, q2) \<Rightarrow> (k # ks, q2))"

definition ps2_idle :: ps2_state where
  "ps2_idle = \<lparr>is_break = False, is_extend = False\<rparr>"

lemma ps2_run_append:
  "ps2_run (xs @ ys) q = (fst (ps2_run xs q) @ fst (ps2_run ys (snd (ps2_run xs q))), snd (ps2_run ys (snd (ps2_run xs q))))"
  by (induction xs arbitrary: q) (auto split: prod.splits)

definition key_events :: "(bool \<times> int) list \<Rightarrow> (bool \<times> int) list" where
  "key_events = filter (\<lambda>(down, k). k \<noteq> 0)"

lemma key_events_simps [simp]:
  "key_events [] = []" "key_events ((d, k) # ks) = (if k \<noteq> 0 then (d, k) # key_events ks else key_events ks)"
  "key_events (xs @ ys) = key_events xs @ key_events ys"
  by (simp_all add: key_events_def)

lemma ps2_run_cons:
  "fst (ps2_run (b # bs) q) = fst (ps2_keybrd b q) # fst (ps2_run bs (snd (ps2_keybrd b q)))"
  "snd (ps2_run (b # bs) q) = snd (ps2_run bs (snd (ps2_keybrd b q)))"
  by (simp_all split: prod.splits)

lemma key_events_cons: "key_events (k # ks) = (if snd k \<noteq> 0 then k # key_events ks else key_events ks)"
  by (cases k) simp

lemma ps2_run_zeros:
  "key_events (fst (ps2_run bs q)) = key_events (fst (ps2_run (filter (\<lambda>b. b \<noteq> 0) bs) q)) \<and>
   snd (ps2_run bs q) = snd (ps2_run (filter (\<lambda>b. b \<noteq> 0) bs) q)"
proof (induction bs arbitrary: q)
  case (Cons b bs)
  have "ps2_keybrd 0 q = ((False, 0), q)" by (simp add: ps2_keybrd_def)
  then show ?case
    using Cons.IH[of "snd (ps2_keybrd b q)"]
    by (cases "b = 0") (simp_all add: ps2_run_cons key_events_cons del: ps2_run.simps key_events_simps)
qed simp

text \<open>Every key of the abstract machine has a code, no code is a prefix byte, and the driver's tables have all but one.\<close>

lemma set2_covers: "list_all (\<lambda>k. k \<in> set (map fst SET2) \<or> k \<in> set (map fst SET2_E0)) AM_KEYS"
  by (simp add: SET2_def SET2_E0_def AM_KEYS_def)

lemma set2_plain: "list_all (\<lambda>(k, c). c \<noteq> 0 \<and> c \<noteq> 0xe0 \<and> c \<noteq> 0xf0) (SET2 @ SET2_E0)"
  by (simp add: SET2_def SET2_E0_def)

lemma codes_distinct: "distinct (map fst LOOKUP_SCANCODE_NORMAL)" "distinct (map fst LOOKUP_SCANCODE_EXTEND)"
proof -
  have "distinct (map uint (map fst LOOKUP_SCANCODE_NORMAL))" "distinct (map uint (map fst LOOKUP_SCANCODE_EXTEND))"
    by (simp_all add: LOOKUP_SCANCODE_NORMAL_def LOOKUP_SCANCODE_EXTEND_def)
  then show "distinct (map fst LOOKUP_SCANCODE_NORMAL)" "distinct (map fst LOOKUP_SCANCODE_EXTEND)"
    unfolding distinct_map by blast+
qed

lemma set2_normal: "list_all (\<lambda>(k, c). (c, k) \<in> set LOOKUP_SCANCODE_NORMAL \<and> k \<noteq> ''APPLICATION'') SET2"
  by (simp add: SET2_def LOOKUP_SCANCODE_NORMAL_def)

lemma set2_extend: "list_all (\<lambda>(k, c). k = ''APPLICATION'' \<and> c \<notin> fst ` set LOOKUP_SCANCODE_EXTEND \<or>
    k \<noteq> ''APPLICATION'' \<and> (c, k) \<in> set LOOKUP_SCANCODE_EXTEND) SET2_E0"
  by (simp add: SET2_E0_def LOOKUP_SCANCODE_EXTEND_def)

lemma am_key_nonzero: "name \<in> set AM_KEYS \<Longrightarrow> am_keycode name \<noteq> 0"
proof -
  assume "name \<in> set AM_KEYS"
  then obtain i where i: "i < length AM_KEYS" "AM_KEYS ! i = name" by (auto simp: in_set_conv_nth)
  then show ?thesis
    using find_None_iff[of "\<lambda>i. AM_KEYS ! i = name" "[0..<length AM_KEYS]"] by (auto simp: am_keycode_def split: option.splits)
qed

lemma scancode_known:
  assumes "name \<in> set AM_KEYS"
  shows "\<exists>ext c. scancode_of name = (ext, c) \<and> c \<noteq> 0 \<and> c \<noteq> 0xe0 \<and> c \<noteq> 0xf0 \<and>
    lookup_scancode ext c = (if name = ''APPLICATION'' then 0 else am_keycode name)"
proof (cases "map_of SET2 name")
  case (Some c)
  then have m: "(name, c) \<in> set SET2" by (rule map_of_SomeD)
  then have "(name, c) \<in> set (SET2 @ SET2_E0)" unfolding set_append by blast
  from bspec[OF set2_plain[unfolded list_all_iff] this] bspec[OF set2_normal[unfolded list_all_iff] m]
  have "c \<noteq> 0 \<and> c \<noteq> 0xe0 \<and> c \<noteq> 0xf0" "(c, name) \<in> set LOOKUP_SCANCODE_NORMAL" "name \<noteq> ''APPLICATION''"
    unfolding prod.case by blast+
  then show ?thesis
    unfolding scancode_of_def Some using map_of_is_SomeI[OF codes_distinct(1)] by (auto simp: lookup_scancode_def)
next
  case None
  then have "name \<notin> set (map fst SET2)" unfolding map_of_eq_None_iff set_map .
  then have "name \<in> set (map fst SET2_E0)" using bspec[OF set2_covers[unfolded list_all_iff] assms] by blast
  then obtain c where c: "map_of SET2_E0 name = Some c" unfolding set_map map_of_eq_None_iff[symmetric] by (metis map_of_eq_None_iff option.exhaust)
  then have m: "(name, c) \<in> set SET2_E0" by (rule map_of_SomeD)
  then have "(name, c) \<in> set (SET2 @ SET2_E0)" unfolding set_append by blast
  from bspec[OF set2_plain[unfolded list_all_iff] this] bspec[OF set2_extend[unfolded list_all_iff] m]
  have k: "c \<noteq> 0 \<and> c \<noteq> 0xe0 \<and> c \<noteq> 0xf0" "name = ''APPLICATION'' \<and> c \<notin> fst ` set LOOKUP_SCANCODE_EXTEND \<or>
      name \<noteq> ''APPLICATION'' \<and> (c, name) \<in> set LOOKUP_SCANCODE_EXTEND"
    unfolding prod.case by blast+
  have "lookup_scancode True c = (if name = ''APPLICATION'' then 0 else am_keycode name)"
    using k(2) map_of_is_SomeI[OF codes_distinct(2)] by (auto simp: lookup_scancode_def map_of_eq_None_iff[symmetric])
  then show ?thesis unfolding scancode_of_def None c using k(1) by (intro exI[of _ True] exI[of _ c]) simp
qed

lemma ps2_run_key:
  assumes "name \<in> set AM_KEYS"
  shows "key_events (fst (ps2_run (key_bytes (name, down)) ps2_idle)) =
      (if name = ''APPLICATION'' then [] else [(down, am_keycode name)]) \<and>
    snd (ps2_run (key_bytes (name, down)) ps2_idle) = ps2_idle"
proof -
  obtain ext c where "scancode_of name = (ext, c)" "c \<noteq> 0" "c \<noteq> 0xe0" "c \<noteq> 0xf0"
    "lookup_scancode ext c = (if name = ''APPLICATION'' then 0 else am_keycode name)"
    using scancode_known[OF assms] by blast
  then show ?thesis
    using am_key_nonzero[OF assms] by (cases ext; cases down) (simp_all add: key_bytes_def ps2_keybrd_def ps2_idle_def)
qed

text \<open>
  C32. The PS/2 driver decodes the keyboard's scan codes (set 2). For any sequence of presses and releases
  of the keys of the abstract machine, with any number of empty reads (zero bytes) anywhere in the
  stream, also inside a sequence, the driver reports exactly these events in order, with the key's
  number in \<open>AM_KEYS\<close>, and is ready for the next byte afterwards; only the key APPLICATION (0xe0 0x2f),
  which the driver's table lacks, is not reported. No other read reports a key.
\<close>

theorem ps2_decodes_keys:
  assumes "\<forall>key \<in> set keys. fst key \<in> set AM_KEYS"
    and "filter (\<lambda>b. b \<noteq> 0) bytes = concat (map key_bytes keys)"
  shows "key_events (fst (ps2_run bytes ps2_idle)) =
      map (\<lambda>(name, down). (down, am_keycode name)) (filter (\<lambda>key. fst key \<noteq> ''APPLICATION'') keys) \<and>
    snd (ps2_run bytes ps2_idle) = ps2_idle"
proof -
  have "key_events (fst (ps2_run (concat (map key_bytes keys)) ps2_idle)) =
        map (\<lambda>(name, down). (down, am_keycode name)) (filter (\<lambda>key. fst key \<noteq> ''APPLICATION'') keys) \<and>
      snd (ps2_run (concat (map key_bytes keys)) ps2_idle) = ps2_idle"
    using assms(1)
  proof (induction keys)
    case (Cons key keys)
    then show ?case using ps2_run_key[of "fst key" "snd key"] by (auto simp: ps2_run_append split: prod.splits)
  qed simp
  then show ?thesis using ps2_run_zeros[of bytes ps2_idle] assms(2) by simp
qed

theorem ps2_decodes_keys_witness:
  "key_events (fst (ps2_run [0, 0x1C, 0, 0, 0xe0, 0, 0x75, 0xf0, 0, 0x1C, 0xe0, 0xf0, 0x75, 0] ps2_idle)) =
     [(True, 43), (True, 73), (False, 43), (False, 73)]"
proof -
  let ?keys = "[(''A'', True), (''UP'', True), (''A'', False), (''UP'', False)]"
  have b: "concat (map key_bytes ?keys) = [0x1C, 0xe0, 0x75, 0xf0, 0x1C, 0xe0, 0xf0, 0x75]" by code_simp
  have k: "map (\<lambda>(name, down). (down, am_keycode name)) (filter (\<lambda>key. fst key \<noteq> ''APPLICATION'') ?keys) =
      [(True, 43), (True, 73), (False, 43), (False, 73)]" by code_simp
  have "\<forall>key \<in> set ?keys. fst key \<in> set AM_KEYS" by (simp add: AM_KEYS_def)
  from ps2_decodes_keys[OF this, of "[0, 0x1C, 0, 0, 0xe0, 0, 0x75, 0xf0, 0, 0x1C, 0xe0, 0xf0, 0x75, 0]"]
  show ?thesis unfolding b k by simp
qed

section \<open>The serial port and the banner\<close>

text \<open>A transmitter that becomes ready again and again: every status read is followed by one that shows the bit.\<close>

definition uart_live :: "(nat \<Rightarrow> u32 \<Rightarrow> u32) \<Rightarrow> bool" where
  "uart_live answer = (\<forall>n. \<exists>m \<ge> n. (ucast (answer m (UART16550 + 5)) :: u8) AND 0x20 \<noteq> 0)"

lemma uart_wait_ready:
  assumes "(ucast (soc_answer s (soc_reads s + k) (UART16550 + 5)) :: u8) AND 0x20 \<noteq> 0"
  shows "\<exists>r. uart_wait s = Some (s\<lparr>soc_reads := r\<rparr>)"
  using assms
proof (induction k arbitrary: s)
  case 0
  then show ?case by (subst uart_wait.simps) (auto simp: Let_def soc_inb_def soc_inl_def)
next
  case (Suc k)
  have "\<exists>r. uart_wait (s\<lparr>soc_reads := soc_reads s + 1\<rparr>) = Some (s\<lparr>soc_reads := r\<rparr>)"
    using Suc.IH[of "s\<lparr>soc_reads := soc_reads s + 1\<rparr>"] Suc.prems by simp
  then show ?case by (subst uart_wait.simps) (auto simp: Let_def soc_inb_def soc_inl_def)
qed

lemma soc_putch_live:
  assumes "uart_live (soc_answer s)"
  shows "\<exists>r. soc_putch c s = Some (s\<lparr>soc_reads := r, soc_writes := soc_writes s @ [WB UART16550 c]\<rparr>)"
proof -
  obtain m where "m \<ge> soc_reads s" "(ucast (soc_answer s m (UART16550 + 5)) :: u8) AND 0x20 \<noteq> 0"
    using assms unfolding uart_live_def by blast
  then show ?thesis
    using uart_wait_ready[of s "m - soc_reads s"] by (auto simp: soc_putch_def soc_out_def)
qed

lemma soc_puts_live:
  "uart_live (soc_answer s) \<Longrightarrow>
   \<exists>r. soc_puts cs s = Some (s\<lparr>soc_reads := r, soc_writes := soc_writes s @ map (WB UART16550) cs\<rparr>)"
proof (induction cs arbitrary: s)
  case Nil
  have "s = s\<lparr>soc_reads := soc_reads s, soc_writes := soc_writes s\<rparr>" by simp
  then show ?case by (metis append_Nil2 list.map_disc_iff soc_puts.simps(1))
next
  case (Cons c cs)
  obtain r where r: "soc_putch c s = Some (s\<lparr>soc_reads := r, soc_writes := soc_writes s @ [WB UART16550 c]\<rparr>)"
    using soc_putch_live[OF Cons.prems] by blast
  show ?case
    using Cons.IH[of "s\<lparr>soc_reads := r, soc_writes := soc_writes s @ [WB UART16550 c]\<rparr>"] Cons.prems by (simp add: r)
qed

text \<open>The digits of \<open>brandShow\<close>: the buffer holds the number in base ten, least digit first.\<close>

fun base10 :: "u8 list \<Rightarrow> nat" where
  "base10 [] = 0"
| "base10 (d # ds) = unat d - 48 + 10 * base10 ds"

definition ascii_digit :: "u8 \<Rightarrow> bool" where
  "ascii_digit d = (48 \<le> d \<and> d \<le> 57)"

lemma digit_of: "ascii_digit (ucast (number mod 10 :: u32) + 48)" "unat (ucast (number mod 10 :: u32) + 48 :: u8) = unat number mod 10 + 48"
proof -
  have m: "unat (number mod 10) = unat number mod 10" by (simp add: unat_mod)
  have "unat (ucast (number mod 10) :: u8) = unat number mod 10"
    by (simp add: unsigned_ucast_eq m take_bit_eq_mod)
  then have u: "unat (ucast (number mod 10 :: u32) + 48 :: u8) = unat number mod 10 + 48"
    by (simp add: unat_word_ariths)
  show "unat (ucast (number mod 10 :: u32) + 48 :: u8) = unat number mod 10 + 48" by (rule u)
  show "ascii_digit (ucast (number mod 10 :: u32) + 48)"
    unfolding ascii_digit_def word_le_nat_alt u by simp
qed

lemma brand_digits_correct:
  assumes "unat number < 10 ^ (10 - length buf)" "length buf \<le> 10"
  shows "\<exists>ds. brand_digits number buf = Inr (buf @ ds) \<and> base10 ds = unat number \<and> list_all ascii_digit ds \<and>
    (ds = [] \<longleftrightarrow> number = 0) \<and> (ds \<noteq> [] \<longrightarrow> last ds \<noteq> 48) \<and> length (buf @ ds) \<le> 10"
  using assms
proof (induction number buf rule: brand_digits.induct)
  case (1 number buf)
  show ?case
  proof (cases "number = 0")
    case True
    then show ?thesis using 1(3) by (simp add: brand_digits.simps)
  next
    case False
    then have n: "0 < number" by (simp add: word_greater_zero_iff)
    define d :: u8 where "d = ucast (number mod 10) + 48"
    have len: "length buf < 10"
    proof (rule ccontr)
      assume "\<not> length buf < 10"
      then have "unat number < 1" using 1(2) by simp
      then show False using False by (simp add: unat_eq_zero)
    qed
    then obtain e where e: "10 - length buf = Suc e" "10 - length (buf @ [d]) = e" by (metis Suc_diff_Suc length_append_singleton)
    have q: "unat (number div 10) = unat number div 10" by (simp add: unat_div)
    have "unat (number div 10) < 10 ^ (10 - length (buf @ [d]))"
      unfolding q e(2) using 1(2)[unfolded e(1)] by (simp add: less_mult_imp_div_less mult.commute)
    moreover have "length (buf @ [d]) \<le> 10" using len by simp
    ultimately obtain ds where ds: "brand_digits (number div 10) (buf @ [d]) = Inr ((buf @ [d]) @ ds)"
        "base10 ds = unat (number div 10)" "list_all ascii_digit ds" "ds = [] \<longleftrightarrow> number div 10 = 0" "ds \<noteq> [] \<longrightarrow> last ds \<noteq> 48" "length ((buf @ [d]) @ ds) \<le> 10"
      using 1(1)[OF n, folded d_def] by blast
    have d: "ascii_digit d" "unat d = unat number mod 10 + 48" unfolding d_def by (rule digit_of)+
    have "brand_digits number buf = Inr (buf @ d # ds)"
      using n len ds(1) by (subst brand_digits.simps) (simp add: d_def)
    moreover have "base10 (d # ds) = unat number" using ds(2) d(2) q by simp
    moreover have "last (d # ds) \<noteq> 48"
    proof (cases "ds = []")
      case True
      then have "unat number div 10 = 0" using ds(2) q by simp
      then have "unat d \<noteq> 48" using False d(2) by (auto simp: unat_eq_zero div_eq_0_iff)
      then show ?thesis using True by auto
    qed (use ds(5) in simp)
    moreover have "length (buf @ d # ds) \<le> 10" using ds(6) by simp
    ultimately show ?thesis using ds(3) d(1) False by (intro exI[of _ "d # ds"]) simp
  qed
qed

lemma ucast_low_byte: "ucast (w AND 0xFF :: u32) = (ucast w :: u8)"
proof -
  have "(0xFF :: u32) = mask 8" by (simp add: mask_eq_exp_minus_1)
  then show ?thesis by (simp add: bit_eq_iff bit_simps)
qed

text \<open>
  C36. The banner of the ysyxSoC. If the UART reports room again and again, \<open>brandShow\<close> returns, for all
  values of the two registers, and stays inside its buffer of ten characters; what it has sent are the
  four characters of mvendorid, most significant first, the digits of marchid in base ten, without a
  leading zero (none at all if it is 0), and a newline.
\<close>

theorem banner_correct:
  assumes "uart_live (soc_answer s)"
  shows "\<exists>r ds. brandShow mvendorid marchid s =
      Some (Inr (s\<lparr>soc_reads := r, soc_writes := soc_writes s @ map (WB UART16550)
        ([ucast (drop_bit 24 mvendorid), ucast (drop_bit 16 mvendorid), ucast (drop_bit 8 mvendorid), ucast mvendorid] @
         rev ds @ [10])\<rparr>)) \<and>
    length ds \<le> 10 \<and> base10 ds = unat marchid \<and> list_all ascii_digit ds \<and> (ds = [] \<longleftrightarrow> marchid = 0) \<and>
    (ds \<noteq> [] \<longrightarrow> last ds \<noteq> 48)"
proof -
  define vendor :: "u8 list" where
    "vendor = [ucast (drop_bit 24 mvendorid), ucast (drop_bit 16 mvendorid), ucast (drop_bit 8 mvendorid), ucast mvendorid]"
  have v: "map (\<lambda>i. ucast (drop_bit (8 * i) mvendorid AND 0xFF)) [3, 2, 1, 0] = vendor"
    by (simp add: vendor_def ucast_low_byte)
  obtain r where r: "soc_puts vendor s = Some (s\<lparr>soc_reads := r, soc_writes := soc_writes s @ map (WB UART16550) vendor\<rparr>)"
    using soc_puts_live[OF assms, of vendor] by blast
  have "unat marchid < 10 ^ (10 - length ([] :: u8 list))" using unsigned_less[of marchid, where ?'a = nat] by simp
  then obtain ds where ds: "brand_digits marchid [] = Inr ds" "base10 ds = unat marchid" "list_all ascii_digit ds"
      "ds = [] \<longleftrightarrow> marchid = 0" "ds \<noteq> [] \<longrightarrow> last ds \<noteq> 48" "length ds \<le> 10"
    using brand_digits_correct[of marchid "[]"] unfolding append_Nil by force
  define s1 where "s1 = s\<lparr>soc_reads := r, soc_writes := soc_writes s @ map (WB UART16550) vendor\<rparr>"
  obtain r' where "soc_puts (rev ds @ [10]) s1 =
      Some (s1\<lparr>soc_reads := r', soc_writes := soc_writes s1 @ map (WB UART16550) (rev ds @ [10])\<rparr>)"
    using soc_puts_live[of s1] assms unfolding s1_def by fastforce
  then have "brandShow mvendorid marchid s =
      Some (Inr (s\<lparr>soc_reads := r', soc_writes := soc_writes s @ map (WB UART16550) (vendor @ rev ds @ [10])\<rparr>))"
    unfolding brandShow_def v using r ds(1) by (simp add: s1_def)
  then show ?thesis using ds unfolding vendor_def by blast
qed

theorem banner_correct_witness:
  "\<exists>r ds. brandShow 0x79737978 24070014 \<lparr>soc_answer = \<lambda>n a. if odd n then 0x20 else 0, soc_reads = 0, soc_writes = [], soc_boot_time = 0\<rparr> =
      Some (Inr \<lparr>soc_answer = \<lambda>n a. if odd n then 0x20 else 0, soc_reads = r, soc_writes = map (WB UART16550)
        ([0x79, 0x73, 0x79, 0x78] @ rev ds @ [10]), soc_boot_time = 0\<rparr>) \<and> base10 ds = 24070014"
proof -
  have "uart_live (soc_answer \<lparr>soc_answer = \<lambda>n a. if odd n then 0x20 else 0, soc_reads = 0, soc_writes = [], soc_boot_time = 0\<rparr>)"
    unfolding uart_live_def by (simp, metis even_Suc le_SucI order_refl)
  from banner_correct[OF this, where mvendorid = "0x79737978" and marchid = "24070014"] show ?thesis by fastforce
qed

end
