(* ===== verification/Threads.thy ===== *)
theory Threads
  imports Soc "HOL-Library.Multiset"
begin

text \<open>
  Context switching above \<open>__am_irq_handle\<close>: the two threads of \<open>am-kernels/kernels/yield-os\<close>, which give up
  the processor themselves, and the tasks of \<open>am-kernels/kernels/thread-os\<close>, spread over several processors
  and preempted at any time, with the spin lock around their output. A context is the record the trap
  entry saves; a saved context is the value stored in it.
\<close>

section \<open>yield-os\<close>

text \<open>The saved context pointers of \<open>pcb[0]\<close>, \<open>pcb[1]\<close> and \<open>pcb_boot\<close> (NULL is None), and the index of \<open>current\<close>.\<close>

record yield_os =
  pcb_cp :: "am_context option list"
  pcb_current :: nat

definition yield_schedule :: "yield_os am_handler" where
  "yield_schedule ev prev st =
     (let cps = (pcb_cp st)[pcb_current st := Some prev];
          cur = (if pcb_current st = 0 then 1 else 0)
      in (cps ! cur, \<lparr>pcb_cp = cps, pcb_current = cur\<rparr>))"

text \<open>\<open>main\<close> up to its \<open>yield()\<close>; the context of a thread is built over what its stack holds.\<close>

definition yield_main :: "u32 \<Rightarrow> am_context \<Rightarrow> am_context \<Rightarrow> yield_os" where
  "yield_main f stack0 stack1 =
     \<lparr>pcb_cp = [Some (kcontext f 1 stack0), Some (kcontext f 2 stack1), None], pcb_current = 2\<rparr>"

text \<open>The character thread \<open>arg\<close> prints.\<close>

definition yield_char :: "u32 \<Rightarrow> char" where
  "yield_char arg = ''?AB'' ! (if arg > 2 then 0 else unat arg)"

text \<open>
  The machine: what runs between two traps is given by \<open>go\<close>, from the index of the running thread and
  the context it starts from to the context of its trap. The run lists the thread and the context after
  each of \<open>n\<close> traps.
\<close>

fun yield_run :: "(nat \<Rightarrow> am_context \<Rightarrow> am_context) \<Rightarrow> nat \<Rightarrow> am_context \<Rightarrow> yield_os \<Rightarrow> (nat \<times> am_context) list res" where
  "yield_run go 0 c st = Inr []"
| "yield_run go (Suc n) c st =
     bindR (am_irq_handle (Some yield_schedule) c st) (\<lambda>(c', st').
     bindR (yield_run go n (go (pcb_current st') c') st') (\<lambda>rs. Inr ((pcb_current st', c') # rs)))"

text \<open>What a thread sees of its own yield: it goes on behind the trap.\<close>

definition after_yield :: "(nat \<Rightarrow> am_context \<Rightarrow> am_context) \<Rightarrow> nat \<Rightarrow> am_context \<Rightarrow> am_context" where
  "after_yield go t c = (go t c)\<lparr>c_mepc := c_mepc (go t c) + 4\<rparr>"

lemma irq_yield:
  assumes "c_mcause c = 0x0b" "pcb_cp st = [a, b, d]" "pcb_current st < 3"
    "(if pcb_current st = 0 then b else a) = Some x"
  shows "am_irq_handle (Some yield_schedule) c st =
    Inr (x, \<lparr>pcb_cp = (pcb_cp st)[pcb_current st := Some (c\<lparr>c_mepc := c_mepc c + 4\<rparr>)],
      pcb_current = (if pcb_current st = 0 then 1 else 0)\<rparr>)"
  using assms by (auto simp: am_irq_handle_def yield_schedule_def Let_def less_Suc_eq numeral_3_eq_3 split: if_splits)

lemma yield_run_alternates:
  assumes go: "\<forall>t c. c_mcause (go t c) = 0x0b"
    and st: "pcb_current st < 2" "length (pcb_cp st) = 3" "pcb_cp st ! (1 - pcb_current st) = Some x"
    and n: "k < n"
  shows "\<exists>rs. yield_run go n (go (pcb_current st) c) st = Inr rs \<and> length rs = n \<and>
    rs ! k = ((1 + pcb_current st + k) mod 2,
      if even k then (after_yield go (1 - pcb_current st) ^^ (k div 2)) x
      else (after_yield go (pcb_current st) ^^ (k div 2 + 1)) c)"
  using st n
proof (induction n arbitrary: k st c x)
  case (Suc n)
  let ?u = "1 - pcb_current st"
  define st' where "st' = \<lparr>pcb_cp = (pcb_cp st)[pcb_current st := Some (after_yield go (pcb_current st) c)], pcb_current = ?u\<rparr>"
  obtain a b d where abd: "pcb_cp st = [a, b, d]"
    using Suc.prems(2) by (auto simp: length_Suc_conv numeral_3_eq_3)
  have "am_irq_handle (Some yield_schedule) (go (pcb_current st) c) st = Inr (x, st')"
    using irq_yield[of "go (pcb_current st) c" st a b d x] go Suc.prems(1,3) abd
    by (auto simp: st'_def after_yield_def less_2_cases_iff)
  then have run: "yield_run go (Suc n) (go (pcb_current st) c) st =
      bindR (yield_run go n (go ?u x) st') (\<lambda>rs. Inr ((?u, x) # rs))" by (simp add: st'_def)
  have st': "pcb_current st' < 2" "length (pcb_cp st') = 3"
      "pcb_cp st' ! (1 - pcb_current st') = Some (after_yield go (pcb_current st) c)"
    using Suc.prems(1,2) by (auto simp: st'_def less_2_cases_iff)
  show ?case
  proof (cases k)
    case 0
    show ?thesis
    proof (cases n)
      case 0
      then show ?thesis using run \<open>k = 0\<close> Suc.prems(1) by (auto simp: less_2_cases_iff)
    next
      case (Suc m)
      obtain rs where "yield_run go n (go (pcb_current st') x) st' = Inr rs" "length rs = n"
        using Suc.IH[OF st', of 0 x] Suc by auto
      then show ?thesis using run \<open>k = 0\<close> Suc.prems(1) by (auto simp: st'_def less_2_cases_iff)
    qed
  next
    case (Suc j)
    obtain rs where rs: "yield_run go n (go (pcb_current st') x) st' = Inr rs" "length rs = n"
        "rs ! j = ((1 + pcb_current st' + j) mod 2,
          if even j then (after_yield go (1 - pcb_current st') ^^ (j div 2)) (after_yield go (pcb_current st) c)
          else (after_yield go (pcb_current st') ^^ (j div 2 + 1)) x)"
      using Suc.IH[OF st', of j x] Suc.prems(4) Suc by auto
    have "yield_run go (Suc n) (go (pcb_current st) c) st = Inr ((?u, x) # rs)" using run rs(1) by (simp add: st'_def)
    moreover obtain i where "j = 2 * i \<or> j = 2 * i + 1" by (metis evenE oddE)
    ultimately show ?thesis
      using rs(2,3) Suc Suc.prems(1) unfolding st'_def less_2_cases_iff
      by (elim disjE) (auto simp del: yield_run.simps simp: funpow_swap1 mod_Suc)
  qed
qed simp


text \<open>
  C33. The two threads of yield-os. Whatever runs between the traps, as long as every trap is a yield: of
  any number of traps after the first yield of \<open>main\<close>, each gives the processor to the other thread,
  starting with thread 0; a thread starts at \<open>f\<close> with its number as argument, in machine mode, and goes
  on after each yield with exactly the context it had there, behind the trap instruction.
\<close>

theorem yield_os_alternates:
  assumes "\<forall>t c. c_mcause (go t c) = 0x0b" and "k < n"
  shows "\<exists>rs. yield_run go n (go 2 boot) (yield_main f stack0 stack1) = Inr rs \<and> length rs = n \<and>
    rs ! k = (k mod 2, (after_yield go (k mod 2) ^^ (k div 2)) (kcontext f (of_nat (k mod 2) + 1) (if even k then stack0 else stack1)))"
proof -
  let ?x = "kcontext f 1 stack0" and ?y = "kcontext f 2 stack1"
  obtain m where n: "n = Suc m" using assms(2) by (cases n) auto
  define st where "st = \<lparr>pcb_cp = [Some ?x, Some ?y, Some (after_yield go 2 boot)], pcb_current = 0\<rparr>"
  have "am_irq_handle (Some yield_schedule) (go 2 boot) (yield_main f stack0 stack1) = Inr (?x, st)"
    using irq_yield[of "go 2 boot" "yield_main f stack0 stack1" "Some ?x" "Some ?y" None ?x] assms(1)
    by (simp add: yield_main_def st_def after_yield_def numeral_2_eq_2)
  then have run: "yield_run go n (go 2 boot) (yield_main f stack0 stack1) =
      bindR (yield_run go m (go (pcb_current st) ?x) st) (\<lambda>rs. Inr ((0, ?x) # rs))"
    by (simp add: n st_def)
  have st: "pcb_current st < 2" "length (pcb_cp st) = 3" "pcb_cp st ! (1 - pcb_current st) = Some ?y"
    by (simp_all add: st_def)
  show ?thesis
  proof (cases k)
    case 0
    show ?thesis
    proof (cases m)
      case (Suc m')
      then show ?thesis using yield_run_alternates[OF assms(1) st, of 0 m ?x] run n 0 by auto
    qed (use run n 0 in simp)
  next
    case (Suc j)
    then have "j < m" using assms(2) n by simp
    from yield_run_alternates[OF assms(1) st this, of ?x] obtain rs where
      rs: "yield_run go m (go (pcb_current st) ?x) st = Inr rs" "length rs = m"
        "rs ! j = ((1 + j) mod 2, if even j then (after_yield go 1 ^^ (j div 2)) ?y else (after_yield go 0 ^^ (j div 2 + 1)) ?x)"
      by (auto simp: st_def)
    obtain i where "j = 2 * i \<or> j = 2 * i + 1" by (metis evenE oddE)
    then show ?thesis using rs(2,3) run Suc n by (elim disjE) (auto simp: rs(1) mod_Suc)
  qed
qed

theorem yield_os_alternates_witness:
  "\<exists>rs. yield_run (\<lambda>t c. c\<lparr>c_mepc := c_mepc c + 16, c_mcause := 0x0b\<rparr>) 5 \<lparr>c_gpr = [], c_mcause = 0x0b, c_mstatus = 0, c_mepc = 0\<rparr>
       (yield_main 0x80000100 \<lparr>c_gpr = replicate 16 0, c_mcause = 0, c_mstatus = 0, c_mepc = 0\<rparr>
         \<lparr>c_gpr = replicate 16 0, c_mcause = 0, c_mstatus = 0, c_mepc = 0\<rparr>) = Inr rs \<and>
     fst (rs ! 4) = 0 \<and> c_mepc (snd (rs ! 4)) = 0x80000128"
proof -
  let ?go = "\<lambda>(t :: nat) c. c\<lparr>c_mepc := c_mepc c + 16, c_mcause := 0x0b\<rparr>"
  let ?s = "\<lparr>c_gpr = replicate 16 0, c_mcause = 0, c_mstatus = 0, c_mepc = 0\<rparr>"
  have "\<forall>t c. c_mcause (?go t c) = 0x0b" by simp
  from yield_os_alternates[OF this, where k = 4 and n = 5 and boot = "\<lparr>c_gpr = [], c_mcause = 0x0b, c_mstatus = 0, c_mepc = - 16\<rparr>"
      and f = "0x80000100" and ?stack0.0 = ?s and ?stack1.0 = ?s]
  obtain rs where rs: "yield_run ?go 5 (?go 2 \<lparr>c_gpr = [], c_mcause = 0x0b, c_mstatus = 0, c_mepc = - 16\<rparr>)
      (yield_main 0x80000100 ?s ?s) = Inr rs" "rs ! 4 = (0, (after_yield ?go 0 ^^ 2) (kcontext 0x80000100 1 ?s))"
    by auto
  have "c_mepc ((after_yield ?go 0 ^^ 2) (kcontext 0x80000100 1 ?s)) = 0x80000128"
    by (simp add: kcontext_def after_yield_def numeral_2_eq_2)
  with rs show ?thesis by (intro exI[of _ rs]) simp
qed

section \<open>thread-os\<close>

abbreviation (input) NR_TASKS :: nat where "NR_TASKS \<equiv> 5"
abbreviation (input) MAX_CPU :: nat where "MAX_CPU \<equiv> 8"

text \<open>The contexts of \<open>tasks\<close> and the index of the task each processor runs (\<open>currents\<close>, None is NULL).\<close>

record thread_os =
  task_context :: "am_context list"
  currents :: "nat option list"

text \<open>The successor of a task in the ring, and the loop that looks for the next task of a processor.\<close>

definition task_next :: "nat \<Rightarrow> nat" where
  "task_next i = (i + 1) mod NR_TASKS"

partial_function (option) find_task :: "nat \<Rightarrow> nat \<Rightarrow> nat \<Rightarrow> nat option" where
  "find_task cpu_count cpu i =
     (let j = task_next i in if j mod cpu_count \<noteq> cpu then find_task cpu_count cpu j else Some j)"

definition on_interrupt :: "nat \<Rightarrow> nat \<Rightarrow> am_context \<Rightarrow> thread_os \<Rightarrow> (am_context \<times> thread_os) option" where
  "on_interrupt cpu_count cpu ctx st =
     (case (case currents st ! cpu of
              None \<Rightarrow> (0, st)
            | Some i \<Rightarrow> (i, st\<lparr>task_context := (task_context st)[i := ctx]\<rparr>)) of
        (i, st1) \<Rightarrow>
          map_option (\<lambda>j. (task_context st1 ! j, st1\<lparr>currents := (currents st1)[cpu := Some j]\<rparr>)) (find_task cpu_count cpu i))"

definition thread_main :: "u32 \<Rightarrow> u32 list \<Rightarrow> am_context list \<Rightarrow> thread_os" where
  "thread_main entry names stacks =
     \<lparr>task_context = map (\<lambda>i. kcontext entry (names ! i) (stacks ! i)) [0..<NR_TASKS], currents = replicate MAX_CPU None\<rparr>"

text \<open>A run: each interrupt has its processor and the context of what it interrupts; the result lists the processor,
  the task that goes on there and its context.\<close>

fun thread_run :: "nat \<Rightarrow> (nat \<times> am_context) list \<Rightarrow> thread_os \<Rightarrow> ((nat \<times> nat \<times> am_context) list \<times> thread_os) option" where
  "thread_run n [] st = Some ([], st)"
| "thread_run n ((cpu, ctx) # evs) st =
     Option.bind (on_interrupt n cpu ctx st) (\<lambda>(c, st1).
     Option.bind (thread_run n evs st1) (\<lambda>(rs, st2). Some ((cpu, the (currents st1 ! cpu), c) # rs, st2)))"

lemma find_task_from:
  assumes "((i + k + 1) mod NR_TASKS) mod n = cpu"
  shows "\<exists>j. find_task n cpu i = Some j \<and> j < NR_TASKS \<and> j mod n = cpu"
  using assms
proof (induction k arbitrary: i)
  case 0
  then show ?case by (subst find_task.simps) (simp add: task_next_def)
next
  case (Suc k)
  have "((task_next i + k + 1) mod NR_TASKS) mod n = cpu"
    using Suc.prems mod_add_left_eq[of "i + 1" NR_TASKS "k + 1"] by (simp add: task_next_def)
  from Suc.IH[OF this] show ?case by (subst find_task.simps) (auto simp: Let_def task_next_def)
qed

lemma find_task_sound: "find_task n cpu i = Some j \<Longrightarrow> j < NR_TASKS \<and> j mod n = cpu"
  by (rule find_task.raw_induct[where P = "\<lambda>n cpu i j. j < NR_TASKS \<and> j mod n = cpu"])
    (auto simp: Let_def task_next_def split: if_splits)

lemma find_task_returns:
  assumes "cpu < n" "i < NR_TASKS"
  shows "(\<exists>j. find_task n cpu i = Some j) \<longleftrightarrow> cpu < NR_TASKS"
proof
  assume c: "cpu < NR_TASKS"
  have "(i + d mod NR_TASKS + 1) mod NR_TASKS = (i + d + 1) mod NR_TASKS" for d
    by (metis mod_add_left_eq mod_add_right_eq)
  then have "(i + (cpu + 4 - i) mod NR_TASKS + 1) mod NR_TASKS = (i + (cpu + 4 - i) + 1) mod NR_TASKS" .
  also have "i + (cpu + 4 - i) + 1 = cpu + NR_TASKS" using assms(2) by linarith
  also have "(cpu + NR_TASKS) mod NR_TASKS = cpu" using c by simp
  finally have "((i + (cpu + 4 - i) mod NR_TASKS + 1) mod NR_TASKS) mod n = cpu" using assms(1) by simp
  then show "\<exists>j. find_task n cpu i = Some j" using find_task_from by blast
next
  assume "\<exists>j. find_task n cpu i = Some j"
  then obtain j where "j < NR_TASKS" "j mod n = cpu" using find_task_sound by blast
  then show "cpu < NR_TASKS" using mod_less_eq_dividend[of j n] by linarith
qed

text \<open>A processor runs only the tasks whose number is its own modulo the number of processors.\<close>

definition threads_ok :: "nat \<Rightarrow> thread_os \<Rightarrow> bool" where
  "threads_ok n st \<longleftrightarrow> length (task_context st) = NR_TASKS \<and> length (currents st) = MAX_CPU \<and>
     (\<forall>cpu < n. \<forall>i. currents st ! cpu = Some i \<longrightarrow> i < NR_TASKS \<and> i mod n = cpu)"

definition same_view :: "nat \<Rightarrow> nat \<Rightarrow> thread_os \<Rightarrow> thread_os \<Rightarrow> bool" where
  "same_view n cpu s t \<longleftrightarrow> currents s ! cpu = currents t ! cpu \<and>
     (\<forall>i < NR_TASKS. i mod n = cpu \<longrightarrow> task_context s ! i = task_context t ! i)"

lemma same_view_trans: "same_view n cpu s t \<Longrightarrow> same_view n cpu t u \<Longrightarrow> same_view n cpu s u"
  by (simp add: same_view_def)

lemma same_view_sym: "same_view n cpu s t \<Longrightarrow> same_view n cpu t s"
  by (simp add: same_view_def)

lemma on_interrupt_step:
  assumes "threads_ok n st" "cpu < n" "n \<le> NR_TASKS"
  shows "\<exists>c st1 j. on_interrupt n cpu ctx st = Some (c, st1) \<and> threads_ok n st1 \<and> currents st1 ! cpu = Some j \<and>
    (\<forall>cpu'. cpu' \<noteq> cpu \<longrightarrow> cpu' < n \<longrightarrow> same_view n cpu' st st1) \<and>
    (\<forall>t. threads_ok n t \<longrightarrow> same_view n cpu st t \<longrightarrow>
      (\<exists>t1. on_interrupt n cpu ctx t = Some (c, t1) \<and> threads_ok n t1 \<and> same_view n cpu st1 t1))"
proof -
  define i where "i = (case currents st ! cpu of None \<Rightarrow> 0 | Some i \<Rightarrow> i)"
  have i: "i < NR_TASKS" using assms by (auto simp: i_def threads_ok_def split: option.splits)
  obtain j where j: "find_task n cpu i = Some j" "j < NR_TASKS" "j mod n = cpu"
    using find_task_returns[OF assms(2) i] find_task_sound assms by fastforce
  define upd where "upd s = \<lparr>task_context = (case currents s ! cpu of None \<Rightarrow> task_context s | Some i \<Rightarrow> (task_context s)[i := ctx]),
      currents = (currents s)[cpu := Some j]\<rparr>" for s :: thread_os
  have step: "on_interrupt n cpu ctx s = Some (task_context (upd s) ! j, upd s)" if "currents s ! cpu = currents st ! cpu" for s
    using that j(1) by (auto simp: on_interrupt_def upd_def i_def split: option.splits)
  have ok: "threads_ok n (upd s)" if "threads_ok n s" for s
    using that j assms by (auto simp: threads_ok_def upd_def nth_list_update split: option.splits)
  have frame: "same_view n cpu' st (upd st)" if "cpu' \<noteq> cpu" for cpu'
    using that assms by (auto simp: same_view_def upd_def threads_ok_def nth_list_update split: option.splits)
  have view: "same_view n cpu (upd st) (upd t)" "task_context (upd t) ! j = task_context (upd st) ! j"
    if "threads_ok n t" "same_view n cpu st t" for t
  proof -
    have l: "length (task_context t) = NR_TASKS" "length (currents t) = MAX_CPU" "length (task_context st) = NR_TASKS"
        "length (currents st) = MAX_CPU" "cpu < MAX_CPU"
      using that(1) assms by (auto simp: threads_ok_def)
    have b: "\<forall>i. currents st ! cpu = Some i \<longrightarrow> i < NR_TASKS" using assms by (simp add: threads_ok_def)
    have v: "currents t ! cpu = currents st ! cpu" "\<forall>i < NR_TASKS. i mod n = cpu \<longrightarrow> task_context st ! i = task_context t ! i"
      using that(2) by (auto simp: same_view_def)
    show "same_view n cpu (upd st) (upd t)" "task_context (upd t) ! j = task_context (upd st) ! j"
      using l v b j(2,3) by (auto simp: same_view_def upd_def nth_list_update split: option.split)
  qed
  have cur: "currents (upd st) ! cpu = Some j" using assms by (simp add: upd_def threads_ok_def)
  have "\<exists>t1. on_interrupt n cpu ctx t = Some (task_context (upd st) ! j, t1) \<and> threads_ok n t1 \<and> same_view n cpu (upd st) t1"
    if "threads_ok n t" "same_view n cpu st t" for t
    using step[of t] ok[OF that(1)] view[OF that] that(2) by (intro exI[of _ "upd t"]) (simp add: same_view_def)
  then show ?thesis using step[of st] ok[OF assms(1)] cur frame by blast
qed

lemma thread_main_ok: "n \<le> MAX_CPU \<Longrightarrow> threads_ok n (thread_main entry names stacks)"
  by (simp add: threads_ok_def thread_main_def)

lemma thread_run_isolated:
  assumes "threads_ok n st" "threads_ok n t" "same_view n cpu0 st t" "n \<le> NR_TASKS" "\<forall>ev \<in> set evs. fst ev < n" "cpu0 < n"
  shows "\<exists>rs st' t'. thread_run n evs st = Some (rs, st') \<and> threads_ok n st' \<and>
    thread_run n (filter (\<lambda>ev. fst ev = cpu0) evs) t = Some (filter (\<lambda>r. fst r = cpu0) rs, t')"
  using assms
proof (induction evs arbitrary: st t)
  case (Cons ev evs)
  obtain cpu ctx where ev: "ev = (cpu, ctx)" by fastforce
  then have cpu: "cpu < n" using Cons.prems by simp
  obtain c st1 j where s: "on_interrupt n cpu ctx st = Some (c, st1)" "threads_ok n st1"
      "\<forall>cpu'. cpu' \<noteq> cpu \<longrightarrow> cpu' < n \<longrightarrow> same_view n cpu' st st1"
      "\<forall>t. threads_ok n t \<longrightarrow> same_view n cpu st t \<longrightarrow>
        (\<exists>t1. on_interrupt n cpu ctx t = Some (c, t1) \<and> threads_ok n t1 \<and> same_view n cpu st1 t1)"
    using on_interrupt_step[OF Cons.prems(1) cpu Cons.prems(4)] by metis
  have evs: "\<forall>ev \<in> set evs. fst ev < n" using Cons.prems(5) by simp
  show ?case
  proof (cases "cpu = cpu0")
    case True
    obtain t1 where t1: "on_interrupt n cpu ctx t = Some (c, t1)" "threads_ok n t1" "same_view n cpu st1 t1"
      using s(4) Cons.prems(2,3) True by blast
    then have "currents t1 ! cpu = currents st1 ! cpu" by (simp add: same_view_def)
    then show ?thesis
      using Cons.IH[OF s(2) t1(2) _ Cons.prems(4) evs Cons.prems(6)] t1 s(1) True by (auto simp: ev)
  next
    case False
    have "same_view n cpu0 st st1" using s(3)[rule_format, of cpu0] False Cons.prems(6) by simp
    then have "same_view n cpu0 st1 t" using Cons.prems(3) by (blast intro: same_view_trans same_view_sym)
    then show ?thesis
      using Cons.IH[OF s(2) Cons.prems(2) _ Cons.prems(4) evs Cons.prems(6)] s(1) False by (auto simp: ev)
  qed
qed auto

text \<open>
  C11. The processors of thread-os do not disturb each other. With at most as many processors as tasks,
  for every order of interrupts on them: each interrupt returns; afterwards no two processors run the
  same task; and the tasks and contexts a processor resumes are exactly those it would resume if the
  interrupts of all the other processors never happened.
\<close>

theorem thread_os_isolated:
  assumes "n \<le> 5" and "\<forall>ev \<in> set evs. fst ev < n" and "cpu0 < n"
  shows "\<exists>rs st' t'. thread_run n evs (thread_main entry names stacks) = Some (rs, st') \<and>
    (\<forall>a < n. \<forall>b < n. a \<noteq> b \<longrightarrow> currents st' ! a \<noteq> None \<longrightarrow> currents st' ! a \<noteq> currents st' ! b) \<and>
    thread_run n (filter (\<lambda>ev. fst ev = cpu0) evs) (thread_main entry names stacks) = Some (filter (\<lambda>r. fst r = cpu0) rs, t')"
proof -
  have "n \<le> MAX_CPU" using assms(1) by simp
  note ok = thread_main_ok[OF this, of entry names stacks]
  have "same_view n cpu0 (thread_main entry names stacks) (thread_main entry names stacks)" by (simp add: same_view_def)
  from thread_run_isolated[OF ok ok this assms] obtain rs st' t' where
    r: "thread_run n evs (thread_main entry names stacks) = Some (rs, st')" "threads_ok n st'"
      "thread_run n (filter (\<lambda>ev. fst ev = cpu0) evs) (thread_main entry names stacks) = Some (filter (\<lambda>r. fst r = cpu0) rs, t')"
    by blast
  have "\<forall>a < n. \<forall>b < n. a \<noteq> b \<longrightarrow> currents st' ! a \<noteq> None \<longrightarrow> currents st' ! a \<noteq> currents st' ! b"
    using r(2) unfolding threads_ok_def by (metis not_None_eq)
  with r(1,3) show ?thesis by blast
qed

theorem thread_os_isolated_witness:
  "\<forall>c0 c1 c2 c3. \<exists>rs st'.
     thread_run 2 [(1, c0), (0, c1), (1, c2), (0, c3)] (thread_main 0 [1, 2, 3, 4, 5] (replicate 5 c0)) = Some (rs, st') \<and>
     filter (\<lambda>r. fst r = 0) rs = [(0, 2, kcontext 0 3 c0), (0, 4, kcontext 0 5 c0)]"
proof (intro allI)
  fix c0 c1 c2 c3 :: am_context
  have n: "find_task 2 0 0 = Some 2" "find_task 2 0 2 = Some 4"
    by (simp_all add: find_task.simps task_next_def)
  have "\<forall>ev \<in> set [(1, c0), (0, c1), (1, c2), (0, c3)]. fst ev < (2 :: nat)" by simp
  from thread_os_isolated[OF _ this, of 0 0 "[1, 2, 3, 4, 5]" "replicate 5 c0"] obtain rs st' t' where
    r: "thread_run 2 [(1, c0), (0, c1), (1, c2), (0, c3)] (thread_main 0 [1, 2, 3, 4, 5] (replicate 5 c0)) = Some (rs, st')"
      "thread_run 2 [(0, c1), (0, c3)] (thread_main 0 [1, 2, 3, 4, 5] (replicate 5 c0)) = Some (filter (\<lambda>r. fst r = 0) rs, t')"
    by auto
  then have "filter (\<lambda>r. fst r = 0) rs = [(0, 2, kcontext 0 3 c0), (0, 4, kcontext 0 5 c0)]"
    by (auto simp: on_interrupt_def thread_main_def n upt_rec)
  with r(1) show "\<exists>rs st'.
     thread_run 2 [(1, c0), (0, c1), (1, c2), (0, c3)] (thread_main 0 [1, 2, 3, 4, 5] (replicate 5 c0)) = Some (rs, st') \<and>
     filter (\<lambda>r. fst r = 0) rs = [(0, 2, kcontext 0 3 c0), (0, 4, kcontext 0 5 c0)]" by blast
qed

section \<open>The lock\<close>

text \<open>
  \<open>lock\<close> is a loop over \<open>atomic_xchg\<close>; \<open>func\<close> takes the lock, prints and releases it. Each step is one
  exchange or the entry into the next round, of any task.
\<close>

datatype func_pc = Spin | Holds | Rest

inductive lock_step :: "int \<times> func_pc list \<Rightarrow> int \<times> func_pc list \<Rightarrow> bool" where
  enter: "i < length pcs \<Longrightarrow> pcs ! i = Spin \<Longrightarrow> locked = 0 \<Longrightarrow> lock_step (locked, pcs) (1, pcs[i := Holds])"
| spin: "i < length pcs \<Longrightarrow> pcs ! i = Spin \<Longrightarrow> locked \<noteq> 0 \<Longrightarrow> lock_step (locked, pcs) (1, pcs)"
| unlock: "i < length pcs \<Longrightarrow> pcs ! i = Holds \<Longrightarrow> lock_step (locked, pcs) (0, pcs[i := Rest])"
| again: "i < length pcs \<Longrightarrow> pcs ! i = Rest \<Longrightarrow> lock_step (locked, pcs) (locked, pcs[i := Spin])"

inductive_cases lock_stepE: "lock_step (l, pcs) s"

definition holders :: "func_pc list \<Rightarrow> nat" where
  "holders pcs = count (mset pcs) Holds"

lemma holders_update: "i < length pcs \<Longrightarrow> holders (pcs[i := pc]) + of_bool (pcs ! i = Holds) = holders pcs + of_bool (pc = Holds)"
proof -
  assume i: "i < length pcs"
  then have "pcs ! i \<in># mset pcs" by simp
  then obtain c where "count (mset pcs) (pcs ! i) = Suc c" by (metis Suc_pred count_greater_zero_iff)
  then show ?thesis using i by (auto simp: holders_def mset_update)
qed

lemma lock_step_inv:
  "lock_step s s' \<Longrightarrow> fst s = int (holders (snd s)) \<and> fst s \<le> 1 \<Longrightarrow> fst s' = int (holders (snd s')) \<and> fst s' \<le> 1 \<and> length (snd s') = length (snd s)"
proof (induction rule: lock_step.induct)
  case (enter i pcs locked)
  then show ?case using holders_update[of i pcs Holds] by simp
next
  case (unlock i pcs locked)
  then show ?case using holders_update[of i pcs Rest] by simp
next
  case (again i pcs locked)
  then show ?case using holders_update[of i pcs Spin] by simp
qed auto

lemma lock_inv:
  assumes "lock_step\<^sup>*\<^sup>* (0, replicate n Spin) s"
  shows "fst s = int (holders (snd s)) \<and> fst s \<le> 1 \<and> length (snd s) = n"
  using assms
proof (induction rule: rtranclp_induct)
  case (step s s')
  then show ?case using lock_step_inv[OF step(2)] by simp
qed (simp add: holders_def)

lemma can_enter:
  assumes "fst s = int (holders (snd s))" "fst s \<le> 1" "i < length (snd s)"
  shows "\<exists>s'. lock_step\<^sup>*\<^sup>* s s' \<and> snd s' ! i = Holds"
proof -
  obtain l pcs where s: "s = (l, pcs)" by fastforce
  have free: "\<exists>s'. lock_step\<^sup>*\<^sup>* (0, qs) s' \<and> snd s' ! i = Holds" if i: "i < length qs" "qs ! i \<noteq> Holds" for qs
  proof -
    have spin: "\<exists>s'. lock_step\<^sup>*\<^sup>* (0, rs) s' \<and> snd s' ! i = Holds" if "i < length rs" "rs ! i = Spin" for rs
      using lock_step.enter[OF that refl] that(1) by (intro exI[of _ "(1, rs[i := Holds])"]) auto
    show ?thesis
    proof (cases "qs ! i")
      case Rest
      have "lock_step (0, qs) (0, qs[i := Spin])" by (rule lock_step.again[OF i(1) Rest])
      then show ?thesis using spin[of "qs[i := Spin]"] i(1) by (auto intro: converse_rtranclp_into_rtranclp)
    qed (use spin i in auto)
  qed
  show ?thesis
  proof (cases "pcs ! i = Holds")
    case True
    then show ?thesis using s by auto
  next
    case False
    show ?thesis
    proof (cases "l = 0")
      case True
      then show ?thesis using free[OF _ False] assms(3) s by simp
    next
      case 2: False
      then have "holders pcs > 0" using assms(1) s by simp
      then obtain k where k: "k < length pcs" "pcs ! k = Holds" by (auto simp: holders_def in_set_conv_nth)
      have "lock_step (l, pcs) (0, pcs[k := Rest])" by (rule lock_step.unlock[OF k])
      moreover have "pcs[k := Rest] ! i \<noteq> Holds" using False k assms(3) s by (cases "i = k") auto
      ultimately show ?thesis
        using free[of "pcs[k := Rest]"] assms(3) s by (auto intro: converse_rtranclp_into_rtranclp)
    qed
  qed
qed

text \<open>
  C34. The lock of thread-os, on a platform whose \<open>atomic_xchg\<close> exchanges. Wherever the tasks are
  preempted, at most one of them is between \<open>lock\<close> and \<open>unlock\<close>, \<open>locked\<close> is 1 exactly then, and from every
  state each task can still get the lock. (The stubs of the npc and ysyxSoC platforms return 0 without
  exchanging; there \<open>mpe_init\<close> fails before any task runs.)
\<close>

theorem thread_os_lock:
  assumes "lock_step\<^sup>*\<^sup>* (0, replicate n Spin) (locked, pcs)"
  shows "locked = int (length (filter (\<lambda>pc. pc = Holds) pcs)) \<and> locked \<le> 1 \<and>
    (\<forall>i < n. \<exists>s'. lock_step\<^sup>*\<^sup>* (locked, pcs) s' \<and> snd s' ! i = Holds)"
proof -
  have "holders pcs = length (filter (\<lambda>pc. pc = Holds) pcs)"
    by (induction pcs) (auto simp: holders_def)
  then show ?thesis using lock_inv[OF assms] can_enter[of "(locked, pcs)"] by simp
qed

theorem thread_os_lock_witness:
  "\<exists>s'. lock_step\<^sup>*\<^sup>* (1, [Spin, Holds]) s' \<and> snd s' ! 0 = Holds"
proof -
  have "lock_step (0, replicate 2 Spin) (1, [Spin, Holds])"
    using lock_step.enter[of 1 "replicate 2 Spin" 0] by (simp add: numeral_2_eq_2)
  from thread_os_lock[OF r_into_rtranclp[of lock_step, OF this]] show ?thesis by (metis zero_less_numeral)
qed

end
