(* ===== verification/Snake.thy ===== *)
theory Snake
  imports Soc KString "HOL-Library.Signed_Division"
begin

text \<open>
  \<open>am-kernels/kernels/snake/snake.c\<close>: the game on the abstract machine, with the body of the snake in a
  ring of 100 points. The abstract game is a list of points; the ring follows it as long as the list
  fits. The waiting between two frames and the final text are left out.
\<close>

section \<open>The game\<close>

abbreviation (input) MAX_LENGTH :: int where "MAX_LENGTH \<equiv> 100"
abbreviation (input) TILE_W :: int where "TILE_W \<equiv> 8"

datatype dir_t = NONE | UP | DOWN | LEFT | RIGHT

type_synonym point_t = "int \<times> int"

record dim_t =
  dim_width :: int
  dim_height :: int

record rect_t =
  rect_top :: int
  rect_bottom :: int
  rect_left :: int
  rect_right :: int

record snake_t =
  body :: "point_t list"
  snake_len :: int
  snake_index :: int
  dead :: bool

text \<open>A write to AM_GPU_FBDRAW: position, pixels, size and sync.\<close>

datatype snake_draw = Fbdraw int int "u32 list" int int bool

text \<open>The variables of \<open>main\<close>, the buffer of \<open>draw_tile\<close>, the state of \<open>rand\<close> and what was drawn.\<close>

record snake_game =
  sg_snake :: snake_t
  sg_dir :: dir_t
  sg_food :: point_t
  sg_buf :: "u32 list"
  sg_rand :: u32
  sg_out :: "snake_draw list"

definition snake_refresh :: "snake_game \<Rightarrow> snake_game" where
  "snake_refresh g = g\<lparr>sg_out := sg_out g @ [Fbdraw 0 0 [] 0 0 True]\<rparr>"

definition draw_tile :: "int \<Rightarrow> int \<Rightarrow> u32 \<Rightarrow> snake_game \<Rightarrow> snake_game" where
  "draw_tile y x color g =
     (let buf = (if 0xffffffff \<noteq> color then replicate 64 color else sg_buf g)
      in g\<lparr>sg_buf := buf, sg_out := sg_out g @ [Fbdraw (x * TILE_W) (y * TILE_W) buf TILE_W TILE_W False]\<rparr>)"

text \<open>The events the keyboard still holds; after the last one a read gives AM_KEY_NONE.\<close>

fun read_key :: "(bool \<times> int) list \<Rightarrow> int \<times> (bool \<times> int) list" where
  "read_key [] = (am_keycode ''NONE'', [])"
| "read_key ((keydown, keycode) # evs) = (if keydown \<or> keycode = am_keycode ''NONE'' then (keycode, evs) else read_key evs)"

definition create_food :: "dim_t \<Rightarrow> snake_game \<Rightarrow> (point_t \<times> snake_game) res" where
  "create_food game_size g =
     guardR (dim_width game_size \<noteq> 0 \<and> dim_height game_size \<noteq> 0) (Undef ''division'')
       (case klib_rand (sg_rand g) of (v, n) \<Rightarrow> case klib_rand n of (v', n') \<Rightarrow>
          Inr ((sint v smod dim_width game_size, sint v' smod dim_height game_size), g\<lparr>sg_rand := n'\<rparr>))"

definition print_board :: "rect_t \<Rightarrow> snake_game \<Rightarrow> snake_game" where
  "print_board board g =
     foldl (\<lambda>g i. draw_tile i (rect_right board) 0x0000ff00 (draw_tile i (rect_left board) 0x0000ff00 g))
       (foldl (\<lambda>g i. draw_tile (rect_bottom board) i 0x0000ff00 (draw_tile (rect_top board) i 0x0000ff00 g)) g
         [rect_left board..rect_right board])
       [rect_top board..rect_bottom board]"

definition print_food :: "point_t \<Rightarrow> rect_t \<Rightarrow> snake_game \<Rightarrow> snake_game" where
  "print_food food board = draw_tile (snd food + rect_top board + 1) (fst food + rect_left board + 1) 0x000000ff"

definition body_at :: "snake_t \<Rightarrow> int \<Rightarrow> point_t res" where
  "body_at sn j = guardR (0 \<le> j \<and> j < MAX_LENGTH) (Undef ''body'') (Inr (body sn ! nat j))"

definition print_head :: "rect_t \<Rightarrow> snake_game \<Rightarrow> snake_game res" where
  "print_head board g =
     bindR (body_at (sg_snake g) (snake_index (sg_snake g))) (\<lambda>p.
       Inr (draw_tile (snd p + rect_top board + 1) (fst p + rect_left board + 1) 0x00ff0000 g))"

definition clear_tail :: "rect_t \<Rightarrow> snake_game \<Rightarrow> snake_game res" where
  "clear_tail board g =
     (let t = snake_index (sg_snake g) - snake_len (sg_snake g); t = (if t < 0 then t + MAX_LENGTH else t)
      in bindR (body_at (sg_snake g) t) (\<lambda>p.
           Inr (draw_tile (snd p + rect_top board + 1) (fst p + rect_left board + 1) 0 g)))"

definition get_dir :: "int \<Rightarrow> dir_t" where
  "get_dir c =
     (if c = am_keycode ''LEFT'' then LEFT else if c = am_keycode ''UP'' then UP
      else if c = am_keycode ''RIGHT'' then RIGHT else if c = am_keycode ''DOWN'' then DOWN else NONE)"

text \<open>The switch in \<open>move_snake\<close>, and the one of \<open>main\<close> that refuses to turn back.\<close>

fun shift_point :: "dir_t \<Rightarrow> point_t \<Rightarrow> point_t" where
  "shift_point LEFT (x, y) = (x - 1, y)"
| "shift_point DOWN (x, y) = (x, y + 1)"
| "shift_point RIGHT (x, y) = (x + 1, y)"
| "shift_point UP (x, y) = (x, y - 1)"
| "shift_point NONE (x, y) = (x, y)"

definition turn :: "dir_t \<Rightarrow> dir_t \<Rightarrow> dir_t" where
  "turn dir move_dir =
     (case move_dir of
        UP \<Rightarrow> if dir \<noteq> DOWN then move_dir else dir
      | DOWN \<Rightarrow> if dir \<noteq> UP then move_dir else dir
      | LEFT \<Rightarrow> if dir \<noteq> RIGHT then move_dir else dir
      | RIGHT \<Rightarrow> if dir \<noteq> LEFT then move_dir else dir
      | NONE \<Rightarrow> dir)"

definition move_snake :: "dir_t \<Rightarrow> snake_t \<Rightarrow> snake_t res" where
  "move_snake dir sn =
     bindR (body_at sn (snake_index sn)) (\<lambda>p.
       let idx = snake_index sn + 1; idx = (if idx = MAX_LENGTH then 0 else idx)
       in guardR (0 \<le> idx \<and> idx < MAX_LENGTH) (Undef ''body'')
            (Inr (sn\<lparr>snake_index := idx, body := (body sn)[nat idx := shift_point dir p]\<rparr>)))"

fun dead_loop :: "snake_t \<Rightarrow> point_t \<Rightarrow> int list \<Rightarrow> bool res" where
  "dead_loop sn head [] = Inr False"
| "dead_loop sn head (i # is) =
     (let j = snake_index sn - i; j = (if j < 0 then j + MAX_LENGTH else j)
      in bindR (body_at sn j) (\<lambda>p. if fst head = fst p \<and> snd head = snd p then Inr True else dead_loop sn head is))"

text \<open>The loop runs from 1 to the length; the length is at least 2 here.\<close>

definition is_dead :: "dim_t \<Rightarrow> snake_t \<Rightarrow> bool res" where
  "is_dead game_size sn =
     bindR (body_at sn (snake_index sn)) (\<lambda>head.
       if fst head = -1 then Inr True
       else if fst head = dim_width game_size then Inr True
       else if snd head = -1 then Inr True
       else if snd head = dim_height game_size then Inr True
       else dead_loop sn head [1..snake_len sn - 1])"

definition has_food :: "point_t \<Rightarrow> snake_t \<Rightarrow> bool res" where
  "has_food food sn =
     bindR (body_at sn (snake_index sn)) (\<lambda>p. Inr (fst p = fst food \<and> snd p = snd food))"

text \<open>The body of the loop of \<open>main\<close>, with the key it reads.\<close>

definition snake_frame :: "dim_t \<Rightarrow> rect_t \<Rightarrow> int \<Rightarrow> snake_game \<Rightarrow> snake_game res" where
  "snake_frame game_size board key g =
     bindR (print_head board g) (\<lambda>g1.
     bindR (clear_tail board g1) (\<lambda>g2.
       let dir = turn (sg_dir g2) (get_dir key) in
       bindR (move_snake dir (sg_snake g2)) (\<lambda>sn.
       bindR (is_dead game_size sn) (\<lambda>d.
       bindR (has_food (sg_food g2) sn) (\<lambda>eats.
         let g3 = g2\<lparr>sg_dir := dir, sg_snake := sn\<lparr>dead := d\<rparr>\<rparr> in
         bindR (if eats
                then bindR (create_food game_size g3) (\<lambda>(food, g4).
                  Inr (print_food food board
                    (g4\<lparr>sg_food := food, sg_snake := (sg_snake g4)\<lparr>snake_len := snake_len (sg_snake g4) + 1\<rparr>\<rparr>)))
                else Inr g3) (\<lambda>g5. Inr (snake_refresh g5)))))))"

fun snake_loop :: "dim_t \<Rightarrow> rect_t \<Rightarrow> int list \<Rightarrow> snake_game \<Rightarrow> snake_game res" where
  "snake_loop game_size board [] g = Inr g"
| "snake_loop game_size board (key # keys) g =
     bindR (snake_frame game_size board key g) (\<lambda>g'.
       if dead (sg_snake g') then Inr g' else snake_loop game_size board keys g')"

definition snake_screen :: "int \<Rightarrow> int \<Rightarrow> dim_t \<times> rect_t" where
  "snake_screen gpu_width gpu_height =
     (let w = gpu_width sdiv TILE_W; h = gpu_height sdiv TILE_W;
          gw = w - 2; gh = h - 2;
          l = w sdiv 2 - gw sdiv 2 - 1; t = h sdiv 2 - gh sdiv 2 - 1
      in (\<lparr>dim_width = gw, dim_height = gh\<rparr>,
          \<lparr>rect_top = t, rect_bottom = t + gh + 1, rect_left = l, rect_right = l + gw + 1\<rparr>))"

text \<open>\<open>main\<close> up to its loop: the first food is drawn from \<open>rand\<close>.\<close>

definition snake_start :: "int \<Rightarrow> int \<Rightarrow> u32 \<Rightarrow> u32 list \<Rightarrow> snake_game res" where
  "snake_start gpu_width gpu_height seed buf =
     (case snake_screen gpu_width gpu_height of (game_size, board) \<Rightarrow>
        let x = dim_width game_size sdiv 2; y = dim_height game_size sdiv 2;
            g = \<lparr>sg_snake = \<lparr>body = [(x, y), (x, y + 1)] @ replicate 98 (0, 0), snake_len = 2, snake_index = 1, dead = False\<rparr>,
                 sg_dir = RIGHT, sg_food = (0, 0), sg_buf = buf, sg_rand = seed, sg_out = []\<rparr>
        in bindR (create_food game_size (print_board board g)) (\<lambda>(food, g1).
             Inr (print_food food board (g1\<lparr>sg_food := food\<rparr>))))"

end
