(* ===== verification/SnakeProps.thy ===== *)
theory SnakeProps
  imports Snake
begin

text \<open>
  The snake game against a game on lists: the points of the snake, head first, and what a frame does to
  them. The ring implements it while the list has at most as many points as the ring has places.
\<close>

section \<open>The game on lists\<close>

record list_game =
  points :: "point_t list"
  lg_dir :: dir_t
  lg_food :: point_t
  lg_rand :: u32
  lg_over :: bool

definition on_board :: "dim_t \<Rightarrow> point_t \<Rightarrow> bool" where
  "on_board gs p \<longleftrightarrow> 0 \<le> fst p \<and> fst p < dim_width gs \<and> 0 \<le> snd p \<and> snd p < dim_height gs"

text \<open>The last point moves away before the head arrives: only the others can be bitten.\<close>

definition list_frame :: "dim_t \<Rightarrow> int \<Rightarrow> list_game \<Rightarrow> list_game" where
  "list_frame gs key a =
     (let dir = turn (lg_dir a) (get_dir key);
          head = shift_point dir (hd (points a));
          over = (\<not> on_board gs head \<or> head \<in> set (butlast (points a)))
      in if head = lg_food a
         then (case klib_rand (lg_rand a) of (v, n) \<Rightarrow> case klib_rand n of (v', n') \<Rightarrow>
                 \<lparr>points = head # points a, lg_dir = dir,
                  lg_food = (sint v mod dim_width gs, sint v' mod dim_height gs), lg_rand = n', lg_over = over\<rparr>)
         else \<lparr>points = head # butlast (points a), lg_dir = dir, lg_food = lg_food a, lg_rand = lg_rand a, lg_over = over\<rparr>)"

fun list_loop :: "dim_t \<Rightarrow> int list \<Rightarrow> list_game \<Rightarrow> list_game" where
  "list_loop gs [] a = a"
| "list_loop gs (key # keys) a =
     (let a' = list_frame gs key a in if lg_over a' then a' else list_loop gs keys a')"

section \<open>The ring\<close>

definition slot :: "snake_t \<Rightarrow> int \<Rightarrow> point_t" where
  "slot sn i = body sn ! nat ((snake_index sn - i) mod MAX_LENGTH)"

definition segment :: "snake_t \<Rightarrow> nat \<Rightarrow> point_t list" where
  "segment sn n = map (\<lambda>i. slot sn (int i)) [0..<n]"

definition ring_ok :: "snake_t \<Rightarrow> bool" where
  "ring_ok sn \<longleftrightarrow> length (body sn) = 100 \<and> 0 \<le> snake_index sn \<and> snake_index sn < MAX_LENGTH"

lemma body_at_slot:
  assumes "ring_ok sn" "0 \<le> i" "i \<le> MAX_LENGTH"
  shows "body_at sn (if snake_index sn - i < 0 then snake_index sn - i + MAX_LENGTH else snake_index sn - i) = Inr (slot sn i)"
proof -
  have "(if snake_index sn - i < 0 then snake_index sn - i + MAX_LENGTH else snake_index sn - i) = (snake_index sn - i) mod MAX_LENGTH"
  proof (cases "snake_index sn - i < 0")
    case True
    have "(snake_index sn - i + MAX_LENGTH) mod MAX_LENGTH = snake_index sn - i + MAX_LENGTH"
      using assms True by (intro mod_pos_pos_trivial) (auto simp: ring_ok_def)
    then show ?thesis using True by simp
  next
    case False
    then show ?thesis using assms by (simp add: ring_ok_def mod_pos_pos_trivial)
  qed
  then show ?thesis by (simp add: body_at_def slot_def)
qed

lemma body_at_head: "ring_ok sn \<Longrightarrow> body_at sn (snake_index sn) = Inr (slot sn 0)"
  using body_at_slot[of sn 0] by (simp add: ring_ok_def)

lemma dead_loop_slots:
  "ring_ok sn \<Longrightarrow> \<forall>i \<in> set is. 0 \<le> i \<and> i \<le> MAX_LENGTH \<Longrightarrow> dead_loop sn head is = Inr (head \<in> set (map (slot sn) is))"
proof (induction "is")
  case (Cons i "is")
  then show ?case
    using body_at_slot[of sn i] by (auto simp: Let_def prod_eq_iff)
qed simp

lemma move_snake_ring:
  assumes "ring_ok sn"
  shows "\<exists>sn'. move_snake dir sn = Inr sn' \<and> ring_ok sn' \<and> snake_len sn' = snake_len sn \<and>
    (\<forall>m \<le> 99. segment sn' (Suc m) = shift_point dir (slot sn 0) # segment sn m)"
proof -
  let ?h = "shift_point dir (slot sn 0)"
  define idx where "idx = (snake_index sn + 1) mod MAX_LENGTH"
  define sn' where "sn' = sn\<lparr>snake_index := idx, body := (body sn)[nat idx := ?h]\<rparr>"
  have idx: "(if snake_index sn + 1 = MAX_LENGTH then 0 else snake_index sn + 1) = idx" "0 \<le> idx" "idx < MAX_LENGTH"
    using assms by (auto simp: ring_ok_def idx_def mod_pos_pos_trivial)
  have move: "move_snake dir sn = Inr sn'"
    using body_at_head[OF assms] idx unfolding move_snake_def Let_def sn'_def by simp
  have ok: "ring_ok sn'" using assms idx by (simp add: ring_ok_def sn'_def)
  have "slot sn' 0 = ?h"
    using idx assms by (simp add: slot_def sn'_def ring_ok_def mod_pos_pos_trivial nat_less_iff)
  moreover have "slot sn' (int (Suc i)) = slot sn (int i)" if "i < 99" for i
  proof -
    have a: "(idx - int (Suc i)) mod MAX_LENGTH = (snake_index sn - int i) mod MAX_LENGTH"
      unfolding idx_def mod_diff_left_eq by simp
    have "(idx - int (Suc i)) mod MAX_LENGTH \<noteq> idx"
    proof
      assume "(idx - int (Suc i)) mod MAX_LENGTH = idx"
      then have "(idx - int (Suc i)) mod MAX_LENGTH = idx mod MAX_LENGTH" using idx by simp
      then have "MAX_LENGTH dvd int (Suc i)"
        unfolding mod_eq_dvd_iff using dvd_minus_iff[of MAX_LENGTH "1 + int i"] by simp
      then show False using that zdvd_imp_le[of 100 "int (Suc i)"] by simp
    qed
    then have "nat idx \<noteq> nat ((idx - int (Suc i)) mod MAX_LENGTH)"
      using idx(2) by (metis eq_nat_nat_iff pos_mod_sign zero_less_numeral)
    then have "(body sn)[nat idx := ?h] ! nat ((idx - int (Suc i)) mod MAX_LENGTH) = body sn ! nat ((idx - int (Suc i)) mod MAX_LENGTH)"
      by (rule nth_list_update_neq)
    then show ?thesis unfolding slot_def sn'_def by (simp add: a del: of_nat_Suc)
  qed
  ultimately have "segment sn' (Suc m) = ?h # segment sn m" if "m \<le> 99" for m
    using that unfolding segment_def by (subst upt_conv_Cons) (auto simp: map_Suc_upt[symmetric] simp del: upt_Suc)
  then show ?thesis using move ok by (intro exI[of _ sn']) (simp add: sn'_def)
qed


lemma klib_rand_nonneg: "0 \<le> sint (fst (klib_rand n))"
proof -
  have "(n * 1103515245 + 12345) div 65536 mod 32768 = take_bit 15 ((n * 1103515245 + 12345) div 65536)"
    by (simp add: take_bit_eq_mod)
  moreover have "0 \<le> sint (take_bit 15 w :: u32)" for w
    using bit_last_iff[of "take_bit 15 w"] by (simp add: bit_simps)
  ultimately show ?thesis by (simp add: klib_rand_def Let_def)
qed

lemma create_food_mod:
  assumes "0 < dim_width gs" "0 < dim_height gs"
  shows "create_food gs g = (case klib_rand (sg_rand g) of (v, n) \<Rightarrow> case klib_rand n of (v', n') \<Rightarrow>
    Inr ((sint v mod dim_width gs, sint v' mod dim_height gs), g\<lparr>sg_rand := n'\<rparr>))"
proof -
  have "sint v smod w = sint v mod w" if "0 \<le> sint v" "0 < w" for v :: u32 and w
    using that by (cases "sint v = 0") (auto simp: signed_modulo_int_def sgn_if)
  then show ?thesis
    using assms klib_rand_nonneg[of "sg_rand g"] klib_rand_nonneg[of "snd (klib_rand (sg_rand g))"]
    by (cases "klib_rand (sg_rand g)"; cases "klib_rand (snd (klib_rand (sg_rand g)))") (simp add: create_food_def)
qed

lemma ring_update [simp]:
  "segment (sn\<lparr>dead := d\<rparr>) n = segment sn n" "segment (sn\<lparr>snake_len := l\<rparr>) n = segment sn n"
  "ring_ok (sn\<lparr>dead := d\<rparr>) = ring_ok sn" "ring_ok (sn\<lparr>snake_len := l\<rparr>) = ring_ok sn"
  by (simp_all add: segment_def slot_def ring_ok_def)

definition game_rel :: "dim_t \<Rightarrow> snake_game \<Rightarrow> list_game \<Rightarrow> bool" where
  "game_rel gs g a \<longleftrightarrow> ring_ok (sg_snake g) \<and> 2 \<le> length (points a) \<and> length (points a) \<le> 100 \<and>
     snake_len (sg_snake g) = int (length (points a)) \<and> segment (sg_snake g) (length (points a)) = points a \<and>
     sg_dir g = lg_dir a \<and> sg_food g = lg_food a \<and> sg_rand g = lg_rand a"

lemma edges:
  assumes "on_board gs p"
  shows "(fst (shift_point d p) = -1 \<or> fst (shift_point d p) = dim_width gs \<or> snd (shift_point d p) = -1 \<or>
    snd (shift_point d p) = dim_height gs) = (\<not> on_board gs (shift_point d p))"
  using assms by (cases p; cases d) (auto simp: on_board_def)

lemma segment_nth: "i < n \<Longrightarrow> segment sn n ! i = slot sn (int i)"
  by (simp add: segment_def)

lemma is_dead_ring:
  assumes "ring_ok sn" "snake_len sn = int (Suc m)" "m \<le> 99" "on_board gs p" "slot sn 0 = shift_point d p"
  shows "is_dead gs sn = Inr (\<not> on_board gs (slot sn 0) \<or> slot sn 0 \<in> set (tl (segment sn (Suc m))))"
proof -
  have "map (slot sn) [1..snake_len sn - 1] = tl (segment sn (Suc m))"
    unfolding segment_def using assms(2) by (auto intro!: nth_equalityI simp: nth_tl simp del: upt_Suc)
  moreover have "dead_loop sn (slot sn 0) [1..snake_len sn - 1] = Inr (slot sn 0 \<in> set (map (slot sn) [1..snake_len sn - 1]))"
    using assms(2,3) by (intro dead_loop_slots[OF assms(1)]) auto
  ultimately show ?thesis
    using edges[OF assms(4), of d] unfolding is_dead_def body_at_head[OF assms(1)] assms(5) by auto
qed

lemma snake_frame_refines:
  assumes rel: "game_rel gs g a" and dims: "0 < dim_width gs" "0 < dim_height gs" and board: "on_board gs (hd (points a))"
  shows "\<exists>g'. snake_frame gs r key g = Inr g' \<and> dead (sg_snake g') = lg_over (list_frame gs key a) \<and>
    (length (points (list_frame gs key a)) \<le> 100 \<longrightarrow> game_rel gs g' (list_frame gs key a))"
proof -
  let ?sn = "sg_snake g" and ?d = "turn (lg_dir a) (get_dir key)"
  obtain m where m: "length (points a) = Suc m" "1 \<le> m" "m \<le> 99" using rel by (cases "length (points a)") (auto simp: game_rel_def)
  have ok: "ring_ok ?sn" and len: "snake_len ?sn = int (Suc m)" and seg: "segment ?sn (Suc m) = points a"
    using rel m by (auto simp: game_rel_def)
  have hd: "hd (points a) = slot ?sn 0" unfolding seg[symmetric] by (simp add: segment_def hd_map upt_conv_Cons del: upt_Suc)
  have bl: "segment ?sn m = butlast (points a)" unfolding seg[symmetric] by (simp add: segment_def)
  define head where "head = shift_point ?d (hd (points a))"
  obtain sn' where sn': "move_snake ?d ?sn = Inr sn'" "ring_ok sn'" "snake_len sn' = int (Suc m)"
      "\<forall>k \<le> 99. segment sn' (Suc k) = head # segment ?sn k"
    using move_snake_ring[OF ok, of ?d] len hd by (auto simp: head_def)
  have s0: "slot sn' 0 = head" using sn'(4) segment_nth[of 0 "Suc 0" sn'] by force
  have d: "is_dead gs sn' = Inr (\<not> on_board gs head \<or> head \<in> set (butlast (points a)))"
    using is_dead_ring[OF sn'(2,3) m(3) board, of ?d] sn'(4) m(3) s0 bl by (simp add: head_def)
  have print: "\<exists>g1. print_head r g = Inr g1 \<and> sg_snake g1 = ?sn \<and> sg_dir g1 = sg_dir g \<and> sg_food g1 = sg_food g \<and> sg_rand g1 = sg_rand g"
    unfolding print_head_def body_at_head[OF ok] by (simp add: draw_tile_def Let_def)
  have clear: "\<exists>g2. clear_tail r g1 = Inr g2 \<and> sg_snake g2 = ?sn \<and> sg_dir g2 = sg_dir g1 \<and> sg_food g2 = sg_food g1 \<and> sg_rand g2 = sg_rand g1"
    if "sg_snake g1 = ?sn" for g1
    using body_at_slot[OF ok, of "int (Suc m)"] m(3) unfolding clear_tail_def that len Let_def by (simp add: draw_tile_def Let_def that)
  obtain g1 g2 where g2: "print_head r g = Inr g1" "clear_tail r g1 = Inr g2" "sg_snake g2 = ?sn" "sg_dir g2 = lg_dir a"
      "sg_food g2 = lg_food a" "sg_rand g2 = lg_rand a"
    using print clear rel unfolding game_rel_def by metis
  have food: "has_food (sg_food g2) sn' = Inr (head = lg_food a)"
    unfolding has_food_def body_at_head[OF sn'(2)] s0 g2(5) by (simp add: prod_eq_iff)
  show ?thesis
  proof (cases "head = lg_food a")
    case True
    show ?thesis
      using sn' g2 d food True m dims seg
      by (cases "klib_rand (lg_rand a)"; cases "klib_rand (snd (klib_rand (lg_rand a)))")
        (auto simp: snake_frame_def list_frame_def Let_def head_def[symmetric] create_food_mod game_rel_def print_food_def
          draw_tile_def snake_refresh_def)
  next
    case False
    show ?thesis
      using sn' g2 d food False m bl
      by (auto simp: snake_frame_def list_frame_def Let_def head_def[symmetric] game_rel_def snake_refresh_def)
  qed
qed


lemma list_frame_points:
  assumes "2 \<le> length (points a)"
  shows "length (points a) \<le> length (points (list_frame gs key a)) \<and> 2 \<le> length (points (list_frame gs key a))"
    and "\<forall>p \<in> set (points a). on_board gs p \<Longrightarrow> \<not> lg_over (list_frame gs key a) \<Longrightarrow>
      \<forall>p \<in> set (points (list_frame gs key a)). on_board gs p"
proof -
  show "length (points a) \<le> length (points (list_frame gs key a)) \<and> 2 \<le> length (points (list_frame gs key a))"
    using assms by (auto simp: list_frame_def Let_def split: prod.split)
  show "\<forall>p \<in> set (points a). on_board gs p \<Longrightarrow> \<not> lg_over (list_frame gs key a) \<Longrightarrow>
      \<forall>p \<in> set (points (list_frame gs key a)). on_board gs p"
    using in_set_butlastD[of _ "points a"]
    by (cases "klib_rand (lg_rand a)"; cases "klib_rand (snd (klib_rand (lg_rand a)))") (auto simp: list_frame_def Let_def)
qed

lemma list_loop_length: "2 \<le> length (points a) \<Longrightarrow> length (points a) \<le> length (points (list_loop gs keys a))"
proof (induction keys arbitrary: a)
  case (Cons key keys)
  show ?case using Cons.IH[of "list_frame gs key a"] list_frame_points(1)[OF Cons.prems, of gs key] by (auto simp: Let_def)
qed simp

lemma snake_loop_refines:
  assumes "game_rel gs g a" "0 < dim_width gs" "0 < dim_height gs" "\<forall>p \<in> set (points a). on_board gs p"
    "dead (sg_snake g) = lg_over a" "\<not> lg_over a" "length (points (list_loop gs keys a)) \<le> 100"
  shows "\<exists>g'. snake_loop gs r keys g = Inr g' \<and> game_rel gs g' (list_loop gs keys a) \<and>
    dead (sg_snake g') = lg_over (list_loop gs keys a) \<and>
    (\<not> lg_over (list_loop gs keys a) \<longrightarrow> (\<forall>p \<in> set (points (list_loop gs keys a)). on_board gs p))"
  using assms
proof (induction keys arbitrary: g a)
  case (Cons key keys)
  let ?a = "list_frame gs key a"
  have two: "2 \<le> length (points a)" using Cons.prems(1) by (simp add: game_rel_def)
  then have "on_board gs (hd (points a))" using Cons.prems(4) by (cases "points a") auto
  then obtain g1 where g1: "snake_frame gs r key g = Inr g1" "dead (sg_snake g1) = lg_over ?a"
      "length (points ?a) \<le> 100 \<longrightarrow> game_rel gs g1 ?a"
    using snake_frame_refines[OF Cons.prems(1-3)] by blast
  have "length (points ?a) \<le> length (points (list_loop gs (key # keys) a))"
    using list_loop_length[OF conjunct2[OF list_frame_points(1)[OF two]], of gs key gs keys] by (simp add: Let_def)
  then have rel: "game_rel gs g1 ?a" using g1(3) Cons.prems(7) by simp
  show ?case
  proof (cases "lg_over ?a")
    case True
    then show ?thesis using g1 rel by (simp add: Let_def)
  next
    case False
    have "length (points (list_loop gs keys ?a)) \<le> 100" using Cons.prems(7) False by (simp add: Let_def)
    from Cons.IH[OF rel Cons.prems(2,3) list_frame_points(2)[OF two Cons.prems(4) False] g1(2) False this]
    show ?thesis using g1(1,2) False by (simp add: Let_def)
  qed
qed auto

lemma draw_tile_frame [simp]:
  "sg_snake (draw_tile y x c g) = sg_snake g" "sg_dir (draw_tile y x c g) = sg_dir g"
  "sg_food (draw_tile y x c g) = sg_food g" "sg_rand (draw_tile y x c g) = sg_rand g"
  by (simp_all add: draw_tile_def Let_def)

lemma foldl_frame: "(\<And>g i. p (f g i) = p g) \<Longrightarrow> p (foldl f g is) = p g"
  by (induction "is" arbitrary: g) simp_all

lemma print_board_frame:
  "sg_snake (print_board b g) = sg_snake g" "sg_dir (print_board b g) = sg_dir g" "sg_rand (print_board b g) = sg_rand g"
  unfolding print_board_def by (simp_all add: foldl_frame)

definition list_start :: "dim_t \<Rightarrow> u32 \<Rightarrow> list_game" where
  "list_start gs seed =
     (let x = dim_width gs div 2; y = dim_height gs div 2 in
      case klib_rand seed of (v, n) \<Rightarrow> case klib_rand n of (v', n') \<Rightarrow>
        \<lparr>points = [(x, y + 1), (x, y)], lg_dir = RIGHT, lg_food = (sint v mod dim_width gs, sint v' mod dim_height gs),
         lg_rand = n', lg_over = False\<rparr>)"

text \<open>
  C10. The snake game is the game on lists. On a screen whose board is at least one tile wide and three
  high, for every seed of \<open>rand\<close> and every sequence of keys: while the snake has at most 100 points, no
  access leaves the ring; the game is over exactly when the head leaves the board or meets a point of
  the snake other than the tail that just moves away; the ring holds the points of the list, head
  first; length, direction and food agree; and a living snake is on the board.
\<close>

theorem snake_refines_list:
  assumes "snake_screen gpu_width gpu_height = (gs, board)" and "1 \<le> dim_width gs" and "3 \<le> dim_height gs"
    and "a = list_loop gs keys (list_start gs seed)" and "length (points a) \<le> 100"
  shows "\<exists>g0 g. snake_start gpu_width gpu_height seed buf = Inr g0 \<and> snake_loop gs board keys g0 = Inr g \<and>
    dead (sg_snake g) = lg_over a \<and> snake_len (sg_snake g) = int (length (points a)) \<and>
    segment (sg_snake g) (length (points a)) = points a \<and> sg_dir g = lg_dir a \<and> sg_food g = lg_food a \<and>
    (\<not> lg_over a \<longrightarrow> (\<forall>p \<in> set (points a). on_board gs p))"
proof -
  have dims: "0 < dim_width gs" "0 < dim_height gs" using assms(2,3) by simp_all
  have half: "dim_width gs sdiv 2 = dim_width gs div 2" "dim_height gs sdiv 2 = dim_height gs div 2"
    using dims by (simp_all add: signed_divide_int_def)
  obtain g0 where g0: "snake_start gpu_width gpu_height seed buf = Inr g0" "game_rel gs g0 (list_start gs seed)" "\<not> dead (sg_snake g0)"
    using dims half
    by (cases "klib_rand seed"; cases "klib_rand (snd (klib_rand seed))")
      (auto simp: snake_start_def assms(1) Let_def create_food_mod game_rel_def list_start_def print_food_def print_board_frame ring_ok_def
        segment_def slot_def upt_rec)
  have "\<forall>p \<in> set (points (list_start gs seed)). on_board gs p"
    using assms(2,3) by (auto simp: list_start_def Let_def on_board_def split: prod.split)
  moreover have "\<not> lg_over (list_start gs seed)" by (simp add: list_start_def Let_def split: prod.split)
  ultimately show ?thesis
    using snake_loop_refines[OF g0(2) dims, of keys board] g0 assms(4,5) by (auto simp: game_rel_def)
qed

theorem snake_refines_list_witness:
  "\<exists>g0 g. snake_start 400 300 1 [] = Inr g0 \<and> snake_loop (fst (snake_screen 400 300)) (snd (snake_screen 400 300)) [0, am_keycode ''DOWN''] g0 = Inr g \<and>
    \<not> dead (sg_snake g) \<and> segment (sg_snake g) 2 = [(25, 19), (25, 18)]"
proof -
  let ?gs = "\<lparr>dim_width = 48, dim_height = 35\<rparr>"
  have screen: "snake_screen 400 300 = (?gs, snd (snake_screen 400 300))"
    by (simp add: snake_screen_def Let_def signed_divide_int_def)
  have keys: "get_dir 0 = NONE" "get_dir (am_keycode ''DOWN'') = DOWN"
    by code_simp+
  have a: "points (list_loop ?gs [0, am_keycode ''DOWN''] (list_start ?gs 1)) = [(25, 19), (25, 18)]"
    "\<not> lg_over (list_loop ?gs [0, am_keycode ''DOWN''] (list_start ?gs 1))"
    by (simp_all add: list_start_def Let_def klib_rand_def list_frame_def keys turn_def on_board_def)
  have gs: "fst (snake_screen 400 300) = ?gs" by (subst screen) (rule fst_conv)
  from snake_refines_list[OF screen _ _ refl, of "[0, am_keycode ''DOWN'']" 1 "[]"] a
  show ?thesis unfolding gs by (auto simp: numeral_2_eq_2 simp del: snake_loop.simps list_loop.simps)
qed

text \<open>
  C35. The ring of the snake is one place too small for its own check. A snake of 101 points does not
  survive its next frame on any board: where the ring is about to wrap, the tail to clear is read in
  front of the array; otherwise the search for a bite comes back to the head and ends the game.
\<close>

theorem snake_ring_full:
  assumes "ring_ok (sg_snake g)" and "snake_len (sg_snake g) = 101" and "0 < dim_width gs" and "0 < dim_height gs"
  shows "if snake_index (sg_snake g) = 0 then snake_frame gs board key g = Inl (Undef ''body'')
    else \<exists>g'. snake_frame gs board key g = Inr g' \<and> dead (sg_snake g')"
proof -
  let ?sn = "sg_snake g" and ?d = "turn (sg_dir g) (get_dir key)"
  define g1 where "g1 = draw_tile (snd (slot ?sn 0) + rect_top board + 1) (fst (slot ?sn 0) + rect_left board + 1) 0x00ff0000 g"
  have g1: "print_head board g = Inr g1" "sg_snake g1 = ?sn" "sg_dir g1 = sg_dir g"
    by (simp_all add: print_head_def body_at_head[OF assms(1)] g1_def)
  show ?thesis
  proof (cases "snake_index ?sn = 0")
    case True
    then have "clear_tail board g1 = Inl (Undef ''body'')" using assms(2) by (simp add: clear_tail_def g1 body_at_def)
    then show ?thesis using True g1 by (simp add: snake_frame_def)
  next
    case False
    have "snake_index ?sn - 101 < 0" "0 \<le> snake_index ?sn - 1" "snake_index ?sn - 1 < 100"
      using False assms(1) by (auto simp: ring_ok_def)
    then obtain g2 where g2: "clear_tail board g1 = Inr g2" "sg_snake g2 = ?sn" "sg_dir g2 = sg_dir g"
      using assms(2) by (simp add: clear_tail_def g1 body_at_def Let_def)
    obtain sn' where sn': "move_snake ?d ?sn = Inr sn'" "ring_ok sn'" "snake_len sn' = 101"
      using move_snake_ring[OF assms(1), of ?d] assms(2) by auto
    have "slot sn' 100 = slot sn' 0" by (simp add: slot_def mod_diff_right_eq[of _ 100, symmetric])
    then have "slot sn' 0 \<in> set (map (slot sn') [1..snake_len sn' - 1])"
      using sn'(3) by (simp add: image_iff) (metis atLeastAtMost_iff one_le_numeral order_refl)
    moreover have "dead_loop sn' (slot sn' 0) [1..snake_len sn' - 1] = Inr (slot sn' 0 \<in> set (map (slot sn') [1..snake_len sn' - 1]))"
      using sn'(3) by (intro dead_loop_slots[OF sn'(2)]) auto
    ultimately have d: "is_dead gs sn' = Inr True" by (simp add: is_dead_def body_at_head[OF sn'(2)])
    show ?thesis
      using False g1 g2 sn' d body_at_head[OF sn'(2)] create_food_mod[OF assms(3,4)]
      by (auto simp: snake_frame_def Let_def has_food_def print_food_def snake_refresh_def split: prod.split)
  qed
qed

theorem snake_ring_full_witness:
  "snake_frame \<lparr>dim_width = 48, dim_height = 35\<rparr> \<lparr>rect_top = 0, rect_bottom = 36, rect_left = 0, rect_right = 49\<rparr> 0
    \<lparr>sg_snake = \<lparr>body = replicate 100 (3, 3), snake_len = 101, snake_index = 0, dead = False\<rparr>, sg_dir = UP, sg_food = (0, 0),
     sg_buf = [], sg_rand = 1, sg_out = []\<rparr> = Inl (Undef ''body'')"
  using snake_ring_full[where gs = "\<lparr>dim_width = 48, dim_height = 35\<rparr>" and key = 0
      and board = "\<lparr>rect_top = 0, rect_bottom = 36, rect_left = 0, rect_right = 49\<rparr>"
      and g = "\<lparr>sg_snake = \<lparr>body = replicate 100 (3, 3), snake_len = 101, snake_index = 0, dead = False\<rparr>, sg_dir = UP,
        sg_food = (0, 0), sg_buf = [], sg_rand = 1, sg_out = []\<rparr>"]
  by (simp add: ring_ok_def)

end
