(* ===== verification/GenExpr.thy ===== *)
theory GenExpr
  imports ExprProps
begin

text \<open>
  \<open>nemu/tools/gen-expr/gen-expr.c\<close>, the generator of random test expressions, together with the evaluator
  it tests: what it writes is a C expression, and the debugger gives it the value C gives it. \<open>rand()\<close>
  of the host is a sequence of numbers; the compiler and the files \<open>main\<close> uses are not modelled.
\<close>

section \<open>The generator\<close>

abbreviation (input) BUF_SIZE :: nat where "BUF_SIZE \<equiv> 65536"

text \<open>The text in \<open>buf\<close> and how many numbers \<open>rand\<close> has given. The text is always terminated.\<close>

record gen_state =
  gen_buf :: string
  gen_rands :: nat

definition rand_choose :: "(nat \<Rightarrow> nat) \<Rightarrow> nat \<Rightarrow> gen_state \<Rightarrow> nat \<times> gen_state" where
  "rand_choose rand n g = (rand (gen_rands g) mod n, g\<lparr>gen_rands := gen_rands g + 1\<rparr>)"

text \<open>\<open>sprintf(buf + strlen(buf), ...)\<close>\<close>

definition buf_add :: "string \<Rightarrow> gen_state \<Rightarrow> gen_state res" where
  "buf_add s g = guardR (length (gen_buf g) + length s < BUF_SIZE) (Undef ''buf'') (Inr (g\<lparr>gen_buf := gen_buf g @ s\<rparr>))"

definition dec_char :: "nat \<Rightarrow> char" where
  "dec_char d = char_of (48 + d)"

fun show_u :: "nat \<Rightarrow> string" where
  "show_u n = (if n < 10 then [dec_char n] else show_u (n div 10) @ [dec_char (n mod 10)])"

definition gen_num :: "(nat \<Rightarrow> nat) \<Rightarrow> gen_state \<Rightarrow> gen_state res" where
  "gen_num rand g = (case rand_choose rand 100 g of (n, g1) \<Rightarrow> buf_add (show_u n @ ''u'') g1)"

definition gen :: "char \<Rightarrow> gen_state \<Rightarrow> gen_state res" where
  "gen a g = buf_add [a] g"

definition gen_rand_op :: "(nat \<Rightarrow> nat) \<Rightarrow> gen_state \<Rightarrow> gen_state res" where
  "gen_rand_op rand g =
     (case rand_choose rand 4 g of (n, g1) \<Rightarrow>
        buf_add [if n = 0 then CHR ''+'' else if n = 1 then CHR ''-'' else if n = 2 then CHR ''*'' else CHR ''/''] g1)"

text \<open>Nothing bounds the recursion but the random numbers; a failure ends it.\<close>

definition thenO :: "gen_state res option \<Rightarrow> (gen_state \<Rightarrow> gen_state res option) \<Rightarrow> gen_state res option" where
  "thenO x f = Option.bind x (\<lambda>r. case r of Inl e \<Rightarrow> Some (Inl e) | Inr g \<Rightarrow> f g)"

lemma thenO_mono [partial_function_mono]:
  assumes "option.mono_body f" "\<And>y. option.mono_body (\<lambda>h. k y h)"
  shows "option.mono_body (\<lambda>h. thenO (f h) (\<lambda>y. k y h))"
proof -
  have "option.mono_body (\<lambda>h. case r of Inl e \<Rightarrow> Some (Inl e) | Inr g \<Rightarrow> k g h)" for r :: "gen_state res"
    using assms(2) by (cases r) (auto intro: option.const_mono)
  then show ?thesis unfolding thenO_def using assms(1) by (intro bind_mono)
qed

partial_function (option) gen_rand_expr :: "(nat \<Rightarrow> nat) \<Rightarrow> gen_state \<Rightarrow> gen_state res option" where
  "gen_rand_expr rand g =
     (if length (gen_buf g) < 100 then
        (let r = rand_choose rand 3 g in
         if fst r = 0 then Some (gen_num rand (snd r))
         else if fst r = 1 then
           thenO (Some (gen CHR ''('' (snd r))) (\<lambda>g1.
           thenO (gen_rand_expr rand g1) (\<lambda>g2. Some (gen CHR '')'' g2)))
         else
           thenO (gen_rand_expr rand (snd r)) (\<lambda>g1.
           thenO (Some (gen_rand_op rand g1)) (\<lambda>g2. gen_rand_expr rand g2)))
      else Some (gen_num rand g))"

text \<open>Each \<open>strchr\<close> looks for the next \<open>u\<close>, and the rest is copied over it.\<close>

function remove_u :: "string \<Rightarrow> string" where
  "remove_u q =
     (let k = length (takeWhile (\<lambda>c. c \<noteq> CHR ''u'') q)
      in if k < length q then take k q @ remove_u (drop (k + 1) q) else q)"
  by pat_completeness auto
termination by (relation "measure length") (auto simp: Let_def)

declare remove_u.simps [simp del] show_u.simps [simp del]

section \<open>C expressions\<close>

text \<open>
  The part of C's grammar the generator writes (C11, 6.4.4.1, 6.5.1, 6.5.5 and 6.5.6), with the value
  of each phrase: unsigned constants, parentheses, and the multiplicative and the additive expressions,
  both left associative. Arithmetic is that of \<open>unsigned int\<close>, modulo \<open>2 ^ 32\<close>; a phrase that divides by
  zero, or a constant that needs a wider type, has no value here.
\<close>

definition c_decimal :: "string \<Rightarrow> bool" where
  "c_decimal ds \<longleftrightarrow> ds \<noteq> [] \<and> list_all (\<lambda>d. d \<in> set ''0123456789'') ds \<and> (hd ds = CHR ''0'' \<longrightarrow> ds = ''0'')"

definition c_constant :: "string \<Rightarrow> u32 option" where
  "c_constant ds = (let n = foldl (\<lambda>n d. 10 * n + (of_char d - 48)) (0 :: nat) ds in if n < 2 ^ 32 then Some (of_nat n) else None)"

definition c_op :: "char \<Rightarrow> u32 option \<Rightarrow> u32 option \<Rightarrow> u32 option" where
  "c_op f v w =
     (case (v, w) of
        (Some a, Some b) \<Rightarrow>
          if f = CHR ''+'' then Some (a + b) else if f = CHR ''-'' then Some (a - b)
          else if f = CHR ''*'' then Some (a * b) else if b = 0 then None else Some (a div b)
      | _ \<Rightarrow> None)"

inductive c_primary :: "string \<Rightarrow> u32 option \<Rightarrow> bool"
  and c_multiplicative :: "string \<Rightarrow> u32 option \<Rightarrow> bool"
  and c_additive :: "string \<Rightarrow> u32 option \<Rightarrow> bool"
where
  c_number: "c_decimal ds \<Longrightarrow> c_primary (ds @ ''u'') (c_constant ds)"
| c_paren: "c_additive s v \<Longrightarrow> c_primary (''('' @ s @ '')'') v"
| c_mult_one: "c_primary s v \<Longrightarrow> c_multiplicative s v"
| c_mult_op: "c_multiplicative s v \<Longrightarrow> c_primary t w \<Longrightarrow> f \<in> set ''*/'' \<Longrightarrow> c_multiplicative (s @ [f] @ t) (c_op f v w)"
| c_add_one: "c_multiplicative s v \<Longrightarrow> c_additive s v"
| c_add_op: "c_additive s v \<Longrightarrow> c_multiplicative t w \<Longrightarrow> f \<in> set ''+-'' \<Longrightarrow> c_additive (s @ [f] @ t) (c_op f v w)"

section \<open>What it writes\<close>

text \<open>
  Trees of the four operators whose print has no parentheses but those of \<open>APar\<close>: a text that prints
  such a tree is parsed by C as this tree (\<open>source_derives\<close> and \<open>derives_source\<close> below). In C each number
  carries the suffix \<open>u\<close>.
\<close>

fun source_tree :: "ast \<Rightarrow> bool" where
  "source_tree (ANum ds) \<longleftrightarrow> c_decimal ds"
| "source_tree (APar t) \<longleftrightarrow> source_tree t"
| "source_tree (ABin o' t1 t2) \<longleftrightarrow> o' \<in> {BAdd, BSub, BMul, BDiv} \<and> source_tree t1 \<and> source_tree t2 \<and>
     prio t1 \<le> bin_prio o' \<and> prio t2 < bin_prio o'"
| "source_tree _ \<longleftrightarrow> False"

definition c_lexeme :: "token \<Rightarrow> string" where
  "c_lexeme t = lexeme t @ (if tok_type t = TK_NUM then ''u'' else [])"

definition c_text :: "ast \<Rightarrow> string" where
  "c_text t = concat (map c_lexeme (print_ast t))"

text \<open>The tree of a text followed by an operator and another text.\<close>

fun attach :: "ast \<Rightarrow> bin \<Rightarrow> ast \<Rightarrow> ast" where
  "attach (ABin o1 p q) o' y = (if bin_prio o1 > bin_prio o' then ABin o1 p (attach q o' y) else ABin o' (ABin o1 p q) y)"
| "attach s o' y = ABin o' s y"

fun join :: "ast \<Rightarrow> bin \<Rightarrow> ast \<Rightarrow> ast" where
  "join t1 o' (ABin o2 x y) = attach (join t1 o' x) o2 y"
| "join t1 o' t2 = attach t1 o' t2"

lemma source_not_un: "source_tree t \<Longrightarrow> \<not> is_un t"
  by (cases t) auto

lemma print_source_bin:
  "source_tree (ABin o' t1 t2) \<Longrightarrow> print_ast (ABin o' t1 t2) = print_ast t1 @ [op_token (bin_type o')] @ print_ast t2"
  using source_not_un[of t1] by (simp add: wrap_def)

lemma attach_source:
  assumes "source_tree s" "source_tree y" "o' \<in> {BAdd, BSub, BMul, BDiv}" "prio y < bin_prio o'"
  shows "source_tree (attach s o' y) \<and> prio (attach s o' y) = max (prio s) (bin_prio o') \<and>
    print_ast (attach s o' y) = print_ast s @ [op_token (bin_type o')] @ print_ast y"
  using assms
proof (induction s o' y rule: attach.induct)
  case (1 o1 p q o' y)
  show ?case
  proof (cases "bin_prio o1 > bin_prio o'")
    case True
    then have "source_tree (ABin o1 p (attach q o' y))" using 1 by simp
    then show ?thesis using 1 True print_source_bin[of o1 p "attach q o' y"] print_source_bin[of o1 p q] by simp
  next
    case False
    then have "source_tree (ABin o' (ABin o1 p q) y)" using 1 by simp
    then show ?thesis using False print_source_bin[of o' "ABin o1 p q" y] by (simp del: print_ast.simps)
  qed
qed (auto simp: wrap_def)

lemma join_source:
  "source_tree t1 \<Longrightarrow> source_tree t2 \<Longrightarrow> o' \<in> {BAdd, BSub, BMul, BDiv} \<Longrightarrow>
    source_tree (join t1 o' t2) \<and> print_ast (join t1 o' t2) = print_ast t1 @ [op_token (bin_type o')] @ print_ast t2"
proof (induction t2)
  case (ANum ds)
  then show ?case using attach_source[of t1 "ANum ds" o'] bin_prio_ge[of o'] by (simp del: print_ast.simps)
next
  case (APar t)
  then show ?case using attach_source[of t1 "APar t" o'] bin_prio_ge[of o'] by (simp del: print_ast.simps)
next
  case (ABin o2 x y)
  then show ?case
    using attach_source[of "join t1 o' x" y o2] print_source_bin[of o2 x y] by (simp del: print_ast.simps)
qed simp_all

lemma c_text_join:
  "source_tree t1 \<Longrightarrow> source_tree t2 \<Longrightarrow> o' \<in> {BAdd, BSub, BMul, BDiv} \<Longrightarrow>
    c_text (join t1 o' t2) = c_text t1 @ lexeme (op_token (bin_type o')) @ c_text t2"
  using join_source[of t1 t2 o'] by (auto simp: c_text_def c_lexeme_def op_token_def)

lemma c_text_bin:
  "source_tree (ABin o' t1 t2) \<Longrightarrow> c_text (ABin o' t1 t2) = c_text t1 @ lexeme (op_token (bin_type o')) @ c_text t2"
  using print_source_bin[of o' t1 t2] by (auto simp: c_text_def c_lexeme_def op_token_def)

lemma c_text_par: "c_text (APar t) = CHR ''('' # c_text t @ '')''"
  by (simp add: c_text_def wrap_def c_lexeme_def op_token_def lexeme_def)

lemma c_text_num: "c_text (ANum ds) = ds @ ''u''"
  by (simp add: c_text_def c_lexeme_def lexeme_def)

lemma show_u_ok: "n < 100 \<Longrightarrow> c_decimal (show_u n)"
proof -
  assume n: "n < 100"
  have "list_all (\<lambda>d. dec_char d \<in> set ''0123456789'' \<and> (dec_char d = CHR ''0'' \<longrightarrow> d = 0)) [0..<10]" "dec_char 0 = CHR ''0''"
    by code_simp+
  then have d: "dec_char d \<in> set ''0123456789'' \<and> (dec_char d = CHR ''0'' \<longrightarrow> d = 0)" if "d < 10" for d
    using that by (simp add: list_all_iff)
  have "show_u n = (if n < 10 then [dec_char n] else [dec_char (n div 10), dec_char (n mod 10)])"
    using n less_mult_imp_div_less[of n 10 10] by (simp add: show_u.simps[of n] show_u.simps[of "n div 10"])
  then show ?thesis
    using n d[of n] d[of "n div 10"] d[of "n mod 10"] less_mult_imp_div_less[of n 10 10] \<open>dec_char 0 = CHR ''0''\<close>
    by (cases "n < 10") (simp_all add: c_decimal_def, (blast | linarith)+)
qed

text \<open>Digits, and constants that fit.\<close>

lemma digit_facts:
  assumes "d \<in> set ''0123456789''"
  shows "is_digit d" "d \<noteq> CHR ''u''" "hex_val d = int (of_char d - 48)" "hex_val d = 0 \<longleftrightarrow> d = CHR ''0''"
proof -
  have "list_all (\<lambda>d. is_digit d \<and> d \<noteq> CHR ''u'' \<and> hex_val d = int (of_char d - 48) \<and> (hex_val d = 0 \<longleftrightarrow> d = CHR ''0'')) ''0123456789''"
    by code_simp
  with assms show "is_digit d" "d \<noteq> CHR ''u''" "hex_val d = int (of_char d - 48)" "hex_val d = 0 \<longleftrightarrow> d = CHR ''0''"
    unfolding list_all_iff by blast+
qed

lemma constant_number: "list_all (\<lambda>d. d \<in> set ''0123456789'') ds \<Longrightarrow> c_constant ds = number_val 10 ds"
proof -
  assume "list_all (\<lambda>d. d \<in> set ''0123456789'') ds"
  then have "digits_val 10 ds = int (foldl (\<lambda>n d. 10 * n + (of_char d - 48)) 0 ds)"
    unfolding digits_val_def by (induction ds rule: rev_induct) (simp_all add: digit_facts(3) del: of_char_eq_iff)
  then show ?thesis by (simp add: c_constant_def number_val_def Let_def)
qed

lemma digits_val_length:
  "ds \<noteq> [] \<Longrightarrow> list_all (\<lambda>d. d \<in> set ''0123456789'') ds \<Longrightarrow> hd ds \<noteq> CHR ''0'' \<Longrightarrow> 10 ^ (length ds - 1) \<le> digits_val 10 ds"
proof (induction ds rule: rev_induct)
  case (snoc d ds)
  have d: "0 \<le> hex_val d" "hex_val d = 0 \<longleftrightarrow> d = CHR ''0''" using snoc.prems(2) digit_facts(3,4)[of d] by simp_all
  show ?case
  proof (cases "ds = []")
    case True
    then show ?thesis using snoc.prems(3) d by (simp add: digits_val_def)
  next
    case False
    then obtain k where k: "length ds = Suc k" by (cases ds) auto
    have "10 ^ k \<le> digits_val 10 ds" using snoc False k by simp
    then show ?thesis using d(1) k by (simp add: digits_val_def)
  qed
qed simp

lemma decimal_leaf: "c_decimal ds \<Longrightarrow> number_val 10 ds = Some v \<Longrightarrow> leaves_ok (ANum ds)"
proof -
  assume d: "c_decimal ds" and v: "number_val 10 ds = Some v"
  have "list_all is_digit ds" using d by (auto simp: c_decimal_def list_all_iff digit_facts(1))
  moreover have "length ds < 32"
  proof (rule ccontr)
    assume l: "\<not> length ds < 32"
    then have "hd ds \<noteq> CHR ''0''" using d by (auto simp: c_decimal_def)
    then have "10 ^ (length ds - 1) \<le> digits_val 10 ds" using digits_val_length d by (auto simp: c_decimal_def)
    moreover have "(10 :: int) ^ 31 \<le> 10 ^ (length ds - 1)" using l by (intro power_increasing) auto
    moreover have "digits_val 10 ds < 2 ^ 32" using v by (simp add: number_val_def split: if_splits)
    ultimately show False by simp
  qed
  ultimately show ?thesis using d by (simp add: c_decimal_def)
qed

lemma c_text_ne: "c_text t \<noteq> []"
proof (cases t)
  case (ANum ds)
  then show ?thesis by (simp add: c_text_num)
next
  case (APar t)
  then show ?thesis by (simp add: c_text_par)
next
  case (ABin o' t1 t2)
  have "lexeme (op_token (bin_type o')) \<noteq> []" by (cases o') (simp_all add: lexeme_def op_token_def)
  then show ?thesis unfolding ABin by (simp add: c_text_def c_lexeme_def)
next
  case (AUn u t')
  have "lexeme (op_token (un_type u)) \<noteq> []" by (cases u) (simp_all add: lexeme_def op_token_def)
  then show ?thesis unfolding AUn by (simp add: c_text_def c_lexeme_def)
qed (simp_all add: c_text_def c_lexeme_def lexeme_def)

section \<open>It returns\<close>

definition gen_ok :: "gen_state \<Rightarrow> gen_state res \<Rightarrow> bool" where
  "gen_ok g r \<longleftrightarrow> r = Inl (Undef ''buf'') \<or> (\<exists>g' t. r = Inr g' \<and> source_tree t \<and> gen_buf g' = gen_buf g @ c_text t)"

lemma buf_add_cases:
  "buf_add s g = Inl (Undef ''buf'') \<or> buf_add s g = Inr (g\<lparr>gen_buf := gen_buf g @ s\<rparr>)"
  by (simp add: buf_add_def guardR_def)

lemma gen_num_ok: "gen_ok g (gen_num rand g)"
proof -
  let ?n = "rand (gen_rands g) mod 100"
  have "source_tree (ANum (show_u ?n))" by (simp add: show_u_ok)
  moreover have "show_u ?n @ ''u'' = c_text (ANum (show_u ?n))" by (simp add: c_text_num)
  ultimately show ?thesis
    using buf_add_cases[of "show_u ?n @ ''u''" "g\<lparr>gen_rands := gen_rands g + 1\<rparr>"]
    unfolding gen_ok_def gen_num_def rand_choose_def by fastforce
qed

lemma gen_rand_op_cases:
  "gen_rand_op rand g = Inl (Undef ''buf'') \<or> (\<exists>o' g'. gen_rand_op rand g = Inr g' \<and> o' \<in> {BAdd, BSub, BMul, BDiv} \<and>
     gen_buf g' = gen_buf g @ lexeme (op_token (bin_type o')))"
proof -
  let ?n = "rand (gen_rands g) mod 4"
  define o' where "o' = (if ?n = 0 then BAdd else if ?n = 1 then BSub else if ?n = 2 then BMul else BDiv)"
  have "gen_rand_op rand g = buf_add (lexeme (op_token (bin_type o'))) (g\<lparr>gen_rands := gen_rands g + 1\<rparr>)"
    by (simp add: gen_rand_op_def rand_choose_def o'_def lexeme_def op_token_def)
  moreover have "o' \<in> {BAdd, BSub, BMul, BDiv}" by (simp add: o'_def)
  ultimately show ?thesis
    using buf_add_cases[of "lexeme (op_token (bin_type o'))" "g\<lparr>gen_rands := gen_rands g + 1\<rparr>"] by fastforce
qed

lemma thenO_simps [simp]: "thenO (Some (Inl e)) f = Some (Inl e)" "thenO (Some (Inr g)) f = f g"
  by (simp_all add: thenO_def)

lemma gen_branch:
  assumes "length (gen_buf g) < 100"
  shows "gen_rand_expr rand g =
     (if rand (gen_rands g) mod 3 = 0 then Some (gen_num rand (snd (rand_choose rand 3 g)))
      else if rand (gen_rands g) mod 3 = 1 then
        thenO (Some (gen CHR ''('' (snd (rand_choose rand 3 g)))) (\<lambda>g1.
        thenO (gen_rand_expr rand g1) (\<lambda>g2. Some (gen CHR '')'' g2)))
      else
        thenO (gen_rand_expr rand (snd (rand_choose rand 3 g))) (\<lambda>g1.
        thenO (Some (gen_rand_op rand g1)) (\<lambda>g2. gen_rand_expr rand g2)))"
  using assms by (subst gen_rand_expr.simps) (simp add: Let_def rand_choose_def)

lemma gen_buf_choose: "gen_buf (snd (rand_choose rand n g)) = gen_buf g" "gen_rands (snd (rand_choose rand n g)) = gen_rands g + 1"
  by (simp_all add: rand_choose_def)

text \<open>The two recursive branches, given that the calls in them return.\<close>

lemma gen_ok_same_buf: "gen_buf g = gen_buf h \<Longrightarrow> gen_ok g r = gen_ok h r"
  by (simp add: gen_ok_def)

lemma gen_ok_par:
  assumes "\<And>g1. gen_buf g1 = gen_buf g @ ''('' \<Longrightarrow> \<exists>r. gen_rand_expr rand g1 = Some r \<and> gen_ok g1 r" "gen_buf h = gen_buf g"
  shows "\<exists>r. thenO (Some (gen CHR ''('' h)) (\<lambda>g1. thenO (gen_rand_expr rand g1) (\<lambda>g2. Some (gen CHR '')'' g2))) = Some r \<and> gen_ok g r"
proof (cases "gen CHR ''('' h")
  case (Inl e)
  then show ?thesis using buf_add_cases[of "''(''" h] by (simp add: gen_def gen_ok_def)
next
  case (Inr g1)
  then have g1: "gen_buf g1 = gen_buf g @ ''(''" using buf_add_cases[of "''(''" h] assms(2) by (auto simp: gen_def)
  obtain r where r: "gen_rand_expr rand g1 = Some r" "gen_ok g1 r" using assms(1)[OF g1] by blast
  show ?thesis
  proof (cases r)
    case (Inl e)
    then show ?thesis using r Inr by (simp add: gen_ok_def)
  next
    case r2: (Inr g2)
    then obtain t where t: "source_tree t" "gen_buf g2 = gen_buf g @ ''('' @ c_text t" using r(2) g1 by (auto simp: gen_ok_def)
    have "gen_ok g (gen CHR '')'' g2)"
      using buf_add_cases[of "'')''" g2] t c_text_par[of t]
      by (auto simp: gen_def gen_ok_def intro!: exI[of _ "APar t"])
    then show ?thesis using r r2 Inr by simp
  qed
qed

lemma gen_ok_bin:
  assumes "\<exists>r. gen_rand_expr rand h = Some r \<and> gen_ok g r"
    "\<And>g2. length (gen_buf g) < length (gen_buf g2) \<Longrightarrow> \<exists>r. gen_rand_expr rand g2 = Some r \<and> gen_ok g2 r"
  shows "\<exists>r. thenO (gen_rand_expr rand h) (\<lambda>g1. thenO (Some (gen_rand_op rand g1)) (\<lambda>g2. gen_rand_expr rand g2)) = Some r \<and> gen_ok g r"
proof -
  obtain r where r: "gen_rand_expr rand h = Some r" "gen_ok g r" using assms(1) by blast
  show ?thesis
  proof (cases r)
    case (Inl e)
    then show ?thesis using r by (auto simp: gen_ok_def)
  next
    case (Inr g1)
    then obtain t1 where t1: "source_tree t1" "gen_buf g1 = gen_buf g @ c_text t1" using r(2) by (auto simp: gen_ok_def)
    show ?thesis
      using gen_rand_op_cases[of rand g1]
    proof (elim disjE exE conjE)
      assume "gen_rand_op rand g1 = Inl (Undef ''buf'')"
      then show ?thesis using r Inr by (simp add: gen_ok_def)
    next
      fix o' g2
      assume g2: "gen_rand_op rand g1 = Inr g2" "o' \<in> {BAdd, BSub, BMul, BDiv}"
        "gen_buf g2 = gen_buf g1 @ lexeme (op_token (bin_type o'))"
      obtain r2 where r2: "gen_rand_expr rand g2 = Some r2" "gen_ok g2 r2"
        using assms(2)[of g2] g2(3) t1(2) c_text_ne[of t1] by auto
      have "gen_ok g r2"
        using r2(2) c_text_join[OF t1(1) _ g2(2)] join_source[OF t1(1) _ g2(2)] g2(3) t1(2)
        unfolding gen_ok_def by (metis append.assoc)
      then show ?thesis using r Inr g2(1) r2(1) by simp
    qed
  qed
qed

lemma gen_rand_expr_returns:
  assumes fair: "\<forall>n. \<exists>m \<ge> n. rand m mod 3 \<noteq> 2"
  shows "\<exists>r. gen_rand_expr rand g = Some r \<and> gen_ok g r"
proof (induction "100 - length (gen_buf g)" arbitrary: g rule: less_induct)
  case less
  have big: "\<exists>r. gen_rand_expr rand g = Some r \<and> gen_ok g r" if "\<not> length (gen_buf g) < 100" for g
    using that gen_num_ok by (subst gen_rand_expr.simps) simp
  have longer: "\<exists>r. gen_rand_expr rand g2 = Some r \<and> gen_ok g2 r" if "length (gen_buf g) < length (gen_buf g2)" for g2
    using less[of g2] big[of g2] that by (cases "length (gen_buf g2) < 100") auto
  show ?case
  proof (cases "length (gen_buf g) < 100")
    case True
    have step: "\<exists>r. gen_rand_expr rand h = Some r \<and> gen_ok g r"
      if h: "gen_buf h = gen_buf g"
        and two: "rand (gen_rands h) mod 3 = 2 \<Longrightarrow> \<exists>r. gen_rand_expr rand (snd (rand_choose rand 3 h)) = Some r \<and> gen_ok g r" for h
    proof -
      have short: "length (gen_buf h) < 100" using True h by simp
      consider "rand (gen_rands h) mod 3 = 0" | "rand (gen_rands h) mod 3 = 1" | "rand (gen_rands h) mod 3 = 2" by linarith
      then show ?thesis
      proof cases
        case 1
        then show ?thesis
          using gen_num_ok[of "snd (rand_choose rand 3 h)" rand] gen_ok_same_buf[of "snd (rand_choose rand 3 h)" g]
          by (simp add: gen_branch[OF short] gen_buf_choose h)
      next
        case 2
        then show ?thesis
          using gen_ok_par[of g rand "snd (rand_choose rand 3 h)"] longer by (simp add: gen_branch[OF short] gen_buf_choose h)
      next
        case 3
        then show ?thesis using gen_ok_bin[OF two longer] by (simp add: gen_branch[OF short])
      qed
    qed
    obtain m where "m \<ge> gen_rands g" "rand m mod 3 \<noteq> 2" using fair by blast
    then have m: "rand (gen_rands g + (m - gen_rands g)) mod 3 \<noteq> 2" by simp
    have "\<exists>r. gen_rand_expr rand h = Some r \<and> gen_ok g r"
      if "gen_buf h = gen_buf g" "rand (gen_rands h + k) mod 3 \<noteq> 2" for h k
      using that
    proof (induction k arbitrary: h)
      case 0
      then show ?case using step[of h] by simp
    next
      case (Suc k)
      have "\<exists>r. gen_rand_expr rand (snd (rand_choose rand 3 h)) = Some r \<and> gen_ok g r"
        by (rule Suc.IH) (use Suc.prems in \<open>simp_all add: gen_buf_choose\<close>)
      then show ?case by (rule step[OF Suc.prems(1)])
    qed
    from this[OF refl m] show ?thesis .
  qed (rule big)
qed

section \<open>The evaluator on what it writes\<close>

lemma remove_u_filter: "remove_u s = filter (\<lambda>c. c \<noteq> CHR ''u'') s"
proof (induction s rule: remove_u.induct)
  case (1 q)
  let ?k = "length (takeWhile (\<lambda>c. c \<noteq> CHR ''u'') q)"
  have take: "take ?k q = takeWhile (\<lambda>c. c \<noteq> CHR ''u'') q" by (rule takeWhile_eq_take[symmetric])
  have all: "filter (\<lambda>c. c \<noteq> CHR ''u'') (takeWhile (\<lambda>c. c \<noteq> CHR ''u'') q) = takeWhile (\<lambda>c. c \<noteq> CHR ''u'') q"
    by (auto simp: filter_id_conv dest: set_takeWhileD)
  show ?case
  proof (cases "?k < length q")
    case True
    then have "q = takeWhile (\<lambda>c. c \<noteq> CHR ''u'') q @ CHR ''u'' # drop (?k + 1) q"
      using id_take_nth_drop[OF True] nth_length_takeWhile[OF True] take by simp
    then have "filter (\<lambda>c. c \<noteq> CHR ''u'') q = takeWhile (\<lambda>c. c \<noteq> CHR ''u'') q @ filter (\<lambda>c. c \<noteq> CHR ''u'') (drop (?k + 1) q)"
      by (rule trans[OF arg_cong[of q _ "filter (\<lambda>c. c \<noteq> CHR ''u'')"]]) (simp add: all)
    then show ?thesis using 1[OF refl True] True take by (subst remove_u.simps) (simp add: Let_def)
  next
    case False
    then have "takeWhile (\<lambda>c. c \<noteq> CHR ''u'') q = q" using take length_takeWhile_le[of _ q] by simp
    then show ?thesis using all False by (subst remove_u.simps) (simp add: Let_def)
  qed
qed

lemma render_tight: "render (zip ts (replicate (length ts) 0)) = concat (map lexeme ts)"
  by (induction ts) simp_all

lemma filter_text: "source_tree t \<Longrightarrow> filter (\<lambda>c. c \<noteq> CHR ''u'') (c_text t) = concat (map lexeme (print_ast t))"
proof (induction t)
  case (ANum ds)
  then show ?case using digit_facts(2) by (auto simp: c_text_num lexeme_def filter_id_conv c_decimal_def list_all_iff)
next
  case (APar t)
  then show ?case by (simp add: c_text_par wrap_def lexeme_def op_token_def)
next
  case (ABin o' t1 t2)
  note c_text_bin[OF ABin.prems]
  moreover have "CHR ''u'' \<notin> set (lexeme (op_token (bin_type o')))" by (cases o') (simp_all add: lexeme_def op_token_def)
  then have "filter (\<lambda>c. c \<noteq> CHR ''u'') (lexeme (op_token (bin_type o'))) = lexeme (op_token (bin_type o'))"
    by (auto simp: filter_id_conv)
  ultimately show ?case
    using ABin print_source_bin[OF ABin.prems] by simp
qed simp_all

lemma source_leaves: "source_tree t \<Longrightarrow> ast_val c b t = Some v \<Longrightarrow> leaves_ok t"
  by (induction t arbitrary: v) (auto simp: decimal_leaf simp del: leaves_ok.simps(1) split: bind_splits)

lemma source_length:
  "source_tree t \<Longrightarrow> length (print_ast t) = length (filter (\<lambda>x. \<not> is_digit x) (c_text t))"
proof (induction t)
  case (ANum ds)
  have "\<not> is_digit CHR ''u''" by code_simp
  with ANum show ?case by (simp add: c_text_num c_decimal_def list_all_iff digit_facts(1))
next
  case (APar t)
  have "\<not> is_digit CHR ''(''" "\<not> is_digit CHR '')''" by code_simp+
  with APar show ?case by (simp add: c_text_par wrap_def)
next
  case (ABin o' t1 t2)
  have "filter (\<lambda>x. \<not> is_digit x) (lexeme (op_token (bin_type o'))) = lexeme (op_token (bin_type o'))"
    "length (lexeme (op_token (bin_type o'))) = 1" if "o' \<in> {BAdd, BSub, BMul, BDiv}"
    using that by (auto simp: lexeme_def op_token_def is_digit_def in_range_def)
  then show ?case using ABin print_source_bin[OF ABin.prems] c_text_bin[OF ABin.prems] by (simp del: print_ast.simps)
qed simp_all

section \<open>Source trees and the grammar of C\<close>

definition c_char :: "bin \<Rightarrow> char" where
  "c_char o' = (case o' of BAdd \<Rightarrow> CHR ''+'' | BSub \<Rightarrow> CHR ''-'' | BMul \<Rightarrow> CHR ''*'' | _ \<Rightarrow> CHR ''/'')"

lemma c_char_lexeme: "o' \<in> {BAdd, BSub, BMul, BDiv} \<Longrightarrow> lexeme (op_token (bin_type o')) = [c_char o']"
  by (auto simp: lexeme_def op_token_def c_char_def)

lemma c_char_op:
  assumes "o' \<in> {BAdd, BSub, BMul, BDiv}"
  shows "c_op (c_char o') v w = Option.bind v (\<lambda>a. Option.bind w (bin_val o' a))"
  using assms by (cases v; cases w) (auto simp: c_op_def c_char_def)

text \<open>The text of a source tree is a C expression with the value of the tree.\<close>

lemma source_derives:
  "source_tree t \<Longrightarrow> c_additive (c_text t) (ast_val c b t) \<and>
    (prio t < 6 \<longrightarrow> c_multiplicative (c_text t) (ast_val c b t)) \<and> (prio t < 5 \<longrightarrow> c_primary (c_text t) (ast_val c b t))"
proof (induction t)
  case (ANum ds)
  then have "c_primary (c_text (ANum ds)) (ast_val c b (ANum ds))"
    using c_number[of ds] constant_number[of ds] by (simp add: c_text_num c_decimal_def)
  then show ?case by (blast intro: c_mult_one c_add_one)
next
  case (APar t)
  then have "c_primary (c_text (APar t)) (ast_val c b (APar t))"
    using c_paren[of "c_text t" "ast_val c b t"] by (simp add: c_text_par)
  then show ?case by (blast intro: c_mult_one c_add_one)
next
  case (ABin o' t1 t2)
  let ?s = "c_text t1 @ [c_char o'] @ c_text t2" and ?v = "c_op (c_char o') (ast_val c b t1) (ast_val c b t2)"
  have o': "o' \<in> {BAdd, BSub, BMul, BDiv}" using ABin.prems by simp
  have s: "c_text (ABin o' t1 t2) = ?s" "ast_val c b (ABin o' t1 t2) = ?v"
    using c_text_bin[OF ABin.prems] c_char_lexeme[OF o'] c_char_op[OF o'] by simp_all
  show ?case
  proof (cases "bin_prio o' = 5")
    case True
    then have f: "c_char o' \<in> set ''*/''" using o' by (auto simp: c_char_def)
    have "c_multiplicative ?s ?v" by (rule c_mult_op) (use ABin True f in auto)
    then show ?thesis using True unfolding s by (auto intro: c_add_one)
  next
    case False
    then have f: "c_char o' \<in> set ''+-''" "bin_prio o' = 6" using o' by (auto simp: c_char_def)
    have "c_additive ?s ?v" by (rule c_add_op) (use ABin f in auto)
    then show ?thesis using f(2) unfolding s by simp
  qed
qed simp_all

text \<open>And a C expression is the text of a source tree with its value.\<close>

definition source_of :: "nat \<Rightarrow> string \<Rightarrow> u32 option \<Rightarrow> bool" where
  "source_of n s v \<longleftrightarrow> (\<exists>t. source_tree t \<and> c_text t = s \<and> prio t < n \<and> (\<forall>c b. ast_val c b t = v))"

lemma source_of_op:
  assumes "source_of (Suc n) s v" "source_of n t w" "bin_prio o' = n" "o' \<in> {BAdd, BSub, BMul, BDiv}"
  shows "source_of (Suc n) (s @ [c_char o'] @ t) (c_op (c_char o') v w)"
proof -
  obtain x y where x: "source_tree x" "c_text x = s" "prio x < Suc n" "\<forall>c b. ast_val c b x = v"
    and y: "source_tree y" "c_text y = t" "prio y < n" "\<forall>c b. ast_val c b y = w"
    using assms(1,2) by (auto simp: source_of_def)
  then have "source_tree (ABin o' x y)" using assms(3,4) by simp
  moreover from c_text_bin[OF this] have "c_text (ABin o' x y) = s @ [c_char o'] @ t"
    using c_char_lexeme[OF assms(4)] x(2) y(2) by simp
  ultimately show ?thesis
    unfolding source_of_def using c_char_op[OF assms(4)] x(4) y(4) assms(3) by (intro exI[of _ "ABin o' x y"]) simp
qed

lemma derives_source:
  "c_primary s v \<Longrightarrow> source_of 5 s v" "c_multiplicative s v \<Longrightarrow> source_of 6 s v" "c_additive s v \<Longrightarrow> source_of 7 s v"
proof (induction rule: c_primary_c_multiplicative_c_additive.inducts)
  case (c_number ds)
  then show ?case unfolding source_of_def using constant_number[of ds]
    by (intro exI[of _ "ANum ds"]) (simp add: c_text_num c_decimal_def)
next
  case (c_paren s v)
  then obtain t where "source_tree t" "c_text t = s" "\<forall>c b. ast_val c b t = v" by (auto simp: source_of_def)
  then show ?case unfolding source_of_def by (intro exI[of _ "APar t"]) (simp add: c_text_par)
next
  case (c_mult_op s v t w f)
  have "f = c_char BMul \<or> f = c_char BDiv" using c_mult_op.hyps(3) by (auto simp: c_char_def)
  then show ?case using source_of_op[of 5 s v t w] c_mult_op.IH by auto
next
  case (c_add_op s v t w f)
  have "f = c_char BAdd \<or> f = c_char BSub" using c_add_op.hyps(3) by (auto simp: c_char_def)
  then show ?case using source_of_op[of 6 s v t w] c_add_op.IH by auto
qed (auto simp: source_of_def intro: less_trans)

text \<open>
  C4. The test generator and the evaluator agree. Unless \<open>rand\<close> gives 2 modulo 3 for ever from some
  point on, \<open>gen_rand_expr\<close> returns; either the text has outgrown its buffer, or it is an expression of
  C's grammar, and then, if it has fewer than 1024 tokens (each number has one \<open>u\<close>, and every other
  token is one character), \<open>expr\<close> gives the text without the suffixes every value C gives it (there
  is none when a divisor is 0), on every machine.
\<close>

theorem gen_expr_evaluates:
  assumes "\<forall>n. \<exists>m \<ge> n. rand m mod 3 \<noteq> 2"
  shows "gen_rand_expr rand \<lparr>gen_buf = [], gen_rands = k\<rparr> = Some (Inl (Undef ''buf'')) \<or>
    (\<exists>g. gen_rand_expr rand \<lparr>gen_buf = [], gen_rands = k\<rparr> = Some (Inr g) \<and> (\<exists>v. c_additive (gen_buf g) v) \<and>
      (length (filter (\<lambda>x. \<not> is_digit x) (gen_buf g)) < 1024 \<longrightarrow>
        (\<forall>v c b. c_additive (gen_buf g) (Some v) \<longrightarrow> expr (remove_u (gen_buf g)) c True b = Inr (v, True, b))))"
proof -
  obtain r where r: "gen_rand_expr rand \<lparr>gen_buf = [], gen_rands = k\<rparr> = Some r" "gen_ok \<lparr>gen_buf = [], gen_rands = k\<rparr> r"
    using gen_rand_expr_returns[OF assms] by blast
  show ?thesis
  proof (cases "r = Inl (Undef ''buf'')")
    case False
    then obtain g t where g: "r = Inr g" "source_tree t" "gen_buf g = c_text t" using r(2) by (auto simp: gen_ok_def)
    have "expr (remove_u (gen_buf g)) c True b = Inr (v, True, b)"
      if few: "length (filter (\<lambda>x. \<not> is_digit x) (gen_buf g)) < 1024" and d: "c_additive (gen_buf g) (Some v)" for v c b
    proof -
      obtain u where u: "source_tree u" "c_text u = gen_buf g" "ast_val c b u = Some v"
        using derives_source(3)[OF d] by (auto simp: source_of_def)
      have "remove_u (gen_buf g) = render (zip (print_ast u) (replicate (length (print_ast u)) 0))"
        unfolding remove_u_filter u(2)[symmetric] render_tight by (rule filter_text[OF u(1)])
      then show ?thesis
        using expr_print[OF source_leaves[OF u(1,3)] u(3), of "replicate (length (print_ast u)) 0"] few source_length[OF u(1)] u(2)
        by (simp add: list_all_iff)
    qed
    then show ?thesis using r(1) g source_derives[OF g(2)] by metis
  qed (use r in simp)
qed

definition demo_rand :: "nat \<Rightarrow> nat" where
  "demo_rand n = (if n < 7 then [2, 0, 7, 2, 1, 0, 35] ! n else 0)"

lemma demo_derives: "c_additive ''7u*(35u)'' (Some 245)"
proof -
  have n: "c_primary (''7'' @ ''u'') (c_constant ''7'')" "c_primary (''35'' @ ''u'') (c_constant ''35'')"
    by (rule c_number, code_simp)+
  note c_paren[OF c_add_one[OF c_mult_one[OF n(2)]]]
  from c_add_one[OF c_mult_op[OF c_mult_one[OF n(1)] this, of "CHR ''*''"]]
  have "c_additive ''7u*(35u)'' (c_op CHR ''*'' (c_constant ''7'') (c_constant ''35''))" by simp
  moreover have "c_op CHR ''*'' (c_constant ''7'') (c_constant ''35'') = Some 245"
    by (simp add: c_constant_def c_op_def)
  ultimately show ?thesis by simp
qed

theorem gen_expr_evaluates_witness:
  "\<forall>c b. gen_rand_expr demo_rand \<lparr>gen_buf = [], gen_rands = 0\<rparr> = Some (Inr \<lparr>gen_buf = ''7u*(35u)'', gen_rands = 7\<rparr>) \<and>
     expr ''7*(35)'' c True b = Inr (245, True, b)"
proof -
  have "\<forall>n. \<exists>m \<ge> n. demo_rand m mod 3 \<noteq> 2"
    by (intro allI, rule_tac x = "n + 7" in exI) (simp add: demo_rand_def)
  note w = gen_expr_evaluates[OF this, of 0]
  have shown: "show_u 7 = ''7''" "show_u 35 = ''35''"
    by code_simp+
  have run: "gen_rand_expr demo_rand \<lparr>gen_buf = [], gen_rands = 0\<rparr> = Some (Inr \<lparr>gen_buf = ''7u*(35u)'', gen_rands = 7\<rparr>)"
    by (simp add: gen_branch rand_choose_def demo_rand_def gen_num_def gen_def gen_rand_op_def buf_add_def shown)
  have u: "remove_u ''7u*(35u)'' = ''7*(35)''" by (simp add: remove_u_filter)
  have "length (filter (\<lambda>x. \<not> is_digit x) ''7u*(35u)'') < 1024" by code_simp
  with w[unfolded run] demo_derives have "expr (remove_u ''7u*(35u)'') c True b = Inr (245, True, b)" for c b
    by (metis gen_state.select_convs(1) option.inject sum.distinct(1) sum.inject(2))
  then show ?thesis using run unfolding u by blast
qed

end
