(* ===== verification/Spec2Isabelle.thy ===== *)
theory Spec2Isabelle
  imports AmGpu AmAudio SdProps CpuProps SdbProps Int64Props PrintfProps NesSafety RefProps SocProps
    Threads SnakeProps GenExpr
begin

text \<open>
  A verification library for the ysyx workbench: the NEMU emulator (\<open>nemu\<close>), the abstract machine on it
  and on the ysyxSoC (\<open>abstract-machine\<close>: device drivers, context switching and the C library klib), and
  programs that run on that (\<open>am-kernels/kernels\<close>: LiteNES, snake, yield-os, thread-os). Everything is a
  function on explicit state; a C operation that can fail returns \<open>cerr + 'a\<close>, where \<open>cerr\<close> (\<open>NemuPrelude\<close>)
  tells a failed assertion, a panic and undefined behaviour apart. Machine integers are words of their width.

  \<^bold>\<open>How the parts interact.\<close> \<open>main\<close> starts the monitor, which reads the arguments, prepares memory, devices
  and the CPU, loads an image and a reference, and enters the debugger. The debugger parses commands
  and expressions, keeps watchpoints and runs the CPU loop. The loop fetches, decodes and executes one
  instruction at a time; an address inside pmem goes to the memory array, any other to the device that
  registered it; after each instruction come the trace, differential testing, the watchpoints and the
  polling of the devices. On the other side of the device registers the AM drivers run as guest code,
  klib above them, and the games and LiteNES above both; the small operating systems use the handler
  of exceptions and its contexts.

  \<^bold>\<open>Theories and code.\<close>
  \<^item> \<open>NemuPrelude\<close>: the result type with \<open>bindR\<close>, \<open>guardR\<close> and \<open>forR\<close>, byte memories and little endian words,
    and the facts about them that the components share.
  \<^item> \<open>Bits\<close>: \<open>include/macro.h\<close> and the INSTPAT decoder of \<open>include/cpu/decode.h\<close>, against the set of words a
    pattern describes.
  \<^item> \<open>FifoSpec\<close>, \<open>RingBuf\<close>: \<open>cpu/iringbuf.c\<close>. The locale of a bounded block queue, its interpretation on the
    ring buffer, and the trace as the list of the last instructions.
  \<^item> \<open>IoState\<close>, \<open>Devices\<close>, \<open>IoMap\<close>: the file-level variables of \<open>memory\<close>, \<open>device\<close> and \<open>utils\<close> (record \<open>bus\<close>),
    the device handlers, and the address spaces that call them (\<open>device/io\<close>, \<open>memory/paddr.c\<close>).
    \<open>BusProps\<close>: start-up lays the devices out apart, and no access leaves a host array. \<open>DemoBus\<close>: a
    concrete machine for the witnesses.
  \<^item> \<open>Riscv32\<close>, \<open>RvEncode\<close>, \<open>RvSpec\<close>: \<open>isa/riscv32\<close>. The INSTPAT table and its bodies; an independent
    specification of RV32IM (MULHSU and FENCE aside) with its encoder; the interpreter implements it.
  \<^item> \<open>Expr\<close>, \<open>ExprProps\<close>: \<open>monitor/sdb/expr.c\<close>, the tokenizer, the search for the dominant operator and the
    evaluation, against expression trees printed by C's precedence and associativity.
  \<^item> \<open>GenExpr\<close>: \<open>tools/gen-expr\<close>, the generator of test expressions, and the evaluator it tests, against a grammar of
    C expressions with their values.
  \<^item> \<open>Watchpoint\<close>: \<open>monitor/sdb/watchpoint.c\<close>, the pool of linked nodes, refined to a list and a stack.
  \<^item> \<open>Difftest\<close>, \<open>CpuExec\<close>, \<open>CpuProps\<close>: \<open>cpu/difftest/dut.c\<close> and \<open>cpu/cpu-exec.c\<close>: run states, counters, trace.
  \<^item> \<open>Sdb\<close>, \<open>SdbProps\<close>: \<open>monitor/sdb/sdb.c\<close>, every command and the session.
  \<^item> \<open>Monitor\<close>, \<open>MonitorProps\<close>, \<open>RefProps\<close>: \<open>monitor/monitor.c\<close>, \<open>nemu-main.c\<close> and \<open>cpu/difftest/ref.c\<close>: the whole
    program on the built-in image, and NEMU as the reference of NEMU.
  \<^item> \<open>AmKeys\<close>, \<open>KeyQueue\<close>, \<open>AmIoe\<close>, \<open>AmProps\<close>, \<open>AmGpu\<close>, \<open>AmAudio\<close>, \<open>SdProps\<close>: the drivers of \<open>am/src/platform/nemu\<close> on top of
    the device model: what goes in at one side of the registers comes out at the other.
  \<^item> \<open>Int64\<close>, \<open>KString\<close>, \<open>Printf\<close> with their \<open>Props\<close>: \<open>klib/src/int64.c\<close>, \<open>string.c\<close> and \<open>stdlib.c\<close>, \<open>stdio.c\<close>.
  \<^item> \<open>Nes\<close>, \<open>NesCpu\<close>, \<open>NesPpu\<close>, \<open>NesProps\<close>, \<open>NesSafety\<close>: LiteNES: memory map, joystick and cartridge, the 6502 with
    its table of handlers, the picture unit; arithmetic and flags, the stack, and the invariant by
    which no run from power on hangs, or leaves an array but the colour table of fce.c.

  \<^item> \<open>Soc\<close>, \<open>SocProps\<close>: \<open>am/src/riscv/ysyxsoc\<close>: UART, SPI, timer, PS/2 keyboard and screen over a bus that answers
    reads and records writes, the keyboard against scan code set 2; the exception handler and new contexts (\<open>cte.c\<close>, the same text in the
    ports to NEMU and NPC).
  \<^item> \<open>Threads\<close>: yield-os and thread-os, the turns of two threads, the independence of the processors, and the
    spin lock as a step relation.
  \<^item> \<open>Snake\<close>, \<open>SnakeProps\<close>: the snake game as a refinement of a game on lists.

  \<^bold>\<open>What the lemmas show.\<close> Functional correctness against independent specifications (instructions,
  expressions, 64-bit division, number formatting, 6502 arithmetic); refinements of abstract data types
  (queue, watchpoints, the body of the snake) and of a reference machine (differential testing); invariants of whole sessions
  and runs; round trips across drivers and devices; and the deviations from C, RISC-V or the 6502 that
  the code has, each stated as what the code does.

  \<^bold>\<open>Bounds and fuel.\<close> Loops with a counter are recursion on it. The search loops of the parser carry the
  length of the token list, which each call decreases. The loops over unterminated strings and the 6502
  loop are partial functions; the theorems about them prove that they return (\<open>cpu_run_loop_returns\<close>:
  unknown opcodes take no cycles, but the byte at 0x2000 always reads as an instruction; \<open>gen_rand_expr_returns\<close>,
  \<open>find_task_returns\<close>, \<open>uart_wait_ready\<close>: the polling and searching loops, under the condition named there). \<open>execute_loop\<close>
  recurses on the number of instructions asked for, as the code does.

  \<^bold>\<open>Parameters.\<close> SDL, the host clock, random numbers, files and the lines typed are fields of the state; a
  reference other than NEMU is a record of its functions; the tokenizer's regular expressions and the
  functions of the host C library are written out where the code depends on what they do.

  \<^bold>\<open>Not modelled.\<close> Vendored code (rt-thread-am, fceux-am, ysyxSoC, yosys-sta, nvboard, kconfig, fixdep,
  CoreMark, Dhrystone, microbench, the libgcc multiplication), the Chisel and Verilog processors and their C++
  harness, the other ISA templates of NEMU (unfinished exercises: mips32, loongarch32r, riscv64), the
  QEMU, KVM and Spike references, disassembly and log output, the floating point conversions of printf
  (compiled out), the test programs and the other demos of am-kernels, nanos-lite (a skeleton of unfinished
  exercises), assembly (start and trap entry), and the AM ports to other platforms (native, x86, mips, loongarch, spike).
\<close>

end
